(* ===== verification/Prelude.thy ===== *)
theory Prelude
  imports Main "HOL-Library.Word" "HOL-Library.Monad_Syntax" "HOL-Library.Signed_Division"
begin

text \<open>
  What every component of the kernel model shares: the machine types of the i686 target
  (bytes, 16 and 32 bit words, byte addressed memory), the constants of
  \<^verbatim>\<open>src/src/config.h\<close> and \<^verbatim>\<open>src/src/status.h\<close>, little endian access to 16 and 32 bit
  objects in memory, and the lemmas on alignment, pages and disjoint accesses that carry the
  component proofs.

  Conventions of the whole development:
  \<^item> a C pointer is an \<open>addr\<close>; the null pointer is \<open>0\<close>;
  \<^item> a \<open>uint32_t\<close>, \<open>size_t\<close> or pointer computation is done on \<open>32 word\<close>, where it wraps
    around as it does on the machine; an \<open>int\<close> that is only compared, returned or stays
    far from its bounds is an \<open>int\<close>;
  \<^item> a call that may not return (a panic, an endless loop) or that leaves the defined
    behaviour of C (an access to an object through the null or a dangling pointer, an access
    outside an array) has an \<open>option\<close> result, and \<open>None\<close> is that outcome; an error code is an ordinary \<open>int\<close> result.
\<close>

unbundle bit_operations_syntax

section \<open>Machine types\<close>

type_synonym byte = "8 word"
type_synonym u16 = "16 word"
type_synonym u32 = "32 word"
type_synonym addr = "32 word"
type_synonym memory = "addr \<Rightarrow> byte"

named_theorems config_defs "constants of config.h and of the component headers"
named_theorems mem_simps "reading back what was stored in memory"
named_theorems page_simps "page and alignment arithmetic"

section \<open>Status codes (status.h)\<close>

definition ALL_OK :: int where [simp]: "ALL_OK = 0"
definition IO_ERROR :: int where [simp]: "IO_ERROR = 1"
definition INVALID_ARGUMENT_ERROR :: int where [simp]: "INVALID_ARGUMENT_ERROR = 2"
definition NO_MEMORY_ERROR :: int where [simp]: "NO_MEMORY_ERROR = 3"
definition BAD_PATH_ERROR :: int where [simp]: "BAD_PATH_ERROR = 4"
definition FILE_SYSTEM_NOT_US_ERROR :: int where [simp]: "FILE_SYSTEM_NOT_US_ERROR = 5"
definition READ_ONLY_ERROR :: int where [simp]: "READ_ONLY_ERROR = 6"
definition UNIMPLEMENTED_ERROR :: int where [simp]: "UNIMPLEMENTED_ERROR = 7"
definition INITIALIZE_SLOT_TAKEN :: int where [simp]: "INITIALIZE_SLOT_TAKEN = 8"
definition INVALID_FORMAT_ERROR :: int where [simp]: "INVALID_FORMAT_ERROR = 9"

section \<open>Little endian access to memory\<close>

definition load16 :: "memory \<Rightarrow> addr \<Rightarrow> u16" where
  "load16 m a = ucast (m a) OR push_bit 8 (ucast (m (a + 1)))"

definition store16 :: "memory \<Rightarrow> addr \<Rightarrow> u16 \<Rightarrow> memory" where
  "store16 m a v = m(a := ucast v, a + 1 := ucast (drop_bit 8 v))"

definition load32 :: "memory \<Rightarrow> addr \<Rightarrow> u32" where
  "load32 m a = ucast (m a) OR push_bit 8 (ucast (m (a + 1)))
     OR push_bit 16 (ucast (m (a + 2))) OR push_bit 24 (ucast (m (a + 3)))"

definition store32 :: "memory \<Rightarrow> addr \<Rightarrow> u32 \<Rightarrow> memory" where
  "store32 m a v = m(a := ucast v, a + 1 := ucast (drop_bit 8 v),
     a + 2 := ucast (drop_bit 16 v), a + 3 := ucast (drop_bit 24 v))"

text \<open>The bytes of a region, in address order.\<close>

definition mem_bytes :: "memory \<Rightarrow> addr \<Rightarrow> nat \<Rightarrow> byte list" where
  "mem_bytes m a n = map (\<lambda>i. m (a + of_nat i)) [0..<n]"

text \<open>Memory after the bytes \<open>bs\<close> have been written from \<open>a\<close> on.\<close>

definition write_bytes :: "addr \<Rightarrow> byte list \<Rightarrow> memory \<Rightarrow> memory" where
  "write_bytes a bs m = (\<lambda>x. if unat (x - a) < length bs then bs ! unat (x - a) else m x)"

section \<open>Pages and alignment\<close>

definition page_aligned :: "addr \<Rightarrow> bool" where
  "page_aligned a \<longleftrightarrow> unat a mod 4096 = 0"

definition page_of :: "addr \<Rightarrow> nat" where
  "page_of a = unat a div 4096"

definition word_aligned :: "addr \<Rightarrow> bool" where
  "word_aligned a \<longleftrightarrow> unat a mod 4 = 0"

section \<open>Lemmas\<close>

subsection \<open>Load and store\<close>

lemma load16_store16 [simp, mem_simps]: "load16 (store16 m a v) a = v"
  by (rule bit_eqI) (auto simp: load16_def store16_def bit_simps)

lemma load32_store32 [simp, mem_simps]: "load32 (store32 m a v) a = v"
proof (rule bit_word_eqI)
  fix n
  assume "n < LENGTH(32)"
  then have "n < 8 \<or> 8 \<le> n \<and> n < 16 \<or> 16 \<le> n \<and> n < 24 \<or> 24 \<le> n \<and> n < 32"
    by auto
  then show "bit (load32 (store32 m a v) a) n = bit v n"
    by (elim disjE conjE) (simp_all add: load32_def store32_def bit_simps less_diff_conv2 | arith)+
qed

lemma load32_cong:
  assumes "m a = m' a" "m (a + 1) = m' (a + 1)" "m (a + 2) = m' (a + 2)" "m (a + 3) = m' (a + 3)"
  shows "load32 m a = load32 m' a"
  using assms by (simp add: load32_def)

lemma store32_other:
  assumes "b \<noteq> a" "b \<noteq> a + 1" "b \<noteq> a + 2" "b \<noteq> a + 3"
  shows "store32 m a v b = m b"
  using assms by (simp add: store32_def)

lemma length_mem_bytes [simp]: "length (mem_bytes m a n) = n"
  by (simp add: mem_bytes_def)

lemma nth_mem_bytes [simp]: "i < n \<Longrightarrow> mem_bytes m a n ! i = m (a + of_nat i)"
  by (simp add: mem_bytes_def)

lemma mem_bytes_0 [simp]: "mem_bytes m a 0 = []"
  by (simp add: mem_bytes_def)

lemma mem_bytes_eqI:
  "length bs = n \<Longrightarrow> (\<And>i. i < n \<Longrightarrow> m (a + of_nat i) = bs ! i) \<Longrightarrow> mem_bytes m a n = bs"
  by (rule nth_equalityI) auto

lemma mem_bytes_add:
  "mem_bytes m a (n + k) = mem_bytes m a n @ mem_bytes m (a + of_nat n) k"
  by (rule nth_equalityI) (auto simp: nth_append add.assoc simp flip: of_nat_add)

subsection \<open>Word arithmetic\<close>

lemma unat_lt_u32 [simp]: "unat (a :: u32) < 4294967296"
  using unsigned_less [where 'a = nat and w = a] by simp

lemma unat_minus_1_u32: "unat (- 1 :: u32) = 4294967295"
  by (simp only: unsigned_minus_1_eq_mask) (simp add: mask_eq_exp_minus_1)

lemma unat_add_of_nat:
  fixes a :: u32
  assumes "unat a + n < 2 ^ 32"
  shows "unat (a + of_nat n) = unat a + n"
proof -
  have "unat (of_nat n :: u32) = n"
    using assms by (simp add: unat_of_nat take_bit_nat_eq_self)
  then show ?thesis
    using assms by (simp add: unat_word_ariths)
qed

lemma unat_diff_of_nat_index:
  fixes a :: u32
  assumes "n < 2 ^ 32"
  shows "unat (a + of_nat n - a) = n"
  using assms by (simp add: unat_of_nat take_bit_nat_eq_self)

lemma of_nat_unat_diff: "a + of_nat (unat (b - a)) = (b :: u32)"
  by simp

lemma of_nat_eq_iff_u32:
  assumes "i < 2 ^ 32" "j < 2 ^ 32"
  shows "(of_nat i :: u32) = of_nat j \<longleftrightarrow> i = j"
proof
  assume "(of_nat i :: u32) = of_nat j"
  then have "unat (of_nat i :: u32) = unat (of_nat j :: u32)"
    by simp
  then show "i = j"
    using assms by (simp add: unat_of_nat take_bit_nat_eq_self)
qed simp

lemma add_of_nat_eq_iff_u32:
  assumes "i < 2 ^ 32" "j < 2 ^ 32"
  shows "(a :: u32) + of_nat i = a + of_nat j \<longleftrightarrow> i = j"
  using assms by (simp add: of_nat_eq_iff_u32 del: of_nat_add)

lemma and_mask_take_bit: "(x :: 'a::len word) AND 0xFF = take_bit 8 x"
  "x AND 0x0F = take_bit 4 x" "x AND 0xFFF = take_bit 12 x"
  by (simp_all add: take_bit_eq_mask mask_eq_exp_minus_1)

subsection \<open>Writing a run of bytes\<close>

lemma write_bytes_Nil [simp]: "write_bytes a [] m = m"
  by (simp add: write_bytes_def fun_eq_iff)

lemma write_bytes_snoc:
  assumes "length bs < 2 ^ 32"
  shows "(write_bytes a bs m)(a + of_nat (length bs) := b) = write_bytes a (bs @ [b]) m"
proof
  fix x
  have "x = a + of_nat (length bs) \<longleftrightarrow> unat (x - a) = length bs"
    using assms by (metis of_nat_unat_diff unat_diff_of_nat_index)
  then show "((write_bytes a bs m)(a + of_nat (length bs) := b)) x = write_bytes a (bs @ [b]) m x"
    by (auto simp: write_bytes_def nth_append)
qed

lemma write_bytes_inside:
  "i < length bs \<Longrightarrow> length bs \<le> 2 ^ 32 \<Longrightarrow> write_bytes a bs m (a + of_nat i) = bs ! i"
  by (simp add: write_bytes_def unat_of_nat take_bit_nat_eq_self)

lemma write_bytes_outside: "length bs \<le> unat (x - a) \<Longrightarrow> write_bytes a bs m x = m x"
  by (simp add: write_bytes_def)

lemma mem_bytes_write_bytes:
  "length bs \<le> 2 ^ 32 \<Longrightarrow> mem_bytes (write_bytes a bs m) a (length bs) = bs"
  by (intro mem_bytes_eqI) (simp_all add: write_bytes_inside)

lemma write_bytes_append:
  assumes "length xs + length ys \<le> 2 ^ 32"
  shows "write_bytes (a + of_nat (length xs)) ys (write_bytes a xs m) = write_bytes a (xs @ ys) m"
  using assms
proof (induction ys rule: rev_induct)
  case (snoc y ys)
  have l: "length ys < 2 ^ 32" "length (xs @ ys) < 2 ^ 32" using snoc.prems by auto
  have "write_bytes (a + of_nat (length xs)) (ys @ [y]) (write_bytes a xs m)
      = (write_bytes (a + of_nat (length xs)) ys (write_bytes a xs m))
          (a + of_nat (length (xs @ ys)) := y)"
    using write_bytes_snoc [OF l(1), of "a + of_nat (length xs)" "write_bytes a xs m" y]
    by (simp add: add.assoc)
  also have "\<dots> = write_bytes a ((xs @ ys) @ [y]) m"
    using snoc write_bytes_snoc [OF l(2), of a m y] by simp
  finally show ?case by simp
qed simp

subsection \<open>Pages\<close>

lemma page_aligned_bound: "page_aligned a \<Longrightarrow> unat a + 4096 \<le> 2 ^ 32"
proof -
  assume "page_aligned a"
  then have "4096 dvd unat a"
    by (simp add: page_aligned_def mod_eq_0_iff_dvd)
  then obtain k where k: "unat a = 4096 * k" ..
  have "unat a < 2 ^ 32"
    using unsigned_less [of a] by simp
  with k show ?thesis by simp
qed

lemma unat_page_add [page_simps]:
  "page_aligned a \<Longrightarrow> n < 4096 \<Longrightarrow> unat (a + of_nat n) = unat a + n"
  using page_aligned_bound [of a] by (simp add: unat_add_of_nat)

lemma page_of_add [page_simps]:
  assumes "page_aligned a" "n < 4096"
  shows "page_of (a + of_nat n) = page_of a"
proof -
  have "(unat a + n) div 4096 = unat a div 4096 + n div 4096"
    using assms by (simp add: page_aligned_def div_add1_eq)
  with assms show ?thesis
    by (simp add: page_of_def unat_page_add)
qed

lemma page_of_inject: "page_aligned a \<Longrightarrow> page_aligned b \<Longrightarrow> page_of a = page_of b \<longleftrightarrow> a = b"
proof
  assume "page_aligned a" "page_aligned b" "page_of a = page_of b"
  then have "unat a = unat b"
    unfolding page_aligned_def page_of_def by (metis div_mult_mod_eq)
  then show "a = b" by (simp add: word_unat_eq_iff)
qed simp

lemma in_page_iff:
  assumes "page_aligned p"
  shows "unat (a - p) < 4096 \<longleftrightarrow> page_of a = page_of p"
proof
  assume "unat (a - p) < 4096"
  with page_of_add [OF assms this] show "page_of a = page_of p"
    by simp
next
  assume eq: "page_of a = page_of p"
  then have "unat a = unat p + unat a mod 4096"
    using assms unfolding page_of_def page_aligned_def by (metis add.right_neutral div_mult_mod_eq)
  then have a: "a = p + of_nat (unat a mod 4096)"
    using assms by (simp add: word_unat_eq_iff unat_page_add)
  have "unat (p + of_nat (unat a mod 4096) - p) = unat a mod 4096"
    by (rule unat_diff_of_nat_index) (simp add: less_trans [OF mod_less_divisor])
  then show "unat (a - p) < 4096" using a by simp
qed

subsection \<open>Four byte slots of a page\<close>

lemma word_aligned_add4:
  "page_aligned p \<Longrightarrow> i < 1024 \<Longrightarrow> word_aligned (p + of_nat (4 * i))"
  using unat_page_add [of p "4 * i"] mod_mod_cancel [of 4 4096 "unat p"]
  by (simp add: word_aligned_def page_aligned_def del: of_nat_mult)

lemma unat_word_aligned_add:
  assumes "word_aligned a" "k < 4"
  shows "unat (a + of_nat k) = unat a + k"
proof -
  have "4 dvd unat a" using assms by (simp add: word_aligned_def mod_eq_0_iff_dvd)
  then obtain c where "unat a = 4 * c" ..
  moreover have "unat a < 2 ^ 32" using unsigned_less [of a] by simp
  ultimately have "unat a + k < 2 ^ 32" using assms by simp
  then show ?thesis by (rule unat_add_of_nat)
qed

lemma word_aligned_disjoint:
  assumes "word_aligned a" "word_aligned b" "a \<noteq> b" "k < 4" "l < 4"
  shows "a + of_nat k \<noteq> b + of_nat l"
proof
  assume "a + of_nat k = b + of_nat l"
  then have "unat a + k = unat b + l"
    using assms by (metis unat_word_aligned_add)
  then have "unat a = unat b"
    using assms unfolding word_aligned_def by presburger
  with \<open>a \<noteq> b\<close> show False by (simp add: word_unat_eq_iff)
qed

lemma load32_store32_other [mem_simps]:
  assumes "word_aligned a" "word_aligned b" "a \<noteq> b"
  shows "load32 (store32 m a v) b = load32 m b"
proof (rule load32_cong)
  note D = word_aligned_disjoint [OF assms(2,1) assms(3) [symmetric]]
  have *: "store32 m a v (b + of_nat k) = m (b + of_nat k)" if "k < 4" for k
    using D [OF that, of 0] D [OF that, of 1] D [OF that, of 2] D [OF that, of 3]
    by (intro store32_other) auto
  show "store32 m a v b = m b" using * [of 0] by simp
  show "store32 m a v (b + 1) = m (b + 1)" using * [of 1] by simp
  show "store32 m a v (b + 2) = m (b + 2)" using * [of 2] by simp
  show "store32 m a v (b + 3) = m (b + 3)" using * [of 3] by simp
qed

end
