(* ===== verification/Memory.thy ===== *)
theory Memory
  imports Prelude
begin

text \<open>
  The raw memory routines of \<^verbatim>\<open>src/src/memory/memory.c\<close>: \<open>memset\<close>, \<open>memcmp\<close> and
  \<open>memcpy\<close> over byte addressed memory. A loop of the source is a tail recursive function
  with the loop variables as arguments; the counters that the source decrements down to zero
  are words, so that a negative \<open>len\<close> counts down through the whole word range as it does
  on the machine. The lemmas give each routine its effect on every address.
\<close>

section \<open>Definitions\<close>

text \<open>\<^verbatim>\<open>for (int index = 0; index < size; index++) c_ptr[index] = (char) c;\<close>\<close>

function memset_loop :: "addr \<Rightarrow> byte \<Rightarrow> u32 \<Rightarrow> nat \<Rightarrow> memory \<Rightarrow> memory" where
  "memset_loop ptr c sz index m =
     (if index < unat sz
      then memset_loop ptr c sz (Suc index) (m(ptr + of_nat index := c))
      else m)"
  by pat_completeness auto
termination
  by (relation "measure (\<lambda>(ptr, c, sz, index, m). unat sz - index)") auto

definition memset :: "addr \<Rightarrow> int \<Rightarrow> u32 \<Rightarrow> memory \<Rightarrow> memory" where
  "memset ptr c sz m = memset_loop ptr (word_of_int c) sz 0 m"

text \<open>\<^verbatim>\<open>while(size--) if(*c1++ != *c2++) return c1[-1] < c2[-1] ? -1 : 1;\<close> The
  characters are signed on the target, so the order is the signed one.\<close>

function memcmp :: "memory \<Rightarrow> addr \<Rightarrow> addr \<Rightarrow> u32 \<Rightarrow> int" where
  "memcmp m c1 c2 sz =
     (if sz = 0 then 0
      else if m c1 \<noteq> m c2 then (if m c1 <s m c2 then -1 else 1)
      else memcmp m (c1 + 1) (c2 + 1) (sz - 1))"
  by pat_completeness auto
termination
  by (relation "measure (\<lambda>(m, c1, c2, sz). unat sz)")
     (auto simp: unat_minus_one unat_gt_0)

text \<open>\<^verbatim>\<open>while(len--) *d++ = *s++;\<close>\<close>

function memcpy :: "addr \<Rightarrow> addr \<Rightarrow> u32 \<Rightarrow> memory \<Rightarrow> memory" where
  "memcpy d s len m =
     (if len = 0 then m else memcpy (d + 1) (s + 1) (len - 1) (m(d := m s)))"
  by pat_completeness auto
termination
  by (relation "measure (\<lambda>(d, s, len, m). unat len)") (auto simp: unat_minus_one unat_gt_0)

declare memset_loop.simps [simp del] memcmp.simps [simp del] memcpy.simps [simp del]

section \<open>Lemmas\<close>

lemma memset_loop_apply:
  "memset_loop ptr c sz index m a =
     (if index \<le> unat (a - ptr) \<and> unat (a - ptr) < unat sz then c else m a)"
proof (induction ptr c sz index m rule: memset_loop.induct)
  case (1 ptr c sz index m)
  show ?case
  proof (cases "index < unat sz")
    case True
    then have "index < 2 ^ 32"
      using less_trans [OF _ unat_lt_u32] by simp
    then have "unat (a - ptr) = index \<longleftrightarrow> a = ptr + of_nat index"
      by (metis of_nat_unat_diff unat_diff_of_nat_index)
    with True show ?thesis
      by (subst memset_loop.simps) (auto simp: "1.IH")
  next
    case False
    then show ?thesis by (subst memset_loop.simps) auto
  qed
qed

text \<open>What \<open>memset\<close> leaves at every address.\<close>

lemma memset_apply [mem_simps]:
  "memset ptr c sz m a = (if unat (a - ptr) < unat sz then word_of_int c else m a)"
  by (simp add: memset_def memset_loop_apply)

lemma mem_bytes_Suc: "mem_bytes m a (Suc n) = m a # mem_bytes m (a + 1) n"
  using mem_bytes_add [of m a 1 n] by (simp add: mem_bytes_def)

lemma memcmp_0 [simp]: "memcmp m a b 0 = 0"
  by (simp add: memcmp.simps)

lemma memcmp_range: "memcmp m a b n \<in> {-1, 0, 1}"
proof (induction m a b n rule: memcmp.induct)
  case (1 m a b n)
  then show ?case by (subst memcmp.simps) simp
qed

lemma unat_step: "(n :: u32) \<noteq> 0 \<Longrightarrow> unat n = Suc (unat (n - 1))"
  by (simp add: unat_minus_one unat_gt_0)

text \<open>\<open>memcmp\<close> answers 0 exactly on equal regions.\<close>

lemma memcmp_eq_0_iff:
  "memcmp m a b n = 0 \<longleftrightarrow> mem_bytes m a (unat n) = mem_bytes m b (unat n)"
proof (induction m a b n rule: memcmp.induct)
  case (1 m a b n)
  show ?case
  proof (cases "n = 0")
    case False
    note step = unat_step [OF False]
    show ?thesis
      using "1.IH" False
      by (subst memcmp.simps) (simp add: step mem_bytes_Suc del: unat_minus_one)
  qed simp
qed

text \<open>
  The forward copy delivers the original bytes unless the destination starts strictly inside
  the source, where it would read back bytes it has just written.
\<close>

lemma memcpy_apply:
  assumes "d = s \<or> unat n \<le> unat (d - s)"
  shows "memcpy d s n m a = (if unat (a - d) < unat n then m (s + (a - d)) else m a)"
  using assms
proof (induction d s n m arbitrary: a rule: memcpy.induct)
  case (1 d s n m)
  show ?case
  proof (cases "n = 0")
    case True
    then show ?thesis by (simp add: memcpy.simps)
  next
    case False
    note nz = this
    note step = unat_step [OF nz]
    let ?m = "m(d := m s)"
    have IH: "memcpy (d + 1) (s + 1) (n - 1) ?m a =
        (if unat (a - (d + 1)) < unat (n - 1) then ?m (s + 1 + (a - (d + 1))) else ?m a)"
      using "1.prems" step by (intro "1.IH" nz) auto
    show ?thesis
    proof (cases "a = d")
      case True
      have "unat (a - (d + 1)) = 2 ^ 32 - 1"
        by (simp add: True unat_minus_1_u32)
      with True IH step unat_lt_u32 [of n] show ?thesis
        by (subst memcpy.simps) (simp add: nz)
    next
      case False
      note ne = this
      then have "a - d \<noteq> 0" by simp
      then have sub: "unat (a - d) = Suc (unat (a - (d + 1)))"
        using unat_step [of "a - d"] by (simp add: algebra_simps)
      have shift: "s + 1 + (a - (d + 1)) = s + (a - d)"
        by simp
      have "s + (a - d) \<noteq> d" if "unat (a - d) < unat n"
      proof
        assume "s + (a - d) = d"
        then have "d - s = a - d" by (metis add_diff_cancel_left')
        with "1.prems" that ne show False by auto
      qed
      with IH sub step ne shift show ?thesis
        by (subst memcpy.simps) (simp add: nz)
    qed
  qed
qed

end
