(* ===== verification/Heap.thy ===== *)
theory Heap
  imports Memory
begin

text \<open>
  The block allocator of \<^verbatim>\<open>src/src/memory/heap/heap.c\<close> and \<^verbatim>\<open>heap.h\<close>. A heap is a region
  of 4096 byte blocks and a table with one byte per block. The array \<open>entries\<close> together
  with its length \<open>total\<close> is a list of bytes; an access outside the array is the outcome
  \<open>None\<close>. The invariant \<open>heap_inv\<close> says that the table is a sequence of free
  blocks and of complete runs; \<open>allocs\<close> reads the runs back as pairs of first block and
  length. The lemmas give the exact result of the first fit search, of marking, of
  \<open>heap_malloc\<close> on every branch and of \<open>heap_free\<close>, and the locale
  \<open>block_allocator\<close> is the contract the rest of the kernel relies on.
\<close>

section \<open>Definitions\<close>

definition HEAP_BLOCK_SIZE :: nat where [simp]: "HEAP_BLOCK_SIZE = 4096"

definition HEAP_BLOCK_TABLE_ENTRY_TAKEN :: byte where [simp]: "HEAP_BLOCK_TABLE_ENTRY_TAKEN = 0x01"
definition HEAP_BLOCK_TABLE_ENTRY_FREE :: byte where [simp]: "HEAP_BLOCK_TABLE_ENTRY_FREE = 0x00"
definition HEAP_BLOCK_HAS_NEXT :: byte where [simp]: "HEAP_BLOCK_HAS_NEXT = 0x80"
definition HEAP_BLOCK_IS_FIRST :: byte where [simp]: "HEAP_BLOCK_IS_FIRST = 0x40"

record heap_table =
  entries :: "byte list"

record heap =
  table :: heap_table
  start_address :: addr

text \<open>The field \<open>total\<close> of the C struct.\<close>

definition total :: "heap_table \<Rightarrow> nat" where
  "total t = length (entries t)"

text \<open>The result type is \<open>bool\<close>: the error code of the source becomes \<open>True\<close>.\<close>

definition heap_validate_table :: "addr \<Rightarrow> addr \<Rightarrow> heap_table \<Rightarrow> bool" where
  "heap_validate_table ptr end_ptr t =
     (let table_size = end_ptr - ptr;
          total_blocks = table_size div 4096
      in if total t \<noteq> unat total_blocks then - INVALID_ARGUMENT_ERROR \<noteq> 0 else False)"

definition heap_validate_alignment :: "addr \<Rightarrow> bool" where
  "heap_validate_alignment ptr \<longleftrightarrow> ptr mod 4096 = 0"

definition heap_create :: "heap \<Rightarrow> addr \<Rightarrow> addr \<Rightarrow> heap_table \<Rightarrow> int \<times> heap" where
  "heap_create h ptr end_ptr t =
     (if \<not> heap_validate_alignment ptr \<or> \<not> heap_validate_alignment end_ptr
      then (- INVALID_ARGUMENT_ERROR, h)
      else
        let h = \<lparr>table = t, start_address = ptr\<rparr>;
            res = (if heap_validate_table ptr end_ptr t then 1 else 0)
        in if res < 0 then (res, h)
           else (res, h\<lparr>table := t\<lparr>entries := replicate (total t) HEAP_BLOCK_TABLE_ENTRY_FREE\<rparr>\<rparr>))"

definition heap_align_value_to_upper :: "u32 \<Rightarrow> u32" where
  "heap_align_value_to_upper val =
     (if val mod 4096 = 0 then val else val - (val mod 4096) + 4096)"

definition heap_get_entry_type :: "byte \<Rightarrow> byte" where
  "heap_get_entry_type entry = entry AND 0x0f"

text \<open>
  The loop of \<open>heap_get_start_block\<close>: the entries still to be scanned, the wanted number
  of blocks, and the variables \<open>i\<close>, \<open>block_start\<close> and \<open>block_current\<close>.
\<close>

fun heap_get_start_block_loop :: "byte list \<Rightarrow> nat \<Rightarrow> nat \<Rightarrow> int \<Rightarrow> nat \<Rightarrow> int" where
  "heap_get_start_block_loop [] total_blocks i block_start block_current = block_start"
| "heap_get_start_block_loop (e # es) total_blocks i block_start block_current =
     (if heap_get_entry_type e \<noteq> HEAP_BLOCK_TABLE_ENTRY_FREE
      then heap_get_start_block_loop es total_blocks (Suc i) (- 1) 0
      else
        let block_start = (if block_start = - 1 then int i else block_start);
            block_current = Suc block_current
        in if block_current = total_blocks then block_start
           else heap_get_start_block_loop es total_blocks (Suc i) block_start block_current)"

definition heap_get_start_block :: "heap \<Rightarrow> u32 \<Rightarrow> int" where
  "heap_get_start_block h total_blocks =
     (let block_start = heap_get_start_block_loop (entries (table h)) (unat total_blocks) 0 (- 1) 0
      in if block_start = - 1 then - NO_MEMORY_ERROR else block_start)"

definition heap_block_to_address :: "heap \<Rightarrow> int \<Rightarrow> addr" where
  "heap_block_to_address h block = start_address h + word_of_int (block * 4096)"

function heap_mark_blocks_taken_loop ::
    "int \<Rightarrow> int \<Rightarrow> byte \<Rightarrow> byte list \<Rightarrow> byte list option" where
  "heap_mark_blocks_taken_loop i end_block entry es =
     (if i \<le> end_block then
        if 0 \<le> i \<and> nat i < length es
        then heap_mark_blocks_taken_loop (i + 1) end_block
               (if i \<noteq> end_block - 1
                then HEAP_BLOCK_TABLE_ENTRY_TAKEN OR HEAP_BLOCK_HAS_NEXT
                else HEAP_BLOCK_TABLE_ENTRY_TAKEN)
               (es[nat i := entry])
        else None
      else Some es)"
  by pat_completeness auto
termination
  by (relation "measure (\<lambda>(i, end_block, entry, es). nat (end_block + 1 - i))") auto

definition heap_mark_blocks_taken :: "heap \<Rightarrow> int \<Rightarrow> u32 \<Rightarrow> heap option" where
  "heap_mark_blocks_taken h start_block total_blocks =
     (let end_block = start_block + uint total_blocks - 1;
          entry = HEAP_BLOCK_TABLE_ENTRY_TAKEN OR HEAP_BLOCK_IS_FIRST;
          entry = (if total_blocks > 1 then entry OR HEAP_BLOCK_HAS_NEXT else entry)
      in map_option (\<lambda>es. h\<lparr>table := (table h)\<lparr>entries := es\<rparr>\<rparr>)
           (heap_mark_blocks_taken_loop start_block end_block entry (entries (table h))))"

definition heap_malloc_blocks :: "heap \<Rightarrow> u32 \<Rightarrow> (addr \<times> heap) option" where
  "heap_malloc_blocks h total_blocks =
     (let start_block = heap_get_start_block h total_blocks
      in if start_block < 0 then Some (0, h)
         else do {
           let address = heap_block_to_address h start_block;
           h \<leftarrow> heap_mark_blocks_taken h start_block total_blocks;
           Some (address, h)
         })"

definition heap_address_to_block :: "heap \<Rightarrow> addr \<Rightarrow> int" where
  "heap_address_to_block h address = sint (address - start_address h) sdiv 4096"

function heap_mark_blocks_free_loop :: "nat \<Rightarrow> byte list \<Rightarrow> byte list" where
  "heap_mark_blocks_free_loop i es =
     (if i < length es then
        let entry = es ! i; es = es[i := HEAP_BLOCK_TABLE_ENTRY_FREE]
        in if entry AND HEAP_BLOCK_HAS_NEXT = 0 then es
           else heap_mark_blocks_free_loop (Suc i) es
      else es)"
  by pat_completeness auto
termination
  by (relation "measure (\<lambda>(i, es). length es - i)") auto

text \<open>The counter is a \<open>size_t\<close>, so a negative block number becomes a large index.\<close>

definition heap_mark_blocks_free :: "heap \<Rightarrow> int \<Rightarrow> heap" where
  "heap_mark_blocks_free h starting_block =
     h\<lparr>table := (table h)\<lparr>entries :=
       heap_mark_blocks_free_loop (unat (word_of_int starting_block :: u32))
         (entries (table h))\<rparr>\<rparr>"

definition heap_malloc :: "heap \<Rightarrow> u32 \<Rightarrow> (addr \<times> heap) option" where
  "heap_malloc h sz =
     (let aligned_size = heap_align_value_to_upper sz;
          total_blocks = aligned_size div 4096
      in heap_malloc_blocks h total_blocks)"

definition heap_free :: "heap \<Rightarrow> addr \<Rightarrow> heap" where
  "heap_free h ptr = heap_mark_blocks_free h (heap_address_to_block h ptr)"

declare heap_mark_blocks_taken_loop.simps [simp del] heap_mark_blocks_free_loop.simps [simp del]

section \<open>Specification\<close>

text \<open>A free entry, a run of free entries, and the length of the free run at the end.\<close>

definition is_free :: "byte \<Rightarrow> bool" where
  "is_free e \<longleftrightarrow> heap_get_entry_type e = HEAP_BLOCK_TABLE_ENTRY_FREE"

definition free_run :: "byte list \<Rightarrow> nat \<Rightarrow> nat \<Rightarrow> bool" where
  "free_run es i n \<longleftrightarrow> i + n \<le> length es \<and> (\<forall>e \<in> set (take n (drop i es)). is_free e)"

definition free_tail :: "byte list \<Rightarrow> nat" where
  "free_tail es = length (takeWhile is_free (rev es))"

text \<open>The entries of one allocation of \<open>n\<close> blocks.\<close>

fun run_entries :: "nat \<Rightarrow> byte list" where
  "run_entries 0 = []"
| "run_entries (Suc 0) = [0x41]"
| "run_entries (Suc (Suc n)) = 0xC1 # replicate n 0x81 @ [0x01]"

text \<open>A table that is made of free blocks and complete runs.\<close>

inductive wf_entries :: "byte list \<Rightarrow> bool" where
  wf_Nil: "wf_entries []"
| wf_Free: "wf_entries es \<Longrightarrow> wf_entries (0 # es)"
| wf_Run: "0 < n \<Longrightarrow> wf_entries es \<Longrightarrow> wf_entries (run_entries n @ es)"

text \<open>The runs of a table: first block and number of blocks.\<close>

fun run_length :: "byte list \<Rightarrow> nat" where
  "run_length [] = 0"
| "run_length (e # es) = (if e AND HEAP_BLOCK_HAS_NEXT = 0 then 1 else Suc (run_length es))"

fun runs_from :: "nat \<Rightarrow> byte list \<Rightarrow> (nat \<times> nat) list" where
  "runs_from k [] = []"
| "runs_from k (e # es) =
     (if e AND HEAP_BLOCK_IS_FIRST \<noteq> 0 then [(k, run_length (e # es))] else [])
      @ runs_from (Suc k) es"

definition block_addr :: "heap \<Rightarrow> nat \<Rightarrow> addr" where
  "block_addr h i = start_address h + of_nat (4096 * i)"

definition allocs :: "heap \<Rightarrow> (addr \<times> nat) set" where
  "allocs h = (\<lambda>(i, n). (block_addr h i, n)) ` set (runs_from 0 (entries (table h)))"

text \<open>The blocks a request of \<open>sz\<close> bytes needs.\<close>

definition blocks_for :: "u32 \<Rightarrow> nat" where
  "blocks_for sz = (unat sz + 4095) div 4096"

definition heap_inv :: "heap \<Rightarrow> bool" where
  "heap_inv h \<longleftrightarrow>
     page_aligned (start_address h) \<and> 0 < unat (start_address h) \<and>
     unat (start_address h) + 4096 * total (table h) \<le> 2 ^ 32 \<and>
     4096 * total (table h) < 2 ^ 31 \<and>
     wf_entries (entries (table h))"

section \<open>The first fit search\<close>

lemma is_free_0 [simp]: "is_free 0"
  by (simp add: is_free_def heap_get_entry_type_def)

lemma free_tail_Nil [simp]: "free_tail [] = 0"
  by (simp add: free_tail_def)

lemma free_tail_snoc [simp]:
  "free_tail (es @ [e]) = (if is_free e then Suc (free_tail es) else 0)"
  by (simp add: free_tail_def)

lemma free_tail_le: "free_tail es \<le> length es"
  using length_takeWhile_le [of is_free "rev es"] by (simp add: free_tail_def)

lemma free_tail_ge_iff:
  assumes "n \<le> length es"
  shows "n \<le> free_tail es \<longleftrightarrow> (\<forall>e \<in> set (drop (length es - n) es). is_free e)"
  using assms
proof (induction es arbitrary: n rule: rev_induct)
  case (snoc e es)
  then show ?case
    by (cases n) (auto simp: Suc_diff_le)
qed simp

lemma free_run_at_end:
  assumes "n \<le> length es"
  shows "free_run es (length es - n) n \<longleftrightarrow> n \<le> free_tail es"
  using assms by (simp add: free_run_def free_tail_ge_iff)

lemma free_run_bound: "free_run es i n \<Longrightarrow> i + n \<le> length es"
  by (simp add: free_run_def)

lemma free_run_append:
  "i + n \<le> length xs \<Longrightarrow> free_run (xs @ ys) i n \<longleftrightarrow> free_run xs i n"
  by (simp add: free_run_def)

lemma free_run_snoc:
  assumes "0 < n"
  shows "(\<exists>i. free_run (es @ [e]) i n) \<longleftrightarrow> (\<exists>i. free_run es i n) \<or> n \<le> free_tail (es @ [e])"
proof
  assume "\<exists>i. free_run (es @ [e]) i n"
  then obtain i where i: "free_run (es @ [e]) i n" ..
  show "(\<exists>i. free_run es i n) \<or> n \<le> free_tail (es @ [e])"
  proof (cases "i + n \<le> length es")
    case True
    with i show ?thesis by (auto simp: free_run_append)
  next
    case False
    with i have "i = length (es @ [e]) - n" "n \<le> length (es @ [e])"
      by (auto simp: free_run_def)
    with i show ?thesis by (metis free_run_at_end)
  qed
next
  assume "(\<exists>i. free_run es i n) \<or> n \<le> free_tail (es @ [e])"
  then show "\<exists>i. free_run (es @ [e]) i n"
  proof
    assume "\<exists>i. free_run es i n"
    then obtain i where "free_run es i n" ..
    then have "free_run (es @ [e]) i n"
      by (subst free_run_append) (auto simp: free_run_def)
    then show ?thesis ..
  next
    assume "n \<le> free_tail (es @ [e])"
    then show ?thesis
      using free_tail_le [of "es @ [e]"] free_run_at_end [of n "es @ [e]"] by auto
  qed
qed

text \<open>The value the scan computes: the first fit, else the start of the free tail, else \<open>-1\<close>.\<close>

definition first_fit :: "byte list \<Rightarrow> nat \<Rightarrow> int" where
  "first_fit es n =
     (if \<exists>i. free_run es i n then int (LEAST i. free_run es i n)
      else if free_tail es = 0 then - 1 else int (length es - free_tail es))"

lemma heap_get_start_block_loop_first_fit:
  assumes "0 < n" and "\<not> (\<exists>i. free_run pre i n)"
  shows "heap_get_start_block_loop es n (length pre)
           (if free_tail pre = 0 then - 1 else int (length pre - free_tail pre)) (free_tail pre)
         = first_fit (pre @ es) n"
  using assms(2)
proof (induction es arbitrary: pre)
  case Nil
  then show ?case by (simp add: first_fit_def)
next
  case (Cons e es)
  note snoc = free_run_snoc [OF \<open>0 < n\<close>, of pre e]
  show ?case
  proof (cases "is_free e")
    case False
    with Cons.prems snoc have "\<not> (\<exists>i. free_run (pre @ [e]) i n)"
      using \<open>0 < n\<close> by simp
    from Cons.IH [OF this] False show ?thesis
      by (simp add: is_free_def)
  next
    case True
    let ?start = "length pre - free_tail pre"
    show ?thesis
    proof (cases "Suc (free_tail pre) = n")
      case True
      have len: "free_tail pre \<le> length pre" by (rule free_tail_le)
      have "free_run (pre @ [e]) (length (pre @ [e]) - n) n"
        using True len \<open>is_free e\<close> by (subst free_run_at_end) auto
      then have run: "free_run (pre @ e # es) ?start n"
        using len free_run_append [of ?start n "pre @ [e]" es] by (auto simp: True [symmetric])
      have least: "?start \<le> j" if "free_run (pre @ e # es) j n" for j
      proof (rule ccontr)
        assume "\<not> ?start \<le> j"
        then have "j + n \<le> length pre" using True len by simp
        with that have "free_run pre j n" by (simp add: free_run_append)
        with Cons.prems show False by blast
      qed
      have "(LEAST i. free_run (pre @ e # es) i n) = ?start"
        using run least by (rule Least_equality)
      with True run \<open>is_free e\<close> show ?thesis
        by (auto simp: first_fit_def is_free_def)
    next
      case False
      have "\<not> n \<le> free_tail (pre @ [e])"
      proof
        assume "n \<le> free_tail (pre @ [e])"
        with False have "n \<le> free_tail pre" by (simp split: if_splits)
        then have "\<exists>i. free_run pre i n"
          using free_run_at_end [of n pre] free_tail_le [of pre] by auto
        with Cons.prems show False ..
      qed
      with Cons.prems snoc have "\<not> (\<exists>i. free_run (pre @ [e]) i n)" by simp
      from Cons.IH [OF this] False \<open>is_free e\<close> show ?thesis
        by (auto simp: is_free_def Let_def)
    qed
  qed
qed

lemma heap_get_start_block_first_fit:
  assumes "0 < total_blocks"
  shows "heap_get_start_block h total_blocks =
    (let b = first_fit (entries (table h)) (unat total_blocks)
     in if b = - 1 then - NO_MEMORY_ERROR else b)"
proof -
  have "0 < unat total_blocks" using assms by (simp add: unat_gt_0 word_neq_0_conv)
  moreover from this have "\<not> (\<exists>i. free_run [] i (unat total_blocks))"
    by (simp add: free_run_def)
  ultimately show ?thesis
    using heap_get_start_block_loop_first_fit [of "unat total_blocks" "[]" "entries (table h)"]
    by (simp add: heap_get_start_block_def)
qed

section \<open>Marking runs\<close>

lemma run_entries_Suc:
  "run_entries (Suc n) = (if n = 0 then 0x41 else 0xC1) # (if n = 0 then [] else replicate (n - 1) 0x81 @ [0x01])"
  by (cases n) auto

lemma length_run_entries [simp]: "length (run_entries n) = n"
  by (induction n rule: run_entries.induct) auto

lemma set_run_entries: "set (run_entries n) \<subseteq> {0x41, 0xC1, 0x81, 0x01}"
  by (induction n rule: run_entries.induct) auto

lemma run_entries_not_free: "e \<in> set (run_entries n) \<Longrightarrow> \<not> is_free e"
  using set_run_entries [of n] by (auto simp: is_free_def heap_get_entry_type_def)

text \<open>The entries that follow the first one.\<close>

definition cont_entries :: "nat \<Rightarrow> byte list" where
  "cont_entries n = (if n = 0 then [] else replicate (n - 1) 0x81 @ [0x01])"

lemma cont_entries_Suc:
  "cont_entries (Suc n) = (if n = 0 then 0x01 else 0x81) # cont_entries n"
  by (cases n) (auto simp: cont_entries_def)

lemma heap_mark_blocks_taken_loop_run:
  assumes "length zs = Suc k"
  shows "heap_mark_blocks_taken_loop (int (length xs)) (int (length xs + k)) e (xs @ zs @ ys)
         = Some (xs @ e # cont_entries k @ ys)"
  using assms
proof (induction k arbitrary: xs zs e)
  case 0
  then obtain z where "zs = [z]" by (auto simp: length_Suc_conv)
  then show ?case
    by (subst heap_mark_blocks_taken_loop.simps, subst heap_mark_blocks_taken_loop.simps)
       (simp add: cont_entries_def)
next
  case (Suc k)
  then obtain z zs' where zs: "zs = z # zs'" "length zs' = Suc k"
    by (auto simp: length_Suc_conv)
  let ?e = "if k = 0 then 0x01 else (0x81 :: byte)"
  have "heap_mark_blocks_taken_loop (int (length xs)) (int (length xs + Suc k)) e (xs @ zs @ ys)
      = heap_mark_blocks_taken_loop (int (length (xs @ [e]))) (int (length (xs @ [e]) + k)) ?e
          ((xs @ [e]) @ zs' @ ys)"
    by (subst heap_mark_blocks_taken_loop.simps) (simp add: zs add.commute)
  also have "\<dots> = Some ((xs @ [e]) @ ?e # cont_entries k @ ys)"
    by (rule Suc.IH [OF zs(2)])
  finally show ?case by (simp add: cont_entries_Suc)
qed

lemma heap_mark_blocks_taken_loop_outside:
  assumes "0 \<le> i" "i \<le> end_block" "int (length es) \<le> end_block"
  shows "heap_mark_blocks_taken_loop i end_block e es = None"
  using assms
proof (induction i end_block e es rule: heap_mark_blocks_taken_loop.induct)
  case (1 i end_block e es)
  show ?case
  proof (cases "nat i < length es")
    case True
    with "1.prems" have "i + 1 \<le> end_block" by simp
    with "1.IH" "1.prems" True show ?thesis
      by (subst heap_mark_blocks_taken_loop.simps) simp
  next
    case False
    with "1.prems" show ?thesis
      by (subst heap_mark_blocks_taken_loop.simps) simp
  qed
qed

lemma heap_mark_blocks_free_loop_run:
  assumes "r \<noteq> []" "\<forall>e \<in> set (butlast r). e AND 0x80 \<noteq> 0" "last r AND 0x80 = 0"
  shows "heap_mark_blocks_free_loop (length xs) (xs @ r @ ys) = xs @ replicate (length r) 0 @ ys"
  using assms
proof (induction r arbitrary: xs)
  case (Cons e r)
  show ?case
  proof (cases "r = []")
    case True
    with Cons.prems show ?thesis
      by (subst heap_mark_blocks_free_loop.simps) simp
  next
    case False
    with Cons.prems have "heap_mark_blocks_free_loop (length (xs @ [0])) ((xs @ [0]) @ r @ ys)
        = (xs @ [0]) @ replicate (length r) 0 @ ys"
      by (intro Cons.IH) auto
    with Cons.prems False show ?thesis
      by (subst heap_mark_blocks_free_loop.simps) simp
  qed
qed simp

lemma run_entries_next:
  assumes "0 < n"
  shows "\<forall>e \<in> set (butlast (run_entries n)). e AND 0x80 \<noteq> 0" "last (run_entries n) AND 0x80 = 0"
  using assms by (induction n rule: run_entries.induct) (auto simp: butlast_append)

section \<open>Runs of a table\<close>

lemma wf_entries_append: "wf_entries xs \<Longrightarrow> wf_entries ys \<Longrightarrow> wf_entries (xs @ ys)"
  by (induction rule: wf_entries.induct) (auto intro: wf_entries.intros)

lemma wf_entries_replicate_free: "wf_entries (replicate n 0)"
  by (induction n) (auto intro: wf_entries.intros)

lemma wf_entries_run: "0 < n \<Longrightarrow> wf_entries (run_entries n)"
  using wf_Run [OF _ wf_Nil] by simp

lemma wf_entries_free_iff: "wf_entries es \<Longrightarrow> e \<in> set es \<Longrightarrow> is_free e \<longleftrightarrow> e = 0"
  by (induction rule: wf_entries.induct) (auto dest: run_entries_not_free)

text \<open>A free block splits a well formed table into two well formed tables.\<close>

lemma wf_entries_split_free:
  assumes "wf_entries (xs @ 0 # ys)"
  shows "wf_entries xs \<and> wf_entries ys"
  using assms
proof (induction "xs @ 0 # ys" arbitrary: xs rule: wf_entries.induct)
  case (wf_Free es)
  then show ?case
    by (cases xs) (auto intro: wf_entries.intros)
next
  case (wf_Run n es)
  have "0 \<notin> set (run_entries n)"
    using run_entries_not_free [of 0 n] by auto
  with wf_Run.hyps obtain xs' where "xs = run_entries n @ xs'" "es = xs' @ 0 # ys"
    by (auto simp: append_eq_append_conv2 append_eq_Cons_conv)
  with wf_Run.hyps show ?case
    by (auto intro: wf_entries.intros)
qed simp

lemma wf_entries_split_free_run:
  assumes "wf_entries (xs @ replicate n 0 @ ys)" "0 < n"
  shows "wf_entries xs \<and> wf_entries ys"
  using assms
proof (induction n arbitrary: xs)
  case (Suc n)
  show ?case
  proof (cases "n = 0")
    case True
    with Suc.prems show ?thesis
      using wf_entries_split_free [of xs ys] by simp
  next
    case False
    have "wf_entries ((xs @ [0]) @ replicate n 0 @ ys)"
      using Suc.prems by simp
    from Suc.IH [OF this] False have "wf_entries (xs @ 0 # [])" "wf_entries ys"
      by auto
    then show ?thesis using wf_entries_split_free by blast
  qed
qed simp

lemma free_run_decomp:
  assumes "wf_entries es" "free_run es i n"
  obtains xs ys where "es = xs @ replicate n 0 @ ys" "length xs = i"
proof
  have "take n (drop i es) = replicate n 0"
  proof (rule replicate_eqI)
    show "length (take n (drop i es)) = n"
      using assms(2) by (auto simp: free_run_def min_def)
    fix e assume "e \<in> set (take n (drop i es))"
    with assms show "e = 0"
      using wf_entries_free_iff [of es e]
      by (auto simp: free_run_def dest: in_set_takeD in_set_dropD)
  qed
  then show "es = take i es @ replicate n 0 @ drop n (drop i es)"
    by (metis append_take_drop_id)
  show "length (take i es) = i"
    using assms(2) by (simp add: free_run_def)
qed

lemma runs_from_replicate_free [simp]: "runs_from k (replicate n 0 @ es) = runs_from (k + n) es"
  by (induction n arbitrary: k) auto

lemma runs_from_cont [simp]: "runs_from k (cont_entries n @ es) = runs_from (k + n) es"
  by (induction n arbitrary: k) (auto simp: cont_entries_Suc, simp add: cont_entries_def)

lemma run_length_cont: "0 < n \<Longrightarrow> run_length (cont_entries n @ es) = n"
proof (induction n)
  case (Suc n)
  then show ?case by (cases n) (auto simp: cont_entries_Suc)
qed simp

lemma run_entries_cont:
  "run_entries (Suc n) = (if n = 0 then 0x41 else 0xC1) # cont_entries n"
  by (cases n) (auto simp: cont_entries_def)

lemma runs_from_run [simp]:
  "0 < n \<Longrightarrow> runs_from k (run_entries n @ es) = (k, n) # runs_from (k + n) es"
  by (cases n) (auto simp: run_entries_cont run_length_cont)

lemma runs_from_append:
  "wf_entries xs \<Longrightarrow> runs_from k (xs @ ys) = runs_from k xs @ runs_from (k + length xs) ys"
proof (induction arbitrary: k rule: wf_entries.induct)
  case (wf_Run n es)
  then show ?case by (simp add: add.assoc)
qed auto

text \<open>The runs are exactly the places where a complete run sits between well formed tables.\<close>

lemma runs_from_decomp:
  assumes "wf_entries es" "(i, n) \<in> set (runs_from k es)"
  shows "\<exists>xs ys. es = xs @ run_entries n @ ys \<and> i = k + length xs \<and> 0 < n \<and>
           wf_entries xs \<and> wf_entries ys"
  using assms
proof (induction arbitrary: k rule: wf_entries.induct)
  case (wf_Free es)
  then have "(i, n) \<in> set (runs_from (Suc k) es)" by simp
  from wf_Free.IH [OF this] obtain xs ys
    where "es = xs @ run_entries n @ ys \<and> i = Suc k + length xs \<and> 0 < n \<and> wf_entries xs \<and> wf_entries ys"
    by blast
  then show ?case
    by (intro exI [of _ "0 # xs"] exI [of _ ys]) (auto intro: wf_entries.intros)
next
  case (wf_Run n' es)
  show ?case
  proof (cases "(i, n) = (k, n')")
    case True
    with wf_Run.hyps show ?thesis
      by (intro exI [of _ "[]"] exI [of _ es]) (auto intro: wf_entries.intros)
  next
    case False
    with wf_Run.prems wf_Run.hyps have "(i, n) \<in> set (runs_from (k + n') es)" by auto
    from wf_Run.IH [OF this] obtain xs ys
      where "es = xs @ run_entries n @ ys \<and> i = k + n' + length xs \<and> 0 < n \<and> wf_entries xs \<and> wf_entries ys"
      by blast
    with wf_Run.hyps show ?thesis
      by (intro exI [of _ "run_entries n' @ xs"] exI [of _ ys]) (auto intro: wf_entries.intros)
  qed
qed simp

lemma runs_from_bound: "(i, n) \<in> set (runs_from k es) \<Longrightarrow> k \<le> i"
  by (induction es arbitrary: k) (fastforce split: if_splits)+

lemma runs_from_upper: "(i, n) \<in> set (runs_from k es) \<Longrightarrow> i < k + length es"
  by (induction es arbitrary: k) (fastforce split: if_splits)+

lemma runs_disjoint:
  assumes "wf_entries es" "(i, n) \<in> set (runs_from k es)" "(j, l) \<in> set (runs_from k es)" "i \<noteq> j"
  shows "i + n \<le> j \<or> j + l \<le> i"
  using assms
proof (induction arbitrary: k rule: wf_entries.induct)
  case (wf_Run n' es)
  then show ?case
    using runs_from_bound [of i n "k + n'" es] runs_from_bound [of j l "k + n'" es] by auto
qed auto

lemma runs_unique:
  assumes "wf_entries es" "(i, n) \<in> set (runs_from k es)" "(i, l) \<in> set (runs_from k es)"
  shows "n = l"
  using assms
proof (induction arbitrary: k rule: wf_entries.induct)
  case (wf_Run n' es)
  then show ?case
    using runs_from_bound [of i n "k + n'" es] runs_from_bound [of i l "k + n'" es] by fastforce
qed auto

section \<open>Sizes and addresses\<close>

lemma round_up_exact: "(x :: nat) mod 4096 = 0 \<Longrightarrow> (x + 4095) div 4096 = x div 4096"
  by (auto simp: mod_eq_0_iff_dvd dvd_def)

lemma round_up_rest:
  assumes "(x :: nat) mod 4096 \<noteq> 0"
  shows "(x - x mod 4096 + 4096) div 4096 = (x + 4095) div 4096"
proof -
  define q r where "q = x div 4096" and "r = x mod 4096"
  then have x: "x = 4096 * q + r" and r: "0 < r" "r < 4096"
    using assms by simp_all
  have "(r + 4095) div 4096 = 1" using r by (intro div_nat_eqI) simp_all
  then have "(x + 4095) div 4096 = q + 1"
    using x div_mult_self4 [of 4096 q "r + 4095"] by (simp add: add.assoc)
  moreover have "x - x mod 4096 + 4096 = 4096 * (q + 1)"
    using x r by (simp add: r_def [symmetric])
  ultimately show ?thesis by simp
qed

lemma unat_heap_align_blocks:
  assumes "unat sz \<le> 2 ^ 32 - 4096"
  shows "unat (heap_align_value_to_upper sz div 4096) = blocks_for sz"
proof (cases "sz mod 4096 = 0")
  case True
  then have "unat (sz mod 4096) = 0" by simp
  then have "unat sz mod 4096 = 0" by (simp add: unat_mod_distrib)
  then have "(unat sz + 4095) div 4096 = unat sz div 4096" by (rule round_up_exact)
  with True show ?thesis
    by (simp add: heap_align_value_to_upper_def blocks_for_def unat_div_distrib)
next
  case False
  let ?r = "unat sz mod 4096"
  have r: "unat (sz mod 4096) = ?r"
    by (simp add: unat_mod_distrib)
  have "?r \<noteq> 0"
    using False r by (metis unsigned_0 word_unat_eq_iff)
  have "unat (sz - sz mod 4096) = unat sz - ?r"
    using r by (simp add: unat_sub word_le_nat_alt)
  then have "unat (sz - sz mod 4096 + 4096) = unat sz - ?r + 4096"
    using unat_add_of_nat [of "sz - sz mod 4096" 4096] assms \<open>?r \<noteq> 0\<close> by simp
  moreover have "(unat sz - ?r + 4096) div 4096 = (unat sz + 4095) div 4096"
    using \<open>?r \<noteq> 0\<close> by (rule round_up_rest)
  ultimately show ?thesis
    using False by (simp add: heap_align_value_to_upper_def blocks_for_def unat_div_distrib)
qed

lemma blocks_for_pos: "0 < sz \<Longrightarrow> 0 < blocks_for sz"
  by (simp add: blocks_for_def word_less_nat_alt div_greater_zero_iff)

lemma heap_block_to_address_nat: "heap_block_to_address h (int i) = block_addr h i"
  by (simp add: heap_block_to_address_def block_addr_def mult.commute)

lemma unat_block_addr:
  assumes "heap_inv h" "i < total (table h)"
  shows "unat (block_addr h i) = unat (start_address h) + 4096 * i"
  using assms unfolding heap_inv_def block_addr_def by (intro unat_add_of_nat) simp

lemma page_aligned_block_addr:
  assumes "heap_inv h" "i < total (table h)"
  shows "page_aligned (block_addr h i)"
  using assms unat_block_addr [OF assms] by (simp add: heap_inv_def page_aligned_def)

lemma page_of_block_addr:
  assumes "heap_inv h" "i < total (table h)"
  shows "page_of (block_addr h i) = page_of (start_address h) + i"
  using assms unat_block_addr [OF assms] by (simp add: page_of_def)

lemma block_addr_not_null:
  assumes "heap_inv h" "i < total (table h)"
  shows "block_addr h i \<noteq> 0"
proof
  assume "block_addr h i = 0"
  then show False
    using unat_block_addr [OF assms] assms(1) by (simp add: heap_inv_def)
qed

lemma sint_of_nat_small:
  assumes "n < 2 ^ 31"
  shows "sint (of_nat n :: u32) = int n"
  using assms by (simp add: signed_of_nat signed_take_bit_int_eq_self)

lemma heap_address_to_block_addr:
  assumes "heap_inv h" "i < total (table h)"
  shows "heap_address_to_block h (block_addr h i) = int i"
proof -
  have "4096 * i < 2 ^ 31"
    using assms by (simp add: heap_inv_def)
  then have "sint (of_nat (4096 * i) :: u32) = int (4096 * i)"
    by (rule sint_of_nat_small)
  then show ?thesis
    by (simp add: heap_address_to_block_def block_addr_def signed_divide_int_def sgn_if)
qed

section \<open>Allocation\<close>

text \<open>Replacing the \<open>n\<close> entries from \<open>i\<close> on by one complete run.\<close>

definition put_run :: "nat \<Rightarrow> nat \<Rightarrow> heap \<Rightarrow> heap" where
  "put_run i n h = h\<lparr>table := (table h)\<lparr>entries :=
     take i (entries (table h)) @ run_entries n @ drop (i + n) (entries (table h))\<rparr>\<rparr>"

lemma heap_mark_blocks_taken_fit:
  assumes "i + unat n \<le> total (table h)" "0 < n"
  shows "heap_mark_blocks_taken h (int i) n = Some (put_run i (unat n) h)"
proof -
  let ?es = "entries (table h)"
  obtain k where k: "unat n = Suc k"
    using assms(2) by (metis gr0_implies_Suc unat_gt_0 word_neq_0_conv)
  have len: "length (take (Suc k) (drop i ?es)) = Suc k" and i: "length (take i ?es) = i"
    using assms k by (auto simp: total_def)
  have es: "take i ?es @ take (Suc k) (drop i ?es) @ drop (i + Suc k) ?es = ?es"
    by (metis append_take_drop_id drop_drop add.commute)
  have gt1: "1 < n \<longleftrightarrow> k \<noteq> 0"
    using k by (auto simp: word_less_nat_alt)
  have un: "uint n = int (Suc k)"
    using k by (metis uint_nat)
  show ?thesis
    using heap_mark_blocks_taken_loop_run [OF len, of "take i ?es" _ "drop (i + Suc k) ?es"] i es
    unfolding heap_mark_blocks_taken_def put_run_def un k
    by (cases "k = 0") (simp_all add: gt1 run_entries_cont)
qed

lemma heap_mark_blocks_taken_outside:
  assumes "0 < n" "i \<le> total (table h)" "total (table h) < i + unat n"
  shows "heap_mark_blocks_taken h (int i) n = None"
proof -
  have un: "uint n = int (unat n)" by (rule uint_nat)
  have "0 < unat n" using assms(1) by (simp add: unat_gt_0 word_neq_0_conv)
  then have "heap_mark_blocks_taken_loop (int i) (int i + uint n - 1) e (entries (table h)) = None" for e
    using assms(2,3) unfolding un total_def by (intro heap_mark_blocks_taken_loop_outside) linarith+
  then show ?thesis
    by (simp add: heap_mark_blocks_taken_def Let_def)
qed

lemma first_fit_cases:
  obtains (fit) "\<exists>i. free_run es i n" "first_fit es n = int (LEAST i. free_run es i n)"
      "free_run es (LEAST i. free_run es i n) n"
  | (full) "\<not> (\<exists>i. free_run es i n)" "free_tail es = 0" "first_fit es n = - 1"
  | (short) "\<not> (\<exists>i. free_run es i n)" "free_tail es \<noteq> 0"
      "first_fit es n = int (length es - free_tail es)"
  unfolding first_fit_def by (metis LeastI_ex)

lemma free_tail_short:
  assumes "0 < n" "\<not> (\<exists>i. free_run es i n)"
  shows "free_tail es < n"
proof (rule ccontr)
  assume "\<not> free_tail es < n"
  then have "free_run es (length es - n) n"
    using free_tail_le [of es] by (subst free_run_at_end) auto
  with assms show False by blast
qed

lemma heap_malloc_blocks_cases:
  assumes "0 < n"
  shows "heap_malloc_blocks h n =
    (if \<exists>i. free_run (entries (table h)) i (unat n)
     then let i = LEAST i. free_run (entries (table h)) i (unat n)
          in Some (block_addr h i, put_run i (unat n) h)
     else if free_tail (entries (table h)) = 0 then Some (0, h)
     else None)"
proof -
  let ?es = "entries (table h)"
  have pos: "0 < unat n" using assms by (simp add: unat_gt_0 word_neq_0_conv)
  show ?thesis
  proof (cases rule: first_fit_cases [of ?es "unat n"])
    case fit
    have "(LEAST i. free_run ?es i (unat n)) + unat n \<le> total (table h)"
      using free_run_bound [OF fit(3)] by (simp add: total_def)
    from heap_mark_blocks_taken_fit [OF this assms] fit show ?thesis
      by (simp add: heap_malloc_blocks_def heap_get_start_block_first_fit [OF assms]
          heap_block_to_address_nat Let_def)
  next
    case full
    then show ?thesis
      by (simp add: heap_malloc_blocks_def heap_get_start_block_first_fit [OF assms])
  next
    case short
    have "heap_mark_blocks_taken h (int (length ?es - free_tail ?es)) n = None"
      using free_tail_short [OF pos short(1)] free_tail_le [of ?es]
      by (intro heap_mark_blocks_taken_outside [OF assms]) (auto simp: total_def)
    with short show ?thesis
      by (simp add: heap_malloc_blocks_def heap_get_start_block_first_fit [OF assms] Let_def)
  qed
qed

text \<open>The exact result of \<open>heap_malloc\<close> on every non-empty request that does not wrap.\<close>

lemma heap_malloc_cases:
  assumes "0 < sz" "unat sz \<le> 2 ^ 32 - 4096"
  shows "heap_malloc h sz =
    (if \<exists>i. free_run (entries (table h)) i (blocks_for sz)
     then let i = LEAST i. free_run (entries (table h)) i (blocks_for sz)
          in Some (block_addr h i, put_run i (blocks_for sz) h)
     else if free_tail (entries (table h)) = 0 then Some (0, h)
     else None)"
proof -
  note align = unat_heap_align_blocks [OF assms(2)]
  have "0 < heap_align_value_to_upper sz div 4096"
    using align blocks_for_pos [OF assms(1)] by (simp add: word_less_nat_alt)
  from heap_malloc_blocks_cases [OF this] align show ?thesis
    by (simp add: heap_malloc_def)
qed

lemma put_run_decomp:
  assumes "wf_entries (entries (table h))" "free_run (entries (table h)) i n"
  obtains xs ys where "entries (table h) = xs @ replicate n 0 @ ys" "length xs = i"
    "entries (table (put_run i n h)) = xs @ run_entries n @ ys"
proof -
  obtain xs ys where "entries (table h) = xs @ replicate n 0 @ ys" "length xs = i"
    using free_run_decomp [OF assms] by blast
  then show ?thesis
    by (intro that [of xs ys]) (simp_all add: put_run_def)
qed

lemma start_address_put_run [simp]: "start_address (put_run i n h) = start_address h"
  by (simp add: put_run_def)

lemma total_put_run:
  "i + n \<le> total (table h) \<Longrightarrow> total (table (put_run i n h)) = total (table h)"
  by (simp add: put_run_def total_def)

lemma block_addr_put_run [simp]: "block_addr (put_run i n h) = block_addr h"
  by (simp add: block_addr_def fun_eq_iff)

lemma put_run_inv:
  assumes "heap_inv h" "free_run (entries (table h)) i n" "0 < n"
  shows "heap_inv (put_run i n h)"
proof -
  have wf: "wf_entries (entries (table h))" using assms(1) by (simp add: heap_inv_def)
  obtain xs ys where d: "entries (table h) = xs @ replicate n 0 @ ys" "length xs = i"
      "entries (table (put_run i n h)) = xs @ run_entries n @ ys"
    by (rule put_run_decomp [OF wf assms(2)])
  then have "wf_entries (entries (table (put_run i n h)))"
    using wf wf_entries_split_free_run [of xs n ys] assms(3)
    by (auto intro!: wf_entries_append wf_entries_run)
  moreover have "i + n \<le> total (table h)"
    using assms(2) by (simp add: free_run_def total_def)
  ultimately show ?thesis
    using assms(1) by (simp add: heap_inv_def total_put_run)
qed

lemma allocs_put_run:
  assumes "heap_inv h" "free_run (entries (table h)) i n" "0 < n"
  shows "allocs (put_run i n h) = insert (block_addr h i, n) (allocs h)"
proof -
  have wf: "wf_entries (entries (table h))" using assms(1) by (simp add: heap_inv_def)
  obtain xs ys where d: "entries (table h) = xs @ replicate n 0 @ ys" "length xs = i"
      "entries (table (put_run i n h)) = xs @ run_entries n @ ys"
    by (rule put_run_decomp [OF wf assms(2)])
  have "wf_entries xs"
    using wf wf_entries_split_free_run [of xs n ys] assms(3) d(1) by simp
  then show ?thesis
    using d assms(3) by (auto simp: allocs_def runs_from_append)
qed

section \<open>Release\<close>

lemma heap_free_run:
  assumes "heap_inv h" "entries (table h) = xs @ run_entries n @ ys" "0 < n"
  shows "heap_free h (block_addr h (length xs)) =
    h\<lparr>table := (table h)\<lparr>entries := xs @ replicate n 0 @ ys\<rparr>\<rparr>"
proof -
  have len: "length xs < total (table h)"
    using assms(2,3) by (simp add: total_def)
  then have "length xs < 2 ^ 32"
    using assms(1) by (simp add: heap_inv_def)
  then have "unat (word_of_int (int (length xs)) :: u32) = length xs"
    by (simp add: unat_of_nat take_bit_nat_eq_self)
  moreover have "run_entries n \<noteq> []"
    using assms(3) by (metis length_run_entries list.size(3) less_irrefl)
  ultimately show ?thesis
    using heap_mark_blocks_free_loop_run [OF _ run_entries_next [OF assms(3)], of xs ys]
    by (simp add: heap_free_def heap_address_to_block_addr [OF assms(1) len]
        heap_mark_blocks_free_def assms(2))
qed

lemma allocs_decomp:
  assumes "heap_inv h" "(p, n) \<in> allocs h"
  obtains xs ys where "entries (table h) = xs @ run_entries n @ ys" "p = block_addr h (length xs)"
    "0 < n" "wf_entries xs" "wf_entries ys"
proof -
  obtain i where i: "(i, n) \<in> set (runs_from 0 (entries (table h)))" "p = block_addr h i"
    using assms(2) by (auto simp: allocs_def)
  have "wf_entries (entries (table h))" using assms(1) by (simp add: heap_inv_def)
  from runs_from_decomp [OF this i(1)] i(2) show ?thesis
    using that by auto
qed

lemma block_addr_inject:
  assumes "heap_inv h" "i < total (table h)" "j < total (table h)"
  shows "block_addr h i = block_addr h j \<longleftrightarrow> i = j"
  using unat_block_addr [OF assms(1,2)] unat_block_addr [OF assms(1,3)]
  by (metis add_left_cancel mult_cancel1 zero_neq_numeral)

text \<open>Every allocation lies inside the heap region, on page boundaries.\<close>

lemma allocs_range:
  assumes "heap_inv h" "(p, n) \<in> allocs h"
  shows "page_aligned p" "p \<noteq> 0" "0 < n" "page_of (start_address h) \<le> page_of p"
    "page_of p + n \<le> page_of (start_address h) + total (table h)"
proof -
  obtain xs ys where d: "entries (table h) = xs @ run_entries n @ ys"
      "p = block_addr h (length xs)" "0 < n"
    using allocs_decomp [OF assms] by metis
  have len: "length xs < total (table h)" using d by (simp add: total_def)
  show "page_aligned p" "p \<noteq> 0" "0 < n" "page_of (start_address h) \<le> page_of p"
    "page_of p + n \<le> page_of (start_address h) + total (table h)"
    using d page_aligned_block_addr [OF assms(1) len] block_addr_not_null [OF assms(1) len]
      page_of_block_addr [OF assms(1) len] by (auto simp: total_def)
qed

text \<open>Two allocations never share a page, and an address starts at most one allocation.\<close>

lemma allocs_disjoint:
  assumes "heap_inv h" "(p, n) \<in> allocs h" "(q, l) \<in> allocs h"
  shows "(p, n) = (q, l) \<or> page_of p + n \<le> page_of q \<or> page_of q + l \<le> page_of p"
proof -
  have wf: "wf_entries (entries (table h))" using assms(1) by (simp add: heap_inv_def)
  obtain i j where ij: "(i, n) \<in> set (runs_from 0 (entries (table h)))" "p = block_addr h i"
      "(j, l) \<in> set (runs_from 0 (entries (table h)))" "q = block_addr h j"
    using assms(2,3) by (auto simp: allocs_def)
  note bound = runs_from_decomp [OF wf, of _ _ 0]
  have "i < total (table h)"
    using bound [OF ij(1)] by (auto simp: total_def)
  moreover have "j < total (table h)"
    using bound [OF ij(3)] by (auto simp: total_def)
  ultimately show ?thesis
    using ij runs_disjoint [OF wf ij(1,3)] runs_unique [OF wf ij(1), of l]
      page_of_block_addr [OF assms(1)] by (cases "i = j") auto
qed

lemma heap_free_inv:
  assumes "heap_inv h" "(p, n) \<in> allocs h"
  shows "heap_inv (heap_free h p)" "allocs (heap_free h p) = allocs h - {(p, n)}"
proof -
  obtain xs ys where d: "entries (table h) = xs @ run_entries n @ ys"
      "p = block_addr h (length xs)" "0 < n" "wf_entries xs" "wf_entries ys"
    by (rule allocs_decomp [OF assms])
  let ?h = "h\<lparr>table := (table h)\<lparr>entries := xs @ replicate n 0 @ ys\<rparr>\<rparr>"
  have eq: "heap_free h p = ?h"
    using heap_free_run [OF assms(1) d(1,3)] d(2) by simp
  have "wf_entries (xs @ replicate n 0 @ ys)"
    using d by (intro wf_entries_append wf_entries_replicate_free)
  then show inv: "heap_inv (heap_free h p)"
    using assms(1) unfolding eq by (simp add: heap_inv_def total_def d(1))
  have free: "free_run (entries (table ?h)) (length xs) n"
    by (simp add: free_run_def)
  have "put_run (length xs) n ?h = h"
    by (simp add: put_run_def flip: d(1))
  then have "allocs h = insert (p, n) (allocs ?h)"
    using allocs_put_run [OF inv [unfolded eq] free d(3)] d(2) by (simp add: block_addr_def)
  moreover have "(p, n) \<notin> allocs ?h"
  proof
    assume "(p, n) \<in> allocs ?h"
    then obtain i where i: "(i, n) \<in> set (runs_from 0 (xs @ replicate n 0 @ ys))"
        "block_addr ?h (length xs) = block_addr ?h i"
      by (auto simp: allocs_def d(2) block_addr_def)
    have "i < total (table ?h)" "length xs < total (table ?h)"
      using runs_from_upper [OF i(1)] d(3) by (simp_all add: total_def)
    with i have "(length xs, n) \<in> set (runs_from 0 (xs @ replicate n 0 @ ys))"
      using block_addr_inject [OF inv [unfolded eq]] by blast
    then show False
      using d(3,4) runs_from_upper [of "length xs" n 0 xs] runs_from_bound [of "length xs" n "length xs + n" ys]
      by (auto simp: runs_from_append)
  qed
  ultimately show "allocs (heap_free h p) = allocs h - {(p, n)}"
    unfolding eq by blast
qed

section \<open>The allocator contract\<close>

text \<open>
  What the rest of the kernel relies on: an allocation is a page aligned, non-null region that
  shares no page with any live one; releasing a live region removes exactly that region;
  a request of at most one block succeeds while a block is free.
\<close>

locale block_allocator =
  fixes inv :: "'h \<Rightarrow> bool"
    and live :: "'h \<Rightarrow> (addr \<times> nat) set"
    and room :: "'h \<Rightarrow> nat"
    and malloc :: "'h \<Rightarrow> u32 \<Rightarrow> (addr \<times> 'h) option"
    and release :: "'h \<Rightarrow> addr \<Rightarrow> 'h"
  assumes malloc_live: "inv h \<Longrightarrow> 0 < sz \<Longrightarrow> unat sz \<le> 2 ^ 32 - 4096 \<Longrightarrow>
      malloc h sz = Some (p, h') \<Longrightarrow> p \<noteq> 0 \<Longrightarrow>
      inv h' \<and> live h' = insert (p, blocks_for sz) (live h) \<and> (p, blocks_for sz) \<notin> live h \<and>
      room h = room h' + blocks_for sz"
    and malloc_null: "0 < sz \<Longrightarrow> unat sz \<le> 2 ^ 32 - 4096 \<Longrightarrow>
      inv h \<Longrightarrow> malloc h sz = Some (0, h') \<Longrightarrow> h' = h"
    and malloc_block: "inv h \<Longrightarrow> 0 < sz \<Longrightarrow> unat sz \<le> 4096 \<Longrightarrow> 0 < room h \<Longrightarrow>
      \<exists>p h'. malloc h sz = Some (p, h') \<and> p \<noteq> 0"
    and release_live: "inv h \<Longrightarrow> (p, n) \<in> live h \<Longrightarrow>
      inv (release h p) \<and> live (release h p) = live h - {(p, n)} \<and>
      room (release h p) = room h + n"
    and live_page: "inv h \<Longrightarrow> (p, n) \<in> live h \<Longrightarrow>
      page_aligned p \<and> p \<noteq> 0 \<and> 0 < n \<and> page_of p + n \<le> 2 ^ 20"
    and live_disjoint: "inv h \<Longrightarrow> (p, n) \<in> live h \<Longrightarrow> (q, l) \<in> live h \<Longrightarrow>
      (p, n) = (q, l) \<or> page_of p + n \<le> page_of q \<or> page_of q + l \<le> page_of p"
begin

lemma blocks_for_one: "0 < sz \<Longrightarrow> unat sz \<le> 4096 \<Longrightarrow> blocks_for sz = 1"
  unfolding blocks_for_def by (intro div_nat_eqI) (simp_all add: word_less_nat_alt)

text \<open>A request of at most one block: a fresh page, and one block less.\<close>

lemma malloc_page:
  assumes "inv h" "0 < sz" "unat sz \<le> 4096" "0 < room h"
  obtains p h' where "malloc h sz = Some (p, h')" "p \<noteq> 0" "page_aligned p" "inv h'"
    "live h' = insert (p, 1) (live h)" "room h = Suc (room h')"
    "\<And>q n. (q, n) \<in> live h \<Longrightarrow> page_of q + n \<le> page_of p \<or> page_of p < page_of q"
proof -
  obtain p h' where m: "malloc h sz = Some (p, h')" "p \<noteq> 0"
    using malloc_block [OF assms] by blast
  have "unat sz \<le> 2 ^ 32 - 4096" using assms(3) by simp
  note new = malloc_live [OF assms(1,2) this m, unfolded blocks_for_one [OF assms(2,3)]]
  show ?thesis
  proof (rule that [OF m])
    show "page_aligned p" using new live_page [of h' p 1] by simp
    show "page_of q + n \<le> page_of p \<or> page_of p < page_of q" if "(q, n) \<in> live h" for q n
      using new live_disjoint [of h' p 1 q n] that by auto
  qed (use new in auto)
qed

lemma release_malloc_live:
  assumes "inv h" "0 < sz" "unat sz \<le> 2 ^ 32 - 4096" "malloc h sz = Some (p, h')" "p \<noteq> 0"
  shows "live (release h' p) = live h"
  using malloc_live [OF assms] release_live [of h' p "blocks_for sz"] by simp

end

text \<open>The heap table implements the contract.\<close>

definition free_blocks :: "heap \<Rightarrow> nat" where
  "free_blocks h = length (filter is_free (entries (table h)))"

lemma filter_free_run [simp]: "filter is_free (run_entries n) = []"
  using run_entries_not_free by (auto simp: filter_empty_conv)

lemma free_blocks_put_run:
  assumes "heap_inv h" "free_run (entries (table h)) i n"
  shows "free_blocks h = free_blocks (put_run i n h) + n"
proof -
  have wf: "wf_entries (entries (table h))" using assms(1) by (simp add: heap_inv_def)
  obtain xs ys where "entries (table h) = xs @ replicate n 0 @ ys"
      "entries (table (put_run i n h)) = xs @ run_entries n @ ys"
    by (rule put_run_decomp [OF wf assms(2)])
  then show ?thesis by (simp add: free_blocks_def)
qed

lemma free_tail_append:
  "free_tail (xs @ ys) = (if \<forall>e \<in> set ys. is_free e then length ys + free_tail xs else free_tail ys)"
  by (induction ys rule: rev_induct) (auto simp flip: append_assoc)

lemma free_tail_put_run:
  assumes "heap_inv h" "\<exists>i. free_run (entries (table h)) i n" "0 < n"
  defines "i \<equiv> LEAST i. free_run (entries (table h)) i n"
  shows "free_tail (entries (table h)) \<le> free_tail (entries (table (put_run i n h))) + n"
proof -
  have run: "free_run (entries (table h)) i n" unfolding i_def using assms(2) by (rule LeastI_ex)
  have wf: "wf_entries (entries (table h))" using assms(1) by (simp add: heap_inv_def)
  obtain xs ys where d: "entries (table h) = xs @ replicate n 0 @ ys" "length xs = i"
      "entries (table (put_run i n h)) = xs @ run_entries n @ ys"
    by (rule put_run_decomp [OF wf run])
  have taken: "\<not> (\<forall>e \<in> set (run_entries n). is_free e)"
    using run_entries_not_free [of _ n] assms(3) by (cases n rule: run_entries.cases) auto
  have "free_tail xs = 0"
  proof (rule ccontr)
    assume *: "free_tail xs \<noteq> 0"
    then have ne: "xs \<noteq> []" by auto
    from * ne have "is_free (last xs)" by (cases xs rule: rev_cases) (auto split: if_splits)
    then have "free_run (entries (table h)) (i - 1) n"
      using d(1,2) ne assms(3)
      by (cases xs rule: rev_cases) (auto simp: free_run_def take_Cons' split: if_splits dest: in_set_takeD)
    moreover have "i - 1 < i" using d(2) ne by (cases xs) auto
    ultimately show False using not_less_Least [of "i - 1"] by (auto simp: i_def)
  qed
  then show ?thesis
    using d taken by (auto simp: free_tail_append)
qed

text \<open>The free tail gets shorter by at most the blocks that have been taken.\<close>

definition tail_keeps :: "heap \<Rightarrow> heap \<Rightarrow> bool" where
  "tail_keeps h h' \<longleftrightarrow>
     free_tail (entries (table h)) + free_blocks h' \<le> free_tail (entries (table h')) + free_blocks h"

lemma tail_keeps_refl [simp]: "tail_keeps h h"
  by (simp add: tail_keeps_def)

lemma tail_keeps_trans [trans]: "tail_keeps h h1 \<Longrightarrow> tail_keeps h1 h2 \<Longrightarrow> tail_keeps h h2"
  by (simp add: tail_keeps_def)

lemma heap_malloc_tail_keeps:
  assumes "heap_inv h" "0 < sz" "unat sz \<le> 2 ^ 32 - 4096" "heap_malloc h sz = Some (p, h')"
  shows "tail_keeps h h'"
proof (cases "\<exists>i. free_run (entries (table h)) i (blocks_for sz)")
  case True
  let ?i = "LEAST i. free_run (entries (table h)) i (blocks_for sz)"
  have h': "h' = put_run ?i (blocks_for sz) h"
    using True assms(4) by (simp add: heap_malloc_cases [OF assms(2,3)] Let_def)
  have "free_run (entries (table h)) ?i (blocks_for sz)" using True by (rule LeastI_ex)
  from free_blocks_put_run [OF assms(1) this] free_tail_put_run [OF assms(1) True blocks_for_pos [OF assms(2)]]
  show ?thesis by (simp add: tail_keeps_def h')
next
  case False
  then have "h' = h" using assms(4) by (auto simp: heap_malloc_cases [OF assms(2,3)] split: if_splits)
  then show ?thesis by simp
qed

lemma free_blocks_heap_free:
  assumes "heap_inv h" "(p, n) \<in> allocs h"
  shows "free_blocks (heap_free h p) = free_blocks h + n"
proof -
  obtain xs ys where d: "entries (table h) = xs @ run_entries n @ ys"
      "p = block_addr h (length xs)" "0 < n" "wf_entries xs" "wf_entries ys"
    by (rule allocs_decomp [OF assms])
  then show ?thesis
    using heap_free_run [OF assms(1) d(1,3)] by (simp add: free_blocks_def)
qed

lemma free_tail_heap_free:
  assumes "heap_inv h" "(p, n) \<in> allocs h"
  shows "free_tail (entries (table h)) \<le> free_tail (entries (table (heap_free h p)))"
proof -
  obtain xs ys where d: "entries (table h) = xs @ run_entries n @ ys"
      "p = block_addr h (length xs)" "0 < n" "wf_entries xs" "wf_entries ys"
    by (rule allocs_decomp [OF assms])
  have "\<not> (\<forall>e \<in> set (run_entries n). is_free e)"
    using run_entries_not_free [of _ n] d(3) by (cases n rule: run_entries.cases) auto
  then show ?thesis
    using heap_free_run [OF assms(1) d(1,3)] d(1,2) free_tail_le [of "run_entries n"]
    by (auto simp: free_tail_append)
qed

lemma heap_malloc_Some:
  assumes "0 < sz" "unat sz \<le> 2 ^ 32 - 4096" "heap_malloc h sz = Some (p, h')"
  shows "p = 0 \<and> h' = h \<or>
    (\<exists>i. free_run (entries (table h)) i (blocks_for sz) \<and>
       p = block_addr h i \<and> h' = put_run i (blocks_for sz) h)"
proof (cases "\<exists>i. free_run (entries (table h)) i (blocks_for sz)")
  case True
  then have "free_run (entries (table h)) (LEAST i. free_run (entries (table h)) i (blocks_for sz))
      (blocks_for sz)"
    by (rule LeastI_ex)
  with True assms show ?thesis
    by (auto simp: heap_malloc_cases Let_def)
next
  case False
  with assms show ?thesis
    by (auto simp: heap_malloc_cases split: if_splits)
qed

lemma heap_malloc_live:
  assumes "heap_inv h" "0 < sz" "unat sz \<le> 2 ^ 32 - 4096" "heap_malloc h sz = Some (p, h')" "p \<noteq> 0"
  shows "heap_inv h' \<and> allocs h' = insert (p, blocks_for sz) (allocs h) \<and>
    (p, blocks_for sz) \<notin> allocs h \<and> free_blocks h = free_blocks h' + blocks_for sz"
proof -
  note pos = blocks_for_pos [OF assms(2)]
  obtain i where i: "free_run (entries (table h)) i (blocks_for sz)" "p = block_addr h i"
      "h' = put_run i (blocks_for sz) h"
    using heap_malloc_Some [OF assms(2-4)] assms(5) by blast
  note inv = put_run_inv [OF assms(1) i(1) pos]
  have "(p, blocks_for sz) \<notin> allocs h"
  proof
    assume "(p, blocks_for sz) \<in> allocs h"
    then obtain xs ys where d: "entries (table h) = xs @ run_entries (blocks_for sz) @ ys"
        "p = block_addr h (length xs)"
      using allocs_decomp [OF assms(1)] by metis
    then have "i = length xs"
      using i(2) free_run_bound [OF i(1)] pos
      by (simp add: block_addr_inject [OF assms(1)] total_def)
    with i(1) d(1) have "\<forall>e \<in> set (run_entries (blocks_for sz)). is_free e"
      by (simp add: free_run_def)
    with pos show False
      using run_entries_not_free by (metis length_run_entries nth_mem)
  qed
  then show ?thesis
    using inv allocs_put_run [OF assms(1) i(1) pos] free_blocks_put_run [OF assms(1) i(1)] i
    by simp
qed

lemma heap_malloc_block:
  assumes "heap_inv h" "0 < sz" "unat sz \<le> 4096" "0 < free_blocks h"
  shows "\<exists>p h'. heap_malloc h sz = Some (p, h') \<and> p \<noteq> 0"
proof -
  let ?es = "entries (table h)"
  have one: "blocks_for sz = 1"
    using assms(2,3) unfolding blocks_for_def
    by (intro div_nat_eqI) (simp_all add: word_less_nat_alt)
  obtain i where "i < length ?es" "is_free (?es ! i)"
    using assms(4) by (auto simp: free_blocks_def filter_empty_conv in_set_conv_nth)
  then have "free_run ?es i 1"
    by (simp add: free_run_def take_Suc hd_drop_conv_nth)
  then have ex: "\<exists>i. free_run ?es i (blocks_for sz)" by (auto simp: one)
  then have least: "free_run ?es (LEAST i. free_run ?es i (blocks_for sz)) (blocks_for sz)"
    by (rule LeastI_ex)
  have "unat sz \<le> 2 ^ 32 - 4096" using assms(3) by simp
  then show ?thesis
    using ex block_addr_not_null [OF assms(1)] free_run_bound [OF least]
    by (simp add: heap_malloc_cases assms(2) Let_def one total_def)
qed

interpretation kheap: block_allocator heap_inv allocs free_blocks heap_malloc heap_free
proof unfold_locales
  fix h sz p h'
  assume "heap_inv h" "0 < sz" "unat sz \<le> 2 ^ 32 - 4096" "heap_malloc h sz = Some (p, h')" "p \<noteq> 0"
  then show "heap_inv h' \<and> allocs h' = insert (p, blocks_for sz) (allocs h) \<and>
      (p, blocks_for sz) \<notin> allocs h \<and> free_blocks h = free_blocks h' + blocks_for sz"
    by (rule heap_malloc_live)
next
  fix h sz h'
  assume "0 < sz" "unat sz \<le> 2 ^ 32 - 4096" "heap_inv h" "heap_malloc h sz = Some (0, h')"
  then show "h' = h"
    using heap_malloc_Some [of sz h 0 h'] blocks_for_pos [of sz] block_addr_not_null [of h]
    by (metis add_leD1 free_run_bound less_add_same_cancel1 order_less_le_trans total_def)
next
  fix h p n
  assume "heap_inv h" "(p, n) \<in> allocs h"
  moreover have "(unat (start_address h) + 4096 * total (table h)) div 4096 \<le> 2 ^ 32 div 4096"
    using \<open>heap_inv h\<close> by (intro div_le_mono) (simp add: heap_inv_def)
  ultimately have "page_of p + n \<le> 2 ^ 20"
    using allocs_range(5) [of h p n] by (simp add: page_of_def)
  then show "page_aligned p \<and> p \<noteq> 0 \<and> 0 < n \<and> page_of p + n \<le> 2 ^ 20"
    using allocs_range [OF \<open>heap_inv h\<close> \<open>(p, n) \<in> allocs h\<close>] by blast
next
  fix h and sz :: u32
  assume "heap_inv h" "0 < sz" "unat sz \<le> 4096" "0 < free_blocks h"
  then show "\<exists>p h'. heap_malloc h sz = Some (p, h') \<and> p \<noteq> 0"
    by (rule heap_malloc_block)
next
  fix h p n
  assume "heap_inv h" "(p, n) \<in> allocs h"
  then show "heap_inv (heap_free h p) \<and> allocs (heap_free h p) = allocs h - {(p, n)} \<and>
      free_blocks (heap_free h p) = free_blocks h + n"
    using heap_free_inv free_blocks_heap_free by simp
next
  fix h p n q l
  assume "heap_inv h" "(p, n) \<in> allocs h" "(q, l) \<in> allocs h"
  then show "(p, n) = (q, l) \<or> page_of p + n \<le> page_of q \<or> page_of q + l \<le> page_of p"
    by (rule allocs_disjoint)
qed

section \<open>Requests for zero blocks\<close>

text \<open>
  A request of 0 bytes, or of more than \<open>0xFFFFF000\<close> bytes, rounds to 0 blocks: nothing is
  marked and the table is unchanged, whatever address is returned.
\<close>

lemma heap_align_wraps:
  assumes "2 ^ 32 - 4096 < unat sz"
  shows "heap_align_value_to_upper sz = 0"
proof -
  obtain r where "0 < r" "2 ^ 32 - 4096 + r = unat sz"
    using less_imp_add_positive [OF assms] by blast
  then have r: "unat sz = 4096 * 1048575 + r" "0 < r" by simp_all
  have r3: "r < 4096"
    using r(1) unat_lt_u32 [of sz] by linarith
  have mod: "unat sz mod 4096 = r"
    using r3 by (simp only: r(1) mod_mult_self4 mod_less)
  have "sz mod 4096 = of_nat r"
    using mod r3 by (simp add: word_unat_eq_iff unat_mod_distrib unat_of_nat take_bit_nat_eq_self)
  moreover have "(of_nat (unat sz) :: u32) = of_nat (4096 * 1048575 + r)"
    using r(1) by (simp only:)
  then have "sz = 4294963200 + of_nat r" by simp
  moreover have "(of_nat r :: u32) \<noteq> 0"
    using r r3 by (simp add: word_unat_eq_iff unat_of_nat take_bit_nat_eq_self)
  ultimately show ?thesis
    by (simp add: heap_align_value_to_upper_def)
qed

lemma heap_mark_blocks_taken_0: "heap_mark_blocks_taken h i 0 = Some h"
  by (simp add: heap_mark_blocks_taken_def heap_mark_blocks_taken_loop.simps)

lemma heap_malloc_zero_blocks:
  assumes "sz = 0 \<or> 2 ^ 32 - 4096 < unat sz"
  shows "\<exists>p. heap_malloc h sz = Some (p, h)"
proof -
  have "heap_align_value_to_upper sz div 4096 = 0"
    using assms heap_align_wraps [of sz] by (elim disjE) (simp_all add: heap_align_value_to_upper_def)
  then show ?thesis
    by (simp add: heap_malloc_def heap_malloc_blocks_def heap_mark_blocks_taken_0 Let_def)
qed

section \<open>Reachable heaps\<close>

text \<open>
  The heaps a kernel can reach from a fresh one by any sequence of requests of any size that
  return, and of releases of live regions.
\<close>

inductive heap_reachable :: "heap \<Rightarrow> heap \<Rightarrow> bool" for h0 where
  reach_start: "heap_reachable h0 h0"
| reach_malloc: "heap_reachable h0 h \<Longrightarrow> heap_malloc h sz = Some (p, h') \<Longrightarrow> heap_reachable h0 h'"
| reach_free: "heap_reachable h0 h \<Longrightarrow> (p, n) \<in> allocs h \<Longrightarrow> heap_reachable h0 (heap_free h p)"

lemma heap_malloc_preserves_inv:
  assumes "heap_inv h" "heap_malloc h sz = Some (p, h')"
  shows "heap_inv h'"
proof (cases "sz = 0 \<or> 2 ^ 32 - 4096 < unat sz")
  case True
  then show ?thesis
    using heap_malloc_zero_blocks [of sz h] assms by auto
next
  case False
  then have sz: "0 < sz" "unat sz \<le> 2 ^ 32 - 4096" by (auto simp: word_neq_0_conv)
  then show ?thesis
    using kheap.malloc_live [OF assms(1) sz assms(2)] heap_malloc_Some [OF sz assms(2)] assms(1)
    by (cases "p = 0") (auto dest: put_run_inv blocks_for_pos)
qed

lemma heap_reachable_inv: "heap_reachable h0 h \<Longrightarrow> heap_inv h0 \<Longrightarrow> heap_inv h"
  by (induction rule: heap_reachable.induct)
     (auto intro: heap_malloc_preserves_inv heap_free_inv(1))

lemma heap_inv_fresh:
  assumes "page_aligned (start_address h)" "0 < unat (start_address h)"
    "unat (start_address h) + 4096 * n \<le> 2 ^ 32" "4096 * n < 2 ^ 31"
    "entries (table h) = replicate n 0"
  shows "heap_inv h"
  using assms wf_entries_replicate_free [of n] by (simp add: heap_inv_def total_def)

section \<open>Properties\<close>

text \<open>
  C2. What \<open>heap_malloc\<close> hands out is fresh: for a request of at least one byte that does
  not wrap when it is rounded, a non-null result is page aligned, shares no page with any
  region that is allocated, is added to the allocated regions with the rounded number of
  blocks, and the table stays well formed.
\<close>

theorem heap_malloc_fresh:
  assumes "heap_inv h" "0 < sz" "unat sz \<le> 2 ^ 32 - 4096" "heap_malloc h sz = Some (p, h')" "p \<noteq> 0"
  shows "heap_inv h' \<and> allocs h' = insert (p, blocks_for sz) (allocs h) \<and> page_aligned p \<and>
    (\<forall>(q, n) \<in> allocs h. page_of q + n \<le> page_of p \<or> page_of p + blocks_for sz \<le> page_of q)"
proof -
  note new = kheap.malloc_live [OF assms]
  have "page_of q + n \<le> page_of p \<or> page_of p + blocks_for sz \<le> page_of q"
    if "(q, n) \<in> allocs h" for q n
    using new kheap.live_disjoint [of h' p "blocks_for sz" q n] that by auto
  then show ?thesis
    using new kheap.live_page [of h' p "blocks_for sz"] by auto
qed

definition small_heap :: heap where
  "small_heap = \<lparr>table = \<lparr>entries = [0x41, 0, 0, 0]\<rparr>, start_address = 0x01000000\<rparr>"

lemma heap_inv_small: "heap_inv small_heap"
proof -
  have "wf_entries ([0x41] @ replicate 3 0)"
    using wf_Run [of 1 "replicate 3 0"] wf_entries_replicate_free by simp
  then show ?thesis
    by (simp add: heap_inv_def small_heap_def total_def page_aligned_def numeral_3_eq_3)
qed

lemma heap_malloc_small: "heap_malloc small_heap 5000 =
  Some (0x01001000, small_heap\<lparr>table := \<lparr>entries = [0x41, 0xC1, 0x01, 0]\<rparr>\<rparr>)"
  by (simp add: heap_malloc_def heap_malloc_blocks_def small_heap_def heap_get_start_block_def
      heap_get_entry_type_def heap_align_value_to_upper_def heap_block_to_address_def
      heap_mark_blocks_taken_def heap_mark_blocks_taken_loop.simps Let_def)

theorem heap_malloc_fresh_witness:
  "allocs (small_heap\<lparr>table := \<lparr>entries = [0x41, 0xC1, 0x01, 0]\<rparr>\<rparr>)
     = insert (0x01001000, 2) (allocs small_heap)"
  using heap_malloc_fresh [OF heap_inv_small _ _ heap_malloc_small] by (simp add: blocks_for_def)

text \<open>
  C22. \<open>heap_malloc\<close> is first fit, on every branch: the lowest run of free blocks that is long
  enough is marked and its address returned. When no run fits, the answer is the null pointer
  and an unchanged heap if the last block of the table is taken; but if the table ends in free
  blocks, the search returns the start of that too short tail and marking it writes outside
  the table, so the call has no defined result.
\<close>

theorem heap_malloc_first_fit:
  assumes "0 < sz" "unat sz \<le> 2 ^ 32 - 4096"
  shows "heap_malloc h sz =
    (if \<exists>i. free_run (entries (table h)) i (blocks_for sz)
     then let i = LEAST i. free_run (entries (table h)) i (blocks_for sz)
          in Some (block_addr h i, put_run i (blocks_for sz) h)
     else if free_tail (entries (table h)) = 0 then Some (0, h)
     else None)"
  using assms by (rule heap_malloc_cases)

theorem heap_malloc_first_fit_witness: "heap_malloc small_heap 16384 = None"
proof -
  have "\<not> (\<exists>i. free_run (entries (table small_heap)) i (blocks_for 16384))"
  proof
    assume "\<exists>i. free_run (entries (table small_heap)) i (blocks_for 16384)"
    then obtain i where "free_run (entries (table small_heap)) i 4"
      by (auto simp: blocks_for_def)
    then show False
      by (auto simp: free_run_def small_heap_def is_free_def heap_get_entry_type_def)
  qed
  moreover have "free_tail (entries (table small_heap)) \<noteq> 0"
    by (simp add: small_heap_def free_tail_def)
  ultimately show ?thesis
    by (subst heap_malloc_first_fit) simp_all
qed

text \<open>
  C25. Releasing a live region keeps the table well formed, removes exactly that region from
  the allocated ones and gives its blocks back.
\<close>

theorem heap_free_releases:
  assumes "heap_inv h" "(p, n) \<in> allocs h"
  shows "heap_inv (heap_free h p) \<and> allocs (heap_free h p) = allocs h - {(p, n)} \<and>
    free_blocks (heap_free h p) = free_blocks h + n"
  using kheap.release_live [OF assms] .

theorem heap_free_releases_witness: "allocs (heap_free small_heap 0x01000000) = {}"
proof -
  have "allocs small_heap = {(0x01000000, 1)}"
    by (simp add: allocs_def small_heap_def block_addr_def)
  then show ?thesis
    using heap_free_releases [OF heap_inv_small, of "0x01000000" 1] by simp
qed

lemma heap_malloc_free_restores:
  assumes "heap_inv h" "0 < sz" "unat sz \<le> 2 ^ 32 - 4096" "heap_malloc h sz = Some (p, h')" "p \<noteq> 0"
  shows "heap_free h' p = h"
proof -
  note pos = blocks_for_pos [OF assms(2)]
  have wf: "wf_entries (entries (table h))" using assms(1) by (simp add: heap_inv_def)
  obtain i where i: "free_run (entries (table h)) i (blocks_for sz)" "p = block_addr h i"
      "h' = put_run i (blocks_for sz) h"
    using heap_malloc_Some [OF assms(2-4)] assms(5) by blast
  obtain xs ys where d: "entries (table h) = xs @ replicate (blocks_for sz) 0 @ ys" "length xs = i"
      "entries (table (put_run i (blocks_for sz) h)) = xs @ run_entries (blocks_for sz) @ ys"
    by (rule put_run_decomp [OF wf i(1)])
  have "heap_free h' p =
      h'\<lparr>table := (table h')\<lparr>entries := xs @ replicate (blocks_for sz) 0 @ ys\<rparr>\<rparr>"
    using heap_free_run [OF put_run_inv [OF assms(1) i(1) pos] d(3) pos] i(2,3) d(2) by simp
  also have "\<dots> = h"
    by (simp add: i(3) put_run_def flip: d(1))
  finally show ?thesis .
qed

text \<open>
  C24. Round trip: releasing what \<open>heap_malloc\<close> has just returned restores the very same heap,
  table and all.
\<close>

theorem heap_malloc_free_roundtrip:
  assumes "heap_inv h" "0 < sz" "unat sz \<le> 2 ^ 32 - 4096" "heap_malloc h sz = Some (p, h')" "p \<noteq> 0"
  shows "heap_free h' p = h"
  by (rule heap_malloc_free_restores [OF assms])

theorem heap_malloc_free_roundtrip_witness:
  "heap_free (small_heap\<lparr>table := \<lparr>entries = [0x41, 0xC1, 0x01, 0]\<rparr>\<rparr>) 0x01001000 = small_heap"
  using heap_malloc_free_roundtrip [OF heap_inv_small _ _ heap_malloc_small] by simp

text \<open>
  C23. In every heap that requests of any size and releases of live regions can reach from a
  well formed one, the allocated regions are page aligned, non-null, inside the heap
  region, and pairwise without a common page.
\<close>

theorem heap_reachable_regions:
  assumes "heap_inv h0" "heap_reachable h0 h" "(p, n) \<in> allocs h" "(q, l) \<in> allocs h"
  shows "page_aligned p \<and> p \<noteq> 0 \<and> page_of (start_address h) \<le> page_of p \<and>
    page_of p + n \<le> page_of (start_address h) + total (table h) \<and>
    ((p, n) = (q, l) \<or> page_of p + n \<le> page_of q \<or> page_of q + l \<le> page_of p)"
proof -
  have "heap_inv h" using heap_reachable_inv [OF assms(2,1)] .
  then show ?thesis
    using allocs_range [OF _ assms(3)] allocs_disjoint [OF _ assms(3,4)] by blast
qed

theorem heap_reachable_regions_witness:
  "heap_reachable small_heap (small_heap\<lparr>table := \<lparr>entries = [0x41, 0xC1, 0x01, 0]\<rparr>\<rparr>) \<and>
   page_of 0x01000000 + 1 \<le> page_of 0x01001000"
proof -
  let ?h = "small_heap\<lparr>table := \<lparr>entries = [0x41, 0xC1, 0x01, 0]\<rparr>\<rparr>"
  have reach: "heap_reachable small_heap ?h"
    using reach_malloc [OF reach_start heap_malloc_small] .
  have "allocs ?h = {(0x01000000, 1), (0x01001000, 2)}"
    by (simp add: allocs_def small_heap_def block_addr_def, simp add: numeral_2_eq_2)
  then have "page_of 0x01000000 + 1 \<le> page_of 0x01001000 \<or> page_of 0x01001000 + 2 \<le> page_of 0x01000000"
    using heap_reachable_regions [OF heap_inv_small reach, of "0x01000000" 1 "0x01001000" 2] by simp
  with reach show ?thesis by (simp add: page_of_def)
qed

text \<open>
  \<open>heap_create\<close> rejects an unaligned region and leaves the heap alone; on an aligned one
  it always clears the table and answers 0 when the table has one entry per block and 1 when
  it has not: the size check is never reported as an error.
\<close>

theorem heap_create_result:
  "heap_create h ptr end_ptr t =
    (if unat ptr mod 4096 = 0 \<and> unat end_ptr mod 4096 = 0
     then (if total t = unat (end_ptr - ptr) div 4096 then 0 else 1,
           \<lparr>table = t\<lparr>entries := replicate (total t) 0\<rparr>, start_address = ptr\<rparr>)
     else (- INVALID_ARGUMENT_ERROR, h))"
proof -
  have "x mod 4096 = 0 \<longleftrightarrow> unat x mod 4096 = 0" for x :: addr
    by (simp add: word_unat_eq_iff unat_mod_distrib)
  then show ?thesis
    by (simp add: heap_create_def heap_validate_alignment_def heap_validate_table_def
        unat_div_distrib Let_def)
qed

end
