(* ===== verification/Machine.thy ===== *)
theory Machine
  imports Memory
begin

text \<open>
  The machine the kernel runs on: physical memory and the I/O ports of
  \<^verbatim>\<open>src/src/io/io.h\<close>. The hardware behind the ports is not part of the repository; it is
  the field \<open>device\<close>, an arbitrary function that answers a port read from the history of
  port accesses. Every access is recorded in \<open>io_log\<close>, newest first. The state of every
  later component extends this record.
\<close>

datatype io_event = Out8 u16 byte | In8 u16 | In16 u16

record machine =
  mem :: memory
  device :: "io_event list \<Rightarrow> u16 \<Rightarrow> u16"
  io_log :: "io_event list"

definition outb :: "u16 \<Rightarrow> byte \<Rightarrow> 'a machine_scheme \<Rightarrow> 'a machine_scheme" where
  "outb port val s = s\<lparr>io_log := Out8 port val # io_log s\<rparr>"

text \<open>\<open>outw\<close> takes a word but writes its low byte only; the kernel never calls it.\<close>

definition outw :: "u16 \<Rightarrow> u16 \<Rightarrow> 'a machine_scheme \<Rightarrow> 'a machine_scheme" where
  "outw port val s = s\<lparr>io_log := Out8 port (ucast val) # io_log s\<rparr>"

definition insb :: "u16 \<Rightarrow> 'a machine_scheme \<Rightarrow> byte \<times> 'a machine_scheme" where
  "insb port s = (ucast (device s (io_log s) port), s\<lparr>io_log := In8 port # io_log s\<rparr>)"

definition insw :: "u16 \<Rightarrow> 'a machine_scheme \<Rightarrow> u16 \<times> 'a machine_scheme" where
  "insw port s = (device s (io_log s) port, s\<lparr>io_log := In16 port # io_log s\<rparr>)"

lemma machine_io_frame [simp]:
  "mem (outb port val s) = mem s" "device (outb port val s) = device s"
  "mem (snd (insb port s)) = mem s" "device (snd (insb port s)) = device s"
  "mem (snd (insw port s)) = mem s" "device (snd (insw port s)) = device s"
  by (simp_all add: outb_def insb_def insw_def)

end
