(* ===== verification/Strings.thy ===== *)
theory Strings
  imports Memory
begin

text \<open>
  The string routines of \<^verbatim>\<open>src/src/string/string.c\<close> over byte addressed memory. The loops
  that stop only at a terminator (\<open>strlen\<close>, \<open>strcpy\<close>) may run forever and are partial;
  the loops with a count are total. \<open>cstring m p bs\<close> says that the bytes \<open>bs\<close> and then
  a terminator are stored at \<open>p\<close>; the lemmas give the result of every routine on such
  strings.
\<close>

section \<open>Definitions\<close>

text \<open>\<^verbatim>\<open>while (str[len++]);\<close>\<close>

partial_function (option) strlen_loop :: "memory \<Rightarrow> addr \<Rightarrow> u32 \<Rightarrow> u32 option" where
  "strlen_loop m str len =
     (if m (str + len) \<noteq> 0 then strlen_loop m str (len + 1) else Some (len + 1))"

definition strlen :: "memory \<Rightarrow> addr \<Rightarrow> u32 option" where
  "strlen m str = strlen_loop m str 0"

text \<open>\<^verbatim>\<open>while (str[len++] && max--);\<close>\<close>

function strnlen_loop :: "memory \<Rightarrow> addr \<Rightarrow> u32 \<Rightarrow> u32 \<Rightarrow> u32" where
  "strnlen_loop m str mx len =
     (if m (str + len) \<noteq> 0 \<and> mx \<noteq> 0 then strnlen_loop m str (mx - 1) (len + 1) else len + 1)"
  by pat_completeness auto
termination
  by (relation "measure (\<lambda>(m, str, mx, len). unat mx)") (auto simp: unat_minus_one unat_gt_0)

definition strnlen :: "memory \<Rightarrow> addr \<Rightarrow> u32 \<Rightarrow> u32" where
  "strnlen m str mx = strnlen_loop m str mx 0"

definition is_digit :: "byte \<Rightarrow> bool" where
  "is_digit c \<longleftrightarrow> 48 \<le> sint c \<and> sint c \<le> 57"

definition to_numeric_digit :: "byte \<Rightarrow> int" where
  "to_numeric_digit c = sint c - 48"

text \<open>\<^verbatim>\<open>while(*src) { *dest = *src; src++; dest++; } *dest = 0x00;\<close>\<close>

partial_function (option) strcpy :: "addr \<Rightarrow> addr \<Rightarrow> memory \<Rightarrow> memory option" where
  "strcpy dest src m =
     (if m src \<noteq> 0 then strcpy (dest + 1) (src + 1) (m(dest := m src))
      else Some (m(dest := 0)))"

text \<open>
  \<^verbatim>\<open>for (i = 0; i < count - 1; i++) { if (src[i] == 0x00) break; dest[i] = src[i]; }
  dest[i] = 0x00;\<close>
\<close>

function strncpy_loop :: "addr \<Rightarrow> addr \<Rightarrow> int \<Rightarrow> nat \<Rightarrow> memory \<Rightarrow> memory" where
  "strncpy_loop dest src count i m =
     (if int i < count - 1 \<and> m (src + of_nat i) \<noteq> 0
      then strncpy_loop dest src count (Suc i) (m(dest + of_nat i := m (src + of_nat i)))
      else m(dest + of_nat i := 0))"
  by pat_completeness auto
termination
  by (relation "measure (\<lambda>(dest, src, count, i, m). nat (count - 1 - int i))") auto

definition strncpy :: "addr \<Rightarrow> addr \<Rightarrow> int \<Rightarrow> memory \<Rightarrow> memory" where
  "strncpy dest src count m = strncpy_loop dest src count 0 m"

function strnlen_terminator_loop :: "memory \<Rightarrow> addr \<Rightarrow> int \<Rightarrow> byte \<Rightarrow> int \<Rightarrow> int" where
  "strnlen_terminator_loop m str mx terminator i =
     (if i < mx \<and> \<not> (m (str + word_of_int i) = 0 \<or> m (str + word_of_int i) = terminator)
      then strnlen_terminator_loop m str mx terminator (i + 1) else i)"
  by pat_completeness auto
termination
  by (relation "measure (\<lambda>(m, str, mx, terminator, i). nat (mx - i))") auto

definition strnlen_terminator :: "memory \<Rightarrow> addr \<Rightarrow> int \<Rightarrow> byte \<Rightarrow> int" where
  "strnlen_terminator m str mx terminator = strnlen_terminator_loop m str mx terminator 0"

definition tolower :: "byte \<Rightarrow> byte" where
  "tolower s1 = (if 64 \<le> sint s1 \<and> sint s1 \<le> 90 then s1 + 32 else s1)"

function istrncmp :: "memory \<Rightarrow> addr \<Rightarrow> addr \<Rightarrow> u32 \<Rightarrow> int" where
  "istrncmp m str1 str2 n =
     (if n = 0 then 0
      else let u1 = m str1; u2 = m str2
           in if u1 \<noteq> u2 \<and> tolower u1 \<noteq> tolower u2 then uint u1 - uint u2
              else if u1 = 0 then 0
              else istrncmp m (str1 + 1) (str2 + 1) (n - 1))"
  by pat_completeness auto
termination
  by (relation "measure (\<lambda>(m, str1, str2, n). unat n)") (auto simp: unat_minus_one unat_gt_0)

function strncmp :: "memory \<Rightarrow> addr \<Rightarrow> addr \<Rightarrow> u32 \<Rightarrow> int" where
  "strncmp m str1 str2 n =
     (if n = 0 then 0
      else let u1 = m str1; u2 = m str2
           in if u1 \<noteq> u2 then uint u1 - uint u2
              else if u1 = 0 then 0
              else strncmp m (str1 + 1) (str2 + 1) (n - 1))"
  by pat_completeness auto
termination
  by (relation "measure (\<lambda>(m, str1, str2, n). unat n)") (auto simp: unat_minus_one unat_gt_0)

declare strnlen_loop.simps [simp del] strncpy_loop.simps [simp del]
  strnlen_terminator_loop.simps [simp del] istrncmp.simps [simp del] strncmp.simps [simp del]

text \<open>A terminated string in memory.\<close>

fun cstring :: "memory \<Rightarrow> addr \<Rightarrow> byte list \<Rightarrow> bool" where
  "cstring m p [] \<longleftrightarrow> m p = 0"
| "cstring m p (b # bs) \<longleftrightarrow> m p = b \<and> b \<noteq> 0 \<and> cstring m (p + 1) bs"

section \<open>Terminated strings\<close>

lemma cstring_nth: "cstring m p bs \<Longrightarrow> i < length bs \<Longrightarrow> m (p + of_nat i) = bs ! i \<and> bs ! i \<noteq> 0"
proof (induction bs arbitrary: p i)
  case (Cons b bs)
  then show ?case by (cases i) (auto simp: add.assoc [symmetric])
qed simp

lemma cstring_end: "cstring m p bs \<Longrightarrow> m (p + of_nat (length bs)) = 0"
  by (induction bs arbitrary: p) (auto simp: add.assoc [symmetric])

lemma cstringI:
  assumes "\<And>i. i < length bs \<Longrightarrow> m (p + of_nat i) = bs ! i" "0 \<notin> set bs"
    "m (p + of_nat (length bs)) = 0"
  shows "cstring m p bs"
  using assms
proof (induction bs arbitrary: p)
  case (Cons b bs)
  have "m (p + 1 + of_nat i) = bs ! i" if "i < length bs" for i
    using Cons.prems(1) [of "Suc i"] that by (simp add: add.assoc [symmetric])
  moreover have "m p = b" using Cons.prems(1) [of 0] by simp
  ultimately show ?case
    using Cons by (auto simp: add.assoc [symmetric])
qed simp

lemma cstring_no_zero: "cstring m p bs \<Longrightarrow> 0 \<notin> set bs"
  by (induction bs arbitrary: p) auto

lemma cstring_head_zero: "cstring m p bs \<Longrightarrow> m p = 0 \<Longrightarrow> bs = []"
  by (cases bs) auto

lemma cstring_head:
  "cstring m p bs \<Longrightarrow> m p \<noteq> 0 \<Longrightarrow> \<exists>cs. bs = m p # cs \<and> cstring m (p + 1) cs"
  by (cases bs) auto

lemma cstring_unique: "cstring m p bs \<Longrightarrow> cstring m p cs \<Longrightarrow> bs = cs"
proof (induction bs arbitrary: p cs)
  case Nil
  then show ?case by (cases cs) auto
next
  case (Cons b bs)
  then show ?case by (cases cs) auto
qed

section \<open>strlen and strnlen\<close>

lemma strlen_loop_cstring:
  "cstring m (p + of_nat k) bs \<Longrightarrow> strlen_loop m p (of_nat k) = Some (of_nat (k + length bs) + 1)"
proof (induction bs arbitrary: k)
  case Nil
  then show ?case by (subst strlen_loop.simps) simp
next
  case (Cons b bs)
  then have "cstring m (p + of_nat (Suc k)) bs"
    by (simp add: algebra_simps)
  from Cons.IH [OF this] Cons.prems show ?case
    by (subst strlen_loop.simps) (auto simp: algebra_simps)
qed

lemma strlen_cstring: "cstring m p bs \<Longrightarrow> strlen m p = Some (of_nat (length bs) + 1)"
  using strlen_loop_cstring [of m p 0 bs] by (simp add: strlen_def)

lemma strlen_loop_terminator:
  assumes ret: "strlen_loop m str len = Some r"
  shows "m (str + (r - 1)) = 0"
proof (rule strlen_loop.raw_induct [where P = "\<lambda>m str len r. m (str + (r - 1)) = 0", OF _ ret])
  fix f :: "memory \<Rightarrow> addr \<Rightarrow> u32 \<Rightarrow> u32 option" and m str len r
  assume IH: "\<And>m str len r. f m str len = Some r \<Longrightarrow> m (str + (r - 1)) = 0"
    and eq: "(if m (str + len) \<noteq> 0 then f m str (len + 1) else Some (len + 1)) = Some r"
  show "m (str + (r - 1)) = 0"
    using eq IH by (auto split: if_splits)
qed

lemma strnlen_loop_cstring:
  assumes "cstring m (p + of_nat k) bs"
  shows "strnlen_loop m p mx (of_nat k) = of_nat (k + min (length bs) (unat mx)) + 1"
  using assms
proof (induction bs arbitrary: k mx)
  case Nil
  then show ?case by (subst strnlen_loop.simps) simp
next
  case (Cons b bs)
  show ?case
  proof (cases "mx = 0")
    case True
    then show ?thesis by (subst strnlen_loop.simps) simp
  next
    case False
    note step = unat_step [OF this]
    have "cstring m (p + of_nat (Suc k)) bs"
      using Cons.prems by (simp add: algebra_simps)
    from Cons.IH [OF this, of "mx - 1"] Cons.prems False show ?thesis
      by (subst strnlen_loop.simps) (auto simp: step algebra_simps)
  qed
qed

lemma strnlen_cstring:
  "cstring m p bs \<Longrightarrow> strnlen m p mx = of_nat (min (length bs) (unat mx)) + 1"
  using strnlen_loop_cstring [of m p 0 bs mx] by (simp add: strnlen_def)

section \<open>strcpy and strncpy\<close>

lemma cstring_upd_outside:
  assumes "cstring m p bs" "length bs < unat (d - p)"
  shows "cstring (m(d := b)) p bs"
  using assms
proof (induction bs arbitrary: p)
  case Nil
  then show ?case by auto
next
  case (Cons c bs)
  have "d - p \<noteq> 0" using Cons.prems(2) by auto
  from unat_step [OF this] have "unat (d - p) = Suc (unat (d - (p + 1)))"
    by (simp add: algebra_simps)
  with Cons show ?case by auto
qed

lemma strcpy_cstring:
  assumes "cstring m src bs" "dest = src \<or> length bs < unat (dest - src)" "length bs < 2 ^ 32"
  shows "strcpy dest src m = Some (write_bytes dest (bs @ [0]) m)"
  using assms
proof (induction bs arbitrary: dest src m)
  case Nil
  then show ?case
    using write_bytes_snoc [of "[]" dest m 0] by (subst strcpy.simps) simp
next
  case (Cons b bs)
  let ?m = "m(dest := b)"
  have shift: "dest + 1 - (src + 1) = dest - src" by simp
  have "cstring ?m (src + 1) bs"
  proof (cases "dest = src")
    case True
    have "unat (dest - (src + 1)) = 4294967295" using True by (simp add: unat_minus_1_u32)
    with Cons.prems show ?thesis by (intro cstring_upd_outside) auto
  next
    case False
    then have "dest - src \<noteq> 0" by simp
    from unat_step [OF this] have "unat (dest - src) = Suc (unat (dest - (src + 1)))"
      by (simp add: algebra_simps)
    with Cons.prems False show ?thesis by (intro cstring_upd_outside) auto
  qed
  then have "strcpy (dest + 1) (src + 1) ?m = Some (write_bytes (dest + 1) (bs @ [0]) ?m)"
    by (rule Cons.IH) (use Cons.prems(2,3) shift in auto)
  moreover have "write_bytes (dest + 1) (bs @ [0]) ?m = write_bytes dest ((b # bs) @ [0]) m"
    using write_bytes_append [of "[b]" "bs @ [0]" dest m] write_bytes_snoc [of "[]" dest m b]
      Cons.prems(3) by simp
  ultimately show ?case
    using Cons.prems(1) by (subst strcpy.simps) auto
qed

text \<open>The bytes \<open>strncpy\<close> copies: up to a terminator, at most \<open>count - 1\<close>.\<close>

definition strncpy_bytes :: "memory \<Rightarrow> addr \<Rightarrow> int \<Rightarrow> byte list" where
  "strncpy_bytes m src count = takeWhile (\<lambda>b. b \<noteq> 0) (mem_bytes m src (nat (count - 1)))"

lemma length_strncpy_bytes: "length (strncpy_bytes m src count) \<le> nat (count - 1)"
  using length_takeWhile_le [of _ "mem_bytes m src (nat (count - 1))"]
  by (simp add: strncpy_bytes_def)

lemma strncpy_bytes_nth:
  "i < length (strncpy_bytes m src count) \<Longrightarrow>
     strncpy_bytes m src count ! i = m (src + of_nat i) \<and> m (src + of_nat i) \<noteq> 0 \<and> int i < count - 1"
  using length_strncpy_bytes [of m src count]
    nth_mem [of i "strncpy_bytes m src count"] set_takeWhileD [of _ _ "mem_bytes m src (nat (count - 1))"]
  by (fastforce simp: strncpy_bytes_def takeWhile_nth)

lemma strncpy_bytes_stop:
  assumes "int (length (strncpy_bytes m src count)) < count - 1"
  shows "m (src + of_nat (length (strncpy_bytes m src count))) = 0"
  using assms nth_length_takeWhile [of "\<lambda>b. b \<noteq> 0" "mem_bytes m src (nat (count - 1))"]
  by (simp add: strncpy_bytes_def)

lemma strncpy_source_kept:
  assumes "dest = src \<or> length bs < unat (dest - src)" "length bs < 2 ^ 32" "i \<le> length bs"
  shows "write_bytes dest (take i bs) m (src + of_nat i) = m (src + of_nat i)"
proof (rule write_bytes_outside)
  have i: "i < 2 ^ 32" using assms(2,3) by simp
  show "length (take i bs) \<le> unat (src + of_nat i - dest)"
  proof (cases "dest = src")
    case True
    then show ?thesis using unat_diff_of_nat_index [OF i, of src] by simp
  next
    case False
    show ?thesis
    proof (rule ccontr)
      assume "\<not> ?thesis"
      then have lt: "unat (src + of_nat i - dest) < i" by simp
      define j where "j = unat (src + of_nat i - dest)"
      have "dest + of_nat j = src + of_nat i" by (simp add: j_def)
      then have "dest - src = of_nat (i - j)"
        using lt by (simp add: j_def of_nat_diff algebra_simps)
      then have "unat (dest - src) = i - j"
        using i by (simp add: unat_of_nat take_bit_nat_eq_self)
      with assms(1,3) False show False by simp
    qed
  qed
qed

lemma strncpy_loop_correct:
  fixes dest src count m0
  defines "bs \<equiv> strncpy_bytes m0 src count"
  assumes "dest = src \<or> length bs < unat (dest - src)" "count \<le> 2 ^ 31" "i \<le> length bs"
  shows "strncpy_loop dest src count i (write_bytes dest (take i bs) m0)
         = write_bytes dest (bs @ [0]) m0"
  using assms(4)
proof (induction "length bs - i" arbitrary: i)
  case (0 i)
  let ?m = "write_bytes dest (take i bs) m0"
  have len: "length bs < 2 ^ 32"
    using length_strncpy_bytes [of m0 src count] assms(3) unfolding bs_def
    by (intro le_less_trans [OF length_strncpy_bytes]) simp
  have i: "i = length bs" using 0 by simp
  have same: "?m (src + of_nat i) = m0 (src + of_nat i)"
    by (rule strncpy_source_kept [OF assms(2) len]) (use 0 in auto)
  have stop: "\<not> (int i < count - 1 \<and> ?m (src + of_nat i) \<noteq> 0)"
    using strncpy_bytes_stop [of m0 src count] same i unfolding bs_def by auto
  then show ?case
    using write_bytes_snoc [OF len, of dest m0 0] i
    by (subst strncpy_loop.simps) auto
next
  case (Suc k i)
  let ?m = "write_bytes dest (take i bs) m0"
  have len: "length bs < 2 ^ 32"
    using length_strncpy_bytes [of m0 src count] assms(3) unfolding bs_def
    by (intro le_less_trans [OF length_strncpy_bytes]) simp
  have i: "i < length bs" using Suc.hyps(2) by simp
  have same: "?m (src + of_nat i) = m0 (src + of_nat i)"
    by (rule strncpy_source_kept [OF assms(2) len]) (use i in auto)
  note nth = strncpy_bytes_nth [of i m0 src count, folded bs_def, OF i]
  have "?m(dest + of_nat i := bs ! i) = write_bytes dest (take (Suc i) bs) m0"
    using write_bytes_snoc [of "take i bs" dest m0 "bs ! i"] i len
    by (simp add: take_Suc_conv_app_nth)
  then show ?case
    using Suc.hyps(1) [of "Suc i"] Suc.hyps(2) i nth same
    by (subst strncpy_loop.simps) simp
qed

text \<open>
  \<open>strncpy\<close> writes the copied bytes and one terminator, and nothing else, unless the
  destination starts inside the part of the source that is read.
\<close>

lemma strncpy_correct:
  assumes "dest = src \<or> length (strncpy_bytes m src count) < unat (dest - src)" "count \<le> 2 ^ 31"
  shows "strncpy dest src count m = write_bytes dest (strncpy_bytes m src count @ [0]) m"
  using strncpy_loop_correct [OF assms, of 0] by (simp add: strncpy_def)

lemma strncpy_bytes_eqI:
  assumes "\<And>i. i < length bs \<Longrightarrow> m (src + of_nat i) = bs ! i" "0 \<notin> set bs" "m (src + of_nat (length bs)) = 0"
    "int (length bs) \<le> count - 1"
  shows "strncpy_bytes m src count = bs"
proof -
  have "mem_bytes m src (nat (count - 1)) =
      bs @ mem_bytes m (src + of_nat (length bs)) (nat (count - 1) - length bs)"
    using mem_bytes_add [of m src "length bs" "nat (count - 1) - length bs"] assms(1,4)
      mem_bytes_eqI [of bs "length bs" m src] by (simp del: mem_bytes_def)
  moreover have "takeWhile (\<lambda>b. b \<noteq> 0) (mem_bytes m (src + of_nat (length bs)) k) = []" for k
    using assms(3) by (cases k) (simp_all add: mem_bytes_def upt_conv_Cons del: upt_Suc)
  ultimately show ?thesis
    using assms(2) by (auto simp: strncpy_bytes_def takeWhile_append)
qed

section \<open>Comparison\<close>

text \<open>\<open>strncmp\<close> and \<open>istrncmp\<close> answer 0 exactly when the strings agree up to \<open>n\<close> bytes.\<close>

lemma uint_eq_iff: "uint a = uint b \<longleftrightarrow> a = b"
  by (simp add: word_uint_eq_iff)

lemma strncmp_eq_0_iff:
  assumes "cstring m p as" "cstring m q bs"
  shows "strncmp m p q n = 0 \<longleftrightarrow> take (unat n) as = take (unat n) bs"
  using assms
proof (induction m p q n arbitrary: as bs rule: strncmp.induct)
  case (1 m p q n)
  show ?case
  proof (cases "n = 0")
    case False
    note step = unat_step [OF False]
    show ?thesis
    proof (cases "m p = m q \<and> m p \<noteq> 0")
      case True
      then have "m p \<noteq> 0" "m q \<noteq> 0" by auto
      then obtain as' bs' where
        "as = m p # as'" "bs = m q # bs'" "cstring m (p + 1) as'" "cstring m (q + 1) bs'"
        using cstring_head [OF "1.prems"(1)] cstring_head [OF "1.prems"(2)] by blast
      with "1.IH" False True step show ?thesis
        by (subst strncmp.simps) (auto simp: Let_def)
    next
      case False
      then consider "m p = 0" "m q = 0" | "m p \<noteq> m q" by metis
      then show ?thesis
      proof cases
        case 1
        with "1.prems" have "as = []" "bs = []" by (auto dest: cstring_head_zero)
        with 1 \<open>n \<noteq> 0\<close> show ?thesis
          by (subst strncmp.simps) (simp add: Let_def)
      next
        case 2
        with "1.prems" have "take (unat n) as \<noteq> take (unat n) bs"
          by (cases as; cases bs) (auto simp: step)
        with 2 \<open>n \<noteq> 0\<close> show ?thesis
          by (subst strncmp.simps) (simp add: Let_def uint_eq_iff)
      qed
    qed
  qed (simp add: strncmp.simps)
qed

lemma tolower_0_iff [simp]: "tolower c = 0 \<longleftrightarrow> c = 0"
proof -
  have "c + 32 \<noteq> 0" if "64 \<le> sint c" "sint c \<le> 90"
  proof
    assume "c + 32 = 0"
    then have "c = - 32" by (simp add: eq_neg_iff_add_eq_0)
    with that show False by simp
  qed
  then show ?thesis by (auto simp: tolower_def)
qed

lemma tolower_0 [simp]: "tolower 0 = 0"
  by simp

lemma istrncmp_eq_0_iff:
  assumes "cstring m p as" "cstring m q bs"
  shows "istrncmp m p q n = 0 \<longleftrightarrow> map tolower (take (unat n) as) = map tolower (take (unat n) bs)"
  using assms
proof (induction m p q n arbitrary: as bs rule: istrncmp.induct)
  case (1 m p q n)
  show ?case
  proof (cases "n = 0")
    case False
    note step = unat_step [OF False]
    show ?thesis
    proof (cases "tolower (m p) = tolower (m q) \<and> m p \<noteq> 0")
      case True
      then have "m q \<noteq> 0" by (metis tolower_0_iff)
      with True obtain as' bs' where
        "as = m p # as'" "bs = m q # bs'" "cstring m (p + 1) as'" "cstring m (q + 1) bs'"
        using cstring_head [OF "1.prems"(1)] cstring_head [OF "1.prems"(2)] by blast
      with "1.IH" False True step show ?thesis
        by (subst istrncmp.simps) (simp add: Let_def)
    next
      case False
      then consider "m p = 0" "m q = 0" | "tolower (m p) \<noteq> tolower (m q)"
        by (metis tolower_0_iff)
      then show ?thesis
      proof cases
        case 1
        with "1.prems" have "as = []" "bs = []" by (auto dest: cstring_head_zero)
        with 1 \<open>n \<noteq> 0\<close> show ?thesis
          by (subst istrncmp.simps) (simp add: Let_def)
      next
        case 2
        then have "m p \<noteq> m q" by auto
        moreover have "map tolower (take (unat n) as) \<noteq> map tolower (take (unat n) bs)"
          using 2 "1.prems" by (cases as; cases bs) (auto simp: step)
        ultimately show ?thesis
          using 2 \<open>n \<noteq> 0\<close>
          by (subst istrncmp.simps) (simp add: Let_def uint_eq_iff)
      qed
    qed
  qed (simp add: istrncmp.simps)
qed

end
