(* ===== verification/Terminal.thy ===== *)
theory Terminal
  imports Machine Strings
begin

text \<open>
  The text terminal of \<^verbatim>\<open>src/src/kernel.c\<close>: the cursor, the routines that write a
  character cell to video memory, and \<open>print\<close> and \<open>panic\<close>. The screen is memory: a cell
  is a 16 bit store at \<open>video_memory\<close>. The two routines that call each other
  (\<open>terminal_backspace\<close> and \<open>terminal_writechar\<close>) are one recursive definition; it ends
  because the character that \<open>terminal_backspace\<close> writes is a blank.
\<close>

section \<open>Definitions\<close>

definition VGA_WIDTH :: nat where [simp]: "VGA_WIDTH = 80"
definition VGA_HEIGHT :: nat where [simp]: "VGA_HEIGHT = 20"

record terminal = machine +
  video_memory :: addr
  terminal_row :: u16
  terminal_col :: u16

text \<open>Characters are signed: both operands of the \<open>|\<close> are sign extended.\<close>

definition terminal_make_char :: "byte \<Rightarrow> byte \<Rightarrow> u16" where
  "terminal_make_char c color = push_bit 8 (scast color) OR scast c"

definition cell_addr :: "addr \<Rightarrow> u32 \<Rightarrow> u32 \<Rightarrow> addr" where
  "cell_addr base x y = base + 2 * (y * 80 + x)"

definition terminal_putchar ::
    "u32 \<Rightarrow> u32 \<Rightarrow> byte \<Rightarrow> byte \<Rightarrow> 'a terminal_scheme \<Rightarrow> 'a terminal_scheme" where
  "terminal_putchar x y c color s =
     s\<lparr>mem := store16 (mem s) (cell_addr (video_memory s) x y) (terminal_make_char c color)\<rparr>"

function terminal_backspace :: "'a terminal_scheme \<Rightarrow> 'a terminal_scheme"
  and terminal_writechar :: "byte \<Rightarrow> byte \<Rightarrow> 'a terminal_scheme \<Rightarrow> 'a terminal_scheme" where
  "terminal_backspace s =
     (if terminal_row s = 0 \<and> terminal_col s = 0 then s
      else
        let s = (if terminal_col s = 0
                 then s\<lparr>terminal_row := terminal_row s - 1, terminal_col := 80\<rparr> else s);
            s = s\<lparr>terminal_col := terminal_col s - 1\<rparr>;
            s = terminal_writechar 0x20 15 s
        in s\<lparr>terminal_col := terminal_col s - 1\<rparr>)"
| "terminal_writechar c color s =
     (if c = 0x0A then s\<lparr>terminal_row := terminal_row s + 1, terminal_col := 0\<rparr>
      else if c = 0x08 then terminal_backspace s
      else
        let s = terminal_putchar (ucast (terminal_col s)) (ucast (terminal_row s)) c color s;
            s = s\<lparr>terminal_col := terminal_col s + 1\<rparr>
        in if terminal_col s = 80
           then s\<lparr>terminal_col := 0, terminal_row := terminal_row s + 1\<rparr> else s)"
  by pat_completeness auto
termination
  by (relation "measure (\<lambda>x. case x of Inl s \<Rightarrow> 1 | Inr (c, color, s) \<Rightarrow> if c = 0x08 then 2 else 0)")
     auto

declare terminal_backspace.simps [simp del] terminal_writechar.simps [simp del]

definition terminal_initalize :: "'a terminal_scheme \<Rightarrow> 'a terminal_scheme" where
  "terminal_initalize s =
     (let s = s\<lparr>video_memory := 0xB8000, terminal_row := 0, terminal_col := 0\<rparr>
      in fold (\<lambda>row. fold (\<lambda>col. terminal_putchar (of_nat col) (of_nat row) 0x20 0) [0..<VGA_WIDTH])
           [0..<VGA_HEIGHT] s)"

text \<open>\<^verbatim>\<open>for (int index = 0; index < len; index++) terminal_writechar(str[index], 15);\<close>\<close>

function print_loop :: "addr \<Rightarrow> u32 \<Rightarrow> nat \<Rightarrow> 'a terminal_scheme \<Rightarrow> 'a terminal_scheme" where
  "print_loop str len index s =
     (if index < unat len
      then print_loop str len (Suc index) (terminal_writechar (mem s (str + of_nat index)) 15 s)
      else s)"
  by pat_completeness auto
termination
  by (relation "measure (\<lambda>(str, len, index, s). unat len - index)") auto

declare print_loop.simps [simp del]

definition print :: "addr \<Rightarrow> 'a terminal_scheme \<Rightarrow> 'a terminal_scheme option" where
  "print str s = do {
     len \<leftarrow> strlen (mem s) str;
     Some (print_loop str len 0 s)
   }"

text \<open>\<open>panic\<close> prints its message and then loops forever: it has no result state.\<close>

definition panic :: "'a terminal_scheme \<Rightarrow> 'b option" where
  "panic s = None"

section \<open>The cursor\<close>

text \<open>The linear position of the cursor and the cell at a linear position.\<close>

definition cursor :: "'a terminal_scheme \<Rightarrow> nat" where
  "cursor s = 80 * unat (terminal_row s) + unat (terminal_col s)"

definition cell :: "'a terminal_scheme \<Rightarrow> nat \<Rightarrow> u16" where
  "cell s k = load16 (mem s) (video_memory s + of_nat (2 * k))"

definition printable :: "byte \<Rightarrow> bool" where
  "printable c \<longleftrightarrow> c \<noteq> 0x0A \<and> c \<noteq> 0x08"

lemma unat_ucast_u16 [simp]: "unat (ucast (x :: u16) :: u32) = unat x"
  by (simp add: unsigned_ucast_eq take_bit_nat_eq_self order_less_le_trans [OF unsigned_less])

lemma unat_lt_u16: "unat (x :: u16) < 65536"
  using unsigned_less [where 'a = nat and w = x] by simp

lemma cell_addr_cursor:
  "cell_addr b (ucast (terminal_col s)) (ucast (terminal_row s)) = b + of_nat (2 * cursor s)"
proof -
  have "of_nat (unat x) = (ucast x :: u32)" for x :: u16
    using unat_lt_u16 [of x] by (simp add: word_unat_eq_iff unat_of_nat take_bit_nat_eq_self)
  then show ?thesis
    by (simp add: cell_addr_def cursor_def mult.commute)
qed

lemma terminal_writechar_printable:
  assumes "printable c" "unat (terminal_col s) < 80"
  shows "terminal_writechar c color s =
    s\<lparr>mem := store16 (mem s) (video_memory s + of_nat (2 * cursor s)) (terminal_make_char c color),
      terminal_row := (if terminal_col s = 79 then terminal_row s + 1 else terminal_row s),
      terminal_col := (if terminal_col s = 79 then 0 else terminal_col s + 1)\<rparr>"
proof -
  have "terminal_col s + 1 = 80 \<longleftrightarrow> terminal_col s = 79"
    by (simp add: eq_diff_eq [symmetric])
  then show ?thesis
    using assms(1)
    by (subst terminal_writechar.simps)
       (simp add: printable_def terminal_putchar_def cell_addr_cursor Let_def)
qed

lemma col_step:
  assumes "unat (terminal_col s) < 80" "terminal_col s \<noteq> 79"
  shows "unat (terminal_col s + 1) = Suc (unat (terminal_col s))"
  using assms(1) by (simp add: unat_word_ariths)

lemma cursor_writechar:
  assumes "printable c" "unat (terminal_col s) < 80" "cursor s + 1 < 80 * 65536"
  shows "cursor (terminal_writechar c color s) = Suc (cursor s)"
    "unat (terminal_col (terminal_writechar c color s)) < 80"
proof -
  have ne: "unat (terminal_col s) \<noteq> 79" if "terminal_col s \<noteq> 79"
    using that by (auto simp: word_unat_eq_iff)
  have row: "unat (terminal_row s + 1) = Suc (unat (terminal_row s))" if "terminal_col s = 79"
  proof -
    have "unat (terminal_row s) + 1 < 65536"
      using assms(3) that by (simp add: cursor_def)
    then show ?thesis by (simp add: unat_word_ariths)
  qed
  show "cursor (terminal_writechar c color s) = Suc (cursor s)"
    using row col_step [OF assms(2)]
    by (auto simp: terminal_writechar_printable [OF assms(1,2)] cursor_def)
  show "unat (terminal_col (terminal_writechar c color s)) < 80"
    using col_step [OF assms(2)] assms(2) ne
    by (auto simp: terminal_writechar_printable [OF assms(1,2)])
qed

lemma video_memory_writechar:
  assumes "printable c" "unat (terminal_col s) < 80"
  shows "video_memory (terminal_writechar c color s) = video_memory s"
  by (simp add: terminal_writechar_printable [OF assms])

text \<open>A character cell is two bytes, so different positions do not overlap.\<close>

lemma store16_other_cell:
  assumes "j < 2 ^ 31" "k < 2 ^ 31" "j \<noteq> k"
  shows "load16 (store16 m (b + of_nat (2 * j)) v) (b + of_nat (2 * k)) = load16 m (b + of_nat (2 * k))"
proof -
  have a: "b + of_nat (2 * x) + 1 = b + of_nat (2 * x + 1)" for x by simp
  have neq: "b + of_nat (2 * j + x) \<noteq> b + of_nat (2 * k + y)" if "x < 2" "y < 2" for x y
  proof -
    have "2 * j + x < 2 ^ 32" "2 * k + y < 2 ^ 32" using assms that by simp_all
    moreover have "2 * j + x \<noteq> 2 * k + y" using assms(3) that by presburger
    ultimately show ?thesis by (simp only: add_of_nat_eq_iff_u32) simp
  qed
  show ?thesis
    using neq [of 0 0] neq [of 0 1] neq [of 1 0] neq [of 1 1]
    unfolding load16_def store16_def a by (simp del: of_nat_add of_nat_mult)
qed

lemma cell_writechar:
  assumes "printable c" "unat (terminal_col s) < 80" "k < 2 ^ 31"
  shows "cell (terminal_writechar c color s) k =
    (if k = cursor s then terminal_make_char c color else cell s k)"
proof -
  have "cursor s < 2 ^ 31"
    using assms(2) unat_lt_u16 [of "terminal_row s"] by (simp add: cursor_def)
  then show ?thesis
    using store16_other_cell [OF _ assms(3)]
    by (simp add: cell_def terminal_writechar_printable [OF assms(1,2)] del: of_nat_mult)
qed

lemma mem_writechar_outside:
  assumes "printable c" "unat (terminal_col s) < 80" "unat (a - video_memory s) < 2 * cursor s \<or> 2 * Suc (cursor s) \<le> unat (a - video_memory s)"
  shows "mem (terminal_writechar c color s) a = mem s a"
proof -
  have "cursor s < 80 * 65536"
    using assms(2) unat_lt_u16 [of "terminal_row s"] by (simp add: cursor_def)
  then have "unat (a - video_memory s) \<noteq> 2 * cursor s" "unat (a - video_memory s) \<noteq> 2 * cursor s + 1"
    "2 * cursor s + 1 < 2 ^ 32"
    using assms(3) by auto
  then have "a \<noteq> video_memory s + of_nat (2 * cursor s)" "a \<noteq> video_memory s + of_nat (2 * cursor s + 1)"
    using unat_diff_of_nat_index [of "2 * cursor s" "video_memory s"]
      unat_diff_of_nat_index [of "2 * cursor s + 1" "video_memory s"] by (auto simp del: of_nat_add of_nat_mult)
  then show ?thesis
    by (simp add: terminal_writechar_printable [OF assms(1,2)] store16_def ac_simps)
qed

section \<open>Printing a string\<close>

lemma print_loop_bytes:
  assumes "\<And>i. i < length bs \<Longrightarrow> mem s (str + of_nat (index + i)) = bs ! i"
    and "\<forall>b \<in> set bs. printable b"
    and "\<And>i. i < length bs \<Longrightarrow> 2 * (cursor s + length bs) \<le> unat (str + of_nat (index + i) - video_memory s)"
    and "unat (terminal_col s) < 80" "cursor s + length bs < 80 * 65536"
    and "unat len = index + length bs"
  shows "cursor (print_loop str len index s) = cursor s + length bs"
    and "k < 2 ^ 31 \<Longrightarrow> cell (print_loop str len index s) k =
      (if cursor s \<le> k \<and> k < cursor s + length bs
       then terminal_make_char (bs ! (k - cursor s)) 15 else cell s k)"
    and "unat (a - video_memory s) < 2 * cursor s \<or> 2 * (cursor s + length bs) \<le> unat (a - video_memory s) \<Longrightarrow>
      mem (print_loop str len index s) a = mem s a"
proof -
  have "cursor (print_loop str len index s) = cursor s + length bs \<and>
    (k < 2 ^ 31 \<longrightarrow> cell (print_loop str len index s) k =
      (if cursor s \<le> k \<and> k < cursor s + length bs
       then terminal_make_char (bs ! (k - cursor s)) 15 else cell s k)) \<and>
    (unat (a - video_memory s) < 2 * cursor s \<or> 2 * (cursor s + length bs) \<le> unat (a - video_memory s) \<longrightarrow>
      mem (print_loop str len index s) a = mem s a)"
    using assms
  proof (induction bs arbitrary: index s)
    case Nil
    then show ?case using print_loop.simps [of str len index s] by auto
  next
    case (Cons b bs)
    let ?s = "terminal_writechar b 15 s"
    have b: "printable b" "mem s (str + of_nat index) = b"
      using Cons.prems(1) [of 0] Cons.prems(2) by auto
    note w = terminal_writechar_printable [OF b(1) Cons.prems(4), of 15]
    have cur: "cursor ?s = Suc (cursor s)" "unat (terminal_col ?s) < 80"
      using cursor_writechar [OF b(1) Cons.prems(4)] Cons.prems(5) by auto
    have vm: "video_memory ?s = video_memory s"
      by (rule video_memory_writechar [OF b(1) Cons.prems(4)])
    have step: "print_loop str len index s = print_loop str len (Suc index) ?s"
      using Cons.prems(6) b(2) by (subst print_loop.simps) simp
    have m: "mem ?s (str + of_nat (Suc index + i)) = bs ! i" if "i < length bs" for i
      using Cons.prems(1) [of "Suc i"] Cons.prems(3) [of "Suc i"] that
        mem_writechar_outside [OF b(1) Cons.prems(4)] by simp
    have far: "2 * (cursor ?s + length bs) \<le> unat (str + of_nat (Suc index + i) - video_memory ?s)"
      if "i < length bs" for i
      using Cons.prems(3) [of "Suc i"] that by (simp add: vm cur(1))
    have IH: "cursor (print_loop str len (Suc index) ?s) = cursor ?s + length bs \<and>
      (k < 2 ^ 31 \<longrightarrow> cell (print_loop str len (Suc index) ?s) k =
        (if cursor ?s \<le> k \<and> k < cursor ?s + length bs
         then terminal_make_char (bs ! (k - cursor ?s)) 15 else cell ?s k)) \<and>
      (unat (a - video_memory ?s) < 2 * cursor ?s \<or> 2 * (cursor ?s + length bs) \<le> unat (a - video_memory ?s) \<longrightarrow>
        mem (print_loop str len (Suc index) ?s) a = mem ?s a)"
      by (rule Cons.IH) (use m far cur Cons.prems in auto)
    show ?case
      using IH cell_writechar [OF b(1) Cons.prems(4), of k 15] cur(1) mem_writechar_outside [OF b(1) Cons.prems(4), of a 15]
      by (auto simp: step nth_Cons' Suc_diff_le vm)
  qed
  then show "cursor (print_loop str len index s) = cursor s + length bs"
    and "k < 2 ^ 31 \<Longrightarrow> cell (print_loop str len index s) k =
      (if cursor s \<le> k \<and> k < cursor s + length bs
       then terminal_make_char (bs ! (k - cursor s)) 15 else cell s k)"
    and "unat (a - video_memory s) < 2 * cursor s \<or> 2 * (cursor s + length bs) \<le> unat (a - video_memory s) \<Longrightarrow>
      mem (print_loop str len index s) a = mem s a"
    by auto
qed

section \<open>Backspace\<close>

lemma cursor_col_minus_1:
  assumes "terminal_col s \<noteq> 0"
  shows "cursor (s\<lparr>terminal_col := terminal_col s - 1\<rparr>) = cursor s - 1"
proof -
  have "0 < unat (terminal_col s)" using assms by (simp add: unat_gt_0)
  then show ?thesis using assms by (simp add: cursor_def unat_minus_one)
qed

lemma terminal_backspace_in_line:
  assumes "terminal_col s \<noteq> 0" "unat (terminal_col s) < 80"
  shows "terminal_backspace s =
    s\<lparr>mem := store16 (mem s) (video_memory s + of_nat (2 * (cursor s - 1))) (terminal_make_char 0x20 15),
      terminal_col := terminal_col s - 1\<rparr>"
proof -
  let ?s = "s\<lparr>terminal_col := terminal_col s - 1\<rparr>"
  have u: "unat (terminal_col s - 1) = unat (terminal_col s) - 1"
    using assms(1) by (simp add: unat_minus_one)
  then have "terminal_col s - 1 \<noteq> 79" "unat (terminal_col ?s) < 80"
    using assms(2) by (auto simp: word_unat_eq_iff)
  then show ?thesis
    using assms(1) cursor_col_minus_1 [OF assms(1)]
    by (subst terminal_backspace.simps)
       (simp add: Let_def terminal_writechar_printable printable_def)
qed

lemma terminal_backspace_line_start:
  assumes "terminal_col s = 0" "terminal_row s \<noteq> 0"
  shows "terminal_col (terminal_backspace s) = 0xFFFF \<and>
    terminal_row (terminal_backspace s) = terminal_row s"
  using assms
  by (subst terminal_backspace.simps, subst terminal_backspace.simps)
     (simp add: Let_def terminal_writechar_printable printable_def)

section \<open>Clearing the screen\<close>

lemma terminal_putchar_cell:
  assumes "x < 80" "y < 65536" "k < 2 ^ 31"
  shows "cell (terminal_putchar (of_nat x) (of_nat y) c color s) k =
    (if k = 80 * y + x then terminal_make_char c color else cell s k)"
proof -
  have a: "cell_addr b (of_nat x) (of_nat y) = b + of_nat (2 * (80 * y + x))" for b
    by (simp add: cell_addr_def mult.commute)
  have "80 * y + x < 2 ^ 31" using assms by simp
  from store16_other_cell [OF this assms(3)] show ?thesis
    by (simp add: cell_def terminal_putchar_def a del: of_nat_mult of_nat_add)
qed

lemma terminal_putchar_frame [simp]:
  "video_memory (terminal_putchar x y c color s) = video_memory s"
  "terminal_row (terminal_putchar x y c color s) = terminal_row s"
  "terminal_col (terminal_putchar x y c color s) = terminal_col s"
  by (simp_all add: terminal_putchar_def)

lemma clear_row:
  assumes "n \<le> 80" "y < 65536"
  defines "f \<equiv> fold (\<lambda>col. terminal_putchar (of_nat col) (of_nat y) 0x20 0) [0..<n]"
  shows "video_memory (f s) = video_memory s \<and> terminal_row (f s) = terminal_row s \<and>
    terminal_col (f s) = terminal_col s \<and>
    (\<forall>k < 2 ^ 31. cell (f s) k =
       (if 80 * y \<le> k \<and> k < 80 * y + n then terminal_make_char 0x20 0 else cell s k))"
  using assms(1) unfolding f_def
proof (induction n)
  case (Suc n)
  then show ?case
    using assms(2) by (auto simp: terminal_putchar_cell)
qed auto

lemma clear_rows:
  assumes "n \<le> 20"
  defines "f \<equiv> fold (\<lambda>row. fold (\<lambda>col. terminal_putchar (of_nat col) (of_nat row) 0x20 0) [0..<80]) [0..<n]"
  shows "video_memory (f s) = video_memory s \<and> terminal_row (f s) = terminal_row s \<and>
    terminal_col (f s) = terminal_col s \<and>
    (\<forall>k < 2 ^ 31. cell (f s) k = (if k < 80 * n then terminal_make_char 0x20 0 else cell s k))"
  using assms(1) unfolding f_def
proof (induction n)
  case (Suc n)
  let ?f = "fold (\<lambda>row. fold (\<lambda>col. terminal_putchar (of_nat col) (of_nat row) 0x20 0) [0..<80]) [0..<n]"
  have "n < 65536" using Suc.prems by simp
  from clear_row [OF order_refl this, of "?f s"] Suc show ?case
    by auto
qed simp

section \<open>Properties\<close>

text \<open>A state for the examples: a clear screen and the string \<open>AB\<close> at \<open>0x2000000\<close>.\<close>

definition demo_terminal :: terminal where
  "demo_terminal = \<lparr>mem = (\<lambda>_. 0)(0x2000000 := 65, 0x2000001 := 66), device = (\<lambda>_ _. 0), io_log = [],
     video_memory = 0xB8000, terminal_row = 0, terminal_col = 0\<rparr>"

text \<open>Printing changes memory and the cursor only.\<close>

definition terminal_frame :: "'a terminal_scheme \<Rightarrow> 'a terminal_scheme \<Rightarrow> bool" where
  "terminal_frame s t \<longleftrightarrow> device t = device s \<and> io_log t = io_log s \<and> video_memory t = video_memory s \<and>
     terminal.more t = terminal.more s"

lemma terminal_frame_shape:
  "terminal_frame s t \<Longrightarrow> t = s\<lparr>mem := mem t, terminal_row := terminal_row t, terminal_col := terminal_col t\<rparr>"
  by (cases s; cases t) (simp add: terminal_frame_def)

lemma terminal_writechar_frame: "terminal_frame s (terminal_writechar c color s)"
proof -
  have plain: "terminal_frame s (terminal_writechar c color s)" if "c \<noteq> 0x08" for c color and s :: "'a terminal_scheme"
    using that by (simp add: terminal_writechar.simps [of c] terminal_putchar_def terminal_frame_def Let_def)
  show ?thesis
  proof (cases "c = 0x08")
    case True
    then show ?thesis
      using plain [of "0x20" "s\<lparr>terminal_row := terminal_row s - 1, terminal_col := 79\<rparr>" 15]
        plain [of "0x20" "s\<lparr>terminal_col := terminal_col s - 1\<rparr>" 15]
      by (simp add: terminal_writechar.simps [of 8] terminal_backspace.simps terminal_frame_def Let_def)
  qed (rule plain)
qed

lemma print_frame: "print str s = Some s' \<Longrightarrow> terminal_frame s s'"
proof -
  have "terminal_frame s (print_loop str len i s)" for len i and s :: "'a terminal_scheme"
  proof (induction str len i s rule: print_loop.induct)
    case (1 str len i s)
    then show ?case
      using terminal_writechar_frame [of s "mem s (str + of_nat i)" 15]
      by (subst print_loop.simps) (auto simp: terminal_frame_def)
  qed
  then show "print str s = Some s' \<Longrightarrow> terminal_frame s s'" by (auto simp: print_def split: bind_splits)
qed

lemma print_cstring:
  assumes str: "cstring (mem s) str bs" and pr: "\<forall>b \<in> set bs. printable b"
    and far: "\<forall>i \<le> length bs. 2 * (cursor s + length bs + 1) \<le> unat (str + of_nat i - video_memory s)"
    and col: "unat (terminal_col s) < 80" and room: "cursor s + length bs + 1 < 80 * 65536"
  shows "\<exists>s'. print str s = Some s' \<and> cursor s' = cursor s + length bs + 1 \<and>
    (\<forall>i < length bs. cell s' (cursor s + i) = terminal_make_char (bs ! i) 15) \<and>
    cell s' (cursor s + length bs) = terminal_make_char 0 15 \<and>
    (\<forall>a. unat (a - video_memory s) < 2 * cursor s \<or> 2 * (cursor s + length bs + 1) \<le> unat (a - video_memory s) \<longrightarrow>
       mem s' a = mem s a)"
proof -
  let ?len = "of_nat (length bs) + 1 :: u32"
  have len: "unat ?len = 0 + length (bs @ [0])"
    using room unat_add_of_nat [of 1 "length bs"] by (simp add: add.commute)
  have m: "mem s (str + of_nat (0 + i)) = (bs @ [0]) ! i" if "i < length (bs @ [0])" for i
    using that cstring_nth [OF str, of i] cstring_end [OF str] by (auto simp: nth_append less_Suc_eq)
  have pr': "\<forall>b \<in> set (bs @ [0]). printable b"
    using pr by (auto simp: printable_def)
  have far': "2 * (cursor s + length (bs @ [0])) \<le> unat (str + of_nat (0 + i) - video_memory s)"
    if "i < length (bs @ [0])" for i
    using far that by auto
  note loop = print_loop_bytes [OF m pr' far' col _ len]
  have cells: "cell (print_loop str ?len 0 s) (cursor s + i) = terminal_make_char ((bs @ [0]) ! i) 15"
    if "i < length (bs @ [0])" for i
    using loop(2) [of "cursor s + i"] room that by simp
  show ?thesis
    using loop(1,3) room cells [of "length bs"] cells strlen_cstring [OF str]
    by (auto simp: print_def nth_append)
qed

text \<open>
  \<open>print\<close> of a terminated string of printable characters writes the characters to
  consecutive cells from the cursor on, and then one more cell for the terminator itself:
  the cursor moves by the length of the string plus one. The string must lie outside the
  cells that are written.
\<close>

theorem print_writes_terminator:
  assumes str: "cstring (mem s) str bs" and pr: "\<forall>b \<in> set bs. printable b"
    and far: "\<forall>i \<le> length bs. 2 * (cursor s + length bs + 1) \<le> unat (str + of_nat i - video_memory s)"
    and col: "unat (terminal_col s) < 80" and room: "cursor s + length bs + 1 < 80 * 65536"
  shows "\<exists>s'. print str s = Some s' \<and> cursor s' = cursor s + length bs + 1 \<and>
    (\<forall>i < length bs. cell s' (cursor s + i) = terminal_make_char (bs ! i) 15) \<and>
    cell s' (cursor s + length bs) = terminal_make_char 0 15"
  using print_cstring [OF assms] by blast

theorem print_writes_terminator_witness:
  "\<exists>s'. print 0x2000000 demo_terminal = Some s' \<and> cursor s' = 3 \<and>
     cell s' 2 = terminal_make_char 0 15"
proof -
  have str: "cstring (mem demo_terminal) 0x2000000 [65, 66]"
    by (simp add: demo_terminal_def)
  have far: "\<forall>i \<le> length [65, 66 :: byte].
      2 * (cursor demo_terminal + length [65, 66 :: byte] + 1) \<le> unat (0x2000000 + of_nat i - video_memory demo_terminal)"
    by (auto simp: demo_terminal_def cursor_def le_Suc_eq)
  have cur: "cursor demo_terminal = 0" by (simp add: demo_terminal_def cursor_def)
  have "\<forall>b \<in> set [65, 66 :: byte]. printable b" "unat (terminal_col demo_terminal) < 80"
    "cursor demo_terminal + length [65, 66 :: byte] + 1 < 80 * 65536"
    by (simp_all add: printable_def cur) (simp add: demo_terminal_def)
  from print_writes_terminator [OF str this(1) far this(2,3)]
  obtain s' where "print 0x2000000 demo_terminal = Some s'"
      "cursor s' = 0 + length [65, 66 :: byte] + 1"
      "cell s' (0 + length [65, 66 :: byte]) = terminal_make_char 0 15"
    unfolding cur by blast
  then show ?thesis by (intro exI [of _ s']) (simp add: numeral_2_eq_2)
qed

text \<open>
  \<open>terminal_backspace\<close> undoes a printable character: the cursor is back where it was,
  the cell is a blank and every other cell is as before. The character must not have been the
  last one of its line (see \<open>terminal_backspace_line_start\<close> for what happens there).
\<close>

theorem terminal_backspace_undoes:
  fixes s :: "'a terminal_scheme" and c color :: byte
  assumes "printable c" "unat (terminal_col s) < 79"
  defines "s' \<equiv> terminal_backspace (terminal_writechar c color s)"
  shows "terminal_row s' = terminal_row s \<and> terminal_col s' = terminal_col s \<and>
    (\<forall>k < 2 ^ 31. cell s' k = (if k = cursor s then terminal_make_char 0x20 15 else cell s k))"
proof -
  let ?w = "terminal_writechar c color s"
  have col: "unat (terminal_col s) < 80" "terminal_col s \<noteq> 79"
    using assms(2) by auto
  note w = terminal_writechar_printable [OF assms(1) col(1), of color]
  have c1: "unat (terminal_col s + 1) = Suc (unat (terminal_col s))"
    using col_step [OF col] .
  have wcol: "terminal_col ?w = terminal_col s + 1" "terminal_row ?w = terminal_row s"
    using w col(2) by simp_all
  have cur: "cursor ?w - 1 = cursor s"
    using wcol c1 by (simp add: cursor_def)
  have ne: "terminal_col ?w \<noteq> 0" "unat (terminal_col ?w) < 80"
    using c1 assms(2) wcol by auto
  note b = terminal_backspace_in_line [OF ne, unfolded cur]
  have small: "cursor s < 2 ^ 31"
    using assms(2) unat_lt_u16 [of "terminal_row s"] by (simp add: cursor_def)
  have vm: "video_memory ?w = video_memory s"
    by (rule video_memory_writechar [OF assms(1) col(1)])
  have "cell s' k = (if k = cursor s then terminal_make_char 0x20 15 else cell s k)" if "k < 2 ^ 31" for k
    using store16_other_cell [OF small that] cell_writechar [OF assms(1) col(1) that, of color]
    by (auto simp: s'_def b cell_def vm simp del: of_nat_mult)
  then show ?thesis
    using b wcol by (simp add: s'_def)
qed

theorem terminal_backspace_undoes_witness:
  "terminal_col (terminal_backspace (terminal_writechar 65 15 demo_terminal)) = 0"
  using terminal_backspace_undoes [of 65 demo_terminal 15]
  by (simp add: printable_def demo_terminal_def)

text \<open>
  \<open>terminal_initalize\<close> puts the cursor home, blanks the 80 by 20 cells of the screen
  and leaves every other cell as it was.
\<close>

theorem terminal_initalize_clears:
  "terminal_row (terminal_initalize s) = 0 \<and> terminal_col (terminal_initalize s) = 0 \<and>
   video_memory (terminal_initalize s) = 0xB8000 \<and>
   (k < 2 ^ 31 \<longrightarrow> cell (terminal_initalize s) k =
      (if k < 80 * 20 then 0x0020 else load16 (mem s) (0xB8000 + of_nat (2 * k))))"
proof -
  let ?s = "s\<lparr>video_memory := 0xB8000, terminal_row := 0, terminal_col := 0\<rparr>"
  have f: "terminal_initalize s =
      fold (\<lambda>row. fold (\<lambda>col. terminal_putchar (of_nat col) (of_nat row) 0x20 0) [0..<80]) [0..<20] ?s"
    unfolding terminal_initalize_def Let_def VGA_WIDTH_def VGA_HEIGHT_def by (rule refl)
  have blank: "terminal_make_char 0x20 0 = 0x0020"
    by (simp add: terminal_make_char_def)
  have rest: "cell ?s k = load16 (mem s) (0xB8000 + of_nat (2 * k))"
    by (simp add: cell_def)
  show ?thesis
    using clear_rows [of 20 ?s] unfolding f [symmetric] blank
    by (simp add: rest del: of_nat_mult)
qed

theorem terminal_initalize_clears_witness: "cell (terminal_initalize demo_terminal) 1599 = 0x0020"
  using terminal_initalize_clears [of demo_terminal 1599] by simp

end
