(* ===== verification/KernelHeap.thy ===== *)
theory KernelHeap
  imports Heap Terminal
begin

text \<open>
  The kernel's own heap, \<^verbatim>\<open>src/src/memory/heap/kernelHeap.c\<close>: the allocator of theory
  \<open>Heap\<close> on the region from \<open>0x01000000\<close>, 25600 blocks long, with its table at
  \<open>0x7E00\<close>, and the zeroing allocation \<open>kernel_zalloc\<close>. The table is a separate field of
  the state, read from memory once by \<open>kernel_heap_init\<close>. The locale
  \<open>zeroing_allocator\<close> extends the allocator contract by what \<open>kernel_zalloc\<close> does to
  memory; it is what paging and every structure of the kernel is built on.
\<close>

section \<open>Definitions\<close>

definition HEAP_SIZE_BYTES :: nat where [config_defs]: "HEAP_SIZE_BYTES = 104857600"
definition HEAP_ADDRESS :: addr where [config_defs]: "HEAP_ADDRESS = 0x01000000"
definition HEAP_TABLE_ADDRESS :: addr where [config_defs]: "HEAP_TABLE_ADDRESS = 0x00007E00"

record kstate = terminal +
  kernel_heap :: heap

text \<open>\<open>msg\<close> is the address of the literal that is printed on failure.\<close>

definition kernel_heap_init :: "addr \<Rightarrow> 'a kstate_scheme \<Rightarrow> 'a kstate_scheme option" where
  "kernel_heap_init msg s =
     (let total_table_entries = HEAP_SIZE_BYTES div HEAP_BLOCK_SIZE;
          kernel_heap_table = \<lparr>entries = mem_bytes (mem s) HEAP_TABLE_ADDRESS total_table_entries\<rparr>;
          end_ptr = HEAP_ADDRESS + of_nat HEAP_SIZE_BYTES;
          (res, h) = heap_create (kernel_heap s) HEAP_ADDRESS end_ptr kernel_heap_table;
          s = s\<lparr>kernel_heap := h\<rparr>
      in if res < 0 then print msg s else Some s)"

definition kernel_malloc :: "u32 \<Rightarrow> 'a kstate_scheme \<Rightarrow> (addr \<times> 'a kstate_scheme) option" where
  "kernel_malloc sz s = do {
     (ptr, h) \<leftarrow> heap_malloc (kernel_heap s) sz;
     Some (ptr, s\<lparr>kernel_heap := h\<rparr>)
   }"

definition kernel_zalloc :: "u32 \<Rightarrow> 'a kstate_scheme \<Rightarrow> (addr \<times> 'a kstate_scheme) option" where
  "kernel_zalloc sz s = do {
     (ptr, s) \<leftarrow> kernel_malloc sz s;
     if ptr = 0 then Some (ptr, s)
     else Some (ptr, s\<lparr>mem := memset ptr 0 sz (mem s)\<rparr>)
   }"

definition kernel_free :: "addr \<Rightarrow> 'a kstate_scheme \<Rightarrow> 'a kstate_scheme" where
  "kernel_free ptr s = s\<lparr>kernel_heap := heap_free (kernel_heap s) ptr\<rparr>"

section \<open>The contract of a zeroing allocator\<close>

locale zeroing_allocator = block_allocator inv live room malloc release
  for inv :: "'h \<Rightarrow> bool" and live :: "'h \<Rightarrow> (addr \<times> nat) set" and room :: "'h \<Rightarrow> nat"
    and malloc :: "'h \<Rightarrow> u32 \<Rightarrow> (addr \<times> 'h) option" and release :: "'h \<Rightarrow> addr \<Rightarrow> 'h" +
  fixes bytes :: "'h \<Rightarrow> memory"
    and zalloc :: "'h \<Rightarrow> u32 \<Rightarrow> (addr \<times> 'h) option"
  assumes malloc_bytes: "malloc h sz = Some (p, h') \<Longrightarrow> bytes h' = bytes h"
    and release_bytes: "bytes (release h p) = bytes h"
    and zalloc_malloc: "malloc h sz = Some (p, h1) \<Longrightarrow> p \<noteq> 0 \<Longrightarrow>
      \<exists>h'. zalloc h sz = Some (p, h') \<and> inv h' = inv h1 \<and> live h' = live h1 \<and> room h' = room h1 \<and>
        bytes h' = (\<lambda>a. if unat (a - p) < unat sz then 0 else bytes h1 a)"
    and zalloc_null: "malloc h sz = Some (0, h1) \<Longrightarrow> zalloc h sz = Some (0, h1)"
    and zalloc_stuck: "malloc h sz = None \<Longrightarrow> zalloc h sz = None"
begin

text \<open>A zeroed page: fresh, zero where asked for, and memory outside it as before.\<close>

lemma zalloc_page:
  assumes "inv h" "0 < sz" "unat sz \<le> 4096" "0 < room h"
  obtains p h' where "zalloc h sz = Some (p, h')" "p \<noteq> 0" "page_aligned p" "inv h'"
    "live h' = insert (p, 1) (live h)" "room h = Suc (room h')"
    "\<And>q n. (q, n) \<in> live h \<Longrightarrow> page_of q + n \<le> page_of p \<or> page_of p < page_of q"
    "bytes h' = (\<lambda>a. if unat (a - p) < unat sz then 0 else bytes h a)"
proof -
  obtain p h1 where m: "malloc h sz = Some (p, h1)" "p \<noteq> 0" "page_aligned p" "inv h1"
      "live h1 = insert (p, 1) (live h)" "room h = Suc (room h1)"
      "\<And>q n. (q, n) \<in> live h \<Longrightarrow> page_of q + n \<le> page_of p \<or> page_of p < page_of q"
    using malloc_page [OF assms] by metis
  obtain h' where "zalloc h sz = Some (p, h')" "inv h' = inv h1" "live h' = live h1"
      "room h' = room h1" "bytes h' = (\<lambda>a. if unat (a - p) < unat sz then 0 else bytes h a)"
    using zalloc_malloc [OF m(1,2), unfolded malloc_bytes [OF m(1)]] by blast
  with m show ?thesis
    by (intro that [of p h']) simp_all
qed

lemma zalloc_page_other:
  assumes "page_aligned p" "unat sz \<le> 4096" "page_of a \<noteq> page_of p"
  shows "\<not> unat (a - p) < unat sz"
  using assms in_page_iff [OF assms(1), of a] by simp

end

interpretation kz: zeroing_allocator
  "\<lambda>s. heap_inv (kernel_heap s)" "\<lambda>s. allocs (kernel_heap s)" "\<lambda>s. free_blocks (kernel_heap s)"
  "\<lambda>s sz. kernel_malloc sz s" "\<lambda>s p. kernel_free p s" mem "\<lambda>s sz. kernel_zalloc sz s"
proof unfold_locales
  fix h :: "'a kstate_scheme" and sz p h'
  assume "heap_inv (kernel_heap h)" "0 < sz" "unat sz \<le> 2 ^ 32 - 4096"
    "kernel_malloc sz h = Some (p, h')" "p \<noteq> 0"
  then show "heap_inv (kernel_heap h') \<and>
      allocs (kernel_heap h') = insert (p, blocks_for sz) (allocs (kernel_heap h)) \<and>
      (p, blocks_for sz) \<notin> allocs (kernel_heap h) \<and>
      free_blocks (kernel_heap h) = free_blocks (kernel_heap h') + blocks_for sz"
    using kheap.malloc_live [of "kernel_heap h" sz p]
    by (auto simp: kernel_malloc_def split: bind_splits)
next
  fix h :: "'a kstate_scheme" and sz h'
  assume "0 < sz" "unat sz \<le> 2 ^ 32 - 4096" "heap_inv (kernel_heap h)" "kernel_malloc sz h = Some (0, h')"
  then show "h' = h"
    using kheap.malloc_null [of sz "kernel_heap h"]
    by (auto simp: kernel_malloc_def split: bind_splits)
next
  fix h :: "'a kstate_scheme" and sz :: u32
  assume "heap_inv (kernel_heap h)" "0 < sz" "unat sz \<le> 4096" "0 < free_blocks (kernel_heap h)"
  from kheap.malloc_block [OF this]
  show "\<exists>p h'. kernel_malloc sz h = Some (p, h') \<and> p \<noteq> 0"
    by (auto simp: kernel_malloc_def)
next
  fix h :: "'a kstate_scheme" and p n
  assume "heap_inv (kernel_heap h)" "(p, n) \<in> allocs (kernel_heap h)"
  from kheap.release_live [OF this]
  show "heap_inv (kernel_heap (kernel_free p h)) \<and>
      allocs (kernel_heap (kernel_free p h)) = allocs (kernel_heap h) - {(p, n)} \<and>
      free_blocks (kernel_heap (kernel_free p h)) = free_blocks (kernel_heap h) + n"
    by (simp add: kernel_free_def)
next
  fix h :: "'a kstate_scheme" and sz p h1
  assume "kernel_malloc sz h = Some (p, h1)" "p \<noteq> 0"
  then show "\<exists>h'. kernel_zalloc sz h = Some (p, h') \<and>
      heap_inv (kernel_heap h') = heap_inv (kernel_heap h1) \<and>
      allocs (kernel_heap h') = allocs (kernel_heap h1) \<and>
      free_blocks (kernel_heap h') = free_blocks (kernel_heap h1) \<and>
      mem h' = (\<lambda>a. if unat (a - p) < unat sz then 0 else mem h1 a)"
    by (auto simp: kernel_zalloc_def memset_apply)
qed (use kheap.live_page kheap.live_disjoint in
      \<open>auto simp: kernel_malloc_def kernel_zalloc_def kernel_free_def split: bind_splits\<close>)

section \<open>Pages of the heap\<close>

text \<open>Allocating changes memory and the heap only.\<close>

lemma kernel_zalloc_shape:
  "kernel_zalloc sz s = Some (p, s') \<Longrightarrow> \<exists>m h. s' = s\<lparr>mem := m, kernel_heap := h\<rparr>"
proof -
  assume "kernel_zalloc sz s = Some (p, s')"
  then obtain h where "s' = (if p = 0 then s\<lparr>kernel_heap := h\<rparr>
      else s\<lparr>kernel_heap := h, mem := memset p 0 sz (mem s)\<rparr>)"
    by (auto simp: kernel_zalloc_def kernel_malloc_def split: bind_splits if_splits)
  then show ?thesis
    by (intro exI [of _ "if p = 0 then mem s else memset p 0 sz (mem s)"] exI [of _ h]) simp
qed

text \<open>The pages that belong to live allocations.\<close>

definition live_pages :: "heap \<Rightarrow> nat set" where
  "live_pages h = (\<Union>(q, n) \<in> allocs h. {page_of q..<page_of q + n})"

lemma live_pages_insert:
  "allocs h' = insert (p, 1) (allocs h) \<Longrightarrow> live_pages h' = insert (page_of p) (live_pages h)"
  by (auto simp: live_pages_def)

lemma live_pagesI: "(p, 1) \<in> allocs h \<Longrightarrow> page_of p \<in> live_pages h"
  by (force simp: live_pages_def)

text \<open>The pages of the heap region, and those of them that are not allocated.\<close>

definition heap_pages :: "heap \<Rightarrow> nat set" where
  "heap_pages h = {page_of (start_address h)..<page_of (start_address h) + total (table h)}"

definition free_page :: "heap \<Rightarrow> nat \<Rightarrow> bool" where
  "free_page h n \<longleftrightarrow> n \<in> heap_pages h \<and> n \<notin> live_pages h"

lemma allocs_heap_pages: "heap_inv h \<Longrightarrow> (p, n) \<in> allocs h \<Longrightarrow> page_of p \<in> heap_pages h"
  using allocs_range [of h p n] by (simp add: heap_pages_def)

lemma kz_heap_pages:
  assumes "kernel_zalloc sz s = Some (p, s')" "0 < sz" "unat sz \<le> 4096"
  shows "heap_pages (kernel_heap s') = heap_pages (kernel_heap s)"
proof -
  have "heap_malloc (kernel_heap s) sz = Some (p, kernel_heap s')"
    using assms(1) by (auto simp: kernel_zalloc_def kernel_malloc_def split: bind_splits if_splits)
  moreover have "unat sz \<le> 2 ^ 32 - 4096" using assms(3) by simp
  ultimately show ?thesis
    using heap_malloc_Some [OF assms(2), of "kernel_heap s" p "kernel_heap s'"]
    by (auto simp: heap_pages_def total_put_run dest!: free_run_bound simp flip: total_def)
qed

text \<open>A zeroed page of the kernel heap, stated with \<open>live_pages\<close>.\<close>

lemma kernel_zalloc_page:
  fixes s :: "'a kstate_scheme"
  assumes "heap_inv (kernel_heap s)" "0 < sz" "unat sz \<le> 4096" "0 < free_blocks (kernel_heap s)"
  obtains p s' where "kernel_zalloc sz s = Some (p, s')" "p \<noteq> 0" "page_aligned p"
    "heap_inv (kernel_heap s')" "allocs (kernel_heap s') = insert (p, 1) (allocs (kernel_heap s))"
    "free_blocks (kernel_heap s) = Suc (free_blocks (kernel_heap s'))"
    "page_of p \<notin> live_pages (kernel_heap s)" "page_of p \<in> heap_pages (kernel_heap s)"
    "heap_pages (kernel_heap s') = heap_pages (kernel_heap s)"
    "\<And>a. unat (a - p) < unat sz \<Longrightarrow> mem s' a = 0"
    "\<And>a. page_of a \<noteq> page_of p \<Longrightarrow> mem s' a = mem s a"
proof -
  obtain p s' where z: "kernel_zalloc sz s = Some (p, s')" "p \<noteq> 0" "page_aligned p"
      "heap_inv (kernel_heap s')" "allocs (kernel_heap s') = insert (p, 1) (allocs (kernel_heap s))"
      "free_blocks (kernel_heap s) = Suc (free_blocks (kernel_heap s'))"
      "\<And>q n. (q, n) \<in> allocs (kernel_heap s) \<Longrightarrow> page_of q + n \<le> page_of p \<or> page_of p < page_of q"
      "mem s' = (\<lambda>a. if unat (a - p) < unat sz then 0 else mem s a)"
    by (rule kz.zalloc_page [OF assms], rule that) assumption+
  have "heap_pages (kernel_heap s') = heap_pages (kernel_heap s)"
    using kz_heap_pages [OF z(1) assms(2,3)] .
  moreover have "page_of p \<in> heap_pages (kernel_heap s')"
    using z(4,5) allocs_heap_pages [of "kernel_heap s'" p 1] by simp
  moreover have "page_of p \<notin> live_pages (kernel_heap s)"
    using z(7) by (fastforce simp: live_pages_def)
  ultimately show ?thesis
    using z kz.zalloc_page_other [OF z(3) assms(3)]
    by (intro that [of p s']) auto
qed

section \<open>Growing allocations\<close>

lemma kernel_zalloc_fresh:
  assumes "heap_inv (kernel_heap s)" "0 < sz" "unat sz \<le> 2 ^ 32 - 4096"
    "kernel_zalloc sz s = Some (p, s')" "p \<noteq> 0"
  shows "heap_inv (kernel_heap s') \<and>
    allocs (kernel_heap s') = insert (p, blocks_for sz) (allocs (kernel_heap s)) \<and>
    (p, blocks_for sz) \<notin> allocs (kernel_heap s) \<and>
    (\<forall>a. mem s' a = (if unat (a - p) < unat sz then 0 else mem s a))"
proof -
  obtain s1 where m: "kernel_malloc sz s = Some (p, s1)"
    using assms(4) by (auto simp: kernel_zalloc_def split: bind_splits if_splits)
  from kz.zalloc_malloc [OF this assms(5)] assms(4)
  have "heap_inv (kernel_heap s') = heap_inv (kernel_heap s1)"
    "allocs (kernel_heap s') = allocs (kernel_heap s1)"
    "mem s' = (\<lambda>a. if unat (a - p) < unat sz then 0 else mem s1 a)"
    by auto
  then show ?thesis
    using kz.malloc_live [OF assms(1-3) m assms(5)] kz.malloc_bytes [OF m] by auto
qed

text \<open>Memory that is not a free page of the heap stays as it is, and no page is given back.\<close>

definition grows :: "'a kstate_scheme \<Rightarrow> 'a kstate_scheme \<Rightarrow> bool" where
  "grows s s' \<longleftrightarrow> heap_inv (kernel_heap s') \<and> heap_pages (kernel_heap s') = heap_pages (kernel_heap s) \<and>
     live_pages (kernel_heap s) \<subseteq> live_pages (kernel_heap s') \<and>
     allocs (kernel_heap s) \<subseteq> allocs (kernel_heap s') \<and> tail_keeps (kernel_heap s) (kernel_heap s') \<and>
     (\<forall>a. \<not> free_page (kernel_heap s) (page_of a) \<longrightarrow> mem s' a = mem s a)"

lemma grows_trans: "grows s s1 \<Longrightarrow> grows s1 s2 \<Longrightarrow> grows s s2"
  using tail_keeps_trans by (fastforce simp: grows_def free_page_def)

lemma kernel_zalloc_tail_keeps:
  assumes "heap_inv (kernel_heap s)" "0 < sz" "unat sz \<le> 2 ^ 32 - 4096" "kernel_zalloc sz s = Some (p, s')"
  shows "tail_keeps (kernel_heap s) (kernel_heap s')"
proof -
  obtain h' where "heap_malloc (kernel_heap s) sz = Some (p, h')" "kernel_heap s' = h'"
    using assms(4) by (auto simp: kernel_zalloc_def kernel_malloc_def split: bind_splits if_splits)
  then show ?thesis using heap_malloc_tail_keeps [OF assms(1-3)] by simp
qed

lemma kernel_zalloc_free_heap:
  assumes "heap_inv (kernel_heap s)" "0 < sz" "unat sz \<le> 2 ^ 32 - 4096" "kernel_zalloc sz s = Some (p, s')" "p \<noteq> 0"
  shows "kernel_heap (kernel_free p s') = kernel_heap s"
proof -
  obtain h' where "heap_malloc (kernel_heap s) sz = Some (p, h')" "kernel_heap s' = h'"
    using assms(4) by (auto simp: kernel_zalloc_def kernel_malloc_def split: bind_splits if_splits)
  then show ?thesis using heap_malloc_free_restores [OF assms(1-3) _ assms(5)] by (simp add: kernel_free_def)
qed

lemma heap_pages_free [simp]: "heap_pages (heap_free h p) = heap_pages h"
proof -
  have "length (heap_mark_blocks_free_loop i es) = length es" for i es
    by (induction i es rule: heap_mark_blocks_free_loop.induct)
       (subst heap_mark_blocks_free_loop.simps, auto simp: Let_def)
  then show ?thesis
    by (simp add: heap_pages_def heap_free_def heap_mark_blocks_free_def total_def)
qed

lemma live_pages_cong: "allocs h = allocs h' \<Longrightarrow> live_pages h = live_pages h'"
  by (simp add: live_pages_def)

lemma kernel_zalloc_grows:
  fixes s :: "'a kstate_scheme"
  assumes "heap_inv (kernel_heap s)" "0 < sz" "unat sz \<le> 4096" "0 < free_blocks (kernel_heap s)"
  obtains p s' where "kernel_zalloc sz s = Some (p, s')" "p \<noteq> 0" "page_aligned p" "grows s s'"
    "allocs (kernel_heap s') = insert (p, 1) (allocs (kernel_heap s))"
    "free_blocks (kernel_heap s) = Suc (free_blocks (kernel_heap s'))"
    "free_page (kernel_heap s) (page_of p)" "page_of p \<in> live_pages (kernel_heap s')"
    "\<And>a. unat (a - p) < unat sz \<Longrightarrow> mem s' a = 0"
proof -
  obtain p s' where z: "kernel_zalloc sz s = Some (p, s')" "p \<noteq> 0" "page_aligned p"
    "heap_inv (kernel_heap s')" "allocs (kernel_heap s') = insert (p, 1) (allocs (kernel_heap s))"
    "free_blocks (kernel_heap s) = Suc (free_blocks (kernel_heap s'))"
    "page_of p \<notin> live_pages (kernel_heap s)" "page_of p \<in> heap_pages (kernel_heap s)"
    "heap_pages (kernel_heap s') = heap_pages (kernel_heap s)"
    "\<And>a. unat (a - p) < unat sz \<Longrightarrow> mem s' a = 0"
    "\<And>a. page_of a \<noteq> page_of p \<Longrightarrow> mem s' a = mem s a"
    by (rule kernel_zalloc_page [OF assms], rule that) assumption+
  have "free_page (kernel_heap s) (page_of p)" using z by (simp add: free_page_def)
  moreover have "mem s' a = mem s a" if "\<not> free_page (kernel_heap s) (page_of a)" for a
    using that calculation by (intro z(11)) auto
  then have "grows s s'"
    using z(4,5,9) live_pages_insert [OF z(5)] kernel_zalloc_tail_keeps [OF assms(1,2) _ z(1)] assms(3)
    by (auto simp: grows_def)
  moreover have "page_of p \<in> live_pages (kernel_heap s')"
    using live_pages_insert [OF z(5)] by simp
  ultimately show ?thesis using z that by blast
qed

text \<open>
  The blocks at the end of the table that are free: a request that fits there succeeds, and
  first fit takes no more of them than it asks for.
\<close>

definition tail_room :: "'a kstate_scheme \<Rightarrow> nat" where
  "tail_room s = free_tail (entries (table (kernel_heap s)))"

lemma tail_room_free_blocks: "tail_room s \<le> free_blocks (kernel_heap s)"
proof -
  have "free_tail es \<le> length (filter is_free es)" for es
    by (induction es rule: rev_induct) auto
  then show ?thesis by (simp add: tail_room_def free_blocks_def)
qed

lemma kernel_zalloc_tail_result:
  assumes "heap_inv (kernel_heap s)" "0 < sz" "unat sz \<le> 2 ^ 32 - 4096" "blocks_for sz \<le> tail_room s"
  shows "\<exists>p s'. kernel_zalloc sz s = Some (p, s') \<and> p \<noteq> 0 \<and> tail_room s \<le> tail_room s' + blocks_for sz \<and>
    heap_pages (kernel_heap s') = heap_pages (kernel_heap s)"
proof -
  let ?h = "kernel_heap s" and ?n = "blocks_for sz"
  let ?i = "LEAST i. free_run (entries (table ?h)) i ?n"
  note n = blocks_for_pos [OF assms(2)]
  have "free_run (entries (table ?h)) (length (entries (table ?h)) - ?n) ?n"
    using assms(4) free_tail_le [of "entries (table ?h)"] by (subst free_run_at_end) (auto simp: tail_room_def)
  then have ex: "\<exists>i. free_run (entries (table ?h)) i ?n" by blast
  then have run: "free_run (entries (table ?h)) ?i ?n" by (rule LeastI_ex)
  have m: "heap_malloc ?h sz = Some (block_addr ?h ?i, put_run ?i ?n ?h)"
    using ex by (simp add: heap_malloc_cases [OF assms(2,3)] Let_def)
  have "?i < total (table ?h)" using free_run_bound [OF run] n by (simp add: total_def)
  then have "block_addr ?h ?i \<noteq> 0" by (rule block_addr_not_null [OF assms(1)])
  moreover have "heap_pages (put_run ?i ?n ?h) = heap_pages ?h"
    using free_run_bound [OF run] by (simp add: heap_pages_def total_put_run flip: total_def)
  ultimately show ?thesis
    using m free_tail_put_run [OF assms(1) ex n]
    by (simp add: kernel_zalloc_def kernel_malloc_def tail_room_def)
qed

lemma page_of_region:
  assumes "page_aligned p" "i < 4096 * n" "page_of p + n \<le> 2 ^ 20"
  shows "page_of (p + of_nat i) = page_of p + i div 4096"
proof -
  have "unat p = 4096 * page_of p"
    using assms(1) div_mult_mod_eq [of "unat p" 4096] by (simp add: page_aligned_def page_of_def)
  then have "unat (p + of_nat i) = 4096 * page_of p + i"
    using assms(2,3) by (subst unat_add_of_nat) auto
  then show ?thesis by (simp add: page_of_def)
qed

lemma alloc_region:
  assumes "heap_inv h" "(p, n) \<in> allocs h" "i < 4096 * n"
  shows "page_of (p + of_nat i) = page_of p + i div 4096" "page_of (p + of_nat i) \<in> live_pages h"
proof -
  note r = allocs_range [OF assms(1,2)]
  have "(unat (start_address h) + 4096 * total (table h)) div 4096 \<le> 2 ^ 32 div 4096"
    using assms(1) by (intro div_le_mono) (simp add: heap_inv_def)
  then have "page_of p + n \<le> 2 ^ 20" using r(5) by (simp add: page_of_def)
  then show pg: "page_of (p + of_nat i) = page_of p + i div 4096" by (rule page_of_region [OF r(1) assms(3)])
  have "i div 4096 < n" using assms(3) by (simp add: less_mult_imp_div_less mult.commute)
  then show "page_of (p + of_nat i) \<in> live_pages h" using assms(2) pg
    by (auto simp: live_pages_def intro!: bexI [of _ "(p, n)"])
qed

lemma kernel_zalloc_tail:
  fixes s :: "'a kstate_scheme"
  assumes "heap_inv (kernel_heap s)" "0 < sz" "unat sz \<le> 2 ^ 32 - 4096" "blocks_for sz \<le> tail_room s"
  obtains p s' where "kernel_zalloc sz s = Some (p, s')" "p \<noteq> 0" "page_aligned p" "grows s s'"
    "allocs (kernel_heap s') = insert (p, blocks_for sz) (allocs (kernel_heap s))"
    "tail_room s \<le> tail_room s' + blocks_for sz"
    "\<And>i. i < 4096 * blocks_for sz \<Longrightarrow> page_of (p + of_nat i) = page_of p + i div 4096 \<and>
      free_page (kernel_heap s) (page_of (p + of_nat i)) \<and> page_of (p + of_nat i) \<in> live_pages (kernel_heap s')"
    "\<And>a. unat (a - p) < unat sz \<Longrightarrow> mem s' a = 0"
proof -
  obtain p s' where z: "kernel_zalloc sz s = Some (p, s')" "p \<noteq> 0" "tail_room s \<le> tail_room s' + blocks_for sz"
      "heap_pages (kernel_heap s') = heap_pages (kernel_heap s)"
    using kernel_zalloc_tail_result [OF assms] by blast
  have f: "heap_inv (kernel_heap s')" "allocs (kernel_heap s') = insert (p, blocks_for sz) (allocs (kernel_heap s))"
      "(p, blocks_for sz) \<notin> allocs (kernel_heap s)"
      "\<And>a. mem s' a = (if unat (a - p) < unat sz then 0 else mem s a)"
    using kernel_zalloc_fresh [OF assms(1-3) z(1,2)] by auto
  have new: "(p, blocks_for sz) \<in> allocs (kernel_heap s')" using f(2) by simp
  note r = allocs_range [OF f(1) new]
  have top: "page_of p + blocks_for sz \<le> 2 ^ 20"
  proof -
    have "(unat (start_address (kernel_heap s')) + 4096 * total (table (kernel_heap s'))) div 4096 \<le> 2 ^ 32 div 4096"
      using f(1) by (intro div_le_mono) (simp add: heap_inv_def)
    then show ?thesis using r(5) by (simp add: page_of_def)
  qed
  have pg: "page_of (p + of_nat i) = page_of p + i div 4096" "i div 4096 < blocks_for sz"
    if "i < 4096 * blocks_for sz" for i
    using page_of_region [OF r(1) that top] that by auto
  have live: "page_of p + k \<in> live_pages (kernel_heap s')" "free_page (kernel_heap s) (page_of p + k)"
    if "k < blocks_for sz" for k
  proof -
    show "page_of p + k \<in> live_pages (kernel_heap s')"
      using f(2) that by (auto simp: live_pages_def)
    have "page_of p + k \<notin> {page_of q..<page_of q + n}" if q: "(q, n) \<in> allocs (kernel_heap s)" for q n
      using allocs_disjoint [OF f(1) new, of q n] q f(2,3) \<open>k < blocks_for sz\<close> by auto
    moreover have "page_of p + k \<in> heap_pages (kernel_heap s')"
      using r(4,5) that by (simp add: heap_pages_def)
    ultimately show "free_page (kernel_heap s) (page_of p + k)"
      using z(4) by (auto simp: free_page_def live_pages_def)
  qed
  have in_region: "\<exists>i < 4096 * blocks_for sz. a = p + of_nat i" if "unat (a - p) < unat sz" for a
  proof (intro exI conjI)
    show "unat (a - p) < 4096 * blocks_for sz"
      using that by (simp add: blocks_for_def)
    show "a = p + of_nat (unat (a - p))" by simp
  qed
  then have "free_page (kernel_heap s) (page_of a)" if "unat (a - p) < unat sz" for a
    using that live(2) pg by metis
  then have "grows s s'"
    using f z(4) kernel_zalloc_tail_keeps [OF assms(1-3) z(1)] by (auto simp: grows_def live_pages_def)
  then show ?thesis
    using z r(1) f live pg by (intro that [of p s']) auto
qed

section \<open>Properties\<close>

lemma kernel_heap_init_eq:
  "kernel_heap_init msg s = Some (s\<lparr>kernel_heap := \<lparr>table = \<lparr>entries = replicate 25600 0\<rparr>, start_address = 0x01000000\<rparr>\<rparr>)"
proof -
  have "heap_create (kernel_heap s) 0x01000000 0x07400000 \<lparr>entries = mem_bytes (mem s) 0x7E00 25600\<rparr> =
      (0, \<lparr>table = \<lparr>entries = replicate 25600 0\<rparr>, start_address = 0x01000000\<rparr>)"
    by (simp add: heap_create_def heap_validate_alignment_def heap_validate_table_def total_def)
  then show ?thesis by (simp add: kernel_heap_init_def config_defs)
qed

text \<open>
  \<open>kernel_heap_init\<close> succeeds on any state: it builds a well formed heap of 25600 free
  blocks at \<open>0x01000000\<close> with nothing allocated, and changes nothing else.
\<close>

theorem kernel_heap_init_correct:
  "\<exists>h. kernel_heap_init msg s = Some (s\<lparr>kernel_heap := h\<rparr>) \<and> heap_inv h \<and> allocs h = {} \<and>
     free_blocks h = 25600 \<and> start_address h = 0x01000000"
proof -
  let ?h = "\<lparr>table = \<lparr>entries = replicate 25600 0\<rparr>, start_address = 0x01000000\<rparr>"
  have "kernel_heap_init msg s = Some (s\<lparr>kernel_heap := ?h\<rparr>)" by (rule kernel_heap_init_eq)
  moreover have "heap_inv ?h"
    by (rule heap_inv_fresh [of _ 25600]) (simp_all add: page_aligned_def)
  moreover have "allocs ?h = {}"
    using runs_from_replicate_free [of 0 25600 "[]"] by (simp add: allocs_def)
  moreover have "free_blocks ?h = 25600"
    by (simp add: free_blocks_def)
  ultimately show ?thesis by (intro exI [of _ ?h]) simp
qed

text \<open>
  A successful \<open>kernel_zalloc\<close> returns a region that was not allocated, all of whose
  requested bytes read zero, and leaves every byte outside the request as it was.
\<close>

theorem kernel_zalloc_zeroed:
  assumes "heap_inv (kernel_heap s)" "0 < sz" "unat sz \<le> 2 ^ 32 - 4096"
    "kernel_zalloc sz s = Some (p, s')" "p \<noteq> 0"
  shows "heap_inv (kernel_heap s') \<and>
    allocs (kernel_heap s') = insert (p, blocks_for sz) (allocs (kernel_heap s)) \<and>
    (p, blocks_for sz) \<notin> allocs (kernel_heap s) \<and>
    (\<forall>a. mem s' a = (if unat (a - p) < unat sz then 0 else mem s a))"
  by (rule kernel_zalloc_fresh [OF assms])

definition demo_kernel :: kstate where
  "demo_kernel = \<lparr>mem = (\<lambda>_. 7), device = (\<lambda>_ _. 0), io_log = [],
     video_memory = 0xB8000, terminal_row = 0, terminal_col = 0, kernel_heap = small_heap\<rparr>"

theorem kernel_zalloc_zeroed_witness:
  "\<exists>s'. kernel_zalloc 5000 demo_kernel = Some (0x01001000, s') \<and> mem s' 0x01002387 = 0 \<and>
     mem s' 0x01002388 = 7"
proof -
  obtain s' where z: "kernel_zalloc 5000 demo_kernel = Some (0x01001000, s')"
    by (simp add: kernel_zalloc_def kernel_malloc_def demo_kernel_def heap_malloc_small)
  have "heap_inv (kernel_heap demo_kernel)"
    using heap_inv_small by (simp add: demo_kernel_def)
  from kernel_zalloc_zeroed [OF this _ _ z] show ?thesis
    using z by (simp add: demo_kernel_def)
qed

end
