(* ===== verification/Paging.thy ===== *)
theory Paging
  imports KernelHeap
begin

text \<open>
  The two level page tables of \<^verbatim>\<open>src/src/memory/paging/paging.c\<close>. Directories and tables are
  pages of 1024 words in memory, allocated from the kernel heap; a chunk is the address of a
  word that holds the address of its directory. The processor's side is the register
  \<open>cr3\<close> and the flag \<open>paging_enabled\<close>. A directory is well formed (\<open>wf_dir\<close>) when its 1024
  tables are pairwise different pages other than the directory itself; every operation keeps
  that, and a mapping reads back exactly where it was set. The main result is that
  \<open>paging_new_4gb\<close> builds the identity mapping of the whole address space.
\<close>

section \<open>Definitions\<close>

definition PAGING_CACHE_DISABLED :: u32 where [simp]: "PAGING_CACHE_DISABLED = 0x10"
definition PAGING_WRITE_THROUGH :: u32 where [simp]: "PAGING_WRITE_THROUGH = 0x08"
definition PAGING_ACCESS_FROM_ALL :: u32 where [simp]: "PAGING_ACCESS_FROM_ALL = 0x04"
definition PAGING_IS_WRITEABLE :: u32 where [simp]: "PAGING_IS_WRITEABLE = 0x02"
definition PAGING_IS_PRESENT :: u32 where [simp]: "PAGING_IS_PRESENT = 0x01"
definition PAGING_TOTAL_ENTRIES_PER_TABLE :: nat where [simp]: "PAGING_TOTAL_ENTRIES_PER_TABLE = 1024"
definition PAGING_PAGE_SIZE :: u32 where [simp]: "PAGING_PAGE_SIZE = 4096"

record paging = kstate +
  current_directory :: addr
  cr3 :: addr
  paging_enabled :: bool

text \<open>The inner loop of \<open>paging_new_4gb\<close>: fill one table.\<close>

definition paging_fill_table :: "addr \<Rightarrow> u32 \<Rightarrow> u32 \<Rightarrow> memory \<Rightarrow> memory" where
  "paging_fill_table entry offset flags m =
     fold (\<lambda>j m. store32 m (entry + 4 * of_nat j) ((offset + of_nat j * PAGING_PAGE_SIZE) OR flags))
       [0..<PAGING_TOTAL_ENTRIES_PER_TABLE] m"

text \<open>The outer loop: allocate and fill the tables. The offset wraps around after the last one.\<close>

function paging_new_loop ::
    "nat \<Rightarrow> u32 \<Rightarrow> addr \<Rightarrow> u32 \<Rightarrow> 'a kstate_scheme \<Rightarrow> 'a kstate_scheme option" where
  "paging_new_loop i offset directory flags s =
     (if i < PAGING_TOTAL_ENTRIES_PER_TABLE then do {
        (entry, s) \<leftarrow> kernel_zalloc 4096 s;
        let s = s\<lparr>mem := paging_fill_table entry offset flags (mem s)\<rparr>;
        let s = s\<lparr>mem := store32 (mem s) (directory + 4 * of_nat i)
                           (entry OR flags OR PAGING_IS_WRITEABLE)\<rparr>;
        paging_new_loop (Suc i) (offset + 1024 * PAGING_PAGE_SIZE) directory flags s
      } else Some s)"
  by pat_completeness auto
termination
  by (relation "measure (\<lambda>(i, offset, directory, flags, s). 1024 - i)") auto

declare paging_new_loop.simps [simp del]

definition paging_new_4gb :: "byte \<Rightarrow> 'a kstate_scheme \<Rightarrow> (addr \<times> 'a kstate_scheme) option" where
  "paging_new_4gb flags s = do {
     (directory, s) \<leftarrow> kernel_zalloc 4096 s;
     s \<leftarrow> paging_new_loop 0 0 directory (ucast flags) s;
     (chunk_4gb, s) \<leftarrow> kernel_zalloc 4 s;
     Some (chunk_4gb, s\<lparr>mem := store32 (mem s) chunk_4gb directory\<rparr>)
   }"

definition paging_load_directory :: "addr \<Rightarrow> 'a paging_scheme \<Rightarrow> 'a paging_scheme" where
  "paging_load_directory directory s = s\<lparr>cr3 := directory\<rparr>"

definition enable_paging :: "'a paging_scheme \<Rightarrow> 'a paging_scheme" where
  "enable_paging s = s\<lparr>paging_enabled := True\<rparr>"

definition paging_switch :: "addr \<Rightarrow> 'a paging_scheme \<Rightarrow> 'a paging_scheme" where
  "paging_switch chunk s =
     (let s = paging_load_directory (load32 (mem s) chunk) s
      in s\<lparr>current_directory := load32 (mem s) chunk\<rparr>)"

definition paging_free_4gb :: "addr \<Rightarrow> 'a kstate_scheme \<Rightarrow> 'a kstate_scheme" where
  "paging_free_4gb chunk s =
     (let s = fold (\<lambda>i s. let entry = load32 (mem s) (load32 (mem s) chunk + 4 * of_nat i);
                             table_ptr = entry AND 0xFFFFF000
                         in kernel_free table_ptr s) [0..<1024] s;
          s = kernel_free (load32 (mem s) chunk) s
      in kernel_free chunk s)"

definition paging_4gb_chunk_get_directory :: "memory \<Rightarrow> addr \<Rightarrow> addr" where
  "paging_4gb_chunk_get_directory m chunk = load32 m chunk"

definition paging_is_aligned :: "addr \<Rightarrow> bool" where
  "paging_is_aligned address \<longleftrightarrow> address mod PAGING_PAGE_SIZE = 0"

text \<open>The out parameters are returned; on an error they keep the values they had.\<close>

definition paging_get_indexes :: "addr \<Rightarrow> u32 \<Rightarrow> u32 \<Rightarrow> int \<times> u32 \<times> u32" where
  "paging_get_indexes virtual_address directory_index table_index =
     (if \<not> paging_is_aligned virtual_address
      then (- INVALID_ARGUMENT_ERROR, directory_index, table_index)
      else (0, virtual_address div (1024 * PAGING_PAGE_SIZE),
            virtual_address mod (1024 * PAGING_PAGE_SIZE) div PAGING_PAGE_SIZE))"

definition paging_align_to_lower_page :: "addr \<Rightarrow> addr" where
  "paging_align_to_lower_page address = address - address mod PAGING_PAGE_SIZE"

definition paging_align_address :: "addr \<Rightarrow> addr" where
  "paging_align_address ptr =
     (if ptr mod PAGING_PAGE_SIZE \<noteq> 0 then ptr + PAGING_PAGE_SIZE - ptr mod PAGING_PAGE_SIZE
      else ptr)"

definition paging_set_physical_address :: "addr \<Rightarrow> addr \<Rightarrow> u32 \<Rightarrow> memory \<Rightarrow> int \<times> memory" where
  "paging_set_physical_address directory virtual_address val m =
     (if \<not> paging_is_aligned virtual_address then (- INVALID_ARGUMENT_ERROR, m)
      else
        let (res, directory_index, table_index) = paging_get_indexes virtual_address 0 0
        in if res < 0 then (res, m)
           else
             let entry = load32 m (directory + 4 * directory_index);
                 table_ptr = entry AND 0xFFFFF000
             in (0, store32 m (table_ptr + 4 * table_index) val))"

definition paging_map :: "addr \<Rightarrow> addr \<Rightarrow> addr \<Rightarrow> u32 \<Rightarrow> memory \<Rightarrow> int \<times> memory" where
  "paging_map chunk virtual_address physical_address flags m =
     (if virtual_address mod PAGING_PAGE_SIZE \<noteq> 0 \<or> physical_address mod PAGING_PAGE_SIZE \<noteq> 0
      then (- INVALID_ARGUMENT_ERROR, m)
      else paging_set_physical_address (load32 m chunk) virtual_address
             (physical_address OR flags) m)"

text \<open>The loop of \<open>paging_map_range\<close> with the number of iterations still to do.\<close>

fun paging_map_loop :: "nat \<Rightarrow> addr \<Rightarrow> addr \<Rightarrow> addr \<Rightarrow> u32 \<Rightarrow> int \<Rightarrow> memory \<Rightarrow> int \<times> memory" where
  "paging_map_loop 0 chunk virtual_address physical_address flags res m = (res, m)"
| "paging_map_loop (Suc n) chunk virtual_address physical_address flags res m =
     (let (res, m) = paging_map chunk virtual_address physical_address flags m
      in if res < 0 then (res, m)
         else paging_map_loop n chunk (virtual_address + PAGING_PAGE_SIZE)
                (physical_address + PAGING_PAGE_SIZE) flags res m)"

definition paging_map_range ::
    "addr \<Rightarrow> addr \<Rightarrow> addr \<Rightarrow> int \<Rightarrow> u32 \<Rightarrow> memory \<Rightarrow> int \<times> memory" where
  "paging_map_range chunk virtual_address physical_address total_pages flags m =
     paging_map_loop (nat total_pages) chunk virtual_address physical_address flags 0 m"

definition paging_map_to ::
    "addr \<Rightarrow> addr \<Rightarrow> addr \<Rightarrow> addr \<Rightarrow> u32 \<Rightarrow> memory \<Rightarrow> int \<times> memory" where
  "paging_map_to chunk virtual_address physical_address physical_end_address flags m =
     (if virtual_address mod PAGING_PAGE_SIZE \<noteq> 0 then (- INVALID_ARGUMENT_ERROR, m)
      else if physical_address mod PAGING_PAGE_SIZE \<noteq> 0 then (- INVALID_ARGUMENT_ERROR, m)
      else if physical_end_address mod PAGING_PAGE_SIZE \<noteq> 0 then (- INVALID_ARGUMENT_ERROR, m)
      else if physical_end_address < physical_address then (- INVALID_ARGUMENT_ERROR, m)
      else
        let total_bytes = physical_end_address - physical_address;
            total_pages = sint (total_bytes div PAGING_PAGE_SIZE)
        in paging_map_range chunk virtual_address physical_address total_pages flags m)"

definition paging_get :: "addr \<Rightarrow> addr \<Rightarrow> memory \<Rightarrow> u32" where
  "paging_get directory virtual_address m =
     (let (res, directory_index, table_index) = paging_get_indexes virtual_address 0 0;
          entry = load32 m (directory + 4 * directory_index);
          table_ptr = entry AND 0xFFFFF000
      in load32 m (table_ptr + 4 * table_index))"

definition paging_get_physical_address :: "addr \<Rightarrow> addr \<Rightarrow> memory \<Rightarrow> addr" where
  "paging_get_physical_address directory virtual_address m =
     (let virtual_address_new = paging_align_to_lower_page virtual_address;
          difference = virtual_address - virtual_address_new
      in (paging_get directory virtual_address_new m AND 0xFFFFF000) + difference)"

section \<open>Specification\<close>

text \<open>Word \<open>k\<close> of a page, the table a directory entry points to, and well formed directories.\<close>

definition slot :: "addr \<Rightarrow> nat \<Rightarrow> addr" where
  "slot p k = p + of_nat (4 * k)"

definition table_of :: "memory \<Rightarrow> addr \<Rightarrow> nat \<Rightarrow> addr" where
  "table_of m dir i = load32 m (slot dir i) AND 0xFFFFF000"

definition wf_dir :: "memory \<Rightarrow> addr \<Rightarrow> bool" where
  "wf_dir m dir \<longleftrightarrow> page_aligned dir \<and>
     (\<forall>i < 1024. table_of m dir i \<noteq> dir \<and>
        (\<forall>j < 1024. i \<noteq> j \<longrightarrow> table_of m dir i \<noteq> table_of m dir j))"

section \<open>Masks and indexes\<close>

lemma page_aligned_bit: "page_aligned a \<longleftrightarrow> (\<forall>n < 12. \<not> bit a n)"
proof -
  have "page_aligned a \<longleftrightarrow> take_bit 12 (unat a) = 0"
    by (simp add: page_aligned_def take_bit_eq_mod)
  also have "\<dots> \<longleftrightarrow> (\<forall>n < 12. \<not> bit a n)"
    by (auto simp: bit_eq_iff bit_simps bit_unsigned_iff)
  finally show ?thesis .
qed

lemma bit_frame_mask: "bit (0xFFFFF000 :: u32) n \<longleftrightarrow> 12 \<le> n \<and> n < 32"
proof -
  have eq: "(0xFFFFF000 :: u32) = NOT (mask 12)" by (simp add: mask_eq_exp_minus_1)
  show ?thesis unfolding eq by (auto simp: bit_simps)
qed

lemma page_aligned_mask [simp]: "page_aligned (a AND 0xFFFFF000)"
  by (simp add: page_aligned_bit bit_and_iff bit_frame_mask del: bit_numeral_word_iff)

lemma mask_page_or:
  assumes "page_aligned a" "\<And>n. bit f n \<Longrightarrow> n < 12"
  shows "(a OR f) AND 0xFFFFF000 = a"
proof (rule bit_word_eqI)
  fix n assume "n < LENGTH(32)"
  then show "bit ((a OR f) AND 0xFFFFF000) n = bit a n"
    using assms(1) assms(2) [of n]
    by (cases "n < 12")
       (auto simp: page_aligned_bit bit_and_iff bit_or_iff bit_frame_mask simp del: bit_numeral_word_iff)
qed

lemma mask_page: "page_aligned a \<Longrightarrow> a AND 0xFFFFF000 = a"
  using mask_page_or [of a 0] by simp

lemma paging_is_aligned_iff: "paging_is_aligned a \<longleftrightarrow> page_aligned a"
  by (simp add: paging_is_aligned_def page_aligned_def word_unat_eq_iff unat_mod_distrib)

lemma slot_word: "p + 4 * i = slot p (unat i)"
  by (simp add: slot_def)

lemma slot_of_nat: "p + 4 * of_nat i = slot p i"
  by (simp add: slot_def)

lemma word_aligned_slot: "page_aligned p \<Longrightarrow> k < 1024 \<Longrightarrow> word_aligned (slot p k)"
  unfolding slot_def by (rule word_aligned_add4)

lemma page_of_slot: "page_aligned p \<Longrightarrow> k < 1024 \<Longrightarrow> page_of (slot p k) = page_of p"
  unfolding slot_def by (rule page_of_add) simp_all

lemma slot_inject:
  assumes "page_aligned p" "page_aligned q" "i < 1024" "j < 1024"
  shows "slot p i = slot q j \<longleftrightarrow> p = q \<and> i = j"
proof
  assume eq: "slot p i = slot q j"
  then have "p = q"
    using page_of_slot [OF assms(1,3)] page_of_slot [OF assms(2,4)] page_of_inject [OF assms(1,2)]
    by simp
  moreover from this eq have "4 * i = 4 * j"
    using assms(3,4) add_of_nat_eq_iff_u32 [of "4 * i" "4 * j" p] by (simp add: slot_def)
  ultimately show "p = q \<and> i = j" by simp
qed simp

lemma load32_store32_slot:
  assumes "page_aligned p" "page_aligned q" "i < 1024" "j < 1024"
  shows "load32 (store32 m (slot p i) v) (slot q j) =
    (if p = q \<and> i = j then v else load32 m (slot q j))"
  using assms load32_store32_other [of "slot p i" "slot q j" m v]
  by (auto simp: word_aligned_slot slot_inject)

text \<open>A load from a page sees only that page.\<close>

lemma load32_same_page:
  assumes "page_aligned p" "k < 1024" "\<And>a. page_of a = page_of p \<Longrightarrow> m' a = m a"
  shows "load32 m' (slot p k) = load32 m (slot p k)"
proof -
  have *: "m' (slot p k + of_nat i) = m (slot p k + of_nat i)" if "i < 4" for i
  proof (rule assms(3))
    have "slot p k + of_nat i = p + of_nat (4 * k + i)" by (simp add: slot_def)
    then show "page_of (slot p k + of_nat i) = page_of p"
      using assms(1,2) that page_of_add [of p "4 * k + i"] by (simp del: of_nat_add of_nat_mult)
  qed
  show ?thesis
    using * [of 0] * [of 1] * [of 2] * [of 3] by (intro load32_cong) simp_all
qed

lemma store32_slot_other_page:
  assumes "page_aligned p" "k < 1024" "page_of a \<noteq> page_of p"
  shows "store32 m (slot p k) v a = m a"
proof -
  have "a \<noteq> slot p k + of_nat i" if "i < 4" for i
  proof
    assume "a = slot p k + of_nat i"
    then have "a = p + of_nat (4 * k + i)" by (simp add: slot_def)
    then show False
      using assms that page_of_add [of p "4 * k + i"] by (simp del: of_nat_add of_nat_mult)
  qed
  from this [of 0] this [of 1] this [of 2] this [of 3] show ?thesis
    by (intro store32_other) simp_all
qed

section \<open>Reading and writing one mapping\<close>

definition dir_index :: "addr \<Rightarrow> nat" where
  "dir_index v = unat v div 0x400000"

definition table_index :: "addr \<Rightarrow> nat" where
  "table_index v = unat v mod 0x400000 div 4096"

lemma index_bounds: "dir_index v < 1024" "table_index v < 1024"
proof -
  have "unat v < 4294967296" by simp
  then show "dir_index v < 1024" by (simp only: dir_index_def less_mult_imp_div_less)
  show "table_index v < 1024"
    unfolding table_index_def by (intro less_mult_imp_div_less) simp
qed

lemma aligned_index_split:
  assumes "page_aligned v"
  shows "unat v = 0x400000 * dir_index v + 4096 * table_index v"
proof -
  have "unat v mod 0x400000 mod 4096 = unat v mod 4096"
    by (rule mod_mod_cancel) simp
  then have "unat v mod 0x400000 = 4096 * (unat v mod 0x400000 div 4096)"
    using assms div_mult_mod_eq [of "unat v mod 0x400000" 4096] by (simp add: page_aligned_def)
  then show ?thesis
    using div_mult_mod_eq [of "unat v" "0x400000"] by (simp add: dir_index_def table_index_def)
qed

lemma index_inject:
  assumes "page_aligned v" "page_aligned w" "dir_index v = dir_index w" "table_index v = table_index w"
  shows "v = w"
  using aligned_index_split [OF assms(1)] aligned_index_split [OF assms(2)] assms(3,4)
  by (simp add: word_unat_eq_iff)

lemma paging_get_indexes_aligned:
  assumes "page_aligned v"
  shows "paging_get_indexes v a b = (0, of_nat (dir_index v), of_nat (table_index v))"
proof -
  have "v div 0x400000 = of_nat (dir_index v)" "v mod 0x400000 div 4096 = of_nat (table_index v)"
    using index_bounds [of v]
    by (simp_all add: word_unat_eq_iff unat_div_distrib unat_mod_distrib dir_index_def table_index_def
        unat_of_nat take_bit_nat_eq_self)
  then show ?thesis
    using assms by (simp add: paging_get_indexes_def paging_is_aligned_iff)
qed

lemma page_aligned_table_of [simp]: "page_aligned (table_of m dir i)"
  by (simp add: table_of_def)

text \<open>The word that holds the mapping of a page.\<close>

definition entry_slot :: "memory \<Rightarrow> addr \<Rightarrow> addr \<Rightarrow> addr" where
  "entry_slot m dir v = slot (table_of m dir (dir_index v)) (table_index v)"

lemma paging_get_aligned:
  "page_aligned v \<Longrightarrow> paging_get dir v m = load32 m (entry_slot m dir v)"
  by (simp add: paging_get_def paging_get_indexes_aligned slot_of_nat table_of_def entry_slot_def)

lemma paging_set_aligned:
  "page_aligned v \<Longrightarrow> paging_set_physical_address dir v val m = (0, store32 m (entry_slot m dir v) val)"
  by (simp add: paging_set_physical_address_def paging_get_indexes_aligned slot_of_nat table_of_def
      entry_slot_def paging_is_aligned_iff)

lemma table_of_store_entry:
  assumes "wf_dir m dir" "i < 1024"
  shows "table_of (store32 m (entry_slot m dir v) val) dir i = table_of m dir i"
proof -
  have "table_of m dir (dir_index v) \<noteq> dir" "page_aligned dir"
    using assms(1) index_bounds [of v] by (auto simp: wf_dir_def)
  then show ?thesis
    using index_bounds [of v] assms(2)
    by (simp add: table_of_def [of "store32 m _ val"] entry_slot_def load32_store32_slot)
       (simp add: table_of_def)
qed

lemma wf_dir_store_entry: "wf_dir m dir \<Longrightarrow> wf_dir (store32 m (entry_slot m dir v) val) dir"
  using table_of_store_entry [of m dir] by (simp add: wf_dir_def)

lemma paging_get_store_entry:
  assumes "wf_dir m dir" "page_aligned v" "page_aligned w"
  shows "paging_get dir w (store32 m (entry_slot m dir v) val) =
    (if w = v then val else paging_get dir w m)"
proof -
  have "entry_slot (store32 m (entry_slot m dir v) val) dir w = entry_slot m dir w"
    using table_of_store_entry [OF assms(1)] index_bounds [of w] by (simp add: entry_slot_def)
  moreover have "entry_slot m dir v = entry_slot m dir w \<longleftrightarrow> v = w"
  proof
    assume "entry_slot m dir v = entry_slot m dir w"
    then have "table_of m dir (dir_index v) = table_of m dir (dir_index w) \<and> table_index v = table_index w"
      using index_bounds [of v] index_bounds [of w] by (simp add: entry_slot_def slot_inject)
    moreover from this have "dir_index v = dir_index w"
      using assms(1) index_bounds [of v] index_bounds [of w] by (auto simp: wf_dir_def)
    ultimately show "v = w" using index_inject [OF assms(2,3)] by simp
  qed simp
  ultimately show ?thesis
    using load32_store32_slot [of "table_of m dir (dir_index v)" "table_of m dir (dir_index w)"
        "table_index v" "table_index w" m val] index_bounds [of v] index_bounds [of w] assms
    by (auto simp: paging_get_aligned entry_slot_def slot_inject)
qed

lemma page_aligned_step: "page_aligned v \<Longrightarrow> page_aligned (v + 4096)"
proof -
  assume "page_aligned v"
  then have "(v + 4096) mod 4096 = 0"
    by (simp add: page_aligned_def word_unat_eq_iff unat_mod_distrib unat_word_ariths mod_mod_cancel)
  then show ?thesis
    by (simp add: page_aligned_def word_unat_eq_iff unat_mod_distrib)
qed

lemma page_aligned_diff:
  assumes "page_aligned v" "page_aligned w" "w \<noteq> v"
  shows "4096 \<le> unat (w - v)"
  using assms in_page_iff [of v w] page_of_inject [of w v] by (meson not_less)

lemma page_step_less:
  assumes "page_aligned w" "page_aligned v" "Suc n \<le> 2 ^ 20"
  shows "unat (w - v) < 4096 * Suc n \<longleftrightarrow> w = v \<or> unat (w - (v + 4096)) < 4096 * n"
proof (cases "w = v")
  case False
  then have "4096 \<le> unat (w - v)" using page_aligned_diff assms by simp
  then have "unat (w - v - 4096) = unat (w - v) - 4096"
    by (subst unat_sub) (simp_all add: word_le_nat_alt)
  then show ?thesis using False \<open>4096 \<le> unat (w - v)\<close> by (auto simp: algebra_simps)
qed simp

section \<open>Chunks, and the interface of a page map\<close>

text \<open>
  A chunk word that holds a well formed directory and lies in none of its tables, so that
  writing a mapping changes neither the chunk nor the directory.
\<close>

definition wf_chunk :: "addr \<Rightarrow> memory \<Rightarrow> bool" where
  "wf_chunk chunk m \<longleftrightarrow> word_aligned chunk \<and> wf_dir m (load32 m chunk) \<and>
     (\<forall>i < 1024. page_of (table_of m (load32 m chunk) i) \<noteq> page_of chunk)"

lemma paging_map_aligned:
  "page_aligned v \<Longrightarrow> page_aligned p \<Longrightarrow>
   paging_map chunk v p flags m = (0, store32 m (entry_slot m (load32 m chunk) v) (p OR flags))"
  by (simp add: paging_map_def paging_set_aligned page_aligned_def word_unat_eq_iff unat_mod_distrib)

lemma paging_map_unaligned:
  "\<not> page_aligned v \<or> \<not> page_aligned p \<Longrightarrow>
   paging_map chunk v p flags m = (- INVALID_ARGUMENT_ERROR, m)"
  by (simp add: paging_map_def page_aligned_def word_unat_eq_iff unat_mod_distrib)

lemma load32_chunk_store_entry:
  assumes "wf_chunk chunk m"
  shows "load32 (store32 m (entry_slot m (load32 m chunk) v) val) chunk = load32 m chunk"
proof -
  let ?t = "table_of m (load32 m chunk) (dir_index v)"
  have "page_of ?t \<noteq> page_of chunk"
    using assms index_bounds [of v] by (simp add: wf_chunk_def)
  then have "slot ?t (table_index v) \<noteq> chunk"
    using page_of_slot [of ?t "table_index v"] index_bounds [of v] by auto
  then show ?thesis
    using assms index_bounds [of v]
    by (simp add: entry_slot_def wf_chunk_def load32_store32_other word_aligned_slot)
qed

lemma wf_chunk_store_entry:
  assumes "wf_chunk chunk m"
  shows "wf_chunk chunk (store32 m (entry_slot m (load32 m chunk) v) val)"
  using assms load32_chunk_store_entry [OF assms, of v val]
    wf_dir_store_entry [of m "load32 m chunk" v val] table_of_store_entry [of m "load32 m chunk" _ v val]
  by (simp add: wf_chunk_def)

text \<open>What a client of one address space relies on: a mapping reads back where it was made.\<close>

locale page_map =
  fixes inv :: "'m \<Rightarrow> bool" and lookup :: "addr \<Rightarrow> 'm \<Rightarrow> u32"
    and map_page :: "addr \<Rightarrow> addr \<Rightarrow> u32 \<Rightarrow> 'm \<Rightarrow> int \<times> 'm"
  assumes map_inv: "inv m \<Longrightarrow> inv (snd (map_page v p f m))"
    and map_lookup: "inv m \<Longrightarrow> page_aligned v \<Longrightarrow> page_aligned p \<Longrightarrow> page_aligned w \<Longrightarrow>
      lookup w (snd (map_page v p f m)) = (if w = v then p OR f else lookup w m)"
    and map_ok: "page_aligned v \<Longrightarrow> page_aligned p \<Longrightarrow> fst (map_page v p f m) = 0"
    and map_error: "\<not> page_aligned v \<or> \<not> page_aligned p \<Longrightarrow>
      map_page v p f m = (- INVALID_ARGUMENT_ERROR, m)"

text \<open>An operation that maps consecutive pages one by one and stops at the first error.\<close>

locale page_range_map = page_map +
  fixes map_pages :: "nat \<Rightarrow> addr \<Rightarrow> addr \<Rightarrow> u32 \<Rightarrow> int \<Rightarrow> 'a \<Rightarrow> int \<times> 'a"
  assumes pages_0: "map_pages 0 v p f r m = (r, m)"
    and pages_Suc: "map_pages (Suc n) v p f r m =
      (if fst (map_page v p f m) < 0 then map_page v p f m
       else map_pages n (v + 4096) (p + 4096) f (fst (map_page v p f m)) (snd (map_page v p f m)))"
begin

lemma map_pages_inv: "inv m \<Longrightarrow> inv (snd (map_pages n v p f r m))"
  by (induction n arbitrary: v p r m) (auto simp: pages_0 pages_Suc map_inv)

lemma map_pages_ok:
  "page_aligned v \<Longrightarrow> page_aligned p \<Longrightarrow> fst (map_pages n v p f 0 m) = 0"
  by (induction n arbitrary: v p m) (auto simp: pages_0 pages_Suc map_ok page_aligned_step)

lemma map_pages_lookup:
  assumes "inv m" "page_aligned v" "page_aligned p" "page_aligned w" "n \<le> 2 ^ 20"
  shows "lookup w (snd (map_pages n v p f r m)) =
    (if unat (w - v) < 4096 * n then (p + (w - v)) OR f else lookup w m)"
  using assms
proof (induction n arbitrary: v p r m)
  case (Suc n)
  let ?m = "snd (map_page v p f m)"
  have "lookup w (snd (map_pages (Suc n) v p f r m)) =
      (if unat (w - (v + 4096)) < 4096 * n then (p + 4096 + (w - (v + 4096))) OR f else lookup w ?m)"
    using Suc.prems Suc.IH [of ?m "v + 4096" "p + 4096" "fst (map_page v p f m)"]
    by (simp add: pages_Suc map_ok map_inv page_aligned_step)
  also have "\<dots> = (if unat (w - v) < 4096 * Suc n then (p + (w - v)) OR f else lookup w m)"
    using Suc.prems page_step_less [of w v n]
    by (auto simp: map_lookup)
  finally show ?case .
qed (simp add: pages_0)

lemma map_pages_error:
  assumes "\<not> page_aligned v \<or> \<not> page_aligned p" "0 < n"
  shows "map_pages n v p f r m = (- INVALID_ARGUMENT_ERROR, m)"
  using assms by (cases n) (auto simp: pages_Suc map_error)

end

interpretation pm: page_range_map "wf_chunk chunk" "\<lambda>v m. paging_get (load32 m chunk) v m"
  "paging_map chunk" "\<lambda>n. paging_map_loop n chunk" for chunk
proof unfold_locales
  fix m v p f
  assume "wf_chunk chunk m"
  then show "wf_chunk chunk (snd (paging_map chunk v p f m))"
    using paging_map_aligned [of v p chunk f m] paging_map_unaligned [of v p chunk f m]
    by (cases "page_aligned v \<and> page_aligned p") (auto simp: wf_chunk_store_entry)
next
  fix m v p w f
  assume "wf_chunk chunk m" "page_aligned v" "page_aligned p" "page_aligned w"
  then show "paging_get (load32 (snd (paging_map chunk v p f m)) chunk) w (snd (paging_map chunk v p f m)) =
      (if w = v then p OR f else paging_get (load32 m chunk) w m)"
    by (simp add: paging_map_aligned load32_chunk_store_entry paging_get_store_entry)
       (simp add: wf_chunk_def paging_get_store_entry)
next
  fix n v p f r m
  show "paging_map_loop (Suc n) chunk v p f r m =
      (if fst (paging_map chunk v p f m) < 0 then paging_map chunk v p f m
       else paging_map_loop n chunk (v + 4096) (p + 4096) f (fst (paging_map chunk v p f m))
              (snd (paging_map chunk v p f m)))"
    by (simp add: split_beta)
qed (simp_all add: paging_map_aligned paging_map_unaligned)

section \<open>Building a directory\<close>

lemma fold_store_slots:
  assumes "page_aligned t" "n \<le> 1024"
  shows "j < 1024 \<Longrightarrow> load32 (fold (\<lambda>j m. store32 m (slot t j) (f j)) [0..<n] m) (slot t j) =
      (if j < n then f j else load32 m (slot t j))"
    and "page_of a \<noteq> page_of t \<Longrightarrow> fold (\<lambda>j m. store32 m (slot t j) (f j)) [0..<n] m a = m a"
proof -
  show "j < 1024 \<Longrightarrow> load32 (fold (\<lambda>j m. store32 m (slot t j) (f j)) [0..<n] m) (slot t j) =
      (if j < n then f j else load32 m (slot t j))"
    using assms(2)
  proof (induction n)
    case (Suc n)
    then show ?case
      using load32_store32_slot [OF assms(1) assms(1), of n j] by (cases "j = n") simp_all
  qed simp
  show "page_of a \<noteq> page_of t \<Longrightarrow> fold (\<lambda>j m. store32 m (slot t j) (f j)) [0..<n] m a = m a"
    using assms(2) by (induction n) (simp_all add: store32_slot_other_page [OF assms(1)])
qed

lemma paging_fill_table_entry:
  "page_aligned t \<Longrightarrow> j < 1024 \<Longrightarrow>
   load32 (paging_fill_table t offset flags m) (slot t j) = (offset + of_nat j * 4096) OR flags"
  using fold_store_slots(1) [of t 1024 j "\<lambda>j. (offset + of_nat j * 4096) OR flags" m]
  by (simp add: paging_fill_table_def slot_of_nat)

lemma paging_fill_table_other:
  "page_aligned t \<Longrightarrow> page_of a \<noteq> page_of t \<Longrightarrow> paging_fill_table t offset flags m a = m a"
  using fold_store_slots(2) [of t 1024 a "\<lambda>j. (offset + of_nat j * 4096) OR flags" m]
  by (simp add: paging_fill_table_def slot_of_nat)

text \<open>
  The tables \<open>tbl k\<close> for \<open>i \<le> k < 1024\<close> that the rest of the loop adds: fresh, pairwise
  different, entered in the directory and filled with the identity mapping.
\<close>

definition new_tables ::
    "nat \<Rightarrow> addr \<Rightarrow> u32 \<Rightarrow> 'a kstate_scheme \<Rightarrow> 'a kstate_scheme \<Rightarrow> (nat \<Rightarrow> addr) \<Rightarrow> bool" where
  "new_tables i d flags s s' tbl \<longleftrightarrow>
     (\<forall>k \<in> {i..<1024}. page_aligned (tbl k) \<and> page_of (tbl k) \<notin> live_pages (kernel_heap s) \<and>
        load32 (mem s') (slot d k) = tbl k OR flags OR 2 \<and>
        (\<forall>j < 1024. load32 (mem s') (slot (tbl k) j) =
           (of_nat (k * 0x400000) + of_nat j * 4096) OR flags)) \<and>
     inj_on tbl {i..<1024} \<and>
     (\<forall>k < i. load32 (mem s') (slot d k) = load32 (mem s) (slot d k)) \<and>
     (\<forall>a. page_of a \<noteq> page_of d \<longrightarrow> page_of a \<notin> page_of ` tbl ` {i..<1024} \<longrightarrow> mem s' a = mem s a) \<and>
     heap_inv (kernel_heap s') \<and>
     free_blocks (kernel_heap s) = free_blocks (kernel_heap s') + (1024 - i) \<and>
     allocs (kernel_heap s') = (\<lambda>k. (tbl k, 1)) ` {i..<1024} \<union> allocs (kernel_heap s)"

lemma atLeastLessThan_first: "i < n \<Longrightarrow> {i..<n} = insert i {Suc i..<(n :: nat)}"
  by auto

lemma new_tables_step:
  assumes d: "page_aligned d" "page_of d \<in> live_pages (kernel_heap s)" and i: "i < 1024"
    and t: "page_aligned t" "page_of t \<notin> live_pages (kernel_heap s)"
      "allocs (kernel_heap s1) = insert (t, 1) (allocs (kernel_heap s))"
      "free_blocks (kernel_heap s) = Suc (free_blocks (kernel_heap s1))"
      "\<And>a. page_of a \<noteq> page_of t \<Longrightarrow> mem s1 a = mem s a"
    and s2: "kernel_heap s2 = kernel_heap s1"
      "mem s2 = store32 (paging_fill_table t (of_nat (i * 0x400000)) flags (mem s1)) (slot d i)
         (t OR flags OR 2)"
    and rest: "new_tables (Suc i) d flags s2 s' tbl"
  shows "new_tables i d flags s s' (tbl(i := t))"
proof -
  have td: "page_of t \<noteq> page_of d" "t \<noteq> d" using d t by auto
  have live: "live_pages (kernel_heap s2) = insert (page_of t) (live_pages (kernel_heap s))"
    using live_pages_insert [OF t(3)] s2(1) by simp
  have tbl: "page_of (tbl k) \<noteq> page_of t" "page_of (tbl k) \<notin> live_pages (kernel_heap s)"
    if "k \<in> {Suc i..<1024}" for k
    using rest that unfolding new_tables_def live by auto
  have frame: "mem s' a = mem s2 a"
    if "page_of a \<noteq> page_of d" "page_of a \<notin> page_of ` tbl ` {Suc i..<1024}" for a
    using rest that unfolding new_tables_def by blast
  have img: "(tbl(i := t)) ` {i..<1024} = insert t (tbl ` {Suc i..<1024})"
    using i by (subst atLeastLessThan_first) auto
  have "load32 (mem s') (slot t j) = (of_nat (i * 0x400000) + of_nat j * 4096) OR flags"
    if "j < 1024" for j
  proof -
    have "page_of t \<notin> page_of ` tbl ` {Suc i..<1024}" using tbl by force
    then have "load32 (mem s') (slot t j) = load32 (mem s2) (slot t j)"
      using that td t(1) frame by (intro load32_same_page) auto
    then show ?thesis
      using that td t(1) d(1) i by (simp add: s2(2) load32_store32_slot paging_fill_table_entry)
  qed
  moreover have "load32 (mem s') (slot d k) = load32 (mem s2) (slot d k)" if "k < Suc i" for k
    using rest that by (simp add: new_tables_def)
  moreover have "load32 (mem s2) (slot d i) = t OR flags OR 2"
    by (simp add: s2(2))
  moreover have "load32 (mem s2) (slot d k) = load32 (mem s) (slot d k)" if "k < i" for k
  proof -
    have "load32 (mem s2) (slot d k) = load32 (paging_fill_table t (of_nat (i * 0x400000)) flags (mem s1)) (slot d k)"
      using that i d(1) by (simp add: s2(2) load32_store32_slot)
    also have "\<dots> = load32 (mem s) (slot d k)"
      using that i d(1) td(1) t(1,5) paging_fill_table_other [OF t(1)] by (intro load32_same_page) auto
    finally show ?thesis .
  qed
  moreover have "mem s2 a = mem s a" if "page_of a \<noteq> page_of d" "page_of a \<noteq> page_of t" for a
    using that d(1) t(1,5) i by (simp add: s2(2) store32_slot_other_page paging_fill_table_other)
  moreover have "inj_on (tbl(i := t)) {i..<1024}"
  proof (rule inj_onI)
    fix x y assume "x \<in> {i..<1024}" "y \<in> {i..<1024}" "(tbl(i := t)) x = (tbl(i := t)) y"
    moreover have "inj_on tbl {Suc i..<1024}" using rest unfolding new_tables_def by blast
    moreover have "tbl k \<noteq> t" if "k \<in> {i..<1024}" "k \<noteq> i" for k
      using tbl(1) [of k] that by auto
    ultimately show "x = y"
      unfolding atLeastLessThan_first [OF i] inj_on_def fun_upd_apply by (metis insert_iff)
  qed
  moreover have "(\<lambda>k. ((tbl(i := t)) k, 1 :: nat)) ` {i..<1024} =
      insert (t, 1) ((\<lambda>k. (tbl k, 1)) ` {Suc i..<1024})"
    using i by (subst atLeastLessThan_first) auto
  ultimately have facts:
    "\<forall>j < 1024. load32 (mem s') (slot t j) = (of_nat (i * 0x400000) + of_nat j * 4096) OR flags"
    "load32 (mem s') (slot d i) = t OR flags OR 2"
    "\<forall>k < i. load32 (mem s') (slot d k) = load32 (mem s) (slot d k)"
    "\<forall>a. page_of a \<noteq> page_of d \<longrightarrow> page_of a \<notin> page_of ` (tbl(i := t)) ` {i..<1024} \<longrightarrow> mem s' a = mem s a"
    "inj_on (tbl(i := t)) {i..<1024}"
    "allocs (kernel_heap s') = (\<lambda>k. ((tbl(i := t)) k, 1)) ` {i..<1024} \<union> allocs (kernel_heap s)"
    "free_blocks (kernel_heap s) = free_blocks (kernel_heap s') + (1024 - i)"
    "heap_inv (kernel_heap s')"
    using rest t(3,4) frame s2(1) i unfolding img new_tables_def by simp_all
  have "\<forall>k \<in> {i..<1024}. page_aligned ((tbl(i := t)) k) \<and>
      page_of ((tbl(i := t)) k) \<notin> live_pages (kernel_heap s) \<and>
      load32 (mem s') (slot d k) = (tbl(i := t)) k OR flags OR 2 \<and>
      (\<forall>j < 1024. load32 (mem s') (slot ((tbl(i := t)) k) j) =
         (of_nat (k * 0x400000) + of_nat j * 4096) OR flags)"
    using facts(1,2) t(1,2) tbl(2) rest unfolding atLeastLessThan_first [OF i] new_tables_def by auto
  with facts show ?thesis unfolding new_tables_def by blast
qed

lemma paging_new_loop_correct:
  fixes s :: "'a kstate_scheme"
  assumes "heap_inv (kernel_heap s)" "1024 - i \<le> free_blocks (kernel_heap s)"
    "page_aligned d" "page_of d \<in> live_pages (kernel_heap s)" "i \<le> 1024"
  shows "\<exists>s' tbl. paging_new_loop i (of_nat (i * 0x400000)) d flags s = Some s' \<and>
    new_tables i d flags s s' tbl"
  using assms
proof (induction "1024 - i" arbitrary: i s)
  case 0
  then show ?case by (subst paging_new_loop.simps) (auto simp: new_tables_def)
next
  case (Suc n)
  then have i: "i < 1024" by simp
  obtain t s1 where t: "kernel_zalloc 4096 s = Some (t, s1)" "page_aligned t"
      "heap_inv (kernel_heap s1)" "allocs (kernel_heap s1) = insert (t, 1) (allocs (kernel_heap s))"
      "free_blocks (kernel_heap s) = Suc (free_blocks (kernel_heap s1))"
      "page_of t \<notin> live_pages (kernel_heap s)"
      "\<And>a. page_of a \<noteq> page_of t \<Longrightarrow> mem s1 a = mem s a"
    by (rule kernel_zalloc_page [of s 4096]) (use Suc.prems i in auto)
  define s2 where "s2 = s1\<lparr>mem := store32 (paging_fill_table t (of_nat (i * 0x400000)) flags (mem s1))
      (slot d i) (t OR flags OR 2)\<rparr>"
  have live: "live_pages (kernel_heap s2) = insert (page_of t) (live_pages (kernel_heap s))"
    using live_pages_insert [OF t(4)] by (simp add: s2_def)
  have "\<exists>s' tbl. paging_new_loop (Suc i) (of_nat (Suc i * 0x400000)) d flags s2 = Some s' \<and>
      new_tables (Suc i) d flags s2 s' tbl"
    using Suc.hyps(2) Suc.prems t(3,5) i live by (intro Suc.hyps(1)) (auto simp: s2_def)
  then obtain s' tbl where rest: "paging_new_loop (Suc i) (of_nat (Suc i * 0x400000)) d flags s2 = Some s'"
      "new_tables (Suc i) d flags s2 s' tbl" by blast
  have "paging_new_loop i (of_nat (i * 0x400000)) d flags s = Some s'"
    using i t(1) rest(1)
    by (subst paging_new_loop.simps) (simp add: s2_def slot_def algebra_simps)
  moreover have "new_tables i d flags s s' (tbl(i := t))"
    using Suc.prems i t rest(2) by (intro new_tables_step [of d s i t s1 s2]) (auto simp: s2_def)
  ultimately show ?case by blast
qed

section \<open>Translating an address\<close>

lemma paging_align_to_lower_page_aligned [simp]: "page_aligned (paging_align_to_lower_page a)"
proof -
  have "a mod 4096 \<le> a" by (simp add: word_le_nat_alt unat_mod_distrib)
  then have "unat (a - a mod 4096) = unat a - unat a mod 4096"
    by (simp add: unat_sub unat_mod_distrib)
  also have "\<dots> = 4096 * (unat a div 4096)" by (simp add: minus_mod_eq_mult_div)
  finally show ?thesis
    by (simp add: page_aligned_def paging_align_to_lower_page_def)
qed

lemma lower_page_rest: "unat (a - paging_align_to_lower_page a) < 4096"
proof -
  have "a - paging_align_to_lower_page a = a mod 4096"
    by (simp add: paging_align_to_lower_page_def)
  then show ?thesis by (simp add: unat_mod_distrib)
qed

lemma small_flags_bit: "f < 4096 \<Longrightarrow> bit (f :: u32) n \<Longrightarrow> n < 12"
proof (rule ccontr)
  assume f: "f < 4096" "bit f n" and "\<not> n < 12"
  from f(1) have "take_bit 12 f = f"
    by (simp add: take_bit_eq_mod word_unat_eq_iff unat_mod_distrib word_less_nat_alt)
  with f(2) \<open>\<not> n < 12\<close> show False by (metis bit_take_bit_iff)
qed

lemma small_flags_or: "f < 4096 \<Longrightarrow> g < 4096 \<Longrightarrow> bit ((f :: u32) OR g) n \<Longrightarrow> n < 12"
  using small_flags_bit by (auto simp: bit_or_iff)

lemma page_aligned_add:
  assumes "page_aligned a" "page_aligned b" shows "page_aligned (a + b)"
proof -
  have "4096 dvd unat a + unat b"
    using assms by (simp add: page_aligned_def mod_eq_0_iff_dvd)
  then show ?thesis
    by (simp add: page_aligned_def unat_word_ariths mod_mod_cancel mod_eq_0_iff_dvd [symmetric])
qed

lemma page_aligned_sub:
  assumes "page_aligned a" "page_aligned b" shows "page_aligned (a - b)"
proof -
  have "page_aligned c" if "page_aligned (c + b)" for c
  proof -
    have "(unat c + unat b) mod 4096 = 0"
      using that by (simp add: page_aligned_def unat_word_ariths mod_mod_cancel)
    then show ?thesis
      using assms(2) by (simp add: page_aligned_def mod_eq_0_iff_dvd dvd_add_left_iff)
  qed
  from this [of "a - b"] show ?thesis using assms(1) by simp
qed

text \<open>The offset inside a page does not matter for being inside a range of pages.\<close>

lemma lower_page_in_range:
  assumes "page_aligned v"
  shows "unat (paging_align_to_lower_page w - v) < 4096 * n \<longleftrightarrow> unat (w - v) < 4096 * n"
proof -
  let ?l = "paging_align_to_lower_page w"
  let ?r = "unat (w - ?l)"
  have al: "page_aligned (?l - v)" using assms by (simp add: page_aligned_sub)
  have "w - v = (?l - v) + of_nat ?r" by simp
  then have "unat (w - v) = unat (?l - v) + ?r"
    using unat_page_add [OF al lower_page_rest, of w] by simp
  moreover obtain k where "unat (?l - v) = 4096 * k"
    using al by (auto simp: page_aligned_def mod_eq_0_iff_dvd)
  ultimately show ?thesis using lower_page_rest [of w] by auto
qed

section \<open>The pages of an address space\<close>

definition table_pages :: "addr \<Rightarrow> memory \<Rightarrow> nat set" where
  "table_pages chunk m = (\<lambda>i. page_of (table_of m (load32 m chunk) i)) ` {0..<1024}"

definition chunk_pages :: "addr \<Rightarrow> memory \<Rightarrow> nat set" where
  "chunk_pages chunk m = {page_of chunk, page_of (load32 m chunk)} \<union> table_pages chunk m"

lemma page_of_word_add:
  assumes "word_aligned a" "k < 4"
  shows "page_of (a + of_nat k) = page_of a"
proof -
  obtain c where "unat a = 4 * c" using assms(1) by (auto simp: word_aligned_def mod_eq_0_iff_dvd)
  moreover have "(4 * c + k) div 4096 = 4 * c div 4096"
  proof -
    have "(4 * c + k) div 4 = c" using assms(2) by simp
    then show ?thesis using div_mult2_eq [of "4 * c + k" 4 1024] div_mult2_eq [of "4 * c" 4 1024] by simp
  qed
  ultimately show ?thesis
    using unat_word_aligned_add [OF assms] by (simp add: page_of_def)
qed

text \<open>An address space depends on its own pages only.\<close>

lemma chunk_cong:
  assumes "wf_chunk chunk m" "\<And>a. page_of a \<in> chunk_pages chunk m \<Longrightarrow> m' a = m a"
  shows "wf_chunk chunk m'" "load32 m' chunk = load32 m chunk"
    "table_pages chunk m' = table_pages chunk m" "chunk_pages chunk m' = chunk_pages chunk m"
    "\<And>v. paging_get_physical_address (load32 m' chunk) v m' = paging_get_physical_address (load32 m chunk) v m"
proof -
  let ?d = "load32 m chunk"
  have al: "word_aligned chunk" "page_aligned ?d" using assms(1) by (auto simp: wf_chunk_def wf_dir_def)
  have "m' (chunk + of_nat k) = m (chunk + of_nat k)" if "k < 4" for k
    using page_of_word_add [OF al(1) that] by (intro assms(2)) (simp add: chunk_pages_def)
  from this [of 0] this [of 1] this [of 2] this [of 3]
  show d: "load32 m' chunk = ?d" by (intro load32_cong) simp_all
  have t: "table_of m' ?d i = table_of m ?d i" if "i < 1024" for i
    using load32_same_page [OF al(2) that, of m' m] assms(2) by (simp add: table_of_def chunk_pages_def)
  show "wf_chunk chunk m'" using assms(1) t by (simp add: wf_chunk_def wf_dir_def d)
  show tp: "table_pages chunk m' = table_pages chunk m" using t by (simp add: table_pages_def d)
  show "chunk_pages chunk m' = chunk_pages chunk m" by (simp add: chunk_pages_def tp d)
  fix v
  have "paging_get ?d w m' = paging_get ?d w m" if "page_aligned w" for w
  proof -
    have "load32 m' (slot (table_of m ?d (dir_index w)) (table_index w)) =
        load32 m (slot (table_of m ?d (dir_index w)) (table_index w))"
      using index_bounds [of w] by (intro load32_same_page assms(2)) (auto simp: chunk_pages_def table_pages_def)
    then show ?thesis
      using that t [OF index_bounds(1)] by (simp add: paging_get_aligned entry_slot_def)
  qed
  then show "paging_get_physical_address (load32 m' chunk) v m' = paging_get_physical_address ?d v m"
    by (simp add: d paging_get_physical_address_def)
qed

text \<open>Mapping writes to the tables only, and keeps the pages of the address space.\<close>

lemma paging_map_frame:
  assumes "wf_chunk chunk m"
  shows "page_of a \<notin> table_pages chunk m \<Longrightarrow> snd (paging_map chunk v p flags m) a = m a"
    and "table_pages chunk (snd (paging_map chunk v p flags m)) = table_pages chunk m"
    and "load32 (snd (paging_map chunk v p flags m)) chunk = load32 m chunk"
proof -
  let ?d = "load32 m chunk"
  let ?m = "\<lambda>val. store32 m (entry_slot m ?d v) val"
  have wf: "wf_dir m ?d" using assms by (simp add: wf_chunk_def)
  have *: "page_of a \<notin> table_pages chunk m \<Longrightarrow> ?m val a = m a" "load32 (?m val) chunk = ?d"
      "table_pages chunk (?m val) = table_pages chunk m" for val
    using index_bounds [of v] load32_chunk_store_entry [OF assms] table_of_store_entry [OF wf]
    by (auto simp: entry_slot_def table_pages_def intro!: store32_slot_other_page)
  show "page_of a \<notin> table_pages chunk m \<Longrightarrow> snd (paging_map chunk v p flags m) a = m a"
    "table_pages chunk (snd (paging_map chunk v p flags m)) = table_pages chunk m"
    "load32 (snd (paging_map chunk v p flags m)) chunk = load32 m chunk"
    using * paging_map_aligned [of v p chunk flags m] paging_map_unaligned [of v p chunk flags m]
    by (cases "page_aligned v \<and> page_aligned p"; auto)+
qed

lemma paging_map_loop_frame:
  assumes "wf_chunk chunk m"
  shows "(page_of a \<notin> table_pages chunk m \<longrightarrow> snd (paging_map_loop n chunk v p flags r m) a = m a) \<and>
    table_pages chunk (snd (paging_map_loop n chunk v p flags r m)) = table_pages chunk m \<and>
    load32 (snd (paging_map_loop n chunk v p flags r m)) chunk = load32 m chunk"
  using assms
proof (induction n arbitrary: v p r m)
  case (Suc n)
  let ?m = "snd (paging_map chunk v p flags m)"
  from Suc.IH [OF pm.map_inv [OF Suc.prems, of v p flags], of "v + 4096" "p + 4096"]
    paging_map_frame(1) [OF Suc.prems, of a v p flags] paging_map_frame(2,3) [OF Suc.prems, of v p flags]
  show ?case by (simp add: split_beta)
qed simp

lemma paging_map_to_frame:
  assumes "wf_chunk chunk m"
  shows "page_of a \<notin> table_pages chunk m \<Longrightarrow> snd (paging_map_to chunk v p e flags m) a = m a"
    "table_pages chunk (snd (paging_map_to chunk v p e flags m)) = table_pages chunk m"
    "chunk_pages chunk (snd (paging_map_to chunk v p e flags m)) = chunk_pages chunk m"
  using paging_map_loop_frame [OF assms]
  by (simp_all add: paging_map_to_def paging_map_range_def chunk_pages_def Let_def)

text \<open>Rounding up: the end of a region of whole blocks.\<close>

lemma paging_align_address_end:
  assumes "page_aligned p" "0 < sz" "unat p + 4096 * blocks_for sz < 2 ^ 32"
  shows "paging_align_address (p + sz) = p + of_nat (4096 * blocks_for sz)"
proof -
  let ?r = "unat sz mod 4096"
  have n: "4096 * blocks_for sz = (if ?r = 0 then unat sz else unat sz + 4096 - ?r)"
  proof -
    define q where "q = unat sz div 4096"
    have q: "unat sz = 4096 * q + ?r" by (simp add: q_def)
    have "blocks_for sz = (if ?r = 0 then q else q + 1)"
    proof (cases "?r = 0")
      case True
      then show ?thesis by (simp add: blocks_for_def q_def round_up_exact)
    next
      case False
      have "unat sz - ?r = 4096 * q" by (simp add: q_def minus_mod_eq_mult_div)
      then have "unat sz - ?r + 4096 = 4096 * (q + 1)" by simp
      then have "(unat sz - ?r + 4096) div 4096 = q + 1" by simp
      with False round_up_rest [OF False] show ?thesis by (simp add: blocks_for_def)
    qed
    moreover have "unat sz + 4096 - ?r = 4096 * (q + 1)" if "?r \<noteq> 0"
    proof -
      have "unat sz + 4096 - ?r = (unat sz - ?r) + 4096" by simp
      also have "unat sz - ?r = 4096 * q" by (simp add: q_def minus_mod_eq_mult_div)
      finally show ?thesis by simp
    qed
    ultimately show ?thesis using q by (cases "?r = 0") simp_all
  qed
  have le: "unat sz \<le> 4096 * blocks_for sz"
    using n mod_less_divisor [of 4096 "unat sz"] by (auto split: if_splits)
  then have "unat (p + sz) = unat p + unat sz"
    using unat_add_of_nat [of p "unat sz"] assms(3) by simp
  then have "unat (p + sz) mod 4096 = ?r"
    using assms(1) by (simp add: page_aligned_def mod_add_left_eq [symmetric])
  then have md: "(p + sz) mod 4096 = of_nat ?r"
    by (simp add: word_unat_eq_iff unat_mod_distrib unat_of_nat take_bit_nat_eq_self
        less_trans [OF mod_less_divisor])
  have z: "(of_nat ?r :: u32) = 0 \<longleftrightarrow> ?r = 0"
    using of_nat_eq_iff_u32 [of ?r 0] by (simp add: less_trans [OF mod_less_divisor])
  show ?thesis
  proof (cases "?r = 0")
    case True
    then show ?thesis using n md by (simp add: paging_align_address_def del: of_nat_mult)
  next
    case False
    have "?r \<le> unat sz + 4096" by (simp add: trans_le_add1)
    then have "(of_nat (unat sz + 4096 - ?r) :: u32) = sz + 4096 - of_nat ?r"
      by (simp add: of_nat_diff)
    with False n md z show ?thesis
      by (simp add: paging_align_address_def del: of_nat_mult)
  qed
qed

section \<open>Properties\<close>

lemma paging_map_to_result:
  assumes "wf_chunk chunk m" "flags < 4096"
  shows "if page_aligned v \<and> page_aligned p \<and> page_aligned e \<and> p \<le> e
    then \<exists>m'. paging_map_to chunk v p e flags m = (0, m') \<and> wf_chunk chunk m' \<and>
      (\<forall>w. paging_get_physical_address (load32 m' chunk) w m' =
        (if unat (w - v) < unat (e - p) then p + (w - v)
         else paging_get_physical_address (load32 m chunk) w m))
    else paging_map_to chunk v p e flags m = (- INVALID_ARGUMENT_ERROR, m)"
proof (cases "page_aligned v \<and> page_aligned p \<and> page_aligned e \<and> p \<le> e")
  case False
  then show ?thesis
    by (auto simp: paging_map_to_def page_aligned_def word_unat_eq_iff unat_mod_distrib)
next
  case True
  define n where "n = unat (e - p) div 4096"
  have "page_aligned (e - p)" using True by (simp add: page_aligned_sub)
  then have n: "unat (e - p) = 4096 * n"
    unfolding n_def page_aligned_def by (metis add.right_neutral mult.commute div_mult_mod_eq)
  have small: "n < 2 ^ 20"
    using unat_lt_u32 [of "e - p"] unfolding n by simp
  have "uint ((e - p) div 4096) = int n"
    by (simp add: uint_nat unat_div_distrib n_def)
  then have "sint ((e - p) div 4096) = int n"
    using small by (simp add: sint_uint signed_take_bit_int_eq_self)
  then have eq: "paging_map_to chunk v p e flags m = paging_map_loop n chunk v p flags 0 m"
    using True by (simp add: paging_map_to_def paging_map_range_def page_aligned_def
        word_unat_eq_iff unat_mod_distrib not_less [symmetric])
  let ?m = "snd (paging_map_loop n chunk v p flags 0 m)"
  have "paging_get_physical_address (load32 ?m chunk) w ?m =
      (if unat (w - v) < unat (e - p) then p + (w - v)
       else paging_get_physical_address (load32 m chunk) w m)" for w
  proof -
    let ?l = "paging_align_to_lower_page w"
    have "paging_get (load32 ?m chunk) ?l ?m =
        (if unat (w - v) < 4096 * n then (p + (?l - v)) OR flags
         else paging_get (load32 m chunk) ?l m)"
      using pm.map_pages_lookup [OF assms(1), of v p ?l n flags 0] True small lower_page_in_range [of v w n]
      by simp
    moreover have "((p + (?l - v)) OR flags) AND 0xFFFFF000 = p + (?l - v)"
      using True small_flags_bit [OF assms(2)] by (intro mask_page_or) (auto simp: page_aligned_add page_aligned_sub)
    ultimately show ?thesis
      by (simp add: paging_get_physical_address_def Let_def n)
  qed
  then show ?thesis
    using True eq pm.map_pages_ok [of v p n chunk flags m] pm.map_pages_inv [OF assms(1)]
    by (auto intro!: exI [of _ ?m] prod_eqI)
qed

text \<open>
  C3. \<open>paging_map_to\<close> on a well formed address space: unaligned addresses or an end below the
  start are refused without any change; otherwise it returns \<open>0\<close>, keeps the address space
  well formed, translates every address of the mapped range into the physical range at the
  same offset, and leaves the translation of every other address as it was.
\<close>

theorem paging_map_to_translates:
  assumes "wf_chunk chunk m" "flags < 4096"
  shows "if page_aligned v \<and> page_aligned p \<and> page_aligned e \<and> p \<le> e
    then \<exists>m'. paging_map_to chunk v p e flags m = (0, m') \<and> wf_chunk chunk m' \<and>
      (\<forall>w. paging_get_physical_address (load32 m' chunk) w m' =
        (if unat (w - v) < unat (e - p) then p + (w - v)
         else paging_get_physical_address (load32 m chunk) w m))
    else paging_map_to chunk v p e flags m = (- INVALID_ARGUMENT_ERROR, m)"
  by (rule paging_map_to_result [OF assms])

text \<open>Building and freeing an address space change memory and the heap only.\<close>

lemma paging_new_loop_shape:
  "paging_new_loop i offset d flags s = Some s' \<Longrightarrow> \<exists>m h. s' = s\<lparr>mem := m, kernel_heap := h\<rparr>"
proof (induction "1024 - i" arbitrary: i offset s)
  case 0
  then have "s' = s" by (subst (asm) paging_new_loop.simps) simp
  then show ?case by (intro exI [of _ "mem s"] exI [of _ "kernel_heap s"]) simp
next
  case (Suc n)
  then have "i < 1024" by simp
  then obtain e s1 where z: "kernel_zalloc 4096 s = Some (e, s1)"
      "paging_new_loop (Suc i) (offset + 1024 * PAGING_PAGE_SIZE) d flags
         (s1\<lparr>mem := store32 (paging_fill_table e offset flags (mem s1)) (d + 4 * of_nat i)
           (e OR flags OR PAGING_IS_WRITEABLE)\<rparr>) = Some s'"
    using Suc.prems by (subst (asm) paging_new_loop.simps) (auto split: bind_splits)
  moreover obtain m h where "s1 = s\<lparr>mem := m, kernel_heap := h\<rparr>"
    using kernel_zalloc_shape [OF z(1)] by blast
  moreover have "n = 1024 - Suc i" using Suc.hyps(2) by simp
  ultimately show ?case using Suc.hyps(1) [OF _ z(2)] by auto
qed

lemma paging_new_4gb_shape:
  assumes "paging_new_4gb flags s = Some (c, s')"
  shows "\<exists>m h. s' = s\<lparr>mem := m, kernel_heap := h\<rparr>"
proof -
  obtain d s1 s2 s3 where "kernel_zalloc 4096 s = Some (d, s1)"
      "paging_new_loop 0 0 d (ucast flags) s1 = Some s2" "kernel_zalloc 4 s2 = Some (c, s3)"
      "s' = s3\<lparr>mem := store32 (mem s3) c d\<rparr>"
    using assms by (auto simp: paging_new_4gb_def split: bind_splits)
  moreover from kernel_zalloc_shape [OF calculation(1)] obtain m1 h1
    where "s1 = s\<lparr>mem := m1, kernel_heap := h1\<rparr>" by blast
  moreover from paging_new_loop_shape [OF calculation(2)] obtain m2 h2
    where "s2 = s1\<lparr>mem := m2, kernel_heap := h2\<rparr>" by blast
  moreover from kernel_zalloc_shape [OF calculation(3)] obtain m3 h3
    where "s3 = s2\<lparr>mem := m3, kernel_heap := h3\<rparr>" by blast
  ultimately show ?thesis
    by (intro exI [of _ "store32 m3 c d"] exI [of _ h3]) simp
qed

lemma paging_free_4gb_shape: "\<exists>h. paging_free_4gb c s = s\<lparr>kernel_heap := h\<rparr>"
proof -
  have "\<exists>h. fold (\<lambda>i s. kernel_free (f i s) s) xs s = s\<lparr>kernel_heap := h\<rparr>" for f xs s
  proof (induction xs arbitrary: s)
    case Nil
    then show ?case by (intro exI [of _ "kernel_heap s"]) simp
  next
    case (Cons x xs)
    from Cons.IH [of "kernel_free (f x s) s"] show ?case by (auto simp: kernel_free_def)
  qed
  from this [of "\<lambda>i s. load32 (mem s) (load32 (mem s) c + 4 * of_nat i) AND 0xFFFFF000" "[0..<1024]" s]
  show ?thesis by (auto simp: paging_free_4gb_def Let_def kernel_free_def)
qed

text \<open>What \<open>paging_new_4gb\<close> leaves in memory: the chunk, the directory \<open>d\<close> and the tables \<open>tbl\<close>.\<close>

definition fresh_chunk ::
    "u32 \<Rightarrow> 'a kstate_scheme \<Rightarrow> addr \<Rightarrow> addr \<Rightarrow> (nat \<Rightarrow> addr) \<Rightarrow> 'a kstate_scheme \<Rightarrow> bool" where
  "fresh_chunk flags s chunk d tbl s' \<longleftrightarrow>
     chunk \<noteq> 0 \<and> page_aligned chunk \<and> page_aligned d \<and> load32 (mem s') chunk = d \<and>
     page_of d \<noteq> page_of chunk \<and> inj_on tbl {0..<1024} \<and>
     (\<forall>k < 1024. page_aligned (tbl k) \<and> page_of (tbl k) \<noteq> page_of d \<and>
        page_of (tbl k) \<noteq> page_of chunk \<and> page_of (tbl k) \<notin> live_pages (kernel_heap s) \<and>
        load32 (mem s') (slot d k) = tbl k OR flags OR 2 \<and>
        (\<forall>j < 1024. load32 (mem s') (slot (tbl k) j) =
           (of_nat (k * 0x400000) + of_nat j * 4096) OR flags)) \<and>
     page_of d \<notin> live_pages (kernel_heap s) \<and> page_of chunk \<notin> live_pages (kernel_heap s) \<and>
     heap_inv (kernel_heap s') \<and> free_blocks (kernel_heap s) = free_blocks (kernel_heap s') + 1026 \<and>
     allocs (kernel_heap s') =
       insert (chunk, 1) (insert (d, 1) ((\<lambda>k. (tbl k, 1)) ` {0..<1024} \<union> allocs (kernel_heap s))) \<and>
     (\<forall>a. page_of a \<in> live_pages (kernel_heap s) \<or> page_of a \<notin> live_pages (kernel_heap s') \<longrightarrow> mem s' a = mem s a)"

lemma fresh_chunkI:
  assumes d: "page_aligned d" "allocs (kernel_heap s1) = insert (d, 1) (allocs (kernel_heap s))"
      "free_blocks (kernel_heap s) = Suc (free_blocks (kernel_heap s1))"
      "page_of d \<notin> live_pages (kernel_heap s)"
      "\<And>a. page_of a \<noteq> page_of d \<Longrightarrow> mem s1 a = mem s a"
    and t: "new_tables 0 d flags s1 s2 tbl"
    and c: "c \<noteq> 0" "page_aligned c" "heap_inv (kernel_heap s')"
      "allocs (kernel_heap s') = insert (c, 1) (allocs (kernel_heap s2))"
      "free_blocks (kernel_heap s2) = Suc (free_blocks (kernel_heap s'))"
      "page_of c \<notin> live_pages (kernel_heap s2)" "load32 (mem s') c = d"
      "\<And>a. page_of a \<noteq> page_of c \<Longrightarrow> mem s' a = mem s2 a"
  shows "fresh_chunk flags s c d tbl s'"
proof -
  have al2: "allocs (kernel_heap s2) =
      insert (d, 1) ((\<lambda>k. (tbl k, 1)) ` {0..<1024} \<union> allocs (kernel_heap s))"
    using t d(2) unfolding new_tables_def by auto
  have live1: "live_pages (kernel_heap s1) = insert (page_of d) (live_pages (kernel_heap s))"
    using live_pages_insert [OF d(2)] .
  have live2: "page_of d \<in> live_pages (kernel_heap s2)"
      "\<And>k. k < 1024 \<Longrightarrow> page_of (tbl k) \<in> live_pages (kernel_heap s2)"
      "live_pages (kernel_heap s) \<subseteq> live_pages (kernel_heap s2)"
    using al2 by (auto intro!: live_pagesI) (auto simp: live_pages_def)
  have tk: "page_aligned (tbl k)" "page_of (tbl k) \<notin> live_pages (kernel_heap s1)"
      "load32 (mem s2) (slot d k) = tbl k OR flags OR 2"
      "\<forall>j < 1024. load32 (mem s2) (slot (tbl k) j) = (of_nat (k * 0x400000) + of_nat j * 4096) OR flags"
    if "k < 1024" for k
    using t that unfolding new_tables_def by auto
  have ne: "page_of d \<noteq> page_of c" "\<And>k. k < 1024 \<Longrightarrow> page_of (tbl k) \<noteq> page_of c"
    using c(6) live2(1) live2(2) by metis+
  have ld: "load32 (mem s') (slot p k) = load32 (mem s2) (slot p k)"
    if "page_aligned p" "k < 1024" "page_of p \<noteq> page_of c" for p k
    using that c(8) by (intro load32_same_page) auto
  have fr: "mem s' a = mem s a" if "page_of a \<in> live_pages (kernel_heap s)" for a
  proof -
    have "page_of a \<noteq> page_of c" "page_of a \<noteq> page_of d" "page_of a \<notin> page_of ` tbl ` {0..<1024}"
      using that c(6) d(4) live1 live2(3) tk(2) by auto
    then show ?thesis using c(8) d(5) t unfolding new_tables_def by auto
  qed
  have out: "mem s' a = mem s a" if "page_of a \<notin> live_pages (kernel_heap s')" for a
  proof -
    have "page_of a \<noteq> page_of c" "page_of a \<noteq> page_of d" "page_of a \<notin> page_of ` tbl ` {0..<1024}"
      using that live_pages_insert [OF c(4)] live2(1,2) by auto
    then show ?thesis using c(8) d(5) t unfolding new_tables_def by auto
  qed
  show ?thesis
    unfolding fresh_chunk_def
    using d(1,3,4) c(1-7) ne tk live1 live2(3) ld fr out al2 t
    by (auto simp: new_tables_def)
qed

lemma paging_new_4gb_result:
  fixes s :: "'a kstate_scheme"
  assumes "heap_inv (kernel_heap s)" "1026 \<le> free_blocks (kernel_heap s)"
  obtains chunk d tbl s' where "paging_new_4gb flags s = Some (chunk, s')"
    "fresh_chunk (ucast flags) s chunk d tbl s'"
proof -
  obtain d s1 where d: "kernel_zalloc 4096 s = Some (d, s1)" "page_aligned d"
      "heap_inv (kernel_heap s1)" "allocs (kernel_heap s1) = insert (d, 1) (allocs (kernel_heap s))"
      "free_blocks (kernel_heap s) = Suc (free_blocks (kernel_heap s1))"
      "page_of d \<notin> live_pages (kernel_heap s)"
      "\<And>a. page_of a \<noteq> page_of d \<Longrightarrow> mem s1 a = mem s a"
    by (rule kernel_zalloc_page [of s 4096]) (use assms in auto)
  have "page_of d \<in> live_pages (kernel_heap s1)"
    using d(4) by (intro live_pagesI) simp
  then obtain s2 tbl where loop: "paging_new_loop 0 0 d (ucast flags) s1 = Some s2"
      "new_tables 0 d (ucast flags) s1 s2 tbl"
    using paging_new_loop_correct [of s1 0 d "ucast flags"] d assms by auto
  then have s2: "heap_inv (kernel_heap s2)" "0 < free_blocks (kernel_heap s2)"
    using d(5) assms(2) by (auto simp: new_tables_def)
  obtain c s3 where c: "kernel_zalloc 4 s2 = Some (c, s3)" "c \<noteq> 0" "page_aligned c"
      "heap_inv (kernel_heap s3)" "allocs (kernel_heap s3) = insert (c, 1) (allocs (kernel_heap s2))"
      "free_blocks (kernel_heap s2) = Suc (free_blocks (kernel_heap s3))"
      "page_of c \<notin> live_pages (kernel_heap s2)"
      "\<And>a. page_of a \<noteq> page_of c \<Longrightarrow> mem s3 a = mem s2 a"
    by (rule kernel_zalloc_page [of s2 4]) (use s2 in auto)
  let ?s = "s3\<lparr>mem := store32 (mem s3) c d\<rparr>"
  have "paging_new_4gb flags s = Some (c, ?s)"
    by (simp add: paging_new_4gb_def d(1) loop(1) c(1))
  moreover have "mem ?s a = mem s2 a" if "page_of a \<noteq> page_of c" for a
    using that store32_slot_other_page [OF c(3), of 0 a "mem s3" d] c(8) by (simp add: slot_def)
  moreover have "fresh_chunk (ucast flags) s c d tbl ?s"
    using d loop(2) c calculation(2) by (intro fresh_chunkI [of d s1 s _ s2 tbl c]) auto
  ultimately show ?thesis by (intro that)
qed

lemma page_flags_byte: "(ucast (flags :: byte) :: u32) < 4096"
proof -
  have "unat flags < 256" using unsigned_less [of flags] by simp
  then show ?thesis by (simp add: word_less_nat_alt unsigned_ucast_eq take_bit_nat_eq_self)
qed

lemma fresh_chunk_table_of:
  assumes "fresh_chunk (ucast (flags :: byte)) s chunk d tbl s'" "k < 1024"
  shows "table_of (mem s') d k = tbl k"
  using assms small_flags_or [OF page_flags_byte [of flags], of 2]
  by (simp add: table_of_def fresh_chunk_def mask_page_or)

lemma fresh_chunk_wf:
  assumes "fresh_chunk (ucast (flags :: byte)) s chunk d tbl s'"
  shows "wf_chunk chunk (mem s')"
proof -
  have tbl: "table_of (mem s') d k = tbl k" if "k < 1024" for k
    using fresh_chunk_table_of [OF assms that] .
  have inj: "tbl i = tbl j \<longleftrightarrow> i = j" if "i < 1024" "j < 1024" for i j
    using assms that by (auto simp: fresh_chunk_def inj_on_def)
  have "tbl k \<noteq> d" if "k < 1024" for k
    using assms that by (auto simp: fresh_chunk_def)
  then have "wf_dir (mem s') d"
    using assms inj by (simp add: wf_dir_def tbl fresh_chunk_def)
  then show ?thesis
    using assms word_aligned_slot [of chunk 0] by (simp add: wf_chunk_def tbl fresh_chunk_def slot_def)
qed

lemma fresh_chunk_get:
  assumes "fresh_chunk (ucast (flags :: byte)) s chunk d tbl s'" "page_aligned v"
  shows "paging_get d v (mem s') = v OR ucast flags"
proof -
  have "v = of_nat (0x400000 * dir_index v + 4096 * table_index v)"
    using arg_cong [OF aligned_index_split [OF assms(2)], of "of_nat :: nat \<Rightarrow> u32"] by simp
  then have "v = of_nat (dir_index v * 0x400000) + of_nat (table_index v) * 4096"
    by (simp add: mult.commute)
  moreover have "entry_slot (mem s') d v = slot (tbl (dir_index v)) (table_index v)"
    using fresh_chunk_table_of [OF assms(1) index_bounds(1)] by (simp add: entry_slot_def)
  ultimately show ?thesis
    using assms index_bounds [of v] by (simp add: paging_get_aligned fresh_chunk_def)
qed

lemma fresh_chunk_translate:
  assumes "fresh_chunk (ucast (flags :: byte)) s chunk d tbl s'"
  shows "paging_get_physical_address d v (mem s') = v"
proof -
  have "(v OR ucast flags) AND 0xFFFFF000 = v" if "page_aligned v" for v
    using that small_flags_bit [OF page_flags_byte] by (rule mask_page_or)
  then show ?thesis
    by (simp add: paging_get_physical_address_def fresh_chunk_get [OF assms])
qed

text \<open>The new tables are allocated, and none of them lies in memory that was in use.\<close>

lemma fresh_chunk_pages:
  assumes "fresh_chunk (ucast (flags :: byte)) s chunk d tbl s'"
  shows "chunk_pages chunk (mem s') \<inter> live_pages (kernel_heap s) = {}"
    "chunk_pages chunk (mem s') \<subseteq> live_pages (kernel_heap s')"
    "allocs (kernel_heap s) \<subseteq> allocs (kernel_heap s')"
proof -
  have ld: "load32 (mem s') chunk = d" and al: "allocs (kernel_heap s') =
      insert (chunk, 1) (insert (d, 1) ((\<lambda>k. (tbl k, 1)) ` {0..<1024} \<union> allocs (kernel_heap s)))"
    using assms by (auto simp: fresh_chunk_def)
  show "allocs (kernel_heap s) \<subseteq> allocs (kernel_heap s')" using al by auto
  show "chunk_pages chunk (mem s') \<subseteq> live_pages (kernel_heap s')"
    using al fresh_chunk_table_of [OF assms]
    by (auto simp: chunk_pages_def table_pages_def ld intro!: live_pagesI)
  show "chunk_pages chunk (mem s') \<inter> live_pages (kernel_heap s) = {}"
    using assms fresh_chunk_table_of [OF assms]
    by (auto simp: chunk_pages_def table_pages_def ld fresh_chunk_def)
qed

text \<open>
  C26. With 1026 free blocks \<open>paging_new_4gb\<close> succeeds: the new address space is well formed,
  every page is mapped to itself with the given flags, every address translates to itself, and
  no byte of any live allocation has changed.
\<close>

theorem paging_new_4gb_identity:
  fixes s :: "'a kstate_scheme"
  assumes "heap_inv (kernel_heap s)" "1026 \<le> free_blocks (kernel_heap s)"
  shows "\<exists>chunk s'. paging_new_4gb flags s = Some (chunk, s') \<and> chunk \<noteq> 0 \<and>
    heap_inv (kernel_heap s') \<and> wf_chunk chunk (mem s') \<and>
    (\<forall>v. page_aligned v \<longrightarrow> paging_get (load32 (mem s') chunk) v (mem s') = v OR ucast flags) \<and>
    (\<forall>v. paging_get_physical_address (load32 (mem s') chunk) v (mem s') = v) \<and>
    (\<forall>a. page_of a \<in> live_pages (kernel_heap s) \<longrightarrow> mem s' a = mem s a)"
proof -
  obtain chunk d tbl s' where new: "paging_new_4gb flags s = Some (chunk, s')"
      and fresh: "fresh_chunk (ucast flags) s chunk d tbl s'"
    by (rule paging_new_4gb_result [OF assms])
  from new fresh show ?thesis
    using fresh_chunk_wf [OF fresh] fresh_chunk_get [OF fresh] fresh_chunk_translate [OF fresh]
    by (auto simp: fresh_chunk_def)
qed

definition boot_kernel :: kstate where
  "boot_kernel = \<lparr>mem = (\<lambda>_. 0), device = (\<lambda>_ _. 0), io_log = [],
     video_memory = 0xB8000, terminal_row = 0, terminal_col = 0,
     kernel_heap = \<lparr>table = \<lparr>entries = replicate 25600 0\<rparr>, start_address = 0x01000000\<rparr>\<rparr>"

lemma boot_kernel_ok: "heap_inv (kernel_heap boot_kernel)" "1026 \<le> free_blocks (kernel_heap boot_kernel)"
  by (rule heap_inv_fresh [of _ 25600]) (simp_all add: boot_kernel_def page_aligned_def free_blocks_def)

theorem paging_new_4gb_identity_witness:
  "\<exists>chunk s'. paging_new_4gb 7 boot_kernel = Some (chunk, s') \<and>
     paging_get (load32 (mem s') chunk) 0xB8000 (mem s') = 0xB8007 \<and>
     paging_get_physical_address (load32 (mem s') chunk) 0xB8123 (mem s') = 0xB8123"
proof -
  have "page_aligned 0xB8000" by (simp add: page_aligned_def)
  with paging_new_4gb_identity [OF boot_kernel_ok, of 7] show ?thesis by fastforce
qed

theorem paging_map_to_translates_witness:
  "\<exists>chunk s m'. paging_new_4gb 7 boot_kernel = Some (chunk, s) \<and>
     paging_map_to chunk 0x400000 0x2000000 0x2003000 7 (mem s) = (0, m') \<and>
     paging_get_physical_address (load32 m' chunk) 0x401234 m' = 0x2001234"
proof -
  obtain chunk d tbl s where new: "paging_new_4gb 7 boot_kernel = Some (chunk, s)"
      and fresh: "fresh_chunk (ucast (7 :: byte)) boot_kernel chunk d tbl s"
    by (rule paging_new_4gb_result [OF boot_kernel_ok])
  from paging_map_to_translates [OF fresh_chunk_wf [OF fresh], of 7 "0x400000" "0x2000000" "0x2003000"]
  obtain m' where "paging_map_to chunk 0x400000 0x2000000 0x2003000 7 (mem s) = (0, m')"
      and all: "\<forall>w. paging_get_physical_address (load32 m' chunk) w m' =
        (if unat (w - 0x400000) < unat (0x2003000 - 0x2000000 :: u32) then 0x2000000 + (w - 0x400000)
         else paging_get_physical_address (load32 (mem s) chunk) w (mem s))"
    by (auto simp: page_aligned_def)
  moreover from spec [OF all, of "0x401234"]
  have "paging_get_physical_address (load32 m' chunk) 0x401234 m' = 0x2001234" by simp
  ultimately show ?thesis using new by blast
qed

text \<open>Freeing the tables one by one.\<close>

lemma free_tables:
  fixes s :: "'a kstate_scheme" and F :: "nat \<Rightarrow> 'a kstate_scheme \<Rightarrow> 'a kstate_scheme"
  assumes "heap_inv (kernel_heap s)" "n \<le> 1024" "inj_on tbl {0..<1024}"
    "\<And>k. k < 1024 \<Longrightarrow> table_of (mem s) d k = tbl k \<and> (tbl k, 1) \<in> allocs (kernel_heap s)"
    "load32 (mem s) chunk = d"
    and F_def: "\<And>i s. F i s = kernel_free (load32 (mem s) (load32 (mem s) chunk + 4 * of_nat i) AND 0xFFFFF000) s"
  shows "mem (fold F [0..<n] s) = mem s \<and> heap_inv (kernel_heap (fold F [0..<n] s)) \<and>
    allocs (kernel_heap (fold F [0..<n] s)) = allocs (kernel_heap s) - (\<lambda>k. (tbl k, 1)) ` {0..<n} \<and>
    free_blocks (kernel_heap (fold F [0..<n] s)) = free_blocks (kernel_heap s) + n"
  using assms(2)
proof (induction n)
  case (Suc n)
  let ?s = "fold F [0..<n] s"
  have IH: "mem ?s = mem s" "heap_inv (kernel_heap ?s)"
    "allocs (kernel_heap ?s) = allocs (kernel_heap s) - (\<lambda>k. (tbl k, 1)) ` {0..<n}"
    "free_blocks (kernel_heap ?s) = free_blocks (kernel_heap s) + n"
    using Suc by auto
  have step: "fold F [0..<Suc n] s = kernel_free (tbl n) ?s"
  proof -
    have "fold F [0..<Suc n] s = F n ?s" by simp
    also have "\<dots> = kernel_free (table_of (mem s) d n) ?s"
      unfolding F_def [of n ?s] IH(1) assms(5) slot_of_nat table_of_def ..
    finally show ?thesis using assms(4) [of n] Suc.prems by simp
  qed
  have "tbl n \<noteq> tbl k" if "k < n" for k
    using inj_onD [OF assms(3), of n k] Suc.prems that by auto
  then have "(tbl n, 1 :: nat) \<notin> (\<lambda>k. (tbl k, 1)) ` {0..<n}" by force
  then have "(tbl n, 1) \<in> allocs (kernel_heap ?s)"
    using assms(4) [of n] Suc.prems by (simp add: IH(3))
  from kz.release_live [OF IH(2) this] kz.release_bytes [of "tbl n" ?s]
  show ?case
    unfolding step by (simp add: IH atLeastLessThanSuc) blast
qed (simp add: assms)

lemma paging_new_free_result:
  fixes s :: "'a kstate_scheme"
  assumes "heap_inv (kernel_heap s)" "1026 \<le> free_blocks (kernel_heap s)"
  shows "\<exists>chunk s'. paging_new_4gb flags s = Some (chunk, s') \<and>
    heap_inv (kernel_heap (paging_free_4gb chunk s')) \<and>
    allocs (kernel_heap (paging_free_4gb chunk s')) = allocs (kernel_heap s) \<and>
    free_blocks (kernel_heap (paging_free_4gb chunk s')) = free_blocks (kernel_heap s)"
proof -
  obtain chunk d tbl s' where new: "paging_new_4gb flags s = Some (chunk, s')"
      and fresh: "fresh_chunk (ucast flags) s chunk d tbl s'"
    by (rule paging_new_4gb_result [OF assms])
  define T where "T = (\<lambda>k. (tbl k, 1 :: nat)) ` {0..<1024}"
  have al: "allocs (kernel_heap s') = insert (chunk, 1) (insert (d, 1) (T \<union> allocs (kernel_heap s)))"
    and hi: "heap_inv (kernel_heap s')" and ld: "load32 (mem s') chunk = d"
    and fb: "free_blocks (kernel_heap s) = free_blocks (kernel_heap s') + 1026"
    using fresh by (simp_all add: fresh_chunk_def T_def)
  have old: "(p, n) \<in> allocs (kernel_heap s) \<Longrightarrow> (p, n) \<noteq> (chunk, 1) \<and> (p, n) \<noteq> (d, 1) \<and> (p, n) \<notin> T" for p n
  proof -
    assume "(p, n) \<in> allocs (kernel_heap s)"
    then have "n = 1 \<Longrightarrow> page_of p \<in> live_pages (kernel_heap s)"
      using live_pagesI by blast
    with fresh show ?thesis unfolding fresh_chunk_def T_def by fastforce
  qed
  have sep: "(chunk, 1) \<noteq> (d, 1)" "(chunk, 1) \<notin> T" "(d, 1) \<notin> T"
    using fresh by (auto simp: fresh_chunk_def T_def)
  let ?F = "\<lambda>i s. kernel_free (load32 (mem s) (load32 (mem s) chunk + 4 * of_nat i) AND 0xFFFFF000) s"
  define s1 where "s1 = fold ?F [0..<1024] s'"
  have "mem s1 = mem s' \<and> heap_inv (kernel_heap s1) \<and>
      allocs (kernel_heap s1) = allocs (kernel_heap s') - T \<and>
      free_blocks (kernel_heap s1) = free_blocks (kernel_heap s') + 1024"
    unfolding s1_def T_def
    by (rule free_tables [of s' 1024 tbl d chunk])
       (use fresh fresh_chunk_table_of [OF fresh] in \<open>auto simp: fresh_chunk_def\<close>)
  then have s1: "mem s1 = mem s'" "heap_inv (kernel_heap s1)"
      "allocs (kernel_heap s1) = insert (chunk, 1) (insert (d, 1) (allocs (kernel_heap s)))"
      "free_blocks (kernel_heap s1) = free_blocks (kernel_heap s') + 1024"
    using al sep old by auto
  have free: "paging_free_4gb chunk s' = kernel_free chunk (kernel_free d s1)"
    using s1(1) ld by (simp add: paging_free_4gb_def s1_def Let_def)
  have "(d, 1) \<in> allocs (kernel_heap s1)" using s1(3) by simp
  note r1 = kz.release_live [OF s1(2) this]
  have "(chunk, 1) \<in> allocs (kernel_heap (kernel_free d s1))" using r1 s1(3) sep by simp
  note r2 = kz.release_live [OF conjunct1 [OF r1] this]
  show ?thesis
    using new r1 r2 s1 old sep fb by (auto simp: free)
qed

text \<open>
  C27. \<open>paging_free_4gb\<close> undoes \<open>paging_new_4gb\<close>: all 1026 blocks go back to the heap, and
  exactly the allocations that were live before remain.
\<close>

theorem paging_new_free_roundtrip:
  fixes s :: "'a kstate_scheme"
  assumes "heap_inv (kernel_heap s)" "1026 \<le> free_blocks (kernel_heap s)"
  shows "\<exists>chunk s'. paging_new_4gb flags s = Some (chunk, s') \<and>
    heap_inv (kernel_heap (paging_free_4gb chunk s')) \<and>
    allocs (kernel_heap (paging_free_4gb chunk s')) = allocs (kernel_heap s) \<and>
    free_blocks (kernel_heap (paging_free_4gb chunk s')) = free_blocks (kernel_heap s)"
  by (rule paging_new_free_result [OF assms])

theorem paging_new_free_roundtrip_witness:
  "\<exists>chunk s'. paging_new_4gb 7 boot_kernel = Some (chunk, s') \<and>
    free_blocks (kernel_heap (paging_free_4gb chunk s')) = 25600"
  using paging_new_free_roundtrip [OF boot_kernel_ok, of 7]
  by (auto simp: boot_kernel_def free_blocks_def)

end
