(* ===== verification/Disk.thy ===== *)
theory Disk
  imports Paging
begin

text \<open>
  The disk driver and the byte stream on top of it, \<^verbatim>\<open>src/src/disk/disk.c\<close> and
  \<^verbatim>\<open>src/src/disk/streamer.c\<close>. The driver is modelled at the level of the I/O ports; the
  drive itself is not part of the repository, and what the kernel relies on is the predicate
  \<open>ata_drive img d\<close>: after a READ SECTORS command the status register sooner or later
  reports data, and the data register then delivers the words of the selected sector of the
  image \<open>img\<close>, on the first drive and addressed by sector number. The image has no end: the
  predicate speaks of a drive that has every sector that is asked for. A stream object is an entry of the store \<open>streams\<close>, keyed by the address
  the kernel heap returned. The main result is that a read delivers the bytes of the image at
  the position of the stream, across sector boundaries, and moves the position.
\<close>

section \<open>Definitions\<close>

definition SECTOR_SIZE :: int where [simp]: "SECTOR_SIZE = 512"

datatype disk_ptr = NullDisk | TheDisk

text \<open>A \<open>struct filesystem *\<close>: null, or the only object of that type, \<open>fat16_fs\<close>.\<close>

datatype filesystem_ptr = NullFilesystem | Fat16Filesystem

record disk =
  disk_type :: u32
  sector_size :: int
  disk_id :: int
  filesystem :: filesystem_ptr
  fs_private :: addr

record disk_stream =
  position :: int
  stream_disk :: disk_ptr

record disks = paging +
  disk :: disk
  streams :: "addr \<rightharpoonup> disk_stream"

text \<open>Waiting for the drive; this may never end.\<close>

partial_function (option) disk_wait :: "'a machine_scheme \<Rightarrow> 'a machine_scheme option" where
  "disk_wait s =
     (let (c, s) = insb 0x1F7 s
      in if c AND 0x08 \<noteq> 0 then Some s else disk_wait s)"

text \<open>One sector: \<open>n\<close> words from the data register, low byte first.\<close>

fun disk_read_words :: "nat \<Rightarrow> 'a machine_scheme \<Rightarrow> byte list \<times> 'a machine_scheme" where
  "disk_read_words 0 s = ([], s)"
| "disk_read_words (Suc n) s =
     (let (w, s) = insw 0x1F0 s;
          (bs, s) = disk_read_words n s
      in (ucast w # ucast (drop_bit 8 w) # bs, s))"

fun disk_read_sectors :: "nat \<Rightarrow> 'a machine_scheme \<Rightarrow> (byte list \<times> 'a machine_scheme) option" where
  "disk_read_sectors 0 s = Some ([], s)"
| "disk_read_sectors (Suc n) s = do {
     s \<leftarrow> disk_wait s;
     let (bs, s) = disk_read_words 256 s;
     (bs', s) \<leftarrow> disk_read_sectors n s;
     Some (bs @ bs', s)
   }"

text \<open>
  The buffer of the only caller is a local array; the bytes that arrive in it are returned.
\<close>

definition disk_read_sector ::
    "u32 \<Rightarrow> int \<Rightarrow> 'a machine_scheme \<Rightarrow> (int \<times> byte list \<times> 'a machine_scheme) option" where
  "disk_read_sector lba amount s = do {
     let s = outb 0x1F6 (ucast (signed_drop_bit 24 lba OR 0xE0)) s;
     let s = outb 0x1F2 (word_of_int amount) s;
     let s = outb 0x1F3 (ucast (lba AND 0xFF)) s;
     let s = outb 0x1F4 (ucast (signed_drop_bit 8 lba)) s;
     let s = outb 0x1F5 (ucast (signed_drop_bit 16 lba)) s;
     let s = outb 0x1F7 0x20 s;
     (buffer, s) \<leftarrow> disk_read_sectors (nat amount) s;
     Some (0, buffer, s)
   }"

definition disk_get :: "int \<Rightarrow> disk_ptr" where
  "disk_get index = (if index \<noteq> 0 then NullDisk else TheDisk)"

definition disk_read_block ::
    "disk_ptr \<Rightarrow> u32 \<Rightarrow> int \<Rightarrow> 'a machine_scheme \<Rightarrow> (int \<times> byte list \<times> 'a machine_scheme) option" where
  "disk_read_block idisk lba amount s =
     (if idisk \<noteq> TheDisk then Some (- INVALID_ARGUMENT_ERROR, [], s)
      else disk_read_sector lba amount s)"

definition disk_stream_new :: "int \<Rightarrow> 'a disks_scheme \<Rightarrow> (addr \<times> 'a disks_scheme) option" where
  "disk_stream_new idx s =
     (let d = disk_get idx
      in if d = NullDisk then Some (0, s)
         else do {
           (streamer, s) \<leftarrow> kernel_zalloc 8 s;
           if streamer = 0 then None
           else Some (streamer,
             s\<lparr>streams := (streams s)(streamer \<mapsto> \<lparr>position = 0, stream_disk = d\<rparr>)\<rparr>)
         })"

definition disk_stream_seek :: "addr \<Rightarrow> int \<Rightarrow> 'a disks_scheme \<Rightarrow> (int \<times> 'a disks_scheme) option" where
  "disk_stream_seek stream pos s = do {
     st \<leftarrow> streams s stream;
     Some (0, s\<lparr>streams := (streams s)(stream \<mapsto> st\<lparr>position := pos\<rparr>)\<rparr>)
   }"

text \<open>The copy loop of \<open>disk_stream_read\<close>; the buffer has 512 bytes.\<close>

definition stream_copy :: "byte list \<Rightarrow> int \<Rightarrow> int \<Rightarrow> addr \<Rightarrow> memory \<Rightarrow> memory option" where
  "stream_copy buffer offset total_to_read out m =
     (if 0 < total_to_read \<and> (offset < 0 \<or> int (length buffer) < offset + total_to_read) then None
      else Some (fold (\<lambda>i m. m(out + of_nat i := buffer ! (nat offset + i)))
             [0..<nat total_to_read] m))"

lemma smod_512_less: "x smod 512 < (512 :: int)"
  using smod_int_range [of 512 x] by simp

function disk_stream_read ::
    "addr \<Rightarrow> addr \<Rightarrow> int \<Rightarrow> 'a disks_scheme \<Rightarrow> (int \<times> 'a disks_scheme) option" where
  "disk_stream_read stream out amount s = do {
     st \<leftarrow> streams s stream;
     let sector = position st sdiv SECTOR_SIZE;
     let offset = position st smod SECTOR_SIZE;
     let overflow = offset + amount > SECTOR_SIZE;
     let total_to_read = (if overflow then amount - (offset + amount - SECTOR_SIZE) else amount);
     (res, buffer, s) \<leftarrow> disk_read_block (stream_disk st) (word_of_int sector) 1 s;
     if res < 0 then Some (res, s)
     else do {
       m \<leftarrow> stream_copy buffer offset total_to_read out (mem s);
       let s = s\<lparr>mem := m,
                 streams := (streams s)(stream \<mapsto> st\<lparr>position := position st + total_to_read\<rparr>)\<rparr>;
       if overflow
       then disk_stream_read stream (out + word_of_int total_to_read) (amount - total_to_read) s
       else Some (res, s)
     }
   }"
  by pat_completeness auto
termination
proof (relation "measure (\<lambda>(stream, out, amount, s). nat amount)")
qed (auto, (insert smod_512_less, smt (verit))+)

declare disk_stream_read.simps [simp del]

definition disk_stream_close :: "addr \<Rightarrow> 'a disks_scheme \<Rightarrow> 'a disks_scheme" where
  "disk_stream_close stream s = (kernel_free stream s)\<lparr>streams := (streams s)(stream := None)\<rparr>"

section \<open>What the kernel relies on of the drive\<close>

text \<open>The value last written to a port, and the sector number in the address registers.\<close>

fun last_out :: "u16 \<Rightarrow> io_event list \<Rightarrow> byte" where
  "last_out p [] = 0"
| "last_out p (Out8 q v # l) = (if q = p then v else last_out p l)"
| "last_out p (_ # l) = last_out p l"

definition lba_register :: "io_event list \<Rightarrow> u32" where
  "lba_register l = ucast (last_out 0x1F3 l) OR push_bit 8 (ucast (last_out 0x1F4 l))
     OR push_bit 16 (ucast (last_out 0x1F5 l)) OR push_bit 24 (ucast (last_out 0x1F6 l AND 0x0F))"

text \<open>
  Bit 6 of the port \<^verbatim>\<open>0x1F6\<close> selects addressing by sector number, bit 4 the drive: the commands that
  count are those for the first drive in this mode.
\<close>

definition lba_mode :: "io_event list \<Rightarrow> bool" where
  "lba_mode l \<longleftrightarrow> bit (last_out 0x1F6 l) 6 \<and> \<not> bit (last_out 0x1F6 l) 4"

text \<open>The READ SECTORS command in progress: first sector and number of sectors.\<close>

fun read_command :: "io_event list \<Rightarrow> (nat \<times> nat) option" where
  "read_command [] = None"
| "read_command (Out8 p v # l) =
     (if p = 0x1F7
      then (if v = 0x20 \<and> lba_mode l then Some (unat (lba_register l), unat (last_out 0x1F2 l)) else None)
      else read_command l)"
| "read_command (_ # l) = read_command l"

text \<open>The words taken from the data register since the command.\<close>

fun words_taken :: "io_event list \<Rightarrow> nat" where
  "words_taken [] = 0"
| "words_taken (Out8 p v # l) = (if p = 0x1F7 then 0 else words_taken l)"
| "words_taken (In8 p # l) = words_taken l"
| "words_taken (In16 p # l) = (if p = 0x1F0 then Suc (words_taken l) else words_taken l)"

text \<open>The host has seen the data request bit for the current sector.\<close>

fun data_requested :: "(io_event list \<Rightarrow> u16 \<Rightarrow> u16) \<Rightarrow> io_event list \<Rightarrow> bool" where
  "data_requested d [] = False"
| "data_requested d (Out8 p v # l) = (p \<noteq> 0x1F7 \<and> data_requested d l)"
| "data_requested d (In8 p # l) = (if p = 0x1F7 then bit (d l p) 3 else data_requested d l)"
| "data_requested d (In16 p # l) =
     (data_requested d l \<and> (p = 0x1F0 \<longrightarrow> Suc (words_taken l) mod 256 \<noteq> 0))"

definition ata_drive :: "(nat \<Rightarrow> byte) \<Rightarrow> (io_event list \<Rightarrow> u16 \<Rightarrow> u16) \<Rightarrow> bool" where
  "ata_drive img d \<longleftrightarrow>
     (\<forall>log lba n. read_command log = Some (lba, n) \<longrightarrow> words_taken log < 256 * n \<longrightarrow>
        (\<exists>k. bit (d (replicate k (In8 0x1F7) @ log) 0x1F7) 3) \<and>
        (data_requested d log \<longrightarrow>
           ucast (d log 0x1F0) = img (512 * lba + 2 * words_taken log) \<and>
           ucast (drop_bit 8 (d log 0x1F0)) = img (512 * lba + 2 * words_taken log + 1)))"

section \<open>Reading sectors\<close>

lemma status_bit: "(ucast (w :: u16) :: byte) AND 0x08 \<noteq> 0 \<longleftrightarrow> bit w 3"
proof -
  have "(0x08 :: byte) = push_bit 3 1" by simp
  then have "(ucast w :: byte) AND 0x08 = 0 \<longleftrightarrow> \<not> bit (ucast w :: byte) 3"
    by (simp add: and_exp_eq_0_iff_not_bit [where ?'a = "8 word", symmetric] push_bit_eq_mult)
  then show ?thesis by (simp add: bit_simps)
qed

lemma disk_wait_ready:
  assumes "bit (device s (replicate k (In8 0x1F7) @ io_log s) 0x1F7) 3"
  shows "\<exists>k. disk_wait s = Some (s\<lparr>io_log := replicate (Suc k) (In8 0x1F7) @ io_log s\<rparr>) \<and>
    bit (device s (replicate k (In8 0x1F7) @ io_log s) 0x1F7) 3"
  using assms
proof (induction k arbitrary: s)
  case 0
  then show ?case
    by (intro exI [of _ 0]) (simp add: disk_wait.simps [of s] insb_def status_bit)
next
  case (Suc k)
  show ?case
  proof (cases "bit (device s (io_log s) 0x1F7) 3")
    case True
    then show ?thesis
      by (intro exI [of _ 0]) (simp add: disk_wait.simps [of s] insb_def status_bit)
  next
    case False
    let ?s = "s\<lparr>io_log := In8 0x1F7 # io_log s\<rparr>"
    obtain k where "disk_wait ?s = Some (?s\<lparr>io_log := replicate (Suc k) (In8 0x1F7) @ io_log ?s\<rparr>)"
        "bit (device ?s (replicate k (In8 0x1F7) @ io_log ?s) 0x1F7) 3"
      using Suc.IH [of ?s] Suc.prems by (auto simp: replicate_app_Cons_same)
    with False show ?thesis
      by (intro exI [of _ "Suc k"])
         (simp add: disk_wait.simps [of s] insb_def status_bit replicate_app_Cons_same)
  qed
qed

lemma log_polls [simp]:
  "read_command (replicate k (In8 p) @ l) = read_command l"
  "words_taken (replicate k (In8 p) @ l) = words_taken l"
  by (induction k) simp_all

lemma disk_read_words_image:
  assumes "ata_drive img (device s)" "read_command (io_log s) = Some (lba, c)"
    "data_requested (device s) (io_log s)" "words_taken (io_log s) = w"
    "w mod 256 + n \<le> 256" "w + n \<le> 256 * c"
  shows "\<exists>log. disk_read_words n s =
      (map img [512 * lba + 2 * w..<512 * lba + 2 * (w + n)], s\<lparr>io_log := log\<rparr>) \<and>
    read_command log = Some (lba, c) \<and> words_taken log = w + n"
  using assms
proof (induction n arbitrary: s w)
  case 0
  then show ?case by (intro exI [of _ "io_log s"]) simp
next
  case (Suc n)
  let ?s = "s\<lparr>io_log := In16 0x1F0 # io_log s\<rparr>" and ?w = "device s (io_log s) 0x1F0"
  let ?a = "512 * lba + 2 * w"
  have img: "ucast ?w = img ?a" "ucast (drop_bit 8 ?w) = img (Suc ?a)"
    using Suc.prems unfolding ata_drive_def by auto
  have upt: "[?a..<?a + 2 * Suc n] = ?a # Suc ?a # [512 * lba + 2 * Suc w..<512 * lba + 2 * (Suc w + n)]"
    by (simp add: upt_conv_Cons algebra_simps)
  show ?case
  proof (cases n)
    case 0
    then show ?thesis
      using Suc.prems img by (intro exI [of _ "In16 0x1F0 # io_log s"]) (simp add: insw_def upt_conv_Cons)
  next
    case (Suc k)
    have "Suc (w mod 256) < 256" using Suc.prems(5) Suc by simp
    then have "Suc w mod 256 = Suc (w mod 256)" by (simp add: mod_Suc)
    then obtain log where "disk_read_words n ?s =
        (map img [512 * lba + 2 * Suc w..<512 * lba + 2 * (Suc w + n)], ?s\<lparr>io_log := log\<rparr>)"
        "read_command log = Some (lba, c)" "words_taken log = Suc w + n"
      using Suc.prems Suc.IH [of ?s "Suc w"] Suc by auto
    then show ?thesis
      using img upt by (intro exI [of _ log]) (simp add: insw_def algebra_simps)
  qed
qed

lemma disk_read_sectors_image:
  assumes "ata_drive img (device s)" "read_command (io_log s) = Some (lba, c)"
    "words_taken (io_log s) = 256 * j" "j + n \<le> c"
  shows "\<exists>log. disk_read_sectors n s =
      Some (map img [512 * (lba + j)..<512 * (lba + j + n)], s\<lparr>io_log := log\<rparr>)"
  using assms
proof (induction n arbitrary: s j)
  case 0
  then show ?case by (intro exI [of _ "io_log s"]) simp
next
  case (Suc n)
  have "\<exists>k. bit (device s (replicate k (In8 0x1F7) @ io_log s) 0x1F7) 3"
    using Suc.prems unfolding ata_drive_def by auto
  then obtain k where k: "disk_wait s = Some (s\<lparr>io_log := replicate (Suc k) (In8 0x1F7) @ io_log s\<rparr>)"
      "bit (device s (replicate k (In8 0x1F7) @ io_log s) 0x1F7) 3"
    using disk_wait_ready by blast
  let ?s = "s\<lparr>io_log := replicate (Suc k) (In8 0x1F7) @ io_log s\<rparr>"
  have "\<exists>log. disk_read_words 256 ?s = (map img [512 * lba + 2 * (256 * j)..<512 * lba + 2 * (256 * j + 256)],
      ?s\<lparr>io_log := log\<rparr>) \<and> read_command log = Some (lba, c) \<and> words_taken log = 256 * j + 256"
    using Suc.prems k(2) by (intro disk_read_words_image) simp_all
  then obtain log where words: "disk_read_words 256 ?s =
      (map img [512 * (lba + j)..<512 * (lba + Suc j)], s\<lparr>io_log := log\<rparr>)"
      and log: "read_command log = Some (lba, c)" "words_taken log = 256 * Suc j"
    by (auto simp: algebra_simps)
  obtain log' where rest: "disk_read_sectors n (s\<lparr>io_log := log\<rparr>) =
      Some (map img [512 * (lba + Suc j)..<512 * (lba + Suc j + n)], s\<lparr>io_log := log'\<rparr>)"
    using Suc.IH [of "s\<lparr>io_log := log\<rparr>" "Suc j"] Suc.prems log by auto
  have "map img [512 * (lba + j)..<512 * (lba + Suc j)] @
      map img [512 * (lba + Suc j)..<512 * (lba + Suc j + n)] =
      map img [512 * (lba + j)..<512 * (lba + j + Suc n)]"
    using upt_add_eq_append [of "512 * (lba + j)" "512 * (lba + Suc j)" "512 * n"]
    by (simp add: algebra_simps flip: map_append)
  with k(1) words rest show ?case
    by (auto simp del: replicate_Suc)
qed

lemma lba_roundtrip:
  assumes "(lba :: u32) < 2 ^ 28"
  shows "(ucast (ucast (lba AND 0xFF) :: byte) :: u32) OR push_bit 8 (ucast (ucast (signed_drop_bit 8 lba) :: byte))
     OR push_bit 16 (ucast (ucast (signed_drop_bit 16 lba) :: byte))
     OR push_bit 24 (ucast ((ucast (signed_drop_bit 24 lba OR 0xE0) :: byte) AND 0x0F)) = lba"
    (is "?l = lba")
proof (rule bit_word_eqI)
  have "(ucast (signed_drop_bit 24 lba OR 0xE0) :: byte) = ucast (signed_drop_bit 24 lba) OR 0xE0"
    by (simp add: unsigned_or_eq)
  moreover have "take_bit 4 (0xE0 :: byte) = 0" by (simp add: take_bit_eq_mod)
  ultimately have e: "(ucast (signed_drop_bit 24 lba OR 0xE0) :: byte) AND 0x0F =
      take_bit 4 (ucast (signed_drop_bit 24 lba))"
    by (simp add: and_mask_take_bit take_bit_or)
  have "take_bit 28 lba = lba"
    using assms by (simp add: take_bit_eq_mod word_unat_eq_iff unat_mod_distrib word_less_nat_alt)
  then have hi: "\<not> bit lba k" if "28 \<le> k" for k
    using that by (metis bit_take_bit_iff not_less)
  fix n assume "n < LENGTH(32)"
  then have "n < 8 \<or> 8 \<le> n \<and> n < 16 \<or> 16 \<le> n \<and> n < 24 \<or> 24 \<le> n \<and> n < 28 \<or> 28 \<le> n \<and> n < 32"
    by auto
  then show "bit ?l n = bit lba n"
    unfolding e unfolding and_mask_take_bit
    by (elim disjE conjE) (simp_all add: bit_simps hi less_diff_conv2)
qed

text \<open>What the driver writes to the port selects the first drive by sector number.\<close>

lemma lba_mode_selected:
  assumes "(lba :: u32) < 2 ^ 28"
  shows "bit (ucast (signed_drop_bit 24 lba OR 0xE0) :: byte) 6" "\<not> bit (ucast (signed_drop_bit 24 lba OR 0xE0) :: byte) 4"
proof -
  have "take_bit 28 lba = lba"
    using assms by (simp add: take_bit_eq_mod word_unat_eq_iff unat_mod_distrib word_less_nat_alt)
  then have "\<not> bit lba 28" by (metis bit_take_bit_iff less_irrefl)
  then show "bit (ucast (signed_drop_bit 24 lba OR 0xE0) :: byte) 6" "\<not> bit (ucast (signed_drop_bit 24 lba OR 0xE0) :: byte) 4"
    by (simp_all add: bit_simps)
qed

lemma disk_read_sector_image:
  assumes "ata_drive img (device s)" "lba < 2 ^ 28" "0 \<le> n" "n < 256"
  shows "\<exists>log. disk_read_sector lba n s =
    Some (0, map img [512 * unat lba..<512 * (unat lba + nat n)], s\<lparr>io_log := log\<rparr>)"
proof -
  let ?log = "Out8 0x1F7 0x20 # Out8 0x1F5 (ucast (signed_drop_bit 16 lba)) #
    Out8 0x1F4 (ucast (signed_drop_bit 8 lba)) # Out8 0x1F3 (ucast (lba AND 0xFF)) #
    Out8 0x1F2 (word_of_int n) # Out8 0x1F6 (ucast (signed_drop_bit 24 lba OR 0xE0)) # io_log s"
  have "unat (word_of_int n :: byte) = nat n"
    using assms(3,4) by (simp add: unsigned_of_int take_bit_int_eq_self)
  then have "read_command ?log = Some (unat lba, nat n)"
    using lba_roundtrip [OF assms(2)] lba_mode_selected [OF assms(2)] by (simp add: lba_register_def lba_mode_def)
  then have "\<exists>log. disk_read_sectors (nat n) (s\<lparr>io_log := ?log\<rparr>) =
      Some (map img [512 * (unat lba + 0)..<512 * (unat lba + 0 + nat n)], s\<lparr>io_log := ?log, io_log := log\<rparr>)"
    using assms(1) by (intro disk_read_sectors_image) auto
  then show ?thesis
    by (auto simp: disk_read_sector_def outb_def)
qed

section \<open>The stream\<close>

lemma stream_copy_image:
  assumes "0 \<le> offset" "offset + n \<le> 512" "0 \<le> n" "length buffer = 512"
  shows "stream_copy buffer offset n out m =
    Some (write_bytes out (take (nat n) (drop (nat offset) buffer)) m)"
proof -
  define f where "f = (\<lambda>i m. (m :: memory)(out + of_nat i := buffer ! (nat offset + i)))"
  have f_k: "f k m = m(out + of_nat k := buffer ! (nat offset + k))" for k m
    by (simp add: f_def)
  have "fold f [0..<k] m = write_bytes out (take k (drop (nat offset) buffer)) m" if "k \<le> nat n" for k
    using that
  proof (induction k)
    case (Suc k)
    have len: "nat offset + k < length buffer" using Suc.prems assms by linarith
    then have "take (Suc k) (drop (nat offset) buffer) =
        take k (drop (nat offset) buffer) @ [buffer ! (nat offset + k)]"
      by (simp add: take_Suc_conv_app_nth)
    moreover have "length (take k (drop (nat offset) buffer)) = k" "k < 2 ^ 32"
      using len assms(4) by auto
    ultimately show ?case
      using Suc.IH Suc.prems
        write_bytes_snoc [of "take k (drop (nat offset) buffer)" out m "buffer ! (nat offset + k)"]
      by (simp add: f_k [of k "write_bytes out (take k (drop (nat offset) buffer)) m"])
  qed simp
  with assms show ?thesis by (simp add: stream_copy_def f_def)
qed

lemma image_part:
  assumes "0 \<le> p" "p mod 512 + n \<le> 512" "0 \<le> n"
  shows "take (nat n) (drop (nat (p mod 512)) (map img [512 * nat (p div 512)..<512 * (nat (p div 512) + 1)]))
    = map img [nat p..<nat p + nat n]"
proof (rule nth_equalityI)
  have *: "nat p = 512 * nat (p div 512) + nat (p mod 512)"
    using assms(1) by (simp add: nat_div_distrib nat_mod_distrib)
  have len: "nat (p mod 512) + nat n \<le> 512" using assms by linarith
  then show "length (take (nat n) (drop (nat (p mod 512)) (map img
      [512 * nat (p div 512)..<512 * (nat (p div 512) + 1)]))) = length (map img [nat p..<nat p + nat n])"
    by simp
  fix i assume "i < length (take (nat n) (drop (nat (p mod 512)) (map img
      [512 * nat (p div 512)..<512 * (nat (p div 512) + 1)])))"
  with len show "take (nat n) (drop (nat (p mod 512)) (map img
      [512 * nat (p div 512)..<512 * (nat (p div 512) + 1)])) ! i = map img [nat p..<nat p + nat n] ! i"
    by (simp add: * add.assoc)
qed

lemma disk_stream_read_step:
  assumes "ata_drive img (device s)" "streams s stream = Some st" "stream_disk st = TheDisk"
    "0 \<le> position st" "position st < 2 ^ 31" "0 \<le> amount"
  defines "p \<equiv> position st" and "part \<equiv> min amount (512 - position st mod 512)"
  obtains log where "disk_stream_read stream out amount s =
    (let s' = s\<lparr>io_log := log, mem := write_bytes out (map img [nat p..<nat p + nat part]) (mem s),
         streams := (streams s)(stream \<mapsto> st\<lparr>position := p + part\<rparr>)\<rparr>
     in if part < amount then disk_stream_read stream (out + word_of_int part) (amount - part) s'
        else Some (0, s'))"
proof -
  let ?lba = "word_of_int (p div 512) :: u32"
  have p: "0 \<le> p" "p < 2 ^ 31" using assms by auto
  have sd: "p sdiv 512 = p div 512" using p(1) by (cases "p = 0") (simp_all add: signed_divide_int_eq_divide_int)
  have sm: "p smod 512 = p mod 512" using p(1) by (cases "p = 0") (simp_all add: signed_modulo_int_eq_modulo_int)
  have d: "0 \<le> p div 512" "p div 512 < 2 ^ 22" using p by auto
  then have lba: "unat ?lba = nat (p div 512)" "?lba < 2 ^ 28"
    by (simp_all add: unsigned_of_int take_bit_int_eq_self word_less_nat_alt)
  obtain log where rd: "disk_read_sector ?lba 1 s =
      Some (0, map img [512 * nat (p div 512)..<512 * (nat (p div 512) + 1)], s\<lparr>io_log := log\<rparr>)"
    using disk_read_sector_image [OF assms(1) lba(2), of 1] lba(1) by auto
  have part: "0 \<le> part" "p mod 512 + part \<le> 512" "part < amount \<longleftrightarrow> p mod 512 + amount > 512"
      "(if p mod 512 + amount > 512 then amount - (p mod 512 + amount - 512) else amount) = part"
    using assms(6) by (auto simp: part_def p_def)
  have cp: "stream_copy (map img [512 * nat (p div 512)..<512 * (nat (p div 512) + 1)]) (p mod 512) part out (mem s) =
      Some (write_bytes out (map img [nat p..<nat p + nat part]) (mem s))"
    using p(1) part(1,2) image_part [OF p(1) part(2,1), of img] by (subst stream_copy_image) auto
  have ov: "if 512 < p mod 512 + amount then 512 - p mod 512 = part else amount = part"
    using part(4) by (auto split: if_splits)
  have "disk_stream_read stream out amount s =
    (let s' = s\<lparr>io_log := log, mem := write_bytes out (map img [nat p..<nat p + nat part]) (mem s),
         streams := (streams s)(stream \<mapsto> st\<lparr>position := p + part\<rparr>)\<rparr>
     in if part < amount then disk_stream_read stream (out + word_of_int part) (amount - part) s'
        else Some (0, s'))"
  proof (cases "512 < p mod 512 + amount")
    case True
    with ov have "512 - p mod 512 = part" by simp
    then show ?thesis
      using True rd cp assms(2,3) sd sm part(3)
      by (subst disk_stream_read.simps) (simp add: disk_read_block_def p_def [symmetric])
  next
    case False
    with ov have "amount = part" by simp
    then show ?thesis
      using False rd cp assms(2,3) sd sm
      by (subst disk_stream_read.simps) (simp add: disk_read_block_def p_def [symmetric])
  qed
  then show ?thesis by (rule that)
qed

lemma disk_stream_read_image:
  fixes s :: "'a disks_scheme"
  assumes "ata_drive img (device s)" "streams s stream = Some st" "stream_disk st = TheDisk"
    "0 \<le> position st" "0 \<le> amount" "position st + amount < 2 ^ 31"
  shows "\<exists>log. disk_stream_read stream out amount s =
    Some (0, s\<lparr>io_log := log,
      mem := write_bytes out (map img [nat (position st)..<nat (position st + amount)]) (mem s),
      streams := (streams s)(stream \<mapsto> st\<lparr>position := position st + amount\<rparr>)\<rparr>)"
  using assms
proof (induction "nat amount" arbitrary: amount out s st rule: less_induct)
  case less
  let ?p = "position st"
  define part where "part = min amount (512 - ?p mod 512)"
  obtain log where step: "disk_stream_read stream out amount s =
    (let s' = s\<lparr>io_log := log, mem := write_bytes out (map img [nat ?p..<nat ?p + nat part]) (mem s),
         streams := (streams s)(stream \<mapsto> st\<lparr>position := ?p + part\<rparr>)\<rparr>
     in if part < amount then disk_stream_read stream (out + word_of_int part) (amount - part) s'
        else Some (0, s'))"
    unfolding part_def
    by (rule disk_stream_read_step [of img s stream st amount out]) (use less.prems in auto)
  have part: "0 \<le> part" "part \<le> amount" "?p mod 512 < 512"
    using less.prems by (auto simp: part_def)
  show ?case
  proof (cases "part < amount")
    case False
    then have "part = amount" using part by simp
    then show ?thesis
      using step less.prems by (auto simp: nat_add_distrib)
  next
    case True
    then have "0 < part" using part by (auto simp: part_def min_def split: if_splits)
    let ?s = "s\<lparr>io_log := log, mem := write_bytes out (map img [nat ?p..<nat ?p + nat part]) (mem s),
         streams := (streams s)(stream \<mapsto> st\<lparr>position := ?p + part\<rparr>)\<rparr>"
    obtain log' where rest: "disk_stream_read stream (out + word_of_int part) (amount - part) ?s =
      Some (0, ?s\<lparr>io_log := log',
        mem := write_bytes (out + word_of_int part)
          (map img [nat (?p + part)..<nat (?p + part + (amount - part))]) (mem ?s),
        streams := (streams ?s)(stream \<mapsto> st\<lparr>position := ?p + part, position := ?p + part + (amount - part)\<rparr>)\<rparr>)"
      using less.hyps [of "amount - part" ?s "st\<lparr>position := ?p + part\<rparr>" "out + word_of_int part"]
        less.prems part True \<open>0 < part\<close> by auto
    let ?xs = "map img [nat ?p..<nat ?p + nat part]"
    let ?ys = "map img [nat (?p + part)..<nat (?p + part + (amount - part))]"
    have "?xs @ ?ys = map img [nat ?p..<nat (?p + amount)]"
      using less.prems part upt_add_eq_append [of "nat ?p" "nat ?p + nat part" "nat (amount - part)"]
      by (simp add: nat_add_distrib nat_diff_distrib flip: map_append)
    moreover have "out + word_of_int part = out + of_nat (length ?xs)"
      using part by simp
    moreover have "length ?xs + length ?ys \<le> 2 ^ 32"
      using less.prems part by (simp add: nat_add_distrib)
    ultimately have "write_bytes (out + word_of_int part) ?ys (write_bytes out ?xs (mem s)) =
        write_bytes out (map img [nat ?p..<nat (?p + amount)]) (mem s)"
      using write_bytes_append by metis
    then show ?thesis
      using step rest True by (auto simp: Let_def)
  qed
qed

section \<open>The contract of a byte stream\<close>

text \<open>
  What the file system relies on of a stream: a seek sets the position, a read delivers the
  bytes of the image from the position on and advances it, and nothing else changes but what
  \<open>same\<close> allows.
\<close>

locale byte_stream =
  fixes serves :: "'s \<Rightarrow> bool"
    and content :: "nat \<Rightarrow> byte"
    and stream_at :: "'s \<Rightarrow> addr \<Rightarrow> int option"
    and bytes :: "'s \<Rightarrow> memory"
    and same :: "'s \<Rightarrow> 's \<Rightarrow> bool"
    and seek :: "addr \<Rightarrow> int \<Rightarrow> 's \<Rightarrow> (int \<times> 's) option"
    and read :: "addr \<Rightarrow> addr \<Rightarrow> int \<Rightarrow> 's \<Rightarrow> (int \<times> 's) option"
  assumes same_trans: "same s t \<Longrightarrow> same t u \<Longrightarrow> same s u"
    and seek_ok: "serves s \<Longrightarrow> stream_at s st = Some q \<Longrightarrow>
      \<exists>s'. seek st p s = Some (0, s') \<and> serves s' \<and> stream_at s' = (stream_at s)(st \<mapsto> p) \<and>
        bytes s' = bytes s \<and> same s s'"
    and read_ok: "serves s \<Longrightarrow> stream_at s st = Some p \<Longrightarrow> 0 \<le> p \<Longrightarrow> 0 \<le> n \<Longrightarrow> p + n < 2 ^ 31 \<Longrightarrow>
      \<exists>s'. read st out n s = Some (0, s') \<and> serves s' \<and> stream_at s' = (stream_at s)(st \<mapsto> p + n) \<and>
        bytes s' = write_bytes out (map content [nat p..<nat (p + n)]) (bytes s) \<and> same s s'"
begin

lemma read_at:
  assumes "serves s" "stream_at s st = Some q" "0 \<le> p" "0 \<le> n" "p + n < 2 ^ 31"
  obtains s1 s2 where "seek st p s = Some (0, s1)" "bytes s1 = bytes s" "same s s1"
    "read st out n s1 = Some (0, s2)" "serves s2" "stream_at s2 = (stream_at s)(st \<mapsto> p + n)"
    "bytes s2 = write_bytes out (map content [nat p..<nat (p + n)]) (bytes s)" "same s s2"
proof -
  obtain s1 where s1: "seek st p s = Some (0, s1)" "serves s1" "stream_at s1 = (stream_at s)(st \<mapsto> p)"
      "bytes s1 = bytes s" "same s s1"
    using seek_ok [OF assms(1,2)] by blast
  moreover obtain s2 where "read st out n s1 = Some (0, s2)" "serves s2"
      "stream_at s2 = (stream_at s1)(st \<mapsto> p + n)"
      "bytes s2 = write_bytes out (map content [nat p..<nat (p + n)]) (bytes s1)" "same s1 s2"
    using read_ok [OF s1(2), of st p n out] s1(3) assms(3-5) by auto
  ultimately show ?thesis
    using same_trans by (intro that [of s1 s2]) auto
qed

end

definition stream_position :: "'a disks_scheme \<Rightarrow> addr \<Rightarrow> int option" where
  "stream_position s st = (case streams s st of None \<Rightarrow> None
     | Some x \<Rightarrow> if stream_disk x = TheDisk then Some (position x) else None)"

definition stream_frame :: "'a disks_scheme \<Rightarrow> 'a disks_scheme \<Rightarrow> bool" where
  "stream_frame s s' \<longleftrightarrow> (\<exists>log m sts. s' = s\<lparr>io_log := log, mem := m, streams := sts\<rparr>)"

interpretation ds: byte_stream "\<lambda>s. ata_drive img (device s)" img stream_position mem stream_frame
  disk_stream_seek disk_stream_read for img
proof unfold_locales
  fix s t u :: "'a disks_scheme"
  assume "stream_frame s t" "stream_frame t u"
  then show "stream_frame s u"
    unfolding stream_frame_def by (elim exE) (intro exI, simp)
next
  fix s :: "'a disks_scheme" and st p q
  assume "ata_drive img (device s)" "stream_position s st = Some q"
  then obtain x where "streams s st = Some x" "stream_disk x = TheDisk"
    by (auto simp: stream_position_def split: option.splits if_splits)
  then show "\<exists>s'. disk_stream_seek st p s = Some (0, s') \<and> ata_drive img (device s') \<and>
      stream_position s' = (stream_position s)(st \<mapsto> p) \<and> mem s' = mem s \<and> stream_frame s s'"
    using \<open>ata_drive img (device s)\<close>
    by (intro exI [of _ "s\<lparr>streams := (streams s)(st \<mapsto> x\<lparr>position := p\<rparr>)\<rparr>"])
       (auto simp: disk_stream_seek_def stream_position_def fun_eq_iff stream_frame_def
         intro!: exI [of _ "io_log s"] exI [of _ "mem s"] exI [of _ "(streams s)(st \<mapsto> x\<lparr>position := p\<rparr>)"])
next
  fix s :: "'a disks_scheme" and st p n out
  assume *: "ata_drive img (device s)" "stream_position s st = Some p" "0 \<le> p" "0 \<le> n" "p + n < 2 ^ 31"
  then obtain x where x: "streams s st = Some x" "stream_disk x = TheDisk" "position x = p"
    by (auto simp: stream_position_def split: option.splits if_splits)
  obtain log where "disk_stream_read st out n s = Some (0, s\<lparr>io_log := log,
      mem := write_bytes out (map img [nat p..<nat (p + n)]) (mem s),
      streams := (streams s)(st \<mapsto> x\<lparr>position := p + n\<rparr>)\<rparr>)"
    using disk_stream_read_image [OF *(1) x(1,2), of n out] * x(3) by auto
  then show "\<exists>s'. disk_stream_read st out n s = Some (0, s') \<and> ata_drive img (device s') \<and>
      stream_position s' = (stream_position s)(st \<mapsto> p + n) \<and>
      mem s' = write_bytes out (map img [nat p..<nat (p + n)]) (mem s) \<and> stream_frame s s'"
    using *(1) x(2) by (auto simp: stream_position_def fun_eq_iff stream_frame_def)
qed

section \<open>Properties\<close>

text \<open>
  On a drive that behaves like an ATA drive, reading \<open>n\<close> sectors terminates and delivers
  exactly the bytes of those sectors of the image; only the port history changes.
\<close>

theorem disk_read_block_delivers:
  assumes "ata_drive img (device s)" "lba < 2 ^ 28" "0 \<le> n" "n < 256"
  shows "\<exists>log. disk_read_block TheDisk lba n s =
    Some (0, map img [512 * unat lba..<512 * (unat lba + nat n)], s\<lparr>io_log := log\<rparr>)"
  using disk_read_sector_image [OF assms] by (simp add: disk_read_block_def)

text \<open>
  C4. \<open>disk_stream_read\<close> terminates, writes the \<open>amount\<close> bytes of the image from the position
  of the stream on to \<open>out\<close>, advances the position by \<open>amount\<close> and changes nothing else,
  whatever sector boundaries the range crosses.
\<close>

theorem disk_stream_read_delivers:
  fixes s :: "'a disks_scheme"
  assumes "ata_drive img (device s)" "streams s stream = Some st" "stream_disk st = TheDisk"
    "0 \<le> position st" "0 \<le> amount" "position st + amount < 2 ^ 31"
  shows "\<exists>log. disk_stream_read stream out amount s =
    Some (0, s\<lparr>io_log := log,
      mem := write_bytes out (map img [nat (position st)..<nat (position st + amount)]) (mem s),
      streams := (streams s)(stream \<mapsto> st\<lparr>position := position st + amount\<rparr>)\<rparr>)"
  by (rule disk_stream_read_image [OF assms])

text \<open>A drive that is always ready and serves an image.\<close>

definition demo_drive :: "(nat \<Rightarrow> byte) \<Rightarrow> io_event list \<Rightarrow> u16 \<Rightarrow> u16" where
  "demo_drive img log port =
     (if port = 0x1F7 then 8
      else case read_command log of None \<Rightarrow> 0
        | Some (lba, n) \<Rightarrow> ucast (img (512 * lba + 2 * words_taken log))
            OR push_bit 8 (ucast (img (512 * lba + 2 * words_taken log + 1))))"

lemma ata_drive_demo: "ata_drive img (demo_drive img)"
proof -
  have lo: "ucast (ucast a OR push_bit 8 (ucast b) :: u16) = a" for a b :: byte
    by (rule bit_word_eqI) (simp add: bit_simps)
  have hi: "ucast (drop_bit 8 (ucast a OR push_bit 8 (ucast b) :: u16)) = b" for a b :: byte
    by (rule bit_word_eqI) (auto simp: bit_simps dest: bit_imp_le_length)
  show ?thesis
    by (simp add: ata_drive_def demo_drive_def lo hi del: drop_bit_or)
qed

definition demo_image :: "nat \<Rightarrow> byte" where
  "demo_image i = of_nat (i div 512 + i)"

definition demo_disks :: disks where
  "demo_disks = \<lparr>mem = (\<lambda>_. 0), device = demo_drive demo_image, io_log = [],
     video_memory = 0xB8000, terminal_row = 0, terminal_col = 0,
     kernel_heap = small_heap, current_directory = 0, cr3 = 0, paging_enabled = False,
     disk = \<lparr>disk_type = 0, sector_size = 512, disk_id = 0, filesystem = NullFilesystem, fs_private = 0\<rparr>,
     streams = [0x01000000 \<mapsto> \<lparr>position = 510, stream_disk = TheDisk\<rparr>]\<rparr>"

theorem disk_read_block_delivers_witness:
  "\<exists>log. disk_read_block TheDisk 3 1 demo_disks =
     Some (0, map demo_image [1536..<2048], demo_disks\<lparr>io_log := log\<rparr>)"
  using disk_read_block_delivers [of demo_image demo_disks 3 1] ata_drive_demo [of demo_image]
  by (simp add: demo_disks_def)

theorem disk_stream_read_delivers_witness:
  "\<exists>s'. disk_stream_read 0x01000000 0x2000 4 demo_disks = Some (0, s') \<and>
     mem_bytes (mem s') 0x2000 4 = [254, 255, 1, 2] \<and>
     map_option position (streams s' 0x01000000) = Some 514"
proof -
  have "ata_drive demo_image (device demo_disks)"
    using ata_drive_demo by (simp add: demo_disks_def)
  then obtain log where "disk_stream_read 0x01000000 0x2000 4 demo_disks = Some (0,
      demo_disks\<lparr>io_log := log,
        mem := write_bytes 0x2000 (map demo_image [510..<514]) (mem demo_disks),
        streams := (streams demo_disks)(0x01000000 \<mapsto> \<lparr>position = 514, stream_disk = TheDisk\<rparr>)\<rparr>)"
    using disk_stream_read_delivers [of demo_image demo_disks "0x01000000"
        "\<lparr>position = 510, stream_disk = TheDisk\<rparr>" 4 "0x2000"]
    by (auto simp: demo_disks_def)
  moreover have "mem_bytes (write_bytes 0x2000 (map demo_image [510..<514]) m) 0x2000 4 =
      map demo_image [510..<514]" for m
  proof -
    have "length (map demo_image [510..<514]) = 4" by simp
    then show ?thesis
      using mem_bytes_write_bytes [of "map demo_image [510..<514]" "0x2000" m]
      by (simp only: numeral_le_iff) simp
  qed
  moreover have "map demo_image [510..<514] = [254, 255, 1, 2]"
    by (simp add: demo_image_def upt_rec)
  ultimately show ?thesis by simp
qed

text \<open>Opening a stream: a fresh object at position \<open>0\<close> for disk \<open>0\<close>, the null pointer otherwise.\<close>

lemma disk_stream_new_disk:
  fixes s :: "'a disks_scheme"
  assumes "heap_inv (kernel_heap s)" "0 < free_blocks (kernel_heap s)"
  obtains p s' where "disk_stream_new 0 s = Some (p, s')" "p \<noteq> 0"
    "streams s' p = Some \<lparr>position = 0, stream_disk = TheDisk\<rparr>"
    "heap_inv (kernel_heap s')" "allocs (kernel_heap s') = insert (p, 1) (allocs (kernel_heap s))"
    "page_of p \<notin> live_pages (kernel_heap s)"
proof -
  obtain p s' where "kernel_zalloc 8 s = Some (p, s')" "p \<noteq> 0" "heap_inv (kernel_heap s')"
      "allocs (kernel_heap s') = insert (p, 1) (allocs (kernel_heap s))"
      "page_of p \<notin> live_pages (kernel_heap s)"
    by (rule kernel_zalloc_page [of s 8]) (use assms in auto)
  then show ?thesis
    by (intro that [of p "s'\<lparr>streams := (streams s')(p \<mapsto> \<lparr>position = 0, stream_disk = TheDisk\<rparr>)\<rparr>"])
       (simp_all add: disk_stream_new_def disk_get_def)
qed

end
