(* ===== verification/PathParser.thy ===== *)
theory PathParser
  imports Disk
begin

text \<open>
  Paths of the form \<^verbatim>\<open>0:/a/b\<close>, \<^verbatim>\<open>src/src/fileSystem/pathParser.c\<close>. Roots and parts are objects
  of the stores \<open>path_roots\<close> and \<open>path_parts\<close>, keyed by the addresses the kernel heap returns;
  the text of a part is a buffer of its own in memory. The theorems give the result of parsing
  a well formed path completely: the drive number, the first part, and the list the parts
  form. Every part after the first is linked to the first one, so that the list of a path with
  three or more parts has two elements only.
\<close>

section \<open>Definitions\<close>

definition MAX_PATH :: u32 where [simp]: "MAX_PATH = 108"

record path_root =
  drive_number :: int
  first :: addr

record path_part =
  part :: addr
  next_part :: addr

record paths = disks +
  path_roots :: "addr \<rightharpoonup> path_root"
  path_parts :: "addr \<rightharpoonup> path_part"

text \<open>The comparison with the literal \<^verbatim>\<open>":/"\<close> is one of two bytes.\<close>

definition pathparser_path_valid_format :: "memory \<Rightarrow> addr \<Rightarrow> bool" where
  "pathparser_path_valid_format m filename =
     (let len = strnlen m filename MAX_PATH
      in 3 \<le> sint len \<and> is_digit (m filename) \<and> mem_bytes m (filename + 1) 2 = [0x3A, 0x2F])"

definition pathparser_extract_drive_by_path :: "memory \<Rightarrow> addr \<Rightarrow> int \<times> addr" where
  "pathparser_extract_drive_by_path m path =
     (if \<not> pathparser_path_valid_format m path then (- BAD_PATH_ERROR, path)
      else (to_numeric_digit (m path), path + 3))"

definition pathparser_create_root :: "int \<Rightarrow> 'a paths_scheme \<Rightarrow> (addr \<times> 'a paths_scheme) option" where
  "pathparser_create_root drive s = do {
     (p, s) \<leftarrow> kernel_zalloc 8 s;
     if p = 0 then None
     else Some (p, s\<lparr>path_roots := (path_roots s)(p \<mapsto> \<lparr>drive_number = drive, first = 0\<rparr>)\<rparr>)
   }"

text \<open>The loop that copies characters up to a slash or the terminator.\<close>

partial_function (option) pathparser_copy ::
    "addr \<Rightarrow> addr \<Rightarrow> nat \<Rightarrow> memory \<Rightarrow> (addr \<times> nat \<times> memory) option" where
  "pathparser_copy result path i m =
     (if m path \<noteq> 0x2F \<and> m path \<noteq> 0
      then if result = 0 then None
           else pathparser_copy result (path + 1) (Suc i) (m(result + of_nat i := m path))
      else Some (path, i, m))"

definition pathparser_extract_path_part ::
    "addr \<Rightarrow> 'a paths_scheme \<Rightarrow> (addr \<times> addr \<times> 'a paths_scheme) option" where
  "pathparser_extract_path_part path s = do {
     (result, s) \<leftarrow> kernel_zalloc MAX_PATH s;
     (path, i, m) \<leftarrow> pathparser_copy result path 0 (mem s);
     let s = s\<lparr>mem := m\<rparr>;
     let path = (if m path = 0x2F then path + 1 else path);
     if i = 0 then Some (0, path, kernel_free result s) else Some (result, path, s)
   }"

definition pathparser_parse_path_part ::
    "addr \<Rightarrow> addr \<Rightarrow> 'a paths_scheme \<Rightarrow> (addr \<times> addr \<times> 'a paths_scheme) option" where
  "pathparser_parse_path_part last_part path s = do {
     (str, path, s) \<leftarrow> pathparser_extract_path_part path s;
     if str = 0 then Some (0, path, s)
     else do {
       (p, s) \<leftarrow> kernel_zalloc 8 s;
       if p = 0 then None
       else do {
         let s = s\<lparr>path_parts := (path_parts s)(p \<mapsto> \<lparr>part = str, next_part = 0\<rparr>)\<rparr>;
         if last_part = 0 then Some (p, path, s)
         else do {
           lp \<leftarrow> path_parts s last_part;
           Some (p, path, s\<lparr>path_parts := (path_parts s)(last_part \<mapsto> lp\<lparr>next_part := p\<rparr>)\<rparr>)
         }
       }
     }
   }"

partial_function (option) pathparser_free_parts ::
    "addr \<Rightarrow> 'a paths_scheme \<Rightarrow> 'a paths_scheme option" where
  "pathparser_free_parts p s =
     (if p = 0 then Some s
      else do {
        pp \<leftarrow> path_parts s p;
        let s = kernel_free p (kernel_free (part pp) s);
        pathparser_free_parts (next_part pp) (s\<lparr>path_parts := (path_parts s)(p := None)\<rparr>)
      })"

definition pathparser_free :: "addr \<Rightarrow> 'a paths_scheme \<Rightarrow> 'a paths_scheme option" where
  "pathparser_free root s = do {
     r \<leftarrow> path_roots s root;
     s \<leftarrow> pathparser_free_parts (first r) s;
     let s = kernel_free root s;
     Some (s\<lparr>path_roots := (path_roots s)(root := None)\<rparr>)
   }"

text \<open>The parts after the first: each is parsed with the first part as its predecessor.\<close>

partial_function (option) pathparser_rest ::
    "addr \<Rightarrow> addr \<Rightarrow> 'a paths_scheme \<Rightarrow> 'a paths_scheme option" where
  "pathparser_rest first_part path s = do {
     (p, path, s) \<leftarrow> pathparser_parse_path_part first_part path s;
     if p = 0 then Some s else pathparser_rest first_part path s
   }"

definition pathparser_parse :: "addr \<Rightarrow> 'a paths_scheme \<Rightarrow> (addr \<times> 'a paths_scheme) option" where
  "pathparser_parse path s = do {
     len \<leftarrow> strlen (mem s) path;
     if len > MAX_PATH then Some (0, s)
     else
       let (res, tmp_path) = pathparser_extract_drive_by_path (mem s) path
       in if res < 0 then Some (0, s)
          else do {
            (root, s) \<leftarrow> pathparser_create_root res s;
            (first_part, tmp_path, s) \<leftarrow> pathparser_parse_path_part 0 tmp_path s;
            if first_part = 0 then Some (root, s)
            else do {
              r \<leftarrow> path_roots s root;
              let s = s\<lparr>path_roots := (path_roots s)(root \<mapsto> r\<lparr>first := first_part\<rparr>)\<rparr>;
              s \<leftarrow> pathparser_rest first_part tmp_path s;
              Some (root, s)
            }
          }
   }"

section \<open>Specification\<close>

text \<open>The text up to the next slash, what follows the slash, and all parts up to an empty one.\<close>

definition head_part :: "byte list \<Rightarrow> byte list" where
  "head_part cs = takeWhile (\<lambda>c. c \<noteq> 0x2F) cs"

definition rest_part :: "byte list \<Rightarrow> byte list" where
  "rest_part cs = drop 1 (dropWhile (\<lambda>c. c \<noteq> 0x2F) cs)"

function components :: "byte list \<Rightarrow> byte list list" where
  "components cs = (if head_part cs = [] then [] else head_part cs # components (rest_part cs))"
  by pat_completeness auto
termination
proof (relation "measure length")
  fix cs assume "head_part cs \<noteq> []"
  then have "length (dropWhile (\<lambda>c. c \<noteq> 0x2F) cs) < length cs"
    using takeWhile_dropWhile_id [of "\<lambda>c. c \<noteq> 0x2F" cs]
    by (metis head_part_def length_append length_greater_0_conv less_add_same_cancel2)
  then show "(rest_part cs, cs) \<in> measure length" by (simp add: rest_part_def)
qed simp

declare components.simps [simp del]

text \<open>The list of parts that starts at an object; all of it lies in live allocations.\<close>

fun parts_list :: "'a paths_scheme \<Rightarrow> addr \<Rightarrow> byte list list \<Rightarrow> bool" where
  "parts_list s p [] \<longleftrightarrow> p = 0"
| "parts_list s p (c # cs) \<longleftrightarrow>
     (case path_parts s p of None \<Rightarrow> False
      | Some pp \<Rightarrow> p \<noteq> 0 \<and> page_of p \<in> live_pages (kernel_heap s) \<and> page_aligned (part pp) \<and>
          page_of (part pp) \<in> live_pages (kernel_heap s) \<and> length c < 4096 \<and>
          cstring (mem s) (part pp) c \<and> parts_list s (next_part pp) cs)"

definition path_ok :: "'a kstate_scheme \<Rightarrow> addr \<Rightarrow> byte list \<Rightarrow> bool" where
  "path_ok s path cs \<longleftrightarrow> cstring (mem s) path cs \<and> length cs < 108 \<and>
     (\<forall>i \<le> length cs. \<not> free_page (kernel_heap s) (page_of (path + of_nat i)))"

section \<open>Frames\<close>

text \<open>The parser changes memory, the heap and its own objects only.\<close>

definition paths_frame :: "'a paths_scheme \<Rightarrow> 'a paths_scheme \<Rightarrow> bool" where
  "paths_frame s s' \<longleftrightarrow> (\<exists>m h rs ps. s' = s\<lparr>mem := m, kernel_heap := h, path_roots := rs, path_parts := ps\<rparr>)"

lemma paths_frame_trans: "paths_frame s t \<Longrightarrow> paths_frame t u \<Longrightarrow> paths_frame s u"
  unfolding paths_frame_def by (elim exE) (intro exI, simp)

lemma paths_frame_refl [simp]: "paths_frame s s"
  unfolding paths_frame_def
  by (intro exI [of _ "mem s"] exI [of _ "kernel_heap s"] exI [of _ "path_roots s"] exI [of _ "path_parts s"]) simp

lemma paths_frame_update:
  "paths_frame s s' \<Longrightarrow> paths_frame s (s'\<lparr>mem := m\<rparr>)" "paths_frame s s' \<Longrightarrow> paths_frame s (s'\<lparr>kernel_heap := h\<rparr>)"
  "paths_frame s s' \<Longrightarrow> paths_frame s (s'\<lparr>path_roots := rs\<rparr>)" "paths_frame s s' \<Longrightarrow> paths_frame s (s'\<lparr>path_parts := ps\<rparr>)"
  unfolding paths_frame_def by (cases s, elim exE, intro exI, simp)+

lemma kernel_free_paths_frame: "paths_frame s s' \<Longrightarrow> paths_frame s (kernel_free p s')"
  by (simp add: kernel_free_def paths_frame_update)

lemma kernel_zalloc_paths_frame:
  assumes "kernel_zalloc sz s = Some (p, s')"
  shows "paths_frame s s'"
proof -
  obtain m h where "s' = s\<lparr>mem := m, kernel_heap := h\<rparr>" using kernel_zalloc_shape [OF assms] by blast
  then show ?thesis by (simp add: paths_frame_update)
qed

lemma paths_frame_roots: "paths_frame (s\<lparr>path_roots := rs\<rparr>) s' \<Longrightarrow> paths_frame s s'"
  by (rule paths_frame_trans [OF paths_frame_update(3) [OF paths_frame_refl]])

lemmas paths_frames = paths_frame_update kernel_free_paths_frame

lemma pathparser_extract_path_part_frame:
  assumes "pathparser_extract_path_part path s = Some (r, path', s')"
  shows "paths_frame s s'"
  using assms unfolding pathparser_extract_path_part_def Let_def
  by (auto split: bind_splits if_splits dest!: kernel_zalloc_paths_frame
      intro!: paths_frames)

lemma pathparser_parse_path_part_frame:
  assumes "pathparser_parse_path_part last_part path s = Some (p, path', s')"
  shows "paths_frame s s'"
  using assms unfolding pathparser_parse_path_part_def Let_def
  by (auto split: bind_splits if_splits dest!: kernel_zalloc_paths_frame pathparser_extract_path_part_frame
      elim!: paths_frame_trans intro!: paths_frames)

lemma pathparser_rest_frame: "pathparser_rest first_part path s = Some s' \<Longrightarrow> paths_frame s s'"
proof (rule pathparser_rest.raw_induct [of "\<lambda>f p s s'. paths_frame s s'"])
  fix rest :: "addr \<Rightarrow> addr \<Rightarrow> 'a paths_scheme \<Rightarrow> 'a paths_scheme option" and f p s s'
  assume IH: "\<And>f p s s'. rest f p s = Some s' \<Longrightarrow> paths_frame s s'"
    and "do { (q, path, s) \<leftarrow> pathparser_parse_path_part f p s; if q = 0 then Some s else rest f path s } = Some s'"
  then show "paths_frame s s'"
    using paths_frame_trans [of s] by (fastforce split: bind_splits if_splits dest!: pathparser_parse_path_part_frame)
qed

lemma pathparser_parse_frame:
  assumes "pathparser_parse path s = Some (r, s')"
  shows "paths_frame s s'"
  using assms unfolding pathparser_parse_def pathparser_create_root_def
  by (auto split: bind_splits if_splits prod.splits simp: Let_def
      dest!: kernel_zalloc_paths_frame pathparser_parse_path_part_frame pathparser_rest_frame paths_frame_roots
      elim!: paths_frame_trans intro!: paths_frames)

lemma cstring_cong:
  assumes "cstring m p bs" "\<And>i. i \<le> length bs \<Longrightarrow> m' (p + of_nat i) = m (p + of_nat i)"
  shows "cstring m' p bs"
proof (rule cstringI)
  show "m' (p + of_nat i) = bs ! i" if "i < length bs" for i
    using assms(2) [of i] cstring_nth [OF assms(1) that] that by simp
  show "m' (p + of_nat (length bs)) = 0"
    using assms(2) [of "length bs"] cstring_end [OF assms(1)] by simp
qed (rule cstring_no_zero [OF assms(1)])

lemma path_ok_grows: "path_ok s path cs \<Longrightarrow> grows s s' \<Longrightarrow> path_ok s' path cs"
  unfolding path_ok_def grows_def by (auto intro: cstring_cong simp: free_page_def)

lemma cstring_drop: "cstring m p (xs @ ys) \<Longrightarrow> cstring m (p + of_nat (length xs)) ys"
  by (induction xs arbitrary: p) (auto simp: add.assoc [symmetric])

lemma path_ok_drop:
  assumes "path_ok s path (xs @ ys)"
  shows "path_ok s (path + of_nat (length xs)) ys"
proof -
  have "\<not> free_page (kernel_heap s) (page_of (path + of_nat (length xs) + of_nat i))" if "i \<le> length ys" for i
    using assms that by (auto simp: path_ok_def add.assoc simp flip: of_nat_add)
  then show ?thesis
    using assms cstring_drop [of "mem s" path xs ys] by (simp add: path_ok_def)
qed

lemma live_cstring_grows:
  assumes "cstring (mem s) r c" "page_aligned r" "page_of r \<in> live_pages (kernel_heap s)" "length c < 4096"
    "grows s s'"
  shows "cstring (mem s') r c"
proof (rule cstring_cong [OF assms(1)])
  fix i assume "i \<le> length c"
  then have "page_of (r + of_nat i) = page_of r"
    using assms(2,4) by (intro page_of_add) auto
  then show "mem s' (r + of_nat i) = mem s (r + of_nat i)"
    using assms(3,5) by (simp add: grows_def free_page_def)
qed

lemma parts_list_grows:
  assumes "parts_list s p cs" "grows s s'" "path_parts s' = path_parts s"
  shows "parts_list s' p cs"
  using assms
proof (induction cs arbitrary: p)
  case (Cons c cs)
  then show ?case
    using live_cstring_grows [of s _ c s'] by (auto simp: grows_def split: option.splits)
qed simp

lemma fields_kernel_zalloc:
  assumes "kernel_zalloc sz s = Some (p, s')"
  shows "path_parts s' = path_parts s" "path_roots s' = path_roots s" "streams s' = streams s"
  using assms by (auto simp: kernel_zalloc_def kernel_malloc_def split: bind_splits if_splits)

section \<open>One part\<close>

lemma head_part_append: "cs = head_part cs @ dropWhile (\<lambda>c. c \<noteq> 0x2F) cs"
  by (simp add: head_part_def)

lemma pathparser_copy_step:
  assumes "cstring m path cs" "result \<noteq> 0" "page_aligned result" "length pre + length cs < 4096"
    "\<And>i. i \<le> length cs \<Longrightarrow> page_of (path + of_nat i) \<noteq> page_of result"
  shows "pathparser_copy result path (length pre) (write_bytes result pre m) =
    Some (path + of_nat (length (head_part cs)), length pre + length (head_part cs),
      write_bytes result (pre @ head_part cs) m)"
  using assms
proof (induction cs arbitrary: path pre)
  case Nil
  have "write_bytes result pre m path = m path"
    using Nil.prems(5) [of 0] in_page_iff [OF Nil.prems(3), of path] Nil.prems(4)
    by (intro write_bytes_outside) simp
  with Nil.prems(1) show ?case
    by (subst pathparser_copy.simps) (simp add: head_part_def)
next
  case (Cons c cs)
  have rd: "write_bytes result pre m path = c"
    using Cons.prems(1,4) Cons.prems(5) [of 0] in_page_iff [OF Cons.prems(3), of path]
    by (subst write_bytes_outside) auto
  show ?case
  proof (cases "c = 0x2F")
    case True
    then show ?thesis using rd by (subst pathparser_copy.simps) (simp add: head_part_def)
  next
    case False
    have "page_of (path + 1 + of_nat i) \<noteq> page_of result" if "i \<le> length cs" for i
      using Cons.prems(5) [of "Suc i"] that by (simp add: add.assoc)
    then have "pathparser_copy result (path + 1) (length (pre @ [c])) (write_bytes result (pre @ [c]) m) =
      Some (path + 1 + of_nat (length (head_part cs)), length (pre @ [c]) + length (head_part cs),
        write_bytes result ((pre @ [c]) @ head_part cs) m)"
      using Cons.prems Cons.IH [of "path + 1" "pre @ [c]"] by simp
    moreover have "(write_bytes result pre m)(result + of_nat (length pre) := c) = write_bytes result (pre @ [c]) m"
      using Cons.prems(4) by (intro write_bytes_snoc) simp
    ultimately show ?thesis
      using rd False Cons.prems(1,2)
      by (subst pathparser_copy.simps) (simp add: head_part_def add.assoc)
  qed
qed

lemma path_ok_rest:
  assumes "path_ok s path cs"
  defines "q \<equiv> path + of_nat (length (head_part cs))"
  shows "path_ok s (if mem s q = 0x2F then q + 1 else q) (rest_part cs)"
proof -
  let ?d = "dropWhile (\<lambda>c. c \<noteq> 0x2F) cs"
  have "path_ok s q ?d"
    using path_ok_drop [of s path "head_part cs" ?d] assms(1) head_part_append [of cs] by (simp add: q_def)
  moreover from this have "mem s q = 0x2F \<longleftrightarrow> ?d \<noteq> []"
    by (cases ?d) (auto simp: path_ok_def dest: dropWhile_eq_Cons_conv [THEN iffD1])
  moreover have "path_ok s (q + of_nat (length [c])) ds" if "?d = c # ds" for c ds
    using path_ok_drop [of s q "[c]" ds] calculation(1) that by simp
  ultimately show ?thesis
    unfolding rest_part_def by (cases ?d) (auto simp del: dropWhile_eq_Nil_conv)
qed

text \<open>Extracting a part: either none is left, or its text is in a fresh buffer.\<close>

lemma pathparser_extract_nothing:
  fixes s :: "'a paths_scheme"
  assumes "heap_inv (kernel_heap s)" "0 < free_blocks (kernel_heap s)" "path_ok s path cs" "head_part cs = []"
  obtains path' s' where "pathparser_extract_path_part path s = Some (0, path', s')"
    "grows s s'" "allocs (kernel_heap s') = allocs (kernel_heap s)"
    "free_blocks (kernel_heap s') = free_blocks (kernel_heap s)"
    "path_parts s' = path_parts s" "path_roots s' = path_roots s"
proof -
  obtain r s1 where z: "kernel_zalloc 108 s = Some (r, s1)" "r \<noteq> 0" "page_aligned r" "grows s s1"
      "allocs (kernel_heap s1) = insert (r, 1) (allocs (kernel_heap s))"
      "free_blocks (kernel_heap s) = Suc (free_blocks (kernel_heap s1))"
      "free_page (kernel_heap s) (page_of r)"
    by (rule kernel_zalloc_grows [of s 108]) (use assms in auto)
  have "mem s1 path = mem s path"
    using z(4) assms(3) by (auto simp: grows_def path_ok_def dest: spec [of _ 0])
  moreover have "mem s path = 0x2F \<or> mem s path = 0"
    using assms(3,4) by (cases cs) (auto simp: path_ok_def head_part_def split: if_splits)
  ultimately have copy: "pathparser_copy r path 0 (mem s1) = Some (path, 0, mem s1)"
    by (subst pathparser_copy.simps) auto
  have "(r, 1) \<notin> allocs (kernel_heap s)"
    using z(7) live_pagesI by (auto simp: free_page_def)
  moreover have "heap_inv (kernel_heap s1)" "(r, 1) \<in> allocs (kernel_heap s1)"
    using z(4,5) by (auto simp: grows_def)
  ultimately have free: "heap_inv (kernel_heap (kernel_free r s1))"
      "allocs (kernel_heap (kernel_free r s1)) = allocs (kernel_heap s)"
      "free_blocks (kernel_heap (kernel_free r s1)) = free_blocks (kernel_heap s)"
    using kz.release_live [of s1 r 1] z(5,6) by auto
  moreover have "kernel_heap (kernel_free r s1) = kernel_heap s"
    by (rule kernel_zalloc_free_heap [OF assms(1) _ _ z(1,2)]) simp_all
  ultimately have "grows s (kernel_free r s1)"
    using z(4) live_pages_cong [OF free(2)] by (auto simp: grows_def kernel_free_def)
  then show ?thesis
    using z(1) copy free fields_kernel_zalloc [OF z(1)]
    by (intro that [of "if mem s1 path = 0x2F then path + 1 else path" "kernel_free r s1"])
       (simp_all add: pathparser_extract_path_part_def kernel_free_def)
qed

lemma pathparser_extract_part:
  fixes s :: "'a paths_scheme"
  assumes "heap_inv (kernel_heap s)" "0 < free_blocks (kernel_heap s)" "path_ok s path cs" "head_part cs \<noteq> []"
  obtains r path' s' where "pathparser_extract_path_part path s = Some (r, path', s')"
    "r \<noteq> 0" "page_aligned r" "page_of r \<in> live_pages (kernel_heap s')"
    "grows s s'" "free_blocks (kernel_heap s) = Suc (free_blocks (kernel_heap s'))"
    "cstring (mem s') r (head_part cs)" "path_ok s' path' (rest_part cs)"
    "path_parts s' = path_parts s" "path_roots s' = path_roots s"
proof -
  obtain r s1 where z: "kernel_zalloc 108 s = Some (r, s1)" "r \<noteq> 0" "page_aligned r" "grows s s1"
      "allocs (kernel_heap s1) = insert (r, 1) (allocs (kernel_heap s))"
      "free_blocks (kernel_heap s) = Suc (free_blocks (kernel_heap s1))"
      "free_page (kernel_heap s) (page_of r)" "page_of r \<in> live_pages (kernel_heap s1)"
      "\<And>a. unat (a - r) < unat (108 :: u32) \<Longrightarrow> mem s1 a = 0"
    by (rule kernel_zalloc_grows [of s 108]) (use assms in auto)
  let ?h = "head_part cs"
  have ok1: "path_ok s1 path cs" using path_ok_grows [OF assms(3) z(4)] .
  have len: "length cs < 108" and str: "cstring (mem s1) path cs" using ok1 by (auto simp: path_ok_def)
  have lh: "length ?h \<le> length cs" by (simp add: head_part_def length_takeWhile_le)
  have pages: "page_of (path + of_nat i) \<noteq> page_of r" if "i \<le> length cs" for i
    using assms(3) z(7) that by (auto simp: path_ok_def)
  define s2 where "s2 = s1\<lparr>mem := write_bytes r ?h (mem s1)\<rparr>"
  have copy: "pathparser_copy r path 0 (mem s1) = Some (path + of_nat (length ?h), length ?h, mem s2)"
    using pathparser_copy_step [OF str z(2,3), of "[]"] len pages by (simp add: s2_def)
  have other: "mem s2 a = mem s1 a" if "page_of a \<noteq> page_of r" for a
    using that in_page_iff [OF z(3), of a] len lh by (simp add: s2_def write_bytes_outside)
  have "mem s2 a = mem s a" if "\<not> free_page (kernel_heap s) (page_of a)" for a
  proof -
    have "page_of a \<noteq> page_of r" using that z(7) by metis
    then show ?thesis using that z(4) other [of a] by (simp add: grows_def)
  qed
  then have g: "grows s s2"
    using z(4) by (auto simp: grows_def s2_def)
  have "cstring (mem s2) r ?h"
  proof (rule cstringI)
    show "mem s2 (r + of_nat i) = ?h ! i" if "i < length ?h" for i
      using that len lh by (simp add: s2_def write_bytes_inside)
    show "0 \<notin> set ?h"
      using cstring_no_zero [OF str] by (auto simp: head_part_def dest: set_takeWhileD)
    have "unat (r + of_nat (length ?h) - r) = length ?h"
      using len lh by (intro unat_diff_of_nat_index) simp
    then show "mem s2 (r + of_nat (length ?h)) = 0"
      using z(9) [of "r + of_nat (length ?h)"] len lh by (simp add: s2_def write_bytes_outside)
  qed
  moreover have "path_ok s2 (if mem s2 (path + of_nat (length ?h)) = 0x2F then path + of_nat (length ?h) + 1
      else path + of_nat (length ?h)) (rest_part cs)"
    using path_ok_rest [OF path_ok_grows [OF assms(3) g]] .
  ultimately show ?thesis
    using z g copy assms(4) fields_kernel_zalloc [OF z(1)]
    by (intro that [of r "if mem s2 (path + of_nat (length ?h)) = 0x2F then path + of_nat (length ?h) + 1
          else path + of_nat (length ?h)" s2])
       (simp_all add: pathparser_extract_path_part_def s2_def)
qed

section \<open>The list of parts\<close>

lemma pathparser_part_nothing:
  fixes s :: "'a paths_scheme"
  assumes "heap_inv (kernel_heap s)" "0 < free_blocks (kernel_heap s)" "path_ok s path cs" "head_part cs = []"
  obtains path' s' where "pathparser_parse_path_part q path s = Some (0, path', s')"
    "grows s s'" "allocs (kernel_heap s') = allocs (kernel_heap s)" "free_blocks (kernel_heap s') = free_blocks (kernel_heap s)"
    "path_parts s' = path_parts s" "path_roots s' = path_roots s"
proof -
  obtain path' s' where "pathparser_extract_path_part path s = Some (0, path', s')"
    "grows s s'" "allocs (kernel_heap s') = allocs (kernel_heap s)" "free_blocks (kernel_heap s') = free_blocks (kernel_heap s)"
    "path_parts s' = path_parts s" "path_roots s' = path_roots s"
    by (rule pathparser_extract_nothing [OF assms])
  then show ?thesis
    by (intro that [of path' s']) (simp_all add: pathparser_parse_path_part_def)
qed

lemma pathparser_part_some:
  fixes s :: "'a paths_scheme"
  assumes "heap_inv (kernel_heap s)" "2 \<le> free_blocks (kernel_heap s)" "path_ok s path cs"
    "head_part cs \<noteq> []" "q \<noteq> 0 \<Longrightarrow> parts_list s q (c # prev)"
  obtains p path' s' where "pathparser_parse_path_part q path s = Some (p, path', s')"
    "p \<noteq> 0" "grows s s'" "free_blocks (kernel_heap s) = Suc (Suc (free_blocks (kernel_heap s')))"
    "path_ok s' path' (rest_part cs)" "path_roots s' = path_roots s" "parts_list s' p [head_part cs]"
    "q \<noteq> 0 \<Longrightarrow> parts_list s' q [c, head_part cs]"
proof -
  obtain r path' s1 where e: "pathparser_extract_path_part path s = Some (r, path', s1)"
    "r \<noteq> 0" "page_aligned r" "page_of r \<in> live_pages (kernel_heap s1)"
    "grows s s1" "free_blocks (kernel_heap s) = Suc (free_blocks (kernel_heap s1))"
    "cstring (mem s1) r (head_part cs)" "path_ok s1 path' (rest_part cs)"
    "path_parts s1 = path_parts s" "path_roots s1 = path_roots s"
    by (rule pathparser_extract_part [of s path cs]) (use assms in auto)
  obtain p s2 where z: "kernel_zalloc 8 s1 = Some (p, s2)" "p \<noteq> 0" "page_aligned p" "grows s1 s2"
      "allocs (kernel_heap s2) = insert (p, 1) (allocs (kernel_heap s1))"
      "free_blocks (kernel_heap s1) = Suc (free_blocks (kernel_heap s2))"
      "free_page (kernel_heap s1) (page_of p)" "page_of p \<in> live_pages (kernel_heap s2)"
    by (rule kernel_zalloc_grows [of s1 8]) (use assms e(5,6) in \<open>auto simp: grows_def\<close>)
  have len: "length (head_part cs) < 4096"
    using assms(3) length_takeWhile_le [of "\<lambda>c. c \<noteq> 0x2F" cs] by (simp add: path_ok_def head_part_def)
  have str: "cstring (mem s2) r (head_part cs)" and live: "page_of r \<in> live_pages (kernel_heap s2)"
    using live_cstring_grows [OF e(7,3,4) len z(4)] z(4) e(4) by (auto simp: grows_def)
  have g: "grows s s2" using e(5) z(4) by (rule grows_trans)
  note f = fields_kernel_zalloc [OF z(1)]
  define s3 where "s3 = s2\<lparr>path_parts := (path_parts s)(p \<mapsto> \<lparr>part = r, next_part = 0\<rparr>)\<rparr>"
  show ?thesis
  proof (cases "q = 0")
    case True
    show ?thesis
      by (rule that [of p path' s3])
         (use True e z g str live len f path_ok_grows [OF e(8) z(4)] in
           \<open>simp_all add: pathparser_parse_path_part_def s3_def grows_def path_ok_def\<close>)
  next
    case False
    then obtain lp where q: "path_parts s q = Some lp" "page_of q \<in> live_pages (kernel_heap s)"
        "page_aligned (part lp)" "page_of (part lp) \<in> live_pages (kernel_heap s)" "length c < 4096"
        "cstring (mem s) (part lp) c"
      using assms(5) by (auto split: option.splits)
    have "q \<noteq> p" using q(2) z(7) e(5) by (auto simp: free_page_def grows_def)
    define s4 where "s4 = s3\<lparr>path_parts := (path_parts s3)(q \<mapsto> lp\<lparr>next_part := p\<rparr>)\<rparr>"
    have "cstring (mem s2) (part lp) c" using live_cstring_grows [OF q(6,3,4,5) g] .
    moreover have "page_of q \<in> live_pages (kernel_heap s2)" "page_of (part lp) \<in> live_pages (kernel_heap s2)"
      using q g by (auto simp: grows_def)
    ultimately show ?thesis
      by (intro that [of p path' s4])
         (use False \<open>q \<noteq> p\<close> q e z g str live len f path_ok_grows [OF e(8) z(4)] in
           \<open>simp_all add: pathparser_parse_path_part_def s3_def s4_def grows_def path_ok_def\<close>)
  qed
qed

lemma pathparser_rest_correct:
  fixes s :: "'a paths_scheme"
  assumes "heap_inv (kernel_heap s)" "2 * length (components cs) < free_blocks (kernel_heap s)"
    "path_ok s path cs" "q \<noteq> 0" "parts_list s q (c # prev)"
  shows "\<exists>s'. pathparser_rest q path s = Some s' \<and> grows s s' \<and> path_roots s' = path_roots s \<and>
    free_blocks (kernel_heap s) = free_blocks (kernel_heap s') + 2 * length (components cs) \<and>
    parts_list s' q (c # (if components cs = [] then prev else [last (components cs)]))"
  using assms
proof (induction cs arbitrary: s path prev rule: components.induct)
  case (1 cs)
  show ?case
  proof (cases "head_part cs = []")
    case True
    obtain path' s' where "pathparser_parse_path_part q path s = Some (0, path', s')" "grows s s'"
      "free_blocks (kernel_heap s') = free_blocks (kernel_heap s)"
      "path_parts s' = path_parts s" "path_roots s' = path_roots s"
      by (rule pathparser_part_nothing [of s path cs q]) (use True "1.prems" in auto)
    then show ?thesis
      using True "1.prems"(5) parts_list_grows [of s q "c # prev" s']
      by (subst pathparser_rest.simps) (simp add: components.simps [of cs] del: parts_list.simps)
  next
    case False
    obtain p path' s1 where p: "pathparser_parse_path_part q path s = Some (p, path', s1)"
      "p \<noteq> 0" "grows s s1" "free_blocks (kernel_heap s) = Suc (Suc (free_blocks (kernel_heap s1)))"
      "path_ok s1 path' (rest_part cs)" "path_roots s1 = path_roots s"
      "q \<noteq> 0 \<Longrightarrow> parts_list s1 q [c, head_part cs]"
      by (rule pathparser_part_some [of s path cs q c prev])
         (use False "1.prems" in \<open>simp_all add: components.simps [of cs]\<close>)
    have "\<exists>s'. pathparser_rest q path' s1 = Some s' \<and> grows s1 s' \<and> path_roots s' = path_roots s1 \<and>
      free_blocks (kernel_heap s1) = free_blocks (kernel_heap s') + 2 * length (components (rest_part cs)) \<and>
      parts_list s' q (c # (if components (rest_part cs) = [] then [head_part cs]
        else [last (components (rest_part cs))]))"
      using False p "1.prems" by (intro "1.IH") (simp_all add: components.simps [of cs] grows_def)
    then show ?thesis
      using False p(1,2,4,6) grows_trans [OF p(3)]
      by (subst pathparser_rest.simps) (auto simp: components.simps [of cs] simp del: parts_list.simps)
  qed
qed

section \<open>Properties\<close>

lemma pathparser_path_valid_format_iff:
  assumes "cstring m path bs"
  shows "pathparser_path_valid_format m path \<longleftrightarrow> (\<exists>d cs. bs = d # 0x3A # 0x2F # cs \<and> is_digit d)"
proof -
  have two: "mem_bytes m (path + 1) 2 = [m (path + 1), m (path + 2)]"
    by (simp add: mem_bytes_def numeral_2_eq_2 add.assoc)
  have len: "sint (strnlen m path 108) = int (min (length bs) 108) + 1"
  proof -
    have "strnlen m path 108 = of_nat (min (length bs) 108) + 1"
      using strnlen_cstring [OF assms, of 108] by simp
    also have "\<dots> = of_nat (Suc (min (length bs) 108))"
      unfolding of_nat_Suc by (rule add.commute)
    finally show ?thesis
      using sint_of_nat_small [of "Suc (min (length bs) 108)"] by simp
  qed
  show ?thesis
  proof (cases "\<exists>a b c cs. bs = a # b # c # cs")
    case True
    then show ?thesis
      using assms len by (auto simp: pathparser_path_valid_format_def two add.assoc)
  next
    case False
    then have "length bs < 3 \<and> (bs = [] \<or> (\<exists>a. bs = [a]) \<or> (\<exists>a b. bs = [a, b]))"
      by (cases bs; cases "tl bs"; cases "tl (tl bs)") auto
    then show ?thesis
      using assms len by (auto simp: pathparser_path_valid_format_def two is_digit_def add.assoc)
  qed
qed

text \<open>
  C31. A path that is longer than 107 characters or is not of the form digit, colon, slash, rest
  is refused: the null pointer is returned and the state is unchanged.
\<close>

theorem pathparser_parse_refuses:
  assumes "cstring (mem s) path bs" "length bs < 2 ^ 32 - 1"
    "107 < length bs \<or> \<not> (\<exists>d cs. bs = d # 0x3A # 0x2F # cs \<and> is_digit d)"
  shows "pathparser_parse path s = Some (0, s)"
proof -
  have "unat (of_nat (length bs) + 1 :: u32) = Suc (length bs)"
    using unat_add_of_nat [of 1 "length bs"] assms(2) by (simp add: add.commute)
  then have "(of_nat (length bs) + 1 :: u32) > 108 \<longleftrightarrow> 107 < length bs"
    by (auto simp: word_less_nat_alt)
  then show ?thesis
    using assms pathparser_path_valid_format_iff [OF assms(1)] strlen_cstring [OF assms(1)]
    by (auto simp: pathparser_parse_def pathparser_extract_drive_by_path_def)
qed

lemma pathparser_parse_result:
  fixes s :: "'a paths_scheme"
  assumes "cstring (mem s) path (d # 0x3A # 0x2F # cs)" "is_digit d" "length cs \<le> 104"
    "\<And>i. i \<le> length cs + 3 \<Longrightarrow> \<not> free_page (kernel_heap s) (page_of (path + of_nat i))"
    "heap_inv (kernel_heap s)" "2 * length (components cs) + 2 \<le> free_blocks (kernel_heap s)"
  shows "\<exists>root r s'. pathparser_parse path s = Some (root, s') \<and> root \<noteq> 0 \<and>
    grows s s' \<and>
    free_blocks (kernel_heap s) = free_blocks (kernel_heap s') + 1 + 2 * length (components cs) \<and>
    path_roots s' root = Some r \<and> drive_number r = sint d - 48 \<and>
    parts_list s' (first r) (case components cs of [] \<Rightarrow> [] | [c] \<Rightarrow> [c] | c # rest \<Rightarrow> [c, last rest])"
proof -
  let ?bs = "d # 0x3A # 0x2F # cs"
  have ok: "path_ok s path ?bs"
    using assms(1,3,4) by (auto simp: path_ok_def)
  have len: "\<not> (of_nat (length ?bs) + 1 :: u32) > 108"
  proof -
    have "unat (of_nat (length ?bs) + 1 :: u32) = Suc (length ?bs)"
      using unat_add_of_nat [of 1 "length ?bs"] assms(3) by (simp add: add.commute)
    then show ?thesis using assms(3) unfolding word_less_nat_alt by simp
  qed
  have drive: "pathparser_extract_drive_by_path (mem s) path = (sint d - 48, path + 3)"
    using pathparser_path_valid_format_iff [OF assms(1)] assms(1,2)
    by (simp add: pathparser_extract_drive_by_path_def to_numeric_digit_def)
  have "0 \<le> sint d - 48" using assms(2) by (simp add: is_digit_def)
  obtain root s1 where root: "kernel_zalloc 8 s = Some (root, s1)" "root \<noteq> 0" "grows s s1"
      "free_blocks (kernel_heap s) = Suc (free_blocks (kernel_heap s1))"
    by (rule kernel_zalloc_grows [of s 8]) (use assms(5,6) in auto)
  define s2 where "s2 = s1\<lparr>path_roots := (path_roots s1)(root \<mapsto> \<lparr>drive_number = sint d - 48, first = 0\<rparr>)\<rparr>"
  have g2: "grows s s2" using root(3) by (simp add: s2_def grows_def)
  have ok2: "path_ok s2 (path + 3) cs"
    using path_ok_drop [of s2 path "[d, 0x3A, 0x2F]" cs] path_ok_grows [OF ok g2] by simp
  have inv2: "heap_inv (kernel_heap s2)" and fb2: "2 * length (components cs) < free_blocks (kernel_heap s2)"
    using g2 root(4) assms(6) by (auto simp: grows_def s2_def)
  have pre: "pathparser_parse path s = do {
       (first_part, tmp_path, s) \<leftarrow> pathparser_parse_path_part 0 (path + 3) s2;
       if first_part = 0 then Some (root, s)
       else do {
         r \<leftarrow> path_roots s root;
         let s = s\<lparr>path_roots := (path_roots s)(root \<mapsto> r\<lparr>first := first_part\<rparr>)\<rparr>;
         s \<leftarrow> pathparser_rest first_part tmp_path s;
         Some (root, s)
       }
     }"
    using len drive \<open>0 \<le> sint d - 48\<close> root(1,2) strlen_cstring [OF assms(1)]
    by (simp add: pathparser_parse_def pathparser_create_root_def s2_def)
  show ?thesis
  proof (cases "head_part cs = []")
    case True
    obtain path' s' where "pathparser_parse_path_part 0 (path + 3) s2 = Some (0, path', s')"
        "path_roots s' = path_roots s2" "grows s2 s'" "free_blocks (kernel_heap s') = free_blocks (kernel_heap s2)"
      by (rule pathparser_part_nothing [of s2 "path + 3" cs 0]) (use True inv2 fb2 ok2 in auto)
    then show ?thesis
      using pre root(2,4) True grows_trans [OF g2, of s'] by (simp add: components.simps [of cs] s2_def)
  next
    case False
    obtain p path' s3 where p: "pathparser_parse_path_part 0 (path + 3) s2 = Some (p, path', s3)"
        "p \<noteq> 0" "grows s2 s3" "free_blocks (kernel_heap s2) = Suc (Suc (free_blocks (kernel_heap s3)))"
        "path_ok s3 path' (rest_part cs)" "path_roots s3 = path_roots s2" "parts_list s3 p [head_part cs]"
      by (rule pathparser_part_some [of s2 "path + 3" cs 0 "[]" "[]"])
         (use False inv2 fb2 ok2 in \<open>simp_all add: components.simps [of cs]\<close>)
    define s4 where "s4 = s3\<lparr>path_roots := (path_roots s3)(root \<mapsto> \<lparr>drive_number = sint d - 48, first = p\<rparr>)\<rparr>"
    have "\<exists>s'. pathparser_rest p path' s4 = Some s' \<and> grows s4 s' \<and> path_roots s' = path_roots s4 \<and>
      free_blocks (kernel_heap s4) = free_blocks (kernel_heap s') + 2 * length (components (rest_part cs)) \<and>
      parts_list s' p (head_part cs # (if components (rest_part cs) = [] then []
        else [last (components (rest_part cs))]))"
      by (rule pathparser_rest_correct)
         (use False p fb2 in \<open>auto simp: components.simps [of cs] s4_def grows_def path_ok_def split: option.splits\<close>)
    moreover have "grows s s4" using grows_trans [OF g2 p(3)] by (simp add: s4_def grows_def)
    ultimately show ?thesis
      using pre p root(2,4) False grows_trans [of s s4]
      by (auto simp: s4_def s2_def components.simps [of cs] simp del: parts_list.simps split: list.splits)
  qed
qed

text \<open>
  C30. A valid path of at most 107 characters is parsed: the result is a root with the number of
  the drive and a list of parts that is empty for no component, has the component for one, and
  otherwise has exactly two elements, the first and the last component of the path.
\<close>

theorem pathparser_parse_parts:
  fixes s :: "'a paths_scheme"
  assumes "cstring (mem s) path (d # 0x3A # 0x2F # cs)" "is_digit d" "length cs \<le> 104"
    "\<And>i. i \<le> length cs + 3 \<Longrightarrow> \<not> free_page (kernel_heap s) (page_of (path + of_nat i))"
    "heap_inv (kernel_heap s)" "2 * length (components cs) + 2 \<le> free_blocks (kernel_heap s)"
  shows "\<exists>root r s'. pathparser_parse path s = Some (root, s') \<and> root \<noteq> 0 \<and>
    path_roots s' root = Some r \<and> drive_number r = sint d - 48 \<and>
    parts_list s' (first r) (case components cs of [] \<Rightarrow> [] | [c] \<Rightarrow> [c] | c # rest \<Rightarrow> [c, last rest])"
  using pathparser_parse_result [OF assms] by blast

text \<open>The path \<^verbatim>\<open>0:/a/b/c\<close> at \<open>0x5000\<close>, and the string \<^verbatim>\<open>abc\<close> at \<open>0x6000\<close>.\<close>

definition demo_paths :: paths where
  "demo_paths = \<lparr>mem = write_bytes 0x5000 [48, 58, 47, 97, 47, 98, 47, 99, 0]
       (write_bytes 0x6000 [97, 98, 99, 0] (\<lambda>_. 7)),
     device = (\<lambda>_ _. 0), io_log = [], video_memory = 0xB8000, terminal_row = 0, terminal_col = 0,
     kernel_heap = \<lparr>table = \<lparr>entries = replicate 25600 0\<rparr>, start_address = 0x01000000\<rparr>,
     current_directory = 0, cr3 = 0, paging_enabled = False,
     disk = \<lparr>disk_type = 0, sector_size = 512, disk_id = 0, filesystem = NullFilesystem, fs_private = 0\<rparr>,
     streams = Map.empty, path_roots = Map.empty, path_parts = Map.empty\<rparr>"

lemma demo_paths_heap:
  "heap_inv (kernel_heap demo_paths)" "free_blocks (kernel_heap demo_paths) = 25600"
  "unat a < 0x1000000 \<Longrightarrow> \<not> free_page (kernel_heap demo_paths) (page_of a)"
proof -
  show "heap_inv (kernel_heap demo_paths)"
    by (rule heap_inv_fresh [of _ 25600]) (simp_all add: demo_paths_def page_aligned_def)
  show "free_blocks (kernel_heap demo_paths) = 25600"
    by (simp add: demo_paths_def free_blocks_def)
  assume "unat a < 0x1000000"
  then have "unat a div 4096 < 4096" by (intro less_mult_imp_div_less) simp
  then show "\<not> free_page (kernel_heap demo_paths) (page_of a)"
    by (simp add: free_page_def heap_pages_def demo_paths_def page_of_def)
qed

theorem pathparser_parse_refuses_witness: "pathparser_parse 0x6000 demo_paths = Some (0, demo_paths)"
proof -
  have "cstring (mem demo_paths) 0x6000 [97, 98, 99]"
    by (simp add: demo_paths_def write_bytes_def)
  from pathparser_parse_refuses [OF this] show ?thesis by simp
qed

theorem pathparser_parse_parts_witness:
  "\<exists>root r s'. pathparser_parse 0x5000 demo_paths = Some (root, s') \<and>
     path_roots s' root = Some r \<and> drive_number r = 0 \<and> parts_list s' (first r) [[97], [99]]"
proof -
  have str: "cstring (mem demo_paths) 0x5000 (48 # 0x3A # 0x2F # [97, 47, 98, 47, 99])"
    by (simp add: demo_paths_def write_bytes_def)
  have comps: "components [97, 47, 98, 47, 99] = [[97], [98], [99]]"
    by (simp add: components.simps head_part_def rest_part_def)
  have far: "\<not> free_page (kernel_heap demo_paths) (page_of (0x5000 + of_nat i))"
    if "i \<le> length [97, 47, 98, 47, 99 :: byte] + 3" for i
    using that unat_add_of_nat [of "0x5000" i] by (intro demo_paths_heap) simp
  have "is_digit 48" by (simp add: is_digit_def)
  from pathparser_parse_parts [OF str this _ far demo_paths_heap(1)] show ?thesis
    unfolding comps using demo_paths_heap(2) by auto
qed

end
