(* ===== verification/Fat16.thy ===== *)
theory Fat16
  imports PathParser
begin

text \<open>
  The FAT16 file system, \<^verbatim>\<open>src/src/fileSystem/fat/fat16.c\<close>. What is read from the disk (the
  header of the volume, directory entries) is kept as bytes in memory and accessed through
  field selectors; the structures the driver allocates for itself are objects of typed stores,
  keyed by their addresses. The root directory is embedded in \<open>struct fat_private\<close> and has
  the address \<open>fat_private + 64\<close>.
\<close>

section \<open>Definitions\<close>

definition OS_FAT16_SIGNATURE :: byte where [simp]: "OS_FAT16_SIGNATURE = 0x29"
definition OS_FAT16_FAT_ENTRY_SIZE :: int where [simp]: "OS_FAT16_FAT_ENTRY_SIZE = 2"
definition OS_FAT16_BAD_SECTOR :: int where [simp]: "OS_FAT16_BAD_SECTOR = 0xF77"
definition FAT_ITEM_TYPE_DIRECTORY :: u32 where [simp]: "FAT_ITEM_TYPE_DIRECTORY = 0"
definition FAT_ITEM_TYPE_FILE :: u32 where [simp]: "FAT_ITEM_TYPE_FILE = 1"
definition FAT_FILE_READ_ONLY :: byte where [simp]: "FAT_FILE_READ_ONLY = 0x01"
definition FAT_FILE_SUBDIRECTORY :: byte where [simp]: "FAT_FILE_SUBDIRECTORY = 0x10"
definition OS_MAX_PATH :: u32 where [simp]: "OS_MAX_PATH = 108"

datatype FILE_SEEK_MODE = SEEK_SET | SEEK_CUR | SEEK_END | SEEK_OTHER
datatype FILE_MODE = FILE_MODE_READ | FILE_MODE_WRITE | FILE_MODE_APPEND | FILE_MODE_INVALID

definition FILE_STAT_READ_ONLY :: u32 where [simp]: "FILE_STAT_READ_ONLY = 1"

record file_stat =
  stat_flags :: u32
  stat_filesize :: u32

text \<open>The fields of \<open>struct fat_h\<close> that the driver reads.\<close>

definition sectors_per_cluster :: "memory \<Rightarrow> addr \<Rightarrow> byte" where "sectors_per_cluster m h = m (h + 13)"
definition reserved_sectors :: "memory \<Rightarrow> addr \<Rightarrow> u16" where "reserved_sectors m h = load16 m (h + 14)"
definition fat_copies :: "memory \<Rightarrow> addr \<Rightarrow> byte" where "fat_copies m h = m (h + 16)"
definition root_dir_entries :: "memory \<Rightarrow> addr \<Rightarrow> u16" where "root_dir_entries m h = load16 m (h + 17)"
definition sectors_per_fat :: "memory \<Rightarrow> addr \<Rightarrow> u16" where "sectors_per_fat m h = load16 m (h + 22)"
definition fat_signature :: "memory \<Rightarrow> addr \<Rightarrow> byte" where "fat_signature m h = m (h + 38)"

text \<open>The fields of \<open>struct fat_directory_item\<close> that the driver reads.\<close>

definition item_ext :: "addr \<Rightarrow> addr" where "item_ext i = i + 8"
definition attributes :: "memory \<Rightarrow> addr \<Rightarrow> byte" where "attributes m i = m (i + 11)"
definition high_16_bits_first_cluster :: "memory \<Rightarrow> addr \<Rightarrow> u16" where
  "high_16_bits_first_cluster m i = load16 m (i + 20)"
definition low_16_bits_first_cluster :: "memory \<Rightarrow> addr \<Rightarrow> u16" where
  "low_16_bits_first_cluster m i = load16 m (i + 26)"
definition filesize :: "memory \<Rightarrow> addr \<Rightarrow> u32" where "filesize m i = load32 m (i + 28)"

record fat_directory =
  dir_item :: addr
  total_items :: int
  sector_pos :: int
  ending_sector_pos :: int

text \<open>The union of the two pointers is one word.\<close>

record fat_item =
  item_ptr :: addr
  item_type :: u32

record fat_file_descriptor =
  descriptor_item :: addr
  pos :: u32

record fat_private =
  cluster_read_stream :: addr
  fat_read_stream :: addr
  directory_stream :: addr

text \<open>Variables with automatic storage whose address is passed on.\<close>

datatype kernel_local = Local_item | Local_result | Local_tmp_filename | Local_print_buffer
  | Local_filename | Local_path | Local_argument

record fatfs = paths +
  fat_privates :: "addr \<rightharpoonup> fat_private"
  fat_directories :: "addr \<rightharpoonup> fat_directory"
  fat_items :: "addr \<rightharpoonup> fat_item"
  fat_descriptors :: "addr \<rightharpoonup> fat_file_descriptor"
  fat16_name :: "byte list"
  local_addr :: "kernel_local \<Rightarrow> addr"

definition root_directory :: "addr \<Rightarrow> addr" where "root_directory private = private + 64"

definition disk_of :: "disk_ptr \<Rightarrow> 'a disks_scheme \<Rightarrow> disk option" where
  "disk_of d s = (case d of NullDisk \<Rightarrow> None | TheDisk \<Rightarrow> Some (disk s))"

subsection \<open>Mounting\<close>

definition fat16_init :: "'a fatfs_scheme \<Rightarrow> filesystem_ptr \<times> 'a fatfs_scheme" where
  "fat16_init s =
     (Fat16Filesystem, s\<lparr>fat16_name := [0x46, 0x41, 0x54, 0x31, 0x36, 0] @ drop 6 (fat16_name s)\<rparr>)"

definition fat16_init_private :: "disk_ptr \<Rightarrow> addr \<Rightarrow> 'a fatfs_scheme \<Rightarrow> 'a fatfs_scheme option" where
  "fat16_init_private d private s = do {
     dk \<leftarrow> disk_of d s;
     if private = 0 then None
     else do {
       let s = s\<lparr>mem := memset private 0 92 (mem s),
                 fat_directories := (fat_directories s)(root_directory private \<mapsto>
                   \<lparr>dir_item = 0, total_items = 0, sector_pos = 0, ending_sector_pos = 0\<rparr>)\<rparr>;
       (cluster, s) \<leftarrow> disk_stream_new (disk_id dk) s;
       (fat, s) \<leftarrow> disk_stream_new (disk_id dk) s;
       (dir, s) \<leftarrow> disk_stream_new (disk_id dk) s;
       Some (s\<lparr>fat_privates := (fat_privates s)(private \<mapsto>
         \<lparr>cluster_read_stream = cluster, fat_read_stream = fat, directory_stream = dir\<rparr>)\<rparr>)
     }
   }"

definition fat16_sectore_to_absolute :: "disk \<Rightarrow> int \<Rightarrow> int" where
  "fat16_sectore_to_absolute dk sector = sector * sector_size dk"

text \<open>The loop over the entries of a directory; it ends at the first entry that starts with 0.\<close>

partial_function (option) fat16_count_items ::
    "addr \<Rightarrow> int \<Rightarrow> 'a fatfs_scheme \<Rightarrow> (int \<times> 'a fatfs_scheme) option" where
  "fat16_count_items stream i s = do {
     (res, s) \<leftarrow> disk_stream_read stream (local_addr s Local_item) 32 s;
     if res \<noteq> ALL_OK then Some (- IO_ERROR, s)
     else if mem s (local_addr s Local_item) = 0 then Some (i, s)
     else if mem s (local_addr s Local_item) = 0xE5 then fat16_count_items stream i s
     else fat16_count_items stream (i + 1) s
   }"

definition fat16_get_total_items_for_directory ::
    "disk_ptr \<Rightarrow> u32 \<Rightarrow> 'a fatfs_scheme \<Rightarrow> (int \<times> 'a fatfs_scheme) option" where
  "fat16_get_total_items_for_directory d directory_start_sector s = do {
     dk \<leftarrow> disk_of d s;
     fp \<leftarrow> fat_privates s (fs_private dk);
     let directory_start_pos = sint (directory_start_sector * word_of_int (sector_size dk));
     let stream = directory_stream fp;
     (res, s) \<leftarrow> disk_stream_seek stream directory_start_pos s;
     if res \<noteq> ALL_OK then Some (- IO_ERROR, s)
     else fat16_count_items stream 0 s
   }"

text \<open>The local \<open>total_sectors\<close> of the source is computed and never used.\<close>

definition fat16_get_root_directory ::
    "disk_ptr \<Rightarrow> addr \<Rightarrow> addr \<Rightarrow> 'a fatfs_scheme \<Rightarrow> (int \<times> 'a fatfs_scheme) option" where
  "fat16_get_root_directory d private directory s = do {
     dk \<leftarrow> disk_of d s;
     let root_dir_sector_pos = uint (fat_copies (mem s) private) * uint (sectors_per_fat (mem s) private)
           + uint (reserved_sectors (mem s) private);
     let entries = uint (root_dir_entries (mem s) private);
     let root_dir_size = entries * 32;
     if sector_size dk = 0 then None
     else do {
       (amount, s) \<leftarrow> fat16_get_total_items_for_directory d (word_of_int root_dir_sector_pos) s;
       (dir, s) \<leftarrow> kernel_zalloc (word_of_int root_dir_size) s;
       if dir = 0 then Some (- NO_MEMORY_ERROR, s)
       else do {
         fp \<leftarrow> fat_privates s private;
         let stream = directory_stream fp;
         (res, s) \<leftarrow> disk_stream_seek stream (fat16_sectore_to_absolute dk root_dir_sector_pos) s;
         if res \<noteq> ALL_OK then Some (- IO_ERROR, s)
         else do {
           (res, s) \<leftarrow> disk_stream_read stream dir root_dir_size s;
           if res \<noteq> ALL_OK then Some (- IO_ERROR, s)
           else Some (0, s\<lparr>fat_directories := (fat_directories s)(directory \<mapsto>
                  \<lparr>dir_item = dir, total_items = amount, sector_pos = root_dir_sector_pos,
                   ending_sector_pos = root_dir_sector_pos + root_dir_size sdiv sector_size dk\<rparr>)\<rparr>)
         }
       }
     }
   }"

definition fat16_resolve_read :: "disk_ptr \<Rightarrow> addr \<Rightarrow> addr \<Rightarrow> 'a fatfs_scheme \<Rightarrow> (int \<times> 'a fatfs_scheme) option" where
  "fat16_resolve_read d private stream s =
     (if stream = 0 then Some (- NO_MEMORY_ERROR, s)
      else do {
        (res, s) \<leftarrow> disk_stream_read stream private 62 s;
        if res \<noteq> ALL_OK then Some (- IO_ERROR, s)
        else if fat_signature (mem s) private \<noteq> OS_FAT16_SIGNATURE
        then Some (- FILE_SYSTEM_NOT_US_ERROR, s)
        else do {
          (res, s) \<leftarrow> fat16_get_root_directory d private (root_directory private) s;
          Some (if res \<noteq> ALL_OK then - IO_ERROR else 0, s)
        }
      })"

text \<open>The part of \<open>fat16_resolve\<close> after the label \<open>out\<close>.\<close>

definition fat16_resolve_out :: "addr \<Rightarrow> addr \<Rightarrow> int \<Rightarrow> 'a fatfs_scheme \<Rightarrow> int \<times> 'a fatfs_scheme" where
  "fat16_resolve_out private stream res s =
     (let s = (if stream \<noteq> 0 then disk_stream_close stream s else s)
      in if res < 0
         then (res, (kernel_free private s)\<lparr>disk := (disk s)\<lparr>fs_private := 0\<rparr>,
                fat_privates := (fat_privates s)(private := None),
                fat_directories := (fat_directories s)(root_directory private := None)\<rparr>)
         else (res, s))"

definition fat16_resolve :: "disk_ptr \<Rightarrow> 'a fatfs_scheme \<Rightarrow> (int \<times> 'a fatfs_scheme) option" where
  "fat16_resolve d s = do {
     (private, s) \<leftarrow> kernel_zalloc 92 s;
     s \<leftarrow> fat16_init_private d private s;
     let s = s\<lparr>disk := (disk s)\<lparr>fs_private := private, filesystem := Fat16Filesystem\<rparr>\<rparr>;
     (stream, s) \<leftarrow> disk_stream_new (disk_id (disk s)) s;
     (res, s) \<leftarrow> fat16_resolve_read d private stream s;
     Some (fat16_resolve_out private stream res s)
   }"

subsection \<open>Directory entries\<close>

partial_function (option) fat16_to_proper_string :: "addr \<Rightarrow> addr \<Rightarrow> memory \<Rightarrow> (addr \<times> memory) option" where
  "fat16_to_proper_string out inp m =
     (if m inp \<noteq> 0x00 \<and> m inp \<noteq> 0x20 then fat16_to_proper_string (out + 1) (inp + 1) (m(out := m inp))
      else Some (out, if m inp = 0x20 then m(out := 0x00) else m))"

definition fat16_get_full_relative_filename :: "addr \<Rightarrow> addr \<Rightarrow> u32 \<Rightarrow> memory \<Rightarrow> memory option" where
  "fat16_get_full_relative_filename item out max_len m = do {
     let m = memset out 0x00 max_len m;
     (out_tmp, m) \<leftarrow> fat16_to_proper_string out item m;
     if m (item_ext item) \<noteq> 0x00 \<and> m (item_ext item) \<noteq> 0x20
     then do {
       let m = m(out_tmp := 0x2E);
       (_, m) \<leftarrow> fat16_to_proper_string (out_tmp + 1) (item_ext item) m;
       Some m
     }
     else Some m
   }"

definition fat16_clone_directory_item ::
    "addr \<Rightarrow> u32 \<Rightarrow> 'a fatfs_scheme \<Rightarrow> (addr \<times> 'a fatfs_scheme) option" where
  "fat16_clone_directory_item item sz s =
     (if sz < 32 then Some (0, s)
      else do {
        (item_copy, s) \<leftarrow> kernel_zalloc sz s;
        if item_copy = 0 then Some (0, s)
        else Some (item_copy, s\<lparr>mem := memcpy item_copy item sz (mem s)\<rparr>)
      })"

definition fat16_get_first_cluster :: "memory \<Rightarrow> addr \<Rightarrow> u32" where
  "fat16_get_first_cluster m item =
     ucast (high_16_bits_first_cluster m item) OR ucast (low_16_bits_first_cluster m item)"

subsection \<open>Clusters\<close>

definition fat16_cluster_to_sector :: "addr \<Rightarrow> int \<Rightarrow> 'a fatfs_scheme \<Rightarrow> int option" where
  "fat16_cluster_to_sector private cluster s = do {
     root \<leftarrow> fat_directories s (root_directory private);
     Some (ending_sector_pos root + (cluster - 2) * uint (sectors_per_cluster (mem s) private))
   }"

definition fat16_get_first_fat_sector :: "memory \<Rightarrow> addr \<Rightarrow> u32" where
  "fat16_get_first_fat_sector m private = ucast (reserved_sectors m private)"

text \<open>The position is a product of the position of the table and of the offset in it.\<close>

definition fat16_get_fat_entry :: "disk_ptr \<Rightarrow> int \<Rightarrow> 'a fatfs_scheme \<Rightarrow> (int \<times> 'a fatfs_scheme) option" where
  "fat16_get_fat_entry d cluster s = do {
     dk \<leftarrow> disk_of d s;
     fp \<leftarrow> fat_privates s (fs_private dk);
     let stream = fat_read_stream fp;
     if stream = 0 then Some (- 1, s)
     else do {
       let fat_table_position = fat16_get_first_fat_sector (mem s) (fs_private dk) * word_of_int (sector_size dk);
       (res, s) \<leftarrow> disk_stream_seek stream
         (sint (fat_table_position * word_of_int (cluster * OS_FAT16_FAT_ENTRY_SIZE))) s;
       if res < 0 then Some (res, s)
       else do {
         (res, s) \<leftarrow> disk_stream_read stream (local_addr s Local_result) 2
            (s\<lparr>mem := store16 (mem s) (local_addr s Local_result) 0\<rparr>);
         Some (if res < 0 then res else uint (load16 (mem s) (local_addr s Local_result)), s)
       }
     }
   }"

fun fat16_walk_clusters :: "disk_ptr \<Rightarrow> nat \<Rightarrow> int \<Rightarrow> 'a fatfs_scheme \<Rightarrow> (int \<times> 'a fatfs_scheme) option" where
  "fat16_walk_clusters d 0 cluster_to_use s = Some (cluster_to_use, s)"
| "fat16_walk_clusters d (Suc n) cluster_to_use s = do {
     (entry, s) \<leftarrow> fat16_get_fat_entry d cluster_to_use s;
     if entry = 0xFF8 \<or> entry = 0xFFF then Some (- IO_ERROR, s)
     else if entry = OS_FAT16_BAD_SECTOR then Some (- IO_ERROR, s)
     else if entry = 0xFF0 \<or> entry = 0xFF6 then Some (- IO_ERROR, s)
     else if entry = 0 then Some (- IO_ERROR, s)
     else fat16_walk_clusters d n entry s
   }"

definition cluster_bytes :: "disk \<Rightarrow> memory \<Rightarrow> int" where
  "cluster_bytes dk m = uint (sectors_per_cluster m (fs_private dk)) * sector_size dk"

definition fat16_get_cluster_for_offset ::
    "disk_ptr \<Rightarrow> int \<Rightarrow> int \<Rightarrow> 'a fatfs_scheme \<Rightarrow> (int \<times> 'a fatfs_scheme) option" where
  "fat16_get_cluster_for_offset d starting_cluster offset s = do {
     dk \<leftarrow> disk_of d s;
     let size_of_cluster_bytes = cluster_bytes dk (mem s);
     if size_of_cluster_bytes = 0 then None
     else fat16_walk_clusters d (nat (offset sdiv size_of_cluster_bytes)) starting_cluster s
   }"

partial_function (option) fat16_read_internal_from_stream ::
    "disk_ptr \<Rightarrow> addr \<Rightarrow> int \<Rightarrow> int \<Rightarrow> int \<Rightarrow> addr \<Rightarrow> 'a fatfs_scheme \<Rightarrow> (int \<times> 'a fatfs_scheme) option" where
  "fat16_read_internal_from_stream d stream cluster offset amount out s = do {
     dk \<leftarrow> disk_of d s;
     let size_of_cluster_bytes = cluster_bytes dk (mem s);
     (cluster_to_use, s) \<leftarrow> fat16_get_cluster_for_offset d cluster offset s;
     if cluster_to_use < 0 then Some (cluster_to_use, s)
     else do {
       let offset_from_cluster = offset smod size_of_cluster_bytes;
       starting_sector \<leftarrow> fat16_cluster_to_sector (fs_private dk) cluster_to_use s;
       let starting_pos = starting_sector * sector_size dk + offset_from_cluster;
       let total_to_read = (if amount > size_of_cluster_bytes then size_of_cluster_bytes else amount);
       (res, s) \<leftarrow> disk_stream_seek stream starting_pos s;
       if res \<noteq> ALL_OK then Some (res, s)
       else do {
         (res, s) \<leftarrow> disk_stream_read stream out total_to_read s;
         if res \<noteq> ALL_OK then Some (res, s)
         else if amount - total_to_read > 0
         then fat16_read_internal_from_stream d stream cluster (offset + total_to_read)
                (amount - total_to_read) (out + word_of_int total_to_read) s
         else Some (res, s)
       }
     }
   }"

definition fat16_read_internal ::
    "disk_ptr \<Rightarrow> int \<Rightarrow> int \<Rightarrow> int \<Rightarrow> addr \<Rightarrow> 'a fatfs_scheme \<Rightarrow> (int \<times> 'a fatfs_scheme) option" where
  "fat16_read_internal d starting_cluster offset amount out s = do {
     dk \<leftarrow> disk_of d s;
     fp \<leftarrow> fat_privates s (fs_private dk);
     fat16_read_internal_from_stream d (cluster_read_stream fp) starting_cluster offset amount out s
   }"

subsection \<open>Items and directories\<close>

definition fat16_free_directory :: "addr \<Rightarrow> 'a fatfs_scheme \<Rightarrow> 'a fatfs_scheme option" where
  "fat16_free_directory directory s =
     (if directory = 0 then Some s
      else do {
        dir \<leftarrow> fat_directories s directory;
        let s = (if dir_item dir \<noteq> 0 then kernel_free (dir_item dir) s else s);
        Some ((kernel_free directory s)\<lparr>fat_directories := (fat_directories s)(directory := None)\<rparr>)
      })"

definition fat16_fat_item_free :: "addr \<Rightarrow> 'a fatfs_scheme \<Rightarrow> 'a fatfs_scheme option" where
  "fat16_fat_item_free item s = do {
     it \<leftarrow> fat_items s item;
     s \<leftarrow> (if item_type it = FAT_ITEM_TYPE_DIRECTORY then fat16_free_directory (item_ptr it) s
           else if item_type it = FAT_ITEM_TYPE_FILE then Some (kernel_free (item_ptr it) s)
           else Some s);
     Some ((kernel_free item s)\<lparr>fat_items := (fat_items s)(item := None)\<rparr>)
   }"

text \<open>On an error the directory is freed and its address is returned all the same.\<close>

definition fat16_load_fat_directory :: "disk_ptr \<Rightarrow> addr \<Rightarrow> 'a fatfs_scheme \<Rightarrow> (addr \<times> 'a fatfs_scheme) option" where
  "fat16_load_fat_directory d item s = do {
     dk \<leftarrow> disk_of d s;
     let private = fs_private dk;
     if attributes (mem s) item AND FAT_FILE_SUBDIRECTORY = 0 then Some (0, s)
     else do {
       (directory, s) \<leftarrow> kernel_zalloc 16 s;
       if directory = 0 then Some (0, s)
       else do {
         let cluster = sint (fat16_get_first_cluster (mem s) item);
         cluster_sector \<leftarrow> fat16_cluster_to_sector private cluster s;
         (amount, s) \<leftarrow> fat16_get_total_items_for_directory d (word_of_int cluster_sector) s;
         let directory_size = (word_of_int amount * 32 :: u32);
         (buf, s) \<leftarrow> kernel_zalloc directory_size s;
         let s = s\<lparr>fat_directories := (fat_directories s)(directory \<mapsto>
               \<lparr>dir_item = buf, total_items = amount, sector_pos = 0, ending_sector_pos = 0\<rparr>)\<rparr>;
         if buf = 0 then do { s \<leftarrow> fat16_free_directory directory s; Some (directory, s) }
         else do {
           (res, s) \<leftarrow> fat16_read_internal d cluster 0 (sint directory_size) buf s;
           if res \<noteq> ALL_OK then do { s \<leftarrow> fat16_free_directory directory s; Some (directory, s) }
           else Some (directory, s)
         }
       }
     }
   }"

definition fat16_new_fat_item_for_directory_item ::
    "disk_ptr \<Rightarrow> addr \<Rightarrow> 'a fatfs_scheme \<Rightarrow> (addr \<times> 'a fatfs_scheme) option" where
  "fat16_new_fat_item_for_directory_item d item s = do {
     (f_item, s) \<leftarrow> kernel_zalloc 8 s;
     if f_item = 0 then Some (0, s)
     else do {
       s \<leftarrow> (if attributes (mem s) item AND FAT_FILE_SUBDIRECTORY \<noteq> 0
             then do {
               (dir, s) \<leftarrow> fat16_load_fat_directory d item s;
               Some (s\<lparr>fat_items := (fat_items s)(f_item \<mapsto>
                 \<lparr>item_ptr = dir, item_type = FAT_ITEM_TYPE_DIRECTORY\<rparr>)\<rparr>)
             } else Some s);
       (copy, s) \<leftarrow> fat16_clone_directory_item item 32 s;
       Some (f_item, s\<lparr>fat_items := (fat_items s)(f_item \<mapsto>
         \<lparr>item_ptr = copy, item_type = FAT_ITEM_TYPE_FILE\<rparr>)\<rparr>)
     }
   }"

fun fat16_find_loop ::
    "disk_ptr \<Rightarrow> addr \<Rightarrow> addr \<Rightarrow> nat list \<Rightarrow> addr \<Rightarrow> 'a fatfs_scheme \<Rightarrow> (addr \<times> 'a fatfs_scheme) option" where
  "fat16_find_loop d items name [] f_item s = Some (f_item, s)"
| "fat16_find_loop d items name (i # is) f_item s = do {
     let item = items + of_nat (32 * i);
     m \<leftarrow> fat16_get_full_relative_filename item (local_addr s Local_tmp_filename) OS_MAX_PATH (mem s);
     let s = s\<lparr>mem := m\<rparr>;
     if istrncmp (mem s) (local_addr s Local_tmp_filename) name OS_MAX_PATH = 0
     then do {
       (f_item, s) \<leftarrow> fat16_new_fat_item_for_directory_item d item s;
       fat16_find_loop d items name is f_item s
     }
     else fat16_find_loop d items name is f_item s
   }"

definition fat16_find_item_in_directory ::
    "disk_ptr \<Rightarrow> addr \<Rightarrow> addr \<Rightarrow> 'a fatfs_scheme \<Rightarrow> (addr \<times> 'a fatfs_scheme) option" where
  "fat16_find_item_in_directory d directory name s = do {
     dir \<leftarrow> fat_directories s directory;
     fat16_find_loop d (dir_item dir) name [0..<nat (total_items dir)] 0 s
   }"

partial_function (option) fat16_descend ::
    "disk_ptr \<Rightarrow> addr \<Rightarrow> addr \<Rightarrow> 'a fatfs_scheme \<Rightarrow> (addr \<times> 'a fatfs_scheme) option" where
  "fat16_descend d current_item next s =
     (if next = 0 then Some (current_item, s)
      else do {
        it \<leftarrow> fat_items s current_item;
        if item_type it \<noteq> FAT_ITEM_TYPE_DIRECTORY then Some (0, s)
        else do {
          np \<leftarrow> path_parts s next;
          (tmp_item, s) \<leftarrow> fat16_find_item_in_directory d (item_ptr it) (part np) s;
          s \<leftarrow> fat16_fat_item_free current_item s;
          fat16_descend d tmp_item (next_part np) s
        }
      })"

definition fat16_get_directory_entry :: "disk_ptr \<Rightarrow> addr \<Rightarrow> 'a fatfs_scheme \<Rightarrow> (addr \<times> 'a fatfs_scheme) option" where
  "fat16_get_directory_entry d path s = do {
     dk \<leftarrow> disk_of d s;
     pp \<leftarrow> path_parts s path;
     (root_item, s) \<leftarrow> fat16_find_item_in_directory d (root_directory (fs_private dk)) (part pp) s;
     if root_item = 0 then Some (0, s)
     else fat16_descend d root_item (next_part pp) s
   }"

subsection \<open>The operations of the file system\<close>

text \<open>A pointer result that carries an error code, and the test for one (\<^verbatim>\<open>kernel.h\<close>).\<close>

definition ERROR :: "int \<Rightarrow> addr" where "ERROR value = word_of_int value"
definition ISERR :: "addr \<Rightarrow> bool" where "ISERR value \<longleftrightarrow> sint value < 0"

definition fat16_open :: "disk_ptr \<Rightarrow> addr \<Rightarrow> FILE_MODE \<Rightarrow> 'a fatfs_scheme \<Rightarrow> (addr \<times> 'a fatfs_scheme) option" where
  "fat16_open d path mode s =
     (if mode \<noteq> FILE_MODE_READ then Some (ERROR (- READ_ONLY_ERROR), s)
      else do {
        (descriptor, s) \<leftarrow> kernel_zalloc 8 s;
        if descriptor = 0 then Some (ERROR (- NO_MEMORY_ERROR), s)
        else do {
          (item, s) \<leftarrow> fat16_get_directory_entry d path s;
          let s = s\<lparr>fat_descriptors := (fat_descriptors s)(descriptor \<mapsto>
                \<lparr>descriptor_item = item, pos = 0\<rparr>)\<rparr>;
          if item = 0 then Some (ERROR (- IO_ERROR), s)
          else Some (descriptor, s)
        }
      })"

text \<open>The loop of \<open>fat16_read\<close> with the number of blocks still to read.\<close>

fun fat16_read_loop ::
    "disk_ptr \<Rightarrow> addr \<Rightarrow> nat \<Rightarrow> int \<Rightarrow> u32 \<Rightarrow> addr \<Rightarrow> 'a fatfs_scheme \<Rightarrow> (int \<times> 'a fatfs_scheme) option" where
  "fat16_read_loop d item 0 offset sz out_ptr s = Some (0, s)"
| "fat16_read_loop d item (Suc n) offset sz out_ptr s = do {
     (res, s) \<leftarrow> fat16_read_internal d (sint (fat16_get_first_cluster (mem s) item)) offset (sint sz) out_ptr s;
     if res < 0 then Some (res, s)
     else fat16_read_loop d item n (sint (word_of_int offset + sz)) sz (out_ptr + sz) s
   }"

definition fat16_read ::
    "disk_ptr \<Rightarrow> addr \<Rightarrow> u32 \<Rightarrow> u32 \<Rightarrow> addr \<Rightarrow> 'a fatfs_scheme \<Rightarrow> (int \<times> 'a fatfs_scheme) option" where
  "fat16_read d descriptor sz nmemb out_ptr s = do {
     fd \<leftarrow> fat_descriptors s descriptor;
     it \<leftarrow> fat_items s (descriptor_item fd);
     (res, s) \<leftarrow> fat16_read_loop d (item_ptr it) (unat nmemb) (sint (pos fd)) sz out_ptr s;
     Some (if res < 0 then res else sint nmemb, s)
   }"

definition fat16_seek :: "addr \<Rightarrow> u32 \<Rightarrow> FILE_SEEK_MODE \<Rightarrow> 'a fatfs_scheme \<Rightarrow> (int \<times> 'a fatfs_scheme) option" where
  "fat16_seek private offset seek_mode s = do {
     fd \<leftarrow> fat_descriptors s private;
     it \<leftarrow> fat_items s (descriptor_item fd);
     if item_type it \<noteq> FAT_ITEM_TYPE_FILE then Some (- INVALID_ARGUMENT_ERROR, s)
     else if offset \<ge> filesize (mem s) (item_ptr it) then Some (- IO_ERROR, s)
     else case seek_mode of
       SEEK_SET \<Rightarrow> Some (0, s\<lparr>fat_descriptors := (fat_descriptors s)(private \<mapsto> fd\<lparr>pos := offset\<rparr>)\<rparr>)
     | SEEK_END \<Rightarrow> Some (- UNIMPLEMENTED_ERROR, s)
     | SEEK_CUR \<Rightarrow> Some (0, s\<lparr>fat_descriptors := (fat_descriptors s)(private \<mapsto> fd\<lparr>pos := pos fd + offset\<rparr>)\<rparr>)
     | SEEK_OTHER \<Rightarrow> Some (- INVALID_ARGUMENT_ERROR, s)
   }"

definition fat16_stat :: "addr \<Rightarrow> file_stat \<Rightarrow> 'a fatfs_scheme \<Rightarrow> (int \<times> file_stat) option" where
  "fat16_stat private stat s = do {
     fd \<leftarrow> fat_descriptors s private;
     it \<leftarrow> fat_items s (descriptor_item fd);
     if item_type it \<noteq> FAT_ITEM_TYPE_FILE then Some (- INVALID_ARGUMENT_ERROR, stat)
     else Some (0, \<lparr>stat_flags = (if attributes (mem s) (item_ptr it) AND FAT_FILE_READ_ONLY \<noteq> 0
                                  then FILE_STAT_READ_ONLY else 0),
                    stat_filesize = filesize (mem s) (item_ptr it)\<rparr>)
   }"

definition fat16_free_file_descriptor :: "addr \<Rightarrow> 'a fatfs_scheme \<Rightarrow> 'a fatfs_scheme option" where
  "fat16_free_file_descriptor descriptor s = do {
     fd \<leftarrow> fat_descriptors s descriptor;
     s \<leftarrow> fat16_fat_item_free (descriptor_item fd) s;
     Some ((kernel_free descriptor s)\<lparr>fat_descriptors := (fat_descriptors s)(descriptor := None)\<rparr>)
   }"

definition fat16_close :: "addr \<Rightarrow> 'a fatfs_scheme \<Rightarrow> (int \<times> 'a fatfs_scheme) option" where
  "fat16_close private s = do { s \<leftarrow> fat16_free_file_descriptor private s; Some (0, s) }"

section \<open>File names\<close>

lemma mem_bytes_write_length: "length bs = n \<Longrightarrow> n \<le> 2 ^ 32 \<Longrightarrow> mem_bytes (write_bytes a bs m) a n = bs"
  using mem_bytes_write_bytes by blast

definition name_stop :: "byte \<Rightarrow> bool" where "name_stop b \<longleftrightarrow> b = 0x00 \<or> b = 0x20"

definition apart :: "addr \<Rightarrow> nat \<Rightarrow> addr \<Rightarrow> nat \<Rightarrow> bool" where
  "apart a n b k \<longleftrightarrow> (\<forall>i < n. \<forall>j < k. a + of_nat i \<noteq> b + of_nat j)"

lemma apart_mono: "apart a n b k \<Longrightarrow> n' \<le> n \<Longrightarrow> k' \<le> k \<Longrightarrow> apart a n' b k'"
  by (auto simp: apart_def)

lemma apart_sym: "apart a n b k \<Longrightarrow> apart b k a n"
  unfolding apart_def by metis

lemma write_bytes_apart:
  assumes "apart a (length bs) b k" "j < k"
  shows "write_bytes a bs m (b + of_nat j) = m (b + of_nat j)"
proof (rule write_bytes_outside, rule ccontr)
  assume "\<not> length bs \<le> unat (b + of_nat j - a)"
  then show False
    using assms of_nat_unat_diff [of a "b + of_nat j"] unfolding apart_def by (metis not_le_imp_less)
qed

lemma fat16_to_proper_string_run:
  assumes "\<And>i. i < length pre + length cs \<Longrightarrow> m (inp + of_nat i) = (pre @ cs) ! i"
    "\<forall>c \<in> set cs. \<not> name_stop c" "name_stop (m (inp + of_nat (length pre + length cs)))"
    "apart out (length pre + length cs) inp (Suc (length pre + length cs))" "length pre + length cs < 2 ^ 32"
  shows "fat16_to_proper_string (out + of_nat (length pre)) (inp + of_nat (length pre)) (write_bytes out pre m) =
    Some (out + of_nat (length pre + length cs),
      let m' = write_bytes out (pre @ cs) m
      in if m (inp + of_nat (length pre + length cs)) = 0x20
         then m'(out + of_nat (length pre + length cs) := 0) else m')"
  using assms
proof (induction cs arbitrary: pre)
  case Nil
  have "write_bytes out pre m (inp + of_nat (length pre)) = m (inp + of_nat (length pre))"
    using Nil.prems(4) by (intro write_bytes_apart) auto
  then show ?case
    using Nil.prems(3) by (subst fat16_to_proper_string.simps) (auto simp: name_stop_def)
next
  case (Cons c cs)
  have "write_bytes out pre m (inp + of_nat (length pre)) = m (inp + of_nat (length pre))"
    using Cons.prems(4) by (intro write_bytes_apart [where k = "Suc (length pre)"]) (auto elim: apart_mono)
  also have "\<dots> = c" using Cons.prems(1) [of "length pre"] by simp
  finally have rd: "write_bytes out pre m (inp + of_nat (length pre)) = c" .
  have "(write_bytes out pre m)(out + of_nat (length pre) := c) = write_bytes out (pre @ [c]) m"
    using Cons.prems(5) by (intro write_bytes_snoc) simp
  then show ?case
    using Cons.IH [of "pre @ [c]"] Cons.prems rd
    by (subst fat16_to_proper_string.simps) (simp add: name_stop_def Let_def add.assoc add.commute [of 1])
qed

lemma fat16_to_proper_string_correct:
  assumes "\<And>i. i < length cs \<Longrightarrow> m (inp + of_nat i) = cs ! i" "\<forall>c \<in> set cs. \<not> name_stop c"
    "name_stop (m (inp + of_nat (length cs)))" "apart out (length cs) inp (Suc (length cs))" "length cs < 2 ^ 32"
  shows "fat16_to_proper_string out inp m = Some (out + of_nat (length cs),
    let m' = write_bytes out cs m
    in if m (inp + of_nat (length cs)) = 0x20 then m'(out + of_nat (length cs) := 0) else m')"
  using fat16_to_proper_string_run [of "[]" cs m inp out] assms by (simp add: Let_def)

lemma mem_bytes_prefix:
  assumes "mem_bytes m a k = cs @ x # rest"
  shows "i < length cs \<Longrightarrow> m (a + of_nat i) = cs ! i" "m (a + of_nat (length cs)) = x" "length cs < k"
proof -
  show k: "length cs < k" using arg_cong [OF assms, of length] by simp
  show "m (a + of_nat i) = cs ! i" if "i < length cs"
    using that k arg_cong [OF assms, of "\<lambda>l. l ! i"] by (simp add: nth_append)
  show "m (a + of_nat (length cs)) = x"
    using k arg_cong [OF assms, of "\<lambda>l. l ! length cs"] by (simp add: nth_append)
qed


text \<open>When the output is blank already the terminator makes no difference.\<close>

lemma fat16_to_proper_string_blank:
  assumes "mem_bytes m inp k = cs @ x # rest" "name_stop x" "\<forall>c \<in> set cs. \<not> name_stop c"
    "apart out (length cs) inp k" "length cs < 2 ^ 32" "m (out + of_nat (length cs)) = 0"
  shows "fat16_to_proper_string out inp m = Some (out + of_nat (length cs), write_bytes out cs m)"
proof -
  note p = mem_bytes_prefix [OF assms(1)]
  have "write_bytes out cs m (out + of_nat (length cs)) = 0"
    using assms(5,6) by (subst write_bytes_outside) (auto simp: unat_of_nat take_bit_nat_eq_self)
  moreover have "apart out (length cs) inp (Suc (length cs))"
    using assms(4) p(3) by (rule_tac apart_mono) auto
  ultimately show ?thesis
    using fat16_to_proper_string_correct [of cs m inp out] p(1,2) assms(2,3,5)
    by (auto simp: Let_def fun_upd_idem)
qed

text \<open>
  A directory entry in the 8.3 form: name and extension padded with blanks, followed by an
  attribute byte that ends the extension.
\<close>

definition short_entry :: "memory \<Rightarrow> addr \<Rightarrow> byte list \<Rightarrow> byte list \<Rightarrow> bool" where
  "short_entry m item n e \<longleftrightarrow> length n \<le> 8 \<and> length e \<le> 3 \<and> (\<forall>c \<in> set (n @ e). \<not> name_stop c) \<and>
     (\<exists>a. name_stop a \<and> mem_bytes m item 12 =
        n @ replicate (8 - length n) 0x20 @ e @ replicate (3 - length e) 0x20 @ [a])"

definition entry_name :: "byte list \<Rightarrow> byte list \<Rightarrow> byte list" where
  "entry_name n e = (if length n < 8 then n else n @ e) @ (if e = [] then [] else 0x2E # e)"

lemma short_entry_parts:
  assumes "short_entry m item n e"
  shows "\<exists>x rest. mem_bytes m item 12 = (if length n < 8 then n else n @ e) @ x # rest \<and> name_stop x"
    "\<exists>y rest. mem_bytes m (item_ext item) 4 = e @ y # rest \<and> name_stop y"
proof -
  obtain a where a: "name_stop a" "mem_bytes m item 12 =
      n @ replicate (8 - length n) 0x20 @ e @ replicate (3 - length e) 0x20 @ [a]"
    and l: "length n \<le> 8" "length e \<le> 3"
    using assms by (auto simp: short_entry_def)
  have stop: "name_stop 0x20" by (simp add: name_stop_def)
  have pad: "\<exists>x rest. replicate k 0x20 @ [a] = x # rest \<and> name_stop x" for k
    using a(1) stop by (cases k) auto
  show "\<exists>x rest. mem_bytes m item 12 = (if length n < 8 then n else n @ e) @ x # rest \<and> name_stop x"
  proof (cases "length n < 8")
    case True
    then obtain k where "8 - length n = Suc k" by (cases "8 - length n") auto
    with True a(2) stop show ?thesis by auto
  next
    case False
    with l(1) a(2) pad [of "3 - length e"] show ?thesis by auto
  qed
  have "mem_bytes m item 12 = mem_bytes m item 8 @ mem_bytes m (item_ext item) 4"
    using mem_bytes_add [of m item 8 4] by (simp add: item_ext_def)
  then have "mem_bytes m (item_ext item) 4 = drop 8 (mem_bytes m item 12)" by simp
  also have "\<dots> = e @ replicate (3 - length e) 0x20 @ [a]" using a(2) l by simp
  finally have "mem_bytes m (item_ext item) 4 = e @ replicate (3 - length e) 0x20 @ [a]" .
  with pad [of "3 - length e"] show "\<exists>y rest. mem_bytes m (item_ext item) 4 = e @ y # rest \<and> name_stop y"
    by auto
qed

lemma write_bytes_cstring:
  assumes "0 \<notin> set cs" "\<And>i. i < 108 \<Longrightarrow> m (out + of_nat i) = 0" "length cs < 108"
  shows "cstring (write_bytes out cs m) out cs"
proof (rule cstringI)
  show "write_bytes out cs m (out + of_nat i) = cs ! i" if "i < length cs" for i
    using that assms(3) by (intro write_bytes_inside) auto
  show "write_bytes out cs m (out + of_nat (length cs)) = 0"
    using assms(2) [OF assms(3)] assms(3)
    by (subst write_bytes_outside) (auto simp: unat_of_nat take_bit_nat_eq_self)
qed (rule assms(1))

lemma fat16_full_name:
  assumes "short_entry m item n e" "apart out 108 item 32"
  obtains m' where "fat16_get_full_relative_filename item out 108 m = Some m'"
    "cstring m' out (entry_name n e)" "\<And>a. 108 \<le> unat (a - out) \<Longrightarrow> m' a = m a"
proof -
  let ?m = "memset out 0 108 m"
  define cs where "cs = (if length n < 8 then n else n @ e)"
  have en: "entry_name n e = cs @ (if e = [] then [] else 0x2E # e)"
    by (simp add: entry_name_def cs_def)
  have same: "?m (item + of_nat j) = m (item + of_nat j)" if "j < 32" for j
  proof -
    have "\<not> unat (item + of_nat j - out) < 108"
      using assms(2) that of_nat_unat_diff [of out "item + of_nat j"] unfolding apart_def by metis
    then show ?thesis by (simp add: memset_apply)
  qed
  have zero: "?m (out + of_nat i) = 0" if "i < 108" for i
    using that by (simp add: memset_apply unat_of_nat take_bit_nat_eq_self)
  have "mem_bytes ?m item 12 = mem_bytes m item 12" by (rule mem_bytes_eqI) (simp_all add: same)
  then have se: "short_entry ?m item n e" using assms(1) by (simp add: short_entry_def)
  have l: "length n \<le> 8" "length e \<le> 3" "\<forall>c \<in> set (n @ e). \<not> name_stop c"
    using assms(1) by (auto simp: short_entry_def)
  have lcs: "length cs \<le> 11" "\<forall>c \<in> set cs. \<not> name_stop c" using l by (auto simp: cs_def)
  obtain x r where x: "mem_bytes ?m item 12 = cs @ x # r" "name_stop x"
    using short_entry_parts(1) [OF se] by (auto simp: cs_def)
  obtain y r' where y: "mem_bytes ?m (item_ext item) 4 = e @ y # r'" "name_stop y"
    using short_entry_parts(2) [OF se] by blast
  let ?m1 = "write_bytes out cs ?m"
  have 1: "fat16_to_proper_string out item ?m = Some (out + of_nat (length cs), ?m1)"
    using x l lcs assms(2) zero [of "length cs"]
    by (intro fat16_to_proper_string_blank [OF x]) (auto elim: apart_mono)
  have ext: "write_bytes out bs ?m (item_ext item + of_nat j) = ?m (item_ext item + of_nat j)"
    if "length bs \<le> 108" "j < 4" for bs j
    using write_bytes_apart [OF apart_mono [OF assms(2) that(1), of 32], of "8 + j" ?m] that(2)
    by (simp add: item_ext_def add.assoc)
  have "0 \<notin> set (n @ e)" using l(3) by (auto simp: name_stop_def)
  then have nz: "0 \<notin> set (entry_name n e)" by (auto simp: en cs_def)
  have len: "length (entry_name n e) < 108" using l by (auto simp: en cs_def)
  have frame: "write_bytes out bs ?m a = m a" if "length bs \<le> 108" "108 \<le> unat (a - out)" for bs a
    using that by (simp add: write_bytes_def memset_apply)
  have "fat16_get_full_relative_filename item out 108 m = Some (write_bytes out (entry_name n e) ?m)"
  proof (cases "e = []")
    case True
    then have "name_stop (?m1 (item_ext item))"
      using y ext [of cs 0] lcs mem_bytes_prefix(2) [OF y(1)] by simp
    then show ?thesis
      using 1 True en by (auto simp: fat16_get_full_relative_filename_def name_stop_def Let_def)
  next
    case False
    let ?cs' = "cs @ [0x2E]"
    have m2: "?m1(out + of_nat (length cs) := 0x2E) = write_bytes out ?cs' ?m"
      using lcs by (intro write_bytes_snoc) simp
    have "\<not> name_stop (?m1 (item_ext item))"
      using False l(3) ext [of cs 0] lcs mem_bytes_prefix(1) [OF y(1), of 0] by (cases e) auto
    moreover have "fat16_to_proper_string (out + of_nat (length ?cs')) (item_ext item) (write_bytes out ?cs' ?m) =
        Some (out + of_nat (length ?cs') + of_nat (length e),
          write_bytes (out + of_nat (length ?cs')) e (write_bytes out ?cs' ?m))"
    proof (rule fat16_to_proper_string_blank [OF _ y(2)])
      show "mem_bytes (write_bytes out ?cs' ?m) (item_ext item) 4 = e @ y # r'"
        unfolding y(1) [symmetric] using lcs by (intro mem_bytes_eqI) (simp_all add: ext)
      show "apart (out + of_nat (length ?cs')) (length e) (item_ext item) 4"
        unfolding apart_def item_ext_def
      proof (intro allI impI)
        fix i j :: nat assume "i < length e" "j < 4"
        then have "out + of_nat (length ?cs' + i) \<noteq> item + of_nat (8 + j)"
          using assms(2) lcs(1) l(2)
          by (intro assms(2) [unfolded apart_def, rule_format]) auto
        then show "out + of_nat (length ?cs') + of_nat i \<noteq> item + 8 + of_nat j"
          by (simp add: add.assoc)
      qed
      let ?k = "length ?cs' + length e"
      have k: "?k < 108" using lcs(1) l(2) by simp
      have "length ?cs' \<le> unat (out + of_nat ?k - out)"
        by (subst unat_diff_of_nat_index) (use k in auto)
      then have "write_bytes out ?cs' ?m (out + of_nat ?k) = 0"
        using zero [OF k] by (simp add: write_bytes_outside)
      then show "write_bytes out ?cs' ?m (out + of_nat (length ?cs') + of_nat (length e)) = 0"
        by (simp add: add.assoc)
    qed (use l in auto)
    moreover have "write_bytes (out + of_nat (length ?cs')) e (write_bytes out ?cs' ?m) =
        write_bytes out (?cs' @ e) ?m"
      using lcs l(2) by (intro write_bytes_append) simp
    ultimately show ?thesis
      using 1 m2 False en
      by (auto simp: fat16_get_full_relative_filename_def name_stop_def Let_def add.assoc
          add.commute [of 1])
  qed
  then show ?thesis
    using write_bytes_cstring [OF nz _ len, of ?m out] zero frame len
    by (intro that [of "write_bytes out (entry_name n e) ?m"]) auto
qed

section \<open>Properties of names\<close>

text \<open>
  For an entry in the 8.3 form \<open>fat16_get_full_relative_filename\<close> terminates and writes the
  name, a dot and the extension as a terminated string, with no dot if there is no extension,
  and no byte outside the 108 bytes of the buffer changes. A name of all eight characters has
  no blank to end it, so that the extension is taken for a part of the name and appears twice
  (\<open>entry_name\<close>).
\<close>

theorem fat16_name_of_entry:
  assumes "short_entry m item n e" "apart out 108 item 32"
  shows "\<exists>m'. fat16_get_full_relative_filename item out 108 m = Some m' \<and>
    cstring m' out (entry_name n e) \<and> (\<forall>a. 108 \<le> unat (a - out) \<longrightarrow> m' a = m a)"
  using fat16_full_name [OF assms] by metis

theorem fat16_name_of_entry_witness:
  "\<exists>m'. fat16_get_full_relative_filename 0x1000 0x2000 108
       (write_bytes 0x1000 [75, 69, 82, 78, 69, 76, 32, 32, 84, 88, 84, 32] (\<lambda>_. 7)) = Some m' \<and>
     cstring m' 0x2000 [75, 69, 82, 78, 69, 76, 46, 84, 88, 84]"
proof -
  let ?bs = "[75, 69, 82, 78, 69, 76, 32, 32, 84, 88, 84, 32] :: byte list"
  have "mem_bytes (write_bytes 0x1000 ?bs (\<lambda>_. 7)) 0x1000 12 = ?bs"
    by (rule mem_bytes_write_length) simp_all
  moreover have "replicate 2 (32 :: byte) = [32, 32]" by (simp add: numeral_2_eq_2)
  ultimately have e: "short_entry (write_bytes 0x1000 ?bs (\<lambda>_. 7)) 0x1000 [75, 69, 82, 78, 69, 76] [84, 88, 84]"
    by (simp add: short_entry_def name_stop_def)
  have "apart 0x2000 108 0x1000 32"
    unfolding apart_def
  proof (intro allI impI notI)
    fix i j :: nat assume a: "i < 108" "j < 32" "(0x2000 :: addr) + of_nat i = 0x1000 + of_nat j"
    from a(3) have "unat ((0x2000 :: addr) + of_nat i) = unat ((0x1000 :: addr) + of_nat j)" by (rule arg_cong)
    then show False using a(1,2) unat_add_of_nat [of "0x2000" i] unat_add_of_nat [of "0x1000" j] by simp
  qed
  from fat16_name_of_entry [OF e this] show ?thesis by (auto simp: entry_name_def)
qed

end
