(* ===== verification/FatVolume.thy ===== *)
theory FatVolume
  imports Fat16
begin

text \<open>
  The clusters of a FAT16 volume: what the image of the disk says about the volume, and that
  following the allocation table and reading a range of a file (the functions of
  \<^verbatim>\<open>fat16.c\<close> from \<open>fat16_cluster_to_sector\<close> to \<open>fat16_read_internal\<close>) deliver the
  bytes the driver's own chain of clusters leads to.
\<close>

section \<open>The volume and its clusters\<close>

text \<open>What the image says about the volume.\<close>

definition img16 :: "(nat \<Rightarrow> byte) \<Rightarrow> nat \<Rightarrow> nat" where
  "img16 img k = unat (img k) + 256 * unat (img (Suc k))"

definition vol_reserved :: "(nat \<Rightarrow> byte) \<Rightarrow> nat" where "vol_reserved img = img16 img 14"
definition vol_spc :: "(nat \<Rightarrow> byte) \<Rightarrow> nat" where "vol_spc img = unat (img 13)"
definition vol_entries :: "(nat \<Rightarrow> byte) \<Rightarrow> nat" where "vol_entries img = img16 img 17"
definition vol_root_sector :: "(nat \<Rightarrow> byte) \<Rightarrow> nat" where
  "vol_root_sector img = unat (img 16) * img16 img 22 + vol_reserved img"
definition vol_data_sector :: "(nat \<Rightarrow> byte) \<Rightarrow> nat" where
  "vol_data_sector img = vol_root_sector img + 32 * vol_entries img div 512"

definition cluster_size :: "(nat \<Rightarrow> byte) \<Rightarrow> nat" where "cluster_size img = 512 * vol_spc img"

definition cluster_pos :: "(nat \<Rightarrow> byte) \<Rightarrow> nat \<Rightarrow> nat" where
  "cluster_pos img c = 512 * (vol_data_sector img + (c - 2) * vol_spc img)"

text \<open>
  The file system as its format has it: the entry of cluster \<open>c\<close> is word \<open>c\<close> of the first allocation
  table, behind the reserved sectors; a value from 2 to \<^verbatim>\<open>0xFFEF\<close> is the next cluster, the others end
  the file or mark a bad cluster. Byte \<open>i\<close> of a file is byte \<open>i mod cluster_size\<close> of its cluster
  number \<open>i div cluster_size\<close>.
\<close>

definition file_next :: "(nat \<Rightarrow> byte) \<Rightarrow> nat \<Rightarrow> nat" where
  "file_next img c = img16 img (512 * vol_reserved img + 2 * c)"

fun file_cluster :: "(nat \<Rightarrow> byte) \<Rightarrow> nat \<Rightarrow> nat \<Rightarrow> nat option" where
  "file_cluster img 0 c = Some c"
| "file_cluster img (Suc n) c =
     (let e = file_next img c in if 2 \<le> e \<and> e < 0xFFF0 then file_cluster img n e else None)"

definition file_content :: "(nat \<Rightarrow> byte) \<Rightarrow> nat \<Rightarrow> nat \<Rightarrow> byte" where
  "file_content img c i =
     img (cluster_pos img (the (file_cluster img (i div cluster_size img) c)) + i mod cluster_size img)"

text \<open>
  The entry the driver takes for the successor of a cluster, and the chain it follows: the position
  is a product where the format has a sum, and the marks for the end are not those of the format.
\<close>

definition driver_next :: "(nat \<Rightarrow> byte) \<Rightarrow> nat \<Rightarrow> nat" where
  "driver_next img c = img16 img (1024 * vol_reserved img * c)"

fun driver_chain :: "(nat \<Rightarrow> byte) \<Rightarrow> nat \<Rightarrow> nat \<Rightarrow> nat option" where
  "driver_chain img 0 c = Some c"
| "driver_chain img (Suc n) c =
     (let e = driver_next img c in if e \<in> {0xFF8, 0xFFF, 0xF77, 0xFF0, 0xFF6, 0} then None else driver_chain img n e)"

text \<open>
  The file has a cluster number \<open>n\<close>, and up to it the driver happens to read the right successors.
  There is nothing to read for the first cluster.
\<close>

definition table_agrees :: "(nat \<Rightarrow> byte) \<Rightarrow> nat \<Rightarrow> nat \<Rightarrow> bool" where
  "table_agrees img c n \<longleftrightarrow> file_cluster img n c \<noteq> None \<and>
     (\<forall>i < n. \<forall>e. file_cluster img i c = Some e \<longrightarrow> driver_next img e = file_next img e)"

lemma table_agrees_0 [simp]: "table_agrees img c 0"
  by (simp add: table_agrees_def)

lemma driver_chain_file:
  "table_agrees img c n \<Longrightarrow> driver_chain img n c \<noteq> None \<Longrightarrow> driver_chain img n c = file_cluster img n c"
proof (induction n arbitrary: c)
  case (Suc n)
  let ?e = "file_next img c"
  have e: "2 \<le> ?e \<and> ?e < 0xFFF0" and fc: "file_cluster img (Suc k) c = file_cluster img k ?e" for k
    using Suc.prems(1) by (auto simp: table_agrees_def Let_def split: if_splits)
  have "file_cluster img 0 c = Some c" by simp
  then have d: "driver_next img c = ?e" using Suc.prems(1) unfolding table_agrees_def by blast
  have "driver_next img x = file_next img x" if "i < n" "file_cluster img i ?e = Some x" for i x
    using Suc.prems(1) that fc [of i] unfolding table_agrees_def by (metis Suc_less_eq)
  then have "table_agrees img ?e n" using Suc.prems(1) fc by (auto simp: table_agrees_def)
  then show ?case using Suc.IH [of ?e] Suc.prems(2) fc d by (simp add: Let_def split: if_splits)
qed simp

definition fat_volume :: "(nat \<Rightarrow> byte) \<Rightarrow> 'a fatfs_scheme \<Rightarrow> bool" where
  "fat_volume img s \<longleftrightarrow> ata_drive img (device s) \<and> heap_inv (kernel_heap s) \<and> sector_size (disk s) = 512 \<and>
     page_aligned (fs_private (disk s)) \<and> page_of (fs_private (disk s)) \<in> live_pages (kernel_heap s) \<and>
     mem_bytes (mem s) (fs_private (disk s)) 62 = map img [0..<62] \<and>
     (\<exists>fp. fat_privates s (fs_private (disk s)) = Some fp \<and> fat_read_stream fp \<noteq> 0 \<and>
        (\<forall>st \<in> {cluster_read_stream fp, fat_read_stream fp, directory_stream fp}. stream_position s st \<noteq> None)) \<and>
     (\<exists>root. fat_directories s (root_directory (fs_private (disk s))) = Some root \<and>
        ending_sector_pos root = int (vol_data_sector img))"

text \<open>The kernel stack is not part of the heap.\<close>

definition stack_ok :: "'a fatfs_scheme \<Rightarrow> bool" where
  "stack_ok s \<longleftrightarrow> (\<forall>v i. i < 4096 \<longrightarrow> page_of (local_addr s v + of_nat i) \<notin> heap_pages (kernel_heap s))"

text \<open>An address that no buffer on the kernel stack reaches.\<close>

definition off_stack :: "'a fatfs_scheme \<Rightarrow> addr \<Rightarrow> bool" where
  "off_stack s a \<longleftrightarrow> (\<forall>v. 32 \<le> unat (a - local_addr s v))"

lemma unat_byte_less: "unat (b :: byte) < 256"
  using unsigned_less [where 'a = nat and w = b] by simp

lemma unat_load16: "unat (load16 m a) = unat (m a) + 256 * unat (m (a + 1))"
proof -
  have "ucast (m a) AND push_bit 8 (ucast (m (a + 1)) :: u16) = 0"
    by (rule bit_word_eqI) (auto simp: bit_simps dest: bit_imp_le_length)
  then have "load16 m a = ucast (m a) + push_bit 8 (ucast (m (a + 1)))"
    by (simp add: load16_def disjunctive_add_eq_or)
  also have "\<dots> = of_nat (unat (m a)) + of_nat (unat (m (a + 1))) * 256"
    by (simp add: push_bit_eq_mult)
  finally have *: "load16 m a = of_nat (unat (m a) + 256 * unat (m (a + 1)))"
    by (simp add: mult.commute)
  have "unat (m a) < 256" "unat (m (a + 1)) < 256"
    by (rule unat_byte_less)+
  then show ?thesis
    unfolding * by (subst unat_of_nat) (simp add: take_bit_nat_eq_self)
qed

lemma fat_header_fields:
  assumes "mem_bytes m p 62 = map img [0..<62]"
  shows "i < 62 \<Longrightarrow> m (p + of_nat i) = img i"
    "unat (reserved_sectors m p) = vol_reserved img" "unat (sectors_per_cluster m p) = vol_spc img"
    "unat (root_dir_entries m p) = vol_entries img" "fat_signature m p = img 38"
    "unat (fat_copies m p) * unat (sectors_per_fat m p) + unat (reserved_sectors m p) = vol_root_sector img"
proof -
  show *: "m (p + of_nat i) = img i" if "i < 62" for i
  proof -
    have "mem_bytes m p 62 ! i = map img [0..<62] ! i" by (simp only: assms)
    then show ?thesis using that by simp
  qed
  show r: "unat (reserved_sectors m p) = vol_reserved img"
    using * [of 14] * [of 15] by (simp add: reserved_sectors_def unat_load16 vol_reserved_def img16_def add.assoc)
  show "unat (sectors_per_cluster m p) = vol_spc img"
    using * [of 13] by (simp add: sectors_per_cluster_def vol_spc_def)
  show "unat (root_dir_entries m p) = vol_entries img"
    using * [of 17] * [of 18] by (simp add: root_dir_entries_def unat_load16 vol_entries_def img16_def add.assoc)
  show "fat_signature m p = img 38" using * [of 38] by (simp add: fat_signature_def)
  have "unat (sectors_per_fat m p) = img16 img 22"
    using * [of 22] * [of 23] by (simp add: sectors_per_fat_def unat_load16 img16_def add.assoc)
  then show "unat (fat_copies m p) * unat (sectors_per_fat m p) + unat (reserved_sectors m p) = vol_root_sector img"
    using * [of 16] r by (simp add: fat_copies_def vol_root_sector_def)
qed

lemma fat_volume_header:
  assumes "fat_volume img s"
  shows "mem_bytes (mem s) (fs_private (disk s)) 62 = map img [0..<62]"
  using assms by (simp add: fat_volume_def)

text \<open>Stream operations keep the volume as long as the header is not overwritten.\<close>

lemma fat_volume_frame:
  assumes "fat_volume img s" "stream_frame s s'" "\<And>st. stream_position s st \<noteq> None \<Longrightarrow> stream_position s' st \<noteq> None"
    "\<And>i. i < 62 \<Longrightarrow> mem s' (fs_private (disk s) + of_nat i) = mem s (fs_private (disk s) + of_nat i)"
  shows "fat_volume img s'"
proof -
  obtain log m sts where s': "s' = s\<lparr>io_log := log, mem := m, streams := sts\<rparr>"
    using assms(2) by (auto simp: stream_frame_def)
  have "mem_bytes (mem s') (fs_private (disk s)) 62 = mem_bytes (mem s) (fs_private (disk s)) 62"
    using assms(4) by (intro mem_bytes_eqI) simp_all
  then show ?thesis
    using assms(1,3) unfolding fat_volume_def by (auto simp: s')
qed

lemma live_pages_heap_pages:
  assumes "heap_inv h" "n \<in> live_pages h"
  shows "n \<in> heap_pages h"
proof -
  obtain q k where q: "(q, k) \<in> allocs h" "page_of q \<le> n" "n < page_of q + k"
    using assms(2) by (auto simp: live_pages_def)
  show ?thesis using allocs_range(4,5) [OF assms(1) q(1)] q(2,3) by (simp add: heap_pages_def)
qed

lemma fat_volume_private_page:
  assumes "fat_volume img s" "i < 4096"
  shows "page_of (fs_private (disk s) + of_nat i) = page_of (fs_private (disk s))"
    "page_of (fs_private (disk s) + of_nat i) \<in> heap_pages (kernel_heap s)"
  using assms page_of_add [of "fs_private (disk s)" i] live_pages_heap_pages
  by (auto simp: fat_volume_def)

text \<open>A step that changes the streams and the stack of the kernel only.\<close>

definition fat_quiet :: "'a fatfs_scheme \<Rightarrow> 'a fatfs_scheme \<Rightarrow> bool" where
  "fat_quiet s s' \<longleftrightarrow> stream_frame s s' \<and> (\<forall>st. stream_position s st \<noteq> None \<longrightarrow> stream_position s' st \<noteq> None) \<and>
     (\<forall>a. page_of a \<in> heap_pages (kernel_heap s) \<or> off_stack s a \<longrightarrow> mem s' a = mem s a)"

lemma stream_frame_fields:
  assumes "stream_frame s s'"
  shows "kernel_heap s' = kernel_heap s" "disk s' = disk s" "device s' = device s"
  using assms by (auto simp: stream_frame_def)

lemma stream_frame_fat_fields:
  assumes "stream_frame s (s' :: 'a fatfs_scheme)"
  shows "fat_privates s' = fat_privates s" "fat_directories s' = fat_directories s" "fat_items s' = fat_items s"
    "fat_descriptors s' = fat_descriptors s" "local_addr s' = local_addr s" "path_parts s' = path_parts s"
    "path_roots s' = path_roots s"
  using assms by (auto simp: stream_frame_def)

lemma fat_quiet_refl: "fat_quiet s s"
  unfolding fat_quiet_def stream_frame_def
  by (auto intro!: exI [of _ "io_log s"] exI [of _ "mem s"] exI [of _ "streams s"])

lemma fat_quiet_trans: "fat_quiet s t \<Longrightarrow> fat_quiet t u \<Longrightarrow> fat_quiet s u"
  unfolding fat_quiet_def off_stack_def
  using ds.same_trans [of s t u] stream_frame_fields(1) [of s t] stream_frame_fat_fields(5) [of s t] by metis

lemma fat_volume_quiet:
  assumes "fat_volume img s" "fat_quiet s s'"
  shows "fat_volume img s'"
proof (rule fat_volume_frame [OF assms(1)])
  show "mem s' (fs_private (disk s) + of_nat i) = mem s (fs_private (disk s) + of_nat i)" if "i < 62" for i
    using assms(2) fat_volume_private_page(2) [OF assms(1), of i] that by (simp add: fat_quiet_def)
qed (use assms(2) in \<open>simp_all add: fat_quiet_def\<close>)

lemma stream_frame_mem: "stream_frame s s' \<Longrightarrow> stream_frame s (s'\<lparr>mem := m\<rparr>)"
  unfolding stream_frame_def
proof (elim exE)
  fix log m' sts assume "s' = s\<lparr>io_log := log, mem := m', streams := sts\<rparr>"
  then show "\<exists>log m'' sts. s'\<lparr>mem := m\<rparr> = s\<lparr>io_log := log, mem := m'', streams := sts\<rparr>"
    by (intro exI [of _ log] exI [of _ m] exI [of _ sts]) simp
qed

lemma stack_ok_quiet: "stack_ok s \<Longrightarrow> fat_quiet s s' \<Longrightarrow> stack_ok s'"
  using stream_frame_fields [of s s'] stream_frame_fat_fields [of s s'] by (simp add: stack_ok_def fat_quiet_def)

lemma stack_outside:
  assumes "stack_ok s" "page_of a \<in> heap_pages (kernel_heap s)" "n \<le> 4096"
  shows "n \<le> unat (a - local_addr s v)"
proof (rule ccontr)
  assume "\<not> n \<le> unat (a - local_addr s v)"
  then have "page_of (local_addr s v + of_nat (unat (a - local_addr s v))) \<notin> heap_pages (kernel_heap s)"
    using assms(1,3) unfolding stack_ok_def by (metis not_le_imp_less order_less_le_trans)
  with assms(2) show False by simp
qed

lemma vol_reserved_less: "vol_reserved img < 65536"
  using unat_byte_less [of "img 14"] unat_byte_less [of "img 15"] by (simp add: vol_reserved_def img16_def)

lemma unat_load16_write: "unat (load16 (write_bytes a [x, y] m) a) = unat x + 256 * unat y"
  using write_bytes_inside [of 0 "[x, y]" a m] write_bytes_inside [of 1 "[x, y]" a m]
  by (simp add: unat_load16)

lemma fat16_get_fat_entry_result:
  assumes "fat_volume img s" "stack_ok s" "1024 * vol_reserved img * c + 2 < 2 ^ 31"
  obtains s' where "fat16_get_fat_entry TheDisk (int c) s = Some (int (driver_next img c), s')" "fat_quiet s s'"
proof -
  let ?p = "fs_private (disk s)" and ?l = "local_addr s Local_result"
  define k where "k = 1024 * vol_reserved img * c"
  have k: "k + 2 < 2 ^ 31" and nx: "driver_next img c = img16 img k"
    using assms(3) by (simp_all add: k_def driver_next_def)
  obtain fp q where fp: "fat_privates s ?p = Some fp" "fat_read_stream fp \<noteq> 0"
      "stream_position s (fat_read_stream fp) = Some q"
    using assms(1) by (auto simp: fat_volume_def)
  have base: "fat16_get_first_fat_sector (mem s) ?p = of_nat (vol_reserved img)"
    using fat_header_fields(2) [OF fat_volume_header [OF assms(1)]]
    by (simp add: fat16_get_first_fat_sector_def word_unat_eq_iff unat_of_nat take_bit_nat_eq_self
        order_less_trans [OF vol_reserved_less])
  have "fat16_get_first_fat_sector (mem s) ?p * word_of_int 512 * word_of_int (int c * 2) =
      of_nat k"
    by (simp add: base k_def)
  then have pos: "sint (fat16_get_first_fat_sector (mem s) ?p * word_of_int 512 * word_of_int (int c * 2)) =
      int k"
    using k by (simp only: sint_of_nat_small)
  have dr: "ata_drive img (device s)" "sector_size (disk s) = 512" using assms(1) by (simp_all add: fat_volume_def)
  obtain s1 where s1: "disk_stream_seek (fat_read_stream fp) (int k) s = Some (0, s1)"
      "ata_drive img (device s1)" "stream_position s1 = (stream_position s)(fat_read_stream fp \<mapsto> int k)"
      "mem s1 = mem s" "stream_frame s s1"
    using ds.seek_ok [OF dr(1) fp(3)] by blast
  let ?s2 = "s1\<lparr>mem := store16 (mem s1) ?l 0\<rparr>"
  have f2: "stream_position ?s2 = stream_position s1" "stream_frame s ?s2" "device ?s2 = device s1"
    using stream_frame_mem [OF s1(5)] by (simp_all add: stream_position_def fun_eq_iff)
  obtain s3 where s3: "disk_stream_read (fat_read_stream fp) ?l 2 ?s2 = Some (0, s3)"
      "stream_position s3 = (stream_position ?s2)(fat_read_stream fp \<mapsto> int k + 2)"
      "mem s3 = write_bytes ?l (map img [nat (int k)..<nat (int k + 2)]) (mem ?s2)" "stream_frame ?s2 s3"
    using ds.read_ok [of img ?s2 "fat_read_stream fp" "int k" 2 ?l] s1(2,3) f2(1,3) k by auto
  have bs: "map img [nat (int k)..<nat (int k + 2)] = [img k, img (Suc k)]"
    by (simp add: nat_add_distrib upt_rec)
  have "unat (load16 (mem s3) ?l) = driver_next img c"
    unfolding s3(3) bs nx img16_def by (rule unat_load16_write)
  then have val: "uint (load16 (mem s3) ?l) = int (driver_next img c)"
    using uint_nat [of "load16 (mem s3) ?l"] by simp
  have la: "local_addr s1 Local_result = ?l" "local_addr s3 Local_result = ?l"
    using stream_frame_fat_fields(5) [OF s1(5)] stream_frame_fat_fields(5) [OF s3(4)] by simp_all
  have "fat_quiet s s3"
    unfolding fat_quiet_def
  proof (intro conjI allI impI)
    show "stream_frame s s3" using ds.same_trans [OF f2(2) s3(4)] .
    show "stream_position s3 st \<noteq> None" if "stream_position s st \<noteq> None" for st
      using that s1(3) s3(2) f2(1) by auto
    fix a assume "page_of a \<in> heap_pages (kernel_heap s) \<or> off_stack s a"
    then have "2 \<le> unat (a - ?l)"
      using stack_outside [OF assms(2), of a 2 Local_result]
      by (auto simp: off_stack_def dest: spec [of _ Local_result])
    then show "mem s3 a = mem s a"
      unfolding s3(3) bs by (subst write_bytes_outside) (auto simp: store16_def s1(4))
  qed
  moreover have "fat16_get_fat_entry TheDisk (int c) s = Some (int (driver_next img c), s3)"
    using fp(1,2) s1(1) s3(1) val la pos dr(2) by (simp add: fat16_get_fat_entry_def disk_of_def Let_def)
  ultimately show ?thesis by (rule that [rotated])
qed

lemma fat16_walk_clusters_result:
  assumes "fat_volume img s" "stack_ok s"
    "\<And>i e. i < n \<Longrightarrow> driver_chain img i c = Some e \<Longrightarrow> 1024 * vol_reserved img * e + 2 < 2 ^ 31"
  shows "\<exists>s'. fat16_walk_clusters TheDisk n (int c) s =
    Some (case driver_chain img n c of None \<Rightarrow> - IO_ERROR | Some e \<Rightarrow> int e, s') \<and> fat_quiet s s'"
  using assms
proof (induction n arbitrary: c s)
  case 0
  then show ?case by (simp add: fat_quiet_refl)
next
  case (Suc n)
  let ?e = "driver_next img c"
  obtain s1 where s1: "fat16_get_fat_entry TheDisk (int c) s = Some (int ?e, s1)" "fat_quiet s s1"
    by (rule fat16_get_fat_entry_result [OF Suc.prems(1,2), of c]) (use Suc.prems(3) [of 0 c] in auto)
  show ?case
  proof (cases "?e \<in> {0xFF8, 0xFFF, 0xF77, 0xFF0, 0xFF6, 0}")
    case True
    then show ?thesis using s1 by auto
  next
    case False
    have bd: "1024 * vol_reserved img * e + 2 < 2 ^ 31" if "i < n" "driver_chain img i ?e = Some e" for i e
      using Suc.prems(3) [of "Suc i" e] that False by (simp add: Let_def)
    obtain s2 where "fat16_walk_clusters TheDisk n (int ?e) s1 =
        Some (case driver_chain img n ?e of None \<Rightarrow> - IO_ERROR | Some e \<Rightarrow> int e, s2)" "fat_quiet s1 s2"
      using Suc.IH [OF fat_volume_quiet [OF Suc.prems(1) s1(2)] stack_ok_quiet [OF Suc.prems(2) s1(2)], of ?e] bd
      by blast
    moreover from this(2) have "fat_quiet s s2" by (rule fat_quiet_trans [OF s1(2)])
    moreover have "int ?e \<noteq> 0xFF8" "int ?e \<noteq> 0xFFF" "int ?e \<noteq> 0xF77" "int ?e \<noteq> 0xFF0" "int ?e \<noteq> 0xFF6" "int ?e \<noteq> 0"
      using False by auto
    ultimately show ?thesis using s1(1) False by (simp add: Let_def)
  qed
qed

text \<open>
  A range of a file that can be read: the chain reaches every cluster of it, and all positions
  fit the signed position of a stream.
\<close>

definition fat_readable :: "(nat \<Rightarrow> byte) \<Rightarrow> nat \<Rightarrow> nat \<Rightarrow> nat \<Rightarrow> bool" where
  "fat_readable img c off n \<longleftrightarrow> 0 < cluster_size img \<and>
     (\<forall>j \<le> (n - 1) div cluster_size img. \<exists>e. driver_chain img (off div cluster_size img + j) c = Some e \<and>
        2 \<le> e \<and> cluster_pos img e + 2 * cluster_size img < 2 ^ 31) \<and>
     (\<forall>i < off div cluster_size img + (n - 1) div cluster_size img. \<forall>e. driver_chain img i c = Some e \<longrightarrow>
        1024 * vol_reserved img * e + 2 < 2 ^ 31)"

text \<open>The byte that a read from offset \<open>off\<close> of the file that starts at cluster \<open>c\<close> puts at place \<open>k\<close>.\<close>

definition file_byte :: "(nat \<Rightarrow> byte) \<Rightarrow> nat \<Rightarrow> nat \<Rightarrow> nat \<Rightarrow> byte" where
  "file_byte img c off k =
     img (cluster_pos img (the (driver_chain img (off div cluster_size img + k div cluster_size img) c))
       + off mod cluster_size img + k mod cluster_size img)"

lemma cluster_size_less: "cluster_size img < 2 ^ 31"
  using unat_byte_less [of "img 13"] by (simp add: cluster_size_def vol_spc_def)

lemma cluster_bytes_volume:
  "fat_volume img s \<Longrightarrow> cluster_bytes (disk s) (mem s) = int (cluster_size img)"
  using fat_header_fields(3) [OF fat_volume_header [of img s]] by (simp add: cluster_bytes_def cluster_size_def fat_volume_def uint_nat)

lemma int_sdiv_smod: "int a sdiv int b = int (a div b)" "int a smod int b = int (a mod b)"
  by (cases "a = 0 \<or> b = 0", auto simp: signed_divide_int_eq_divide_int signed_modulo_int_eq_modulo_int zdiv_int zmod_int)+

text \<open>Where a read may put its bytes: in the heap, but not on the page of the volume header.\<close>

definition fat_buffer :: "'a fatfs_scheme \<Rightarrow> addr \<Rightarrow> nat \<Rightarrow> bool" where
  "fat_buffer s out n \<longleftrightarrow> n < 2 ^ 31 \<and> (\<forall>i < n. page_of (out + of_nat i) \<in> heap_pages (kernel_heap s) \<and>
     page_of (out + of_nat i) \<noteq> page_of (fs_private (disk s)))"

lemma fat_buffer_outside:
  assumes "fat_buffer s out n" "page_of a = page_of (fs_private (disk s)) \<or> page_of a \<notin> heap_pages (kernel_heap s)"
  shows "n \<le> unat (a - out)"
proof (rule ccontr)
  assume "\<not> n \<le> unat (a - out)"
  then have "page_of (out + of_nat (unat (a - out))) \<in> heap_pages (kernel_heap s) \<and>
      page_of (out + of_nat (unat (a - out))) \<noteq> page_of (fs_private (disk s))"
    using assms(1) unfolding fat_buffer_def by (metis not_le_imp_less)
  with assms(2) show False by simp
qed

lemma fat_buffer_drop:
  assumes "fat_buffer s out n" "k \<le> n"
  shows "fat_buffer s (out + of_nat k) (n - k)"
proof -
  have *: "out + of_nat k + of_nat i = out + of_nat (k + i)" for i by (simp add: add.assoc)
  show ?thesis
    using assms unfolding fat_buffer_def * by (auto simp del: of_nat_add)
qed

lemma fat_readable_first:
  assumes "fat_readable img c off n"
  obtains e where "driver_chain img (off div cluster_size img) c = Some e" "2 \<le> e"
    "cluster_pos img e + 2 * cluster_size img < 2 ^ 31" "0 < cluster_size img"
  using assms unfolding fat_readable_def by (metis add.right_neutral bot_nat_0.extremum)

lemma fat_readable_next:
  assumes "fat_readable img c off n" "cluster_size img < n"
  shows "fat_readable img c (off + cluster_size img) (n - cluster_size img)"
proof -
  let ?cs = "cluster_size img"
  have cs: "0 < ?cs" using assms(1) by (simp add: fat_readable_def)
  have "(n - 1) div ?cs = Suc ((n - ?cs - 1) div ?cs)"
    using cs assms(2) le_div_geq [of ?cs "n - 1"] by simp
  moreover have "(off + ?cs) div ?cs = Suc (off div ?cs)" using cs by (simp add: div_add_self2)
  ultimately show ?thesis
    using assms(1) cs unfolding fat_readable_def
    by (metis (no_types, lifting) Suc_le_mono add_Suc add_Suc_right)
qed

lemma file_byte_next:
  assumes "0 < cluster_size img"
  shows "file_byte img c (off + cluster_size img) k = file_byte img c off (k + cluster_size img)"
  using assms by (simp add: file_byte_def div_add_self2)

lemma fat16_cluster_to_sector_volume:
  assumes "fat_volume img s" "2 \<le> e"
  shows "fat16_cluster_to_sector (fs_private (disk s)) (int e) s =
    Some (int (vol_data_sector img + (e - 2) * vol_spc img))"
proof -
  obtain root where "fat_directories s (root_directory (fs_private (disk s))) = Some root"
      "ending_sector_pos root = int (vol_data_sector img)"
    using assms(1) by (auto simp: fat_volume_def)
  then show ?thesis
    using assms fat_header_fields(3) [OF fat_volume_header [OF assms(1)]]
    by (simp add: fat16_cluster_to_sector_def uint_nat of_nat_diff)
qed

text \<open>One cluster of a read.\<close>

lemma fat16_read_step:
  fixes s :: "'a fatfs_scheme"
  assumes "fat_volume img s" "stack_ok s" "stream_position s st \<noteq> None" "0 < n" "fat_readable img c off n"
    "fat_buffer s out n"
  defines "k \<equiv> min n (cluster_size img)"
  obtains s' where "fat16_read_internal_from_stream TheDisk st (int c) (int off) (int n) out s =
      (if k < n then fat16_read_internal_from_stream TheDisk st (int c) (int (off + k)) (int (n - k)) (out + of_nat k) s'
       else Some (0, s'))"
    "stream_frame s s'" "\<And>q. stream_position s q \<noteq> None \<Longrightarrow> stream_position s' q \<noteq> None"
    "\<And>i. i < k \<Longrightarrow> mem s' (out + of_nat i) = file_byte img c off i"
    "\<And>a. page_of a \<in> heap_pages (kernel_heap s) \<Longrightarrow> k \<le> unat (a - out) \<Longrightarrow> mem s' a = mem s a"
proof -
  let ?cs = "cluster_size img" and ?p = "fs_private (disk s)"
  obtain e where e: "driver_chain img (off div ?cs) c = Some e" "2 \<le> e" "cluster_pos img e + 2 * ?cs < 2 ^ 31" "0 < ?cs"
    by (rule fat_readable_first [OF assms(5)])
  have bd: "1024 * vol_reserved img * e' + 2 < 2 ^ 31" if "i < off div ?cs" "driver_chain img i c = Some e'" for i e'
    using assms(5) that trans_less_add1 unfolding fat_readable_def by blast
  obtain s1 where s1: "fat16_walk_clusters TheDisk (off div ?cs) (int c) s = Some (int e, s1)" "fat_quiet s s1"
    using fat16_walk_clusters_result [OF assms(1,2), of "off div ?cs" c] bd e(1) by auto
  note vol1 = fat_volume_quiet [OF assms(1) s1(2)] and q1 = s1(2) [unfolded fat_quiet_def]
  have d1: "disk s1 = disk s" "kernel_heap s1 = kernel_heap s" using q1 stream_frame_fields [of s s1] by auto
  have goc: "fat16_get_cluster_for_offset TheDisk (int c) (int off) s = Some (int e, s1)"
    using s1(1) e(4) by (simp add: fat16_get_cluster_for_offset_def disk_of_def cluster_bytes_volume [OF assms(1)] int_sdiv_smod)
  define P where "P = cluster_pos img e + off mod ?cs"
  have P: "P + k < 2 ^ 31" using e(3) mod_less_divisor [OF e(4), of off] by (simp add: P_def k_def)
  have sec: "int (vol_data_sector img + (e - 2) * vol_spc img) * 512 + int off smod int ?cs = int P"
    by (simp add: int_sdiv_smod P_def cluster_pos_def)
  obtain q where q: "stream_position s1 st = Some q" using q1 assms(3) by auto
  have "ata_drive img (device s1)" "int P + int k < 2 ^ 31" using vol1 P by (simp_all add: fat_volume_def)
  then obtain s2 s3 where s3: "disk_stream_seek st (int P) s1 = Some (0, s2)" "mem s2 = mem s1"
      "disk_stream_read st out (int k) s2 = Some (0, s3)" "stream_frame s1 s3"
      "stream_position s3 = (stream_position s1)(st \<mapsto> int P + int k)"
      "mem s3 = write_bytes out (map img [nat (int P)..<nat (int P + int k)]) (mem s1)"
    using ds.read_at [of img s1 st q "int P" "int k" out] q by (metis of_nat_0_le_iff)
  have m3: "mem s3 = write_bytes out (map img [P..<P + k]) (mem s1)"
    using s3(6) by (simp add: nat_add_distrib)
  have kn: "k \<le> n" "k \<le> ?cs" "0 < k" using assms(4) e(4) by (auto simp: k_def)
  have k32: "k < 2 ^ 32" using kn assms(6) by (simp add: fat_buffer_def)
  have "fat16_read_internal_from_stream TheDisk st (int c) (int off) (int n) out s =
      (if k < n then fat16_read_internal_from_stream TheDisk st (int c) (int (off + k)) (int (n - k)) (out + of_nat k) s3
       else Some (0, s3))"
  proof -
    have tr: "(if int n > int ?cs then int ?cs else int n) = int k" by (auto simp: k_def)
    have le: "int (n - k) > 0 \<longleftrightarrow> k < n" "int n - int k = int (n - k)" "int off + int k = int (off + k)"
      "word_of_int (int k) = (of_nat k :: u32)" using kn(1) by auto
    have ss: "sector_size (disk s) = 512" using assms(1) by (simp add: fat_volume_def)
    have cts: "fat16_cluster_to_sector ?p (int e) s1 = Some (int (vol_data_sector img + (e - 2) * vol_spc img))"
      using fat16_cluster_to_sector_volume [OF vol1 e(2)] d1 by simp
    show ?thesis
      unfolding fat16_read_internal_from_stream.simps [of TheDisk st "int c" "int off" "int n" out s]
      by (simp only: disk_of_def disk_ptr.case Option.bind.bind_lunit Let_def cluster_bytes_volume [OF assms(1)]
          goc cts ss sec tr s3(1,3) le prod.case ALL_OK_def not_less of_nat_0_le_iff simp_thms if_False
          of_nat_less_0_iff if_True)
  qed
  moreover have "stream_frame s s3" using q1 s3(4) ds.same_trans by blast
  moreover have "stream_position s3 q \<noteq> None" if "stream_position s q \<noteq> None" for q
    using that q1 s3(5) by auto
  moreover have "mem s3 (out + of_nat i) = file_byte img c off i" if "i < k" for i
  proof -
    have "mem s3 (out + of_nat i) = img (P + i)"
      unfolding m3 using that k32 by (subst write_bytes_inside) auto
    moreover have "i div ?cs = 0" "i mod ?cs = i" using that kn(2) by auto
    ultimately show ?thesis using e(1) by (simp add: file_byte_def P_def)
  qed
  moreover have "mem s3 a = mem s a" if "page_of a \<in> heap_pages (kernel_heap s)" "k \<le> unat (a - out)" for a
    unfolding m3 using that q1 by (subst write_bytes_outside) auto
  ultimately show ?thesis by (rule that)
qed


lemma unat_diff_add: "k \<le> unat (a - b) \<Longrightarrow> unat (a - (b + of_nat k)) = unat (a - b :: u32) - k"
proof -
  assume k: "k \<le> unat (a - b)"
  then have "k < 2 ^ 32" using order_le_less_trans [OF k unat_lt_u32] by simp
  then have "unat (of_nat k :: u32) = k" by (simp add: unat_of_nat take_bit_nat_eq_self)
  then show ?thesis
    using k unat_sub [of "of_nat k" "a - b"] by (simp add: word_le_nat_alt diff_diff_eq)
qed

lemma outside_before:
  assumes "j < k" "k < n" "n < 2 ^ 31"
  shows "n - k \<le> unat (out + of_nat j - (out + of_nat k) :: u32)"
proof -
  obtain d where k: "k = j + d" "0 < d" using assms(1) less_imp_add_positive by blast
  let ?d = "of_nat d :: u32"
  have d: "unat ?d = d" using assms k by (simp add: unat_of_nat take_bit_nat_eq_self)
  have "unat (- ?d) + d = 2 ^ 32"
  proof -
    have u: "uint ?d = int d" using d uint_nat [of ?d] by simp
    have "(- int d) mod 2 ^ 32 = 2 ^ 32 - int d"
      using assms k by (simp add: zmod_zminus1_eq_if)
    then have "uint (- ?d) = 2 ^ 32 - int d" by (simp add: uint_word_ariths u)
    then show ?thesis using assms k by (simp add: unat_eq_nat_uint)
  qed
  moreover have "out + of_nat j - (out + of_nat k) = - ?d" by (simp add: k(1))
  ultimately show ?thesis using assms k by simp
qed

lemma fat16_read_range:
  fixes s :: "'a fatfs_scheme"
  assumes "fat_volume img s" "stack_ok s" "stream_position s st \<noteq> None" "0 < n" "fat_readable img c off n"
    "fat_buffer s out n"
  shows "\<exists>s'. fat16_read_internal_from_stream TheDisk st (int c) (int off) (int n) out s = Some (0, s') \<and>
    stream_frame s s' \<and> fat_volume img s' \<and>
    (\<forall>k < n. mem s' (out + of_nat k) = file_byte img c off k) \<and>
    (\<forall>a. page_of a \<in> heap_pages (kernel_heap s) \<longrightarrow> n \<le> unat (a - out) \<longrightarrow> mem s' a = mem s a)"
  using assms
proof (induction n arbitrary: off out s rule: less_induct)
  case (less n)
  let ?cs = "cluster_size img"
  define k where "k = min n ?cs"
  obtain s1 where s1: "fat16_read_internal_from_stream TheDisk st (int c) (int off) (int n) out s =
      (if k < n then fat16_read_internal_from_stream TheDisk st (int c) (int (off + k)) (int (n - k)) (out + of_nat k) s1
       else Some (0, s1))"
    and f1: "stream_frame s s1" and p1: "\<And>q. stream_position s q \<noteq> None \<Longrightarrow> stream_position s1 q \<noteq> None"
    and b1: "\<And>i. i < k \<Longrightarrow> mem s1 (out + of_nat i) = file_byte img c off i"
    and o1: "\<And>a. page_of a \<in> heap_pages (kernel_heap s) \<Longrightarrow> k \<le> unat (a - out) \<Longrightarrow> mem s1 a = mem s a"
    unfolding k_def by (rule fat16_read_step [OF less.prems]) blast
  note fl = stream_frame_fields [OF f1] and ffl = stream_frame_fat_fields [OF f1]
  have kn: "k \<le> n" by (simp add: k_def)
  have hdr: "n \<le> unat (fs_private (disk s) + of_nat i - out)" if "i < 62" for i
    using that fat_volume_private_page(1) [OF less.prems(1), of i] by (intro fat_buffer_outside [OF less.prems(6)]) simp
  have v1: "fat_volume img s1"
  proof (rule fat_volume_frame [OF less.prems(1) f1 p1])
    show "mem s1 (fs_private (disk s) + of_nat i) = mem s (fs_private (disk s) + of_nat i)" if "i < 62" for i
      using hdr [OF that] fat_volume_private_page(2) [OF less.prems(1), of i] that kn by (intro o1) auto
  qed
  show ?case
  proof (cases "k < n")
    case False
    then have "k = n" using kn by simp
    then show ?thesis using s1 f1 v1 b1 o1 by auto
  next
    case True
    then have kc: "k = ?cs" by (simp add: k_def min_def split: if_splits)
    have cs: "0 < ?cs" using less.prems(5) by (simp add: fat_readable_def)
    have st1: "stack_ok s1" using less.prems(2) fl ffl by (simp add: stack_ok_def)
    have fb: "fat_buffer s1 (out + of_nat k) (n - k)"
      using fat_buffer_drop [OF less.prems(6) kn] fl by (simp add: fat_buffer_def)
    obtain s2 where s2: "fat16_read_internal_from_stream TheDisk st (int c) (int (off + k)) (int (n - k)) (out + of_nat k) s1
        = Some (0, s2)" "stream_frame s1 s2" "fat_volume img s2"
      "\<And>j. j < n - k \<Longrightarrow> mem s2 (out + of_nat k + of_nat j) = file_byte img c (off + k) j"
      "\<And>a. page_of a \<in> heap_pages (kernel_heap s1) \<Longrightarrow> n - k \<le> unat (a - (out + of_nat k)) \<Longrightarrow> mem s2 a = mem s1 a"
      using less.IH [of "n - k" s1 "off + k" "out + of_nat k"] v1 st1 p1 [OF less.prems(3)] True kc cs
        fat_readable_next [OF less.prems(5)] fb by auto
    have k31: "k < n" "n < 2 ^ 31" using True less.prems(6) by (auto simp: fat_buffer_def)
    have "mem s2 (out + of_nat j) = file_byte img c off j" if "j < n" for j
    proof (cases "j < k")
      case True
      then have "n - k \<le> unat (out + of_nat j - (out + of_nat k))"
        using k31 by (intro outside_before) auto
      moreover have "page_of (out + of_nat j) \<in> heap_pages (kernel_heap s1)"
        using less.prems(6) that fl(1) by (simp add: fat_buffer_def)
      ultimately show ?thesis using s2(5) b1 [OF True] by simp
    next
      case False
      then show ?thesis
        using s2(4) [of "j - k"] that file_byte_next [OF cs, of c off "j - k"] kc
        by (simp add: add.assoc of_nat_diff)
    qed
    moreover have "mem s2 a = mem s a" if "page_of a \<in> heap_pages (kernel_heap s)" "n \<le> unat (a - out)" for a
      using s2(5) [of a] o1 [OF that(1)] that fl(1) unat_diff_add [of k a out] kn by simp
    ultimately show ?thesis
      using s1 True s2(1,2,3) ds.same_trans [OF f1] by auto
  qed
qed

lemma fat16_read_internal_range:
  fixes s :: "'a fatfs_scheme"
  assumes "fat_volume img s" "stack_ok s" "0 < n" "fat_readable img c off n" "fat_buffer s out n"
  obtains s' where "fat16_read_internal TheDisk (int c) (int off) (int n) out s = Some (0, s')"
    "stream_frame s s'" "fat_volume img s'" "stack_ok s'"
    "\<And>k. k < n \<Longrightarrow> mem s' (out + of_nat k) = file_byte img c off k"
    "\<And>a. page_of a \<in> heap_pages (kernel_heap s) \<Longrightarrow> n \<le> unat (a - out) \<Longrightarrow> mem s' a = mem s a"
proof -
  obtain fp where fp: "fat_privates s (fs_private (disk s)) = Some fp" "stream_position s (cluster_read_stream fp) \<noteq> None"
    using assms(1) by (auto simp: fat_volume_def)
  obtain s' where "fat16_read_internal_from_stream TheDisk (cluster_read_stream fp) (int c) (int off) (int n) out s = Some (0, s')"
      "stream_frame s s'" "fat_volume img s'"
      "\<And>k. k < n \<Longrightarrow> mem s' (out + of_nat k) = file_byte img c off k"
      "\<And>a. page_of a \<in> heap_pages (kernel_heap s) \<Longrightarrow> n \<le> unat (a - out) \<Longrightarrow> mem s' a = mem s a"
    using fat16_read_range [OF assms(1,2) fp(2) assms(3-5)] by blast
  moreover from this(2) have "stack_ok s'"
    using assms(2) stream_frame_fields(1) [of s s'] stream_frame_fat_fields(5) [of s s'] by (simp add: stack_ok_def)
  ultimately show ?thesis
    using fp(1) by (intro that [of s']) (simp_all add: fat16_read_internal_def disk_of_def)
qed

lemma first_cluster_cong:
  assumes "\<And>i. i < 32 \<Longrightarrow> m' (item + of_nat i) = m (item + of_nat i)"
  shows "fat16_get_first_cluster m' item = fat16_get_first_cluster m item"
  using assms [of 20] assms [of 21] assms [of 26] assms [of 27]
  by (simp add: fat16_get_first_cluster_def high_16_bits_first_cluster_def low_16_bits_first_cluster_def
      load16_def add.assoc)

lemma fat16_read_loop_result:
  fixes s :: "'a fatfs_scheme"
  assumes "fat_volume img s" "stack_ok s" "0 < sz" "fat16_get_first_cluster (mem s) item = of_nat c" "c < 65536"
    "\<And>i. i < n \<Longrightarrow> fat_readable img c (off + i * unat sz) (unat sz)"
    "fat_buffer s out (n * unat sz)" "off + n * unat sz < 2 ^ 31"
    "\<And>i. i < 32 \<Longrightarrow> page_of (item + of_nat i) \<in> heap_pages (kernel_heap s) \<and> n * unat sz \<le> unat (item + of_nat i - out)"
  shows "\<exists>s'. fat16_read_loop TheDisk item n (int off) sz out s = Some (0, s') \<and>
    stream_frame s s' \<and> fat_volume img s' \<and> stack_ok s' \<and>
    (\<forall>k < n * unat sz. mem s' (out + of_nat k) = file_byte img c (off + k div unat sz * unat sz) (k mod unat sz)) \<and>
    (\<forall>a. page_of a \<in> heap_pages (kernel_heap s) \<longrightarrow> n * unat sz \<le> unat (a - out) \<longrightarrow> mem s' a = mem s a)"
  using assms
proof (induction n arbitrary: off out s)
  case 0
  have "stream_frame s s" using fat_quiet_refl by (simp add: fat_quiet_def)
  with 0 show ?case by simp
next
  case (Suc n)
  let ?z = "unat sz"
  have z: "0 < ?z" using Suc.prems(3) by (simp add: word_less_nat_alt)
  have fb: "fat_buffer s out ?z" using Suc.prems(7) by (auto simp: fat_buffer_def)
  obtain s1 where s1: "fat16_read_internal TheDisk (int c) (int off) (int ?z) out s = Some (0, s1)"
      "stream_frame s s1" "fat_volume img s1" "stack_ok s1"
      "\<And>k. k < ?z \<Longrightarrow> mem s1 (out + of_nat k) = file_byte img c off k"
      "\<And>a. page_of a \<in> heap_pages (kernel_heap s) \<Longrightarrow> ?z \<le> unat (a - out) \<Longrightarrow> mem s1 a = mem s a"
    using fat16_read_internal_range [OF Suc.prems(1,2) z _ fb, of c off] Suc.prems(6) [of 0] by auto
  note fl = stream_frame_fields [OF s1(2)]
  have it: "mem s1 (item + of_nat i) = mem s (item + of_nat i)" if "i < 32" for i
    using Suc.prems(9) [OF that] by (intro s1(6)) auto
  have fc: "fat16_get_first_cluster (mem s1) item = of_nat c"
    using first_cluster_cong [of "mem s1" item "mem s"] it Suc.prems(4) by simp
  have rd: "fat_readable img c (off + ?z + i * ?z) ?z" if "i < n" for i
    using Suc.prems(6) [of "Suc i"] that by (simp add: add.assoc)
  have fb1: "fat_buffer s1 (out + of_nat ?z) (n * ?z)"
    using fat_buffer_drop [OF Suc.prems(7), of ?z] fl by (simp add: fat_buffer_def)
  have it1: "page_of (item + of_nat i) \<in> heap_pages (kernel_heap s1) \<and>
      n * ?z \<le> unat (item + of_nat i - (out + of_nat ?z))" if "i < 32" for i
    using Suc.prems(9) [OF that] fl(1) by (subst unat_diff_add) auto
  obtain s2 where s2: "fat16_read_loop TheDisk item n (int (off + ?z)) sz (out + of_nat ?z) s1 = Some (0, s2)"
      "stream_frame s1 s2" "fat_volume img s2" "stack_ok s2"
      "\<And>k. k < n * ?z \<Longrightarrow> mem s2 (out + of_nat ?z + of_nat k) = file_byte img c (off + ?z + k div ?z * ?z) (k mod ?z)"
      "\<And>a. page_of a \<in> heap_pages (kernel_heap s1) \<Longrightarrow> n * ?z \<le> unat (a - (out + of_nat ?z)) \<Longrightarrow> mem s2 a = mem s1 a"
    using Suc.IH [OF s1(3,4) Suc.prems(3) fc Suc.prems(5) rd fb1 _ it1] Suc.prems(8) by auto
  have "sint (of_nat c :: u32) = int c" "sint sz = int ?z"
    using Suc.prems(5,8) sint_of_nat_small [of c] sint_of_nat_small [of ?z] by auto
  moreover have "sint (word_of_int (int off) + sz) = int (off + ?z)"
    using sint_of_nat_small [of "off + ?z"] Suc.prems(8) by simp
  ultimately have run: "fat16_read_loop TheDisk item (Suc n) (int off) sz out s = Some (0, s2)"
    using s1(1) s2(1) Suc.prems(4) by simp
  have "mem s2 (out + of_nat k) = file_byte img c (off + k div ?z * ?z) (k mod ?z)" if "k < Suc n * ?z" for k
  proof (cases "k < ?z")
    case True
    have "mem s2 (out + of_nat k) = mem s1 (out + of_nat k)"
    proof (cases "n = 0")
      case False
      then have "Suc n * ?z - ?z \<le> unat (out + of_nat k - (out + of_nat ?z))"
        using True Suc.prems(7) z by (intro outside_before) (auto simp: fat_buffer_def)
      moreover have "page_of (out + of_nat k) \<in> heap_pages (kernel_heap s1)"
        using Suc.prems(7) that fl(1) by (simp add: fat_buffer_def)
      ultimately show ?thesis using s2(6) by simp
    qed (use s2(1) in simp)
    then show ?thesis using s1(5) [OF True] True by simp
  next
    case False
    then obtain j where j: "k = ?z + j" using nat_le_iff_add by (metis not_less)
    then show ?thesis
      using s2(5) [of j] that z by (simp add: add.assoc div_add_self1)
  qed
  moreover have "mem s2 a = mem s a" if "page_of a \<in> heap_pages (kernel_heap s)" "Suc n * ?z \<le> unat (a - out)" for a
    using s2(6) [of a] s1(6) [OF that(1)] that fl(1) unat_diff_add [of ?z a out] by simp
  ultimately show ?case
    using run s2(3,4) ds.same_trans [OF s1(2) s2(2)] by auto
qed



end
