(* ===== verification/FatMount.thy ===== *)
theory FatMount
  imports FatVolume
begin

text \<open>
  Mounting a FAT16 volume: \<open>fat16_resolve\<close> allocates the private data and its streams, reads
  the header and the root directory, or refuses a disk with another signature.
\<close>

section \<open>Mounting\<close>

lemma blocks_for_small: "0 < sz \<Longrightarrow> unat sz \<le> 4096 \<Longrightarrow> blocks_for sz = 1"
  unfolding blocks_for_def by (intro div_nat_eqI) (simp_all add: word_less_nat_alt)

text \<open>A zeroed object of at most one page, with the shape of the new state.\<close>

lemma kernel_zalloc_object:
  fixes s :: "'a kstate_scheme"
  assumes "heap_inv (kernel_heap s)" "0 < sz" "unat sz \<le> 4096" "0 < tail_room s"
  obtains p m h where "kernel_zalloc sz s = Some (p, s\<lparr>mem := m, kernel_heap := h\<rparr>)" "p \<noteq> 0" "page_aligned p"
    "grows s (s\<lparr>mem := m, kernel_heap := h\<rparr>)" "allocs h = insert (p, 1) (allocs (kernel_heap s))"
    "tail_room s \<le> Suc (free_tail (entries (table h)))" "free_page (kernel_heap s) (page_of p)"
    "page_of p \<in> live_pages h" "\<And>a. unat (a - p) < unat sz \<Longrightarrow> m a = 0"
proof -
  have one: "blocks_for sz = 1" using blocks_for_small [OF assms(2,3)] .
  obtain p s' where z: "kernel_zalloc sz s = Some (p, s')" "p \<noteq> 0" "page_aligned p" "grows s s'"
      "allocs (kernel_heap s') = insert (p, 1) (allocs (kernel_heap s))" "tail_room s \<le> tail_room s' + 1"
      "free_page (kernel_heap s) (page_of p)" "page_of p \<in> live_pages (kernel_heap s')"
      "\<And>a. unat (a - p) < unat sz \<Longrightarrow> mem s' a = 0"
  proof (rule kernel_zalloc_tail [OF assms(1,2)])
    fix p s'
    assume "kernel_zalloc sz s = Some (p, s')" "p \<noteq> 0" "page_aligned p" "grows s s'"
      "allocs (kernel_heap s') = insert (p, blocks_for sz) (allocs (kernel_heap s))"
      "tail_room s \<le> tail_room s' + blocks_for sz" "\<And>a. unat (a - p) < unat sz \<Longrightarrow> mem s' a = 0"
      and *: "\<And>i. i < 4096 * blocks_for sz \<Longrightarrow> page_of (p + of_nat i) = page_of p + i div 4096 \<and>
        free_page (kernel_heap s) (page_of (p + of_nat i)) \<and> page_of (p + of_nat i) \<in> live_pages (kernel_heap s')"
    moreover have "free_page (kernel_heap s) (page_of p)" "page_of p \<in> live_pages (kernel_heap s')"
      using * [of 0] one by auto
    ultimately show thesis using that [of p s'] one by simp
  qed (use assms one in auto)
  obtain m h where sh: "s' = s\<lparr>mem := m, kernel_heap := h\<rparr>" using kernel_zalloc_shape [OF z(1)] by blast
  show ?thesis
    by (rule that [of p h m]) (use z sh in \<open>auto simp: tail_room_def\<close>)
qed

lemma disk_stream_new_object:
  fixes s :: "'a disks_scheme"
  assumes "heap_inv (kernel_heap s)" "0 < tail_room s"
  obtains p m h where "disk_stream_new 0 s = Some (p, s\<lparr>mem := m, kernel_heap := h,
      streams := (streams s)(p \<mapsto> \<lparr>position = 0, stream_disk = TheDisk\<rparr>)\<rparr>)" "p \<noteq> 0" "page_aligned p"
    "grows s (s\<lparr>mem := m, kernel_heap := h\<rparr>)" "allocs h = insert (p, 1) (allocs (kernel_heap s))"
    "tail_room s \<le> Suc (free_tail (entries (table h)))" "free_page (kernel_heap s) (page_of p)"
    "page_of p \<in> live_pages h"
proof (rule kernel_zalloc_object [of s 8])
  fix p m h
  assume "kernel_zalloc 8 s = Some (p, s\<lparr>mem := m, kernel_heap := h\<rparr>)" "p \<noteq> 0" "page_aligned p"
    "grows s (s\<lparr>mem := m, kernel_heap := h\<rparr>)" "allocs h = insert (p, 1) (allocs (kernel_heap s))"
    "tail_room s \<le> Suc (free_tail (entries (table h)))" "free_page (kernel_heap s) (page_of p)"
    "page_of p \<in> live_pages h"
  then show thesis
    by (intro that [of p h m]) (simp_all add: disk_stream_new_def disk_get_def)
qed (use assms in auto)

text \<open>The entries of a directory that are in use, up to the first one that starts with 0.\<close>

definition used_items :: "(nat \<Rightarrow> byte) \<Rightarrow> nat \<Rightarrow> nat \<Rightarrow> nat" where
  "used_items img P n = length (filter (\<lambda>k. img (P + 32 * k) \<noteq> 0xE5) [0..<n])"

lemma used_items_Suc:
  "used_items img P (Suc n) = (if img P = 0xE5 then 0 else 1) + used_items img (P + 32) n"
proof -
  have *: "[0..<Suc n] = 0 # map Suc [0..<n]" by (simp add: map_Suc_upt upt_conv_Cons)
  show ?thesis by (simp only: used_items_def *) (simp add: filter_map comp_def add.assoc add.commute [of 32])
qed

lemma fat16_count_items_result:
  fixes s :: "'a fatfs_scheme"
  assumes "ata_drive img (device s)" "stack_ok s" "stream_position s st = Some (int P)"
    "\<And>k. k < n \<Longrightarrow> img (P + 32 * k) \<noteq> 0" "img (P + 32 * n) = 0" "P + 32 * Suc n < 2 ^ 31"
  shows "\<exists>s'. fat16_count_items st i s = Some (i + int (used_items img P n), s') \<and> fat_quiet s s'"
  using assms
proof (induction n arbitrary: P i s)
  let ?l = "\<lambda>s. local_addr s Local_item"
  have step: "\<exists>s'. disk_stream_read st (?l s) 32 s = Some (0, s') \<and> fat_quiet s s' \<and> mem s' (?l s') = img P \<and>
      ata_drive img (device s') \<and> stack_ok s' \<and> stream_position s' st = Some (int (P + 32))"
    if a: "ata_drive img (device s)" "stack_ok s" "stream_position s st = Some (int P)" "P + 32 < 2 ^ 31" for s P
  proof -
    obtain s' where s': "disk_stream_read st (?l s) 32 s = Some (0, s')" "ata_drive img (device s')"
        "stream_position s' = (stream_position s)(st \<mapsto> int P + 32)"
        "mem s' = write_bytes (?l s) (map img [nat (int P)..<nat (int P + 32)]) (mem s)" "stream_frame s s'"
      using ds.read_ok [OF a(1,3), of 32 "?l s"] a(4) by auto
    have q: "fat_quiet s s'"
      unfolding fat_quiet_def off_stack_def using s' stack_outside [OF a(2), of _ 32 Local_item]
      by (auto simp: write_bytes_outside nat_add_distrib)
    moreover have "mem s' (?l s') = img P"
      using s'(4) stream_frame_fat_fields(5) [OF s'(5)]
        write_bytes_inside [of 0 "map img [P..<P + 32]" "?l s" "mem s"] by (simp add: nat_add_distrib)
    ultimately show ?thesis using s' stack_ok_quiet [OF a(2) q] by simp
  qed
  {
    case 0
    then show ?case
      using step [of s P] by (subst fat16_count_items.simps) (auto simp: used_items_def)
  next
    case (Suc n)
    have "P + 32 < 2 ^ 31" using Suc.prems(6) by simp
    then obtain s1 where s1: "disk_stream_read st (?l s) 32 s = Some (0, s1)" "fat_quiet s s1" "mem s1 (?l s1) = img P"
        "ata_drive img (device s1)" "stack_ok s1" "stream_position s1 st = Some (int (P + 32))"
      using step [OF Suc.prems(1-3)] by blast
    have n0: "img P \<noteq> 0" using Suc.prems(4) [of 0] by simp
    have "\<exists>s'. fat16_count_items st j s1 = Some (j + int (used_items img (P + 32) n), s') \<and> fat_quiet s1 s'" for j
      using Suc.IH [OF s1(4,5,6)] Suc.prems(4) [of "Suc _"] Suc.prems(5,6) by (simp add: add.assoc)
    then obtain s2 where "fat16_count_items st (if img P = 0xE5 then i else i + 1) s1 =
        Some ((if img P = 0xE5 then i else i + 1) + int (used_items img (P + 32) n), s2)" "fat_quiet s1 s2"
      by blast
    then show ?case
      using s1(1,3) n0 fat_quiet_trans [OF s1(2), of s2]
      by (subst fat16_count_items.simps) (auto simp: used_items_Suc)
  }
qed

text \<open>The state in which \<open>fat16_resolve\<close> starts to read: the private data, its three streams and a fourth one.\<close>

definition fat_streams :: "fat_private \<Rightarrow> (addr \<times> nat) set" where
  "fat_streams fp = {(cluster_read_stream fp, 1), (fat_read_stream fp, 1), (directory_stream fp, 1)}"

definition fat_prepared :: "addr \<Rightarrow> addr \<Rightarrow> fat_private \<Rightarrow> 'a fatfs_scheme \<Rightarrow> 'a fatfs_scheme \<Rightarrow> bool" where
  "fat_prepared p r fp s s' \<longleftrightarrow>
     (\<exists>m h sts. s' = s\<lparr>mem := m, kernel_heap := h, streams := sts,
        fat_directories := (fat_directories s)(root_directory p \<mapsto>
          \<lparr>dir_item = 0, total_items = 0, sector_pos = 0, ending_sector_pos = 0\<rparr>),
        fat_privates := (fat_privates s)(p \<mapsto> fp),
        disk := (disk s)\<lparr>fs_private := p, filesystem := Fat16Filesystem\<rparr>\<rparr>) \<and>
     grows s s' \<and> tail_room s \<le> tail_room s' + 5 \<and> page_aligned p \<and> p \<noteq> 0 \<and> r \<noteq> 0 \<and>
     page_of p \<notin> live_pages (kernel_heap s) \<and>
     allocs (kernel_heap s') = allocs (kernel_heap s) \<union> {(p, 1), (r, 1)} \<union> fat_streams fp \<and>
     distinct [p, r, cluster_read_stream fp, fat_read_stream fp, directory_stream fp] \<and>
     ({(p, 1), (r, 1)} \<union> fat_streams fp) \<inter> allocs (kernel_heap s) = {} \<and> fat_read_stream fp \<noteq> 0 \<and>
     stream_position s' r = Some 0 \<and>
     (\<forall>st \<in> {cluster_read_stream fp, fat_read_stream fp, directory_stream fp}. stream_position s' st = Some 0)"

lemma grows_mem:
  assumes "grows s s'" "\<And>a. \<not> free_page (kernel_heap s) (page_of a) \<Longrightarrow> mem t a = mem s' a"
    "kernel_heap t = kernel_heap s'"
  shows "grows s t"
  using assms by (auto simp: grows_def)

lemma not_free_live: "n \<in> live_pages h \<Longrightarrow> \<not> free_page h n"
  by (simp add: free_page_def)

text \<open>Memory after at most \<open>k\<close> more pages have been taken.\<close>

definition grown :: "'a kstate_scheme \<Rightarrow> nat \<Rightarrow> 'a kstate_scheme \<Rightarrow> bool" where
  "grown s k t \<longleftrightarrow> grows s t \<and> tail_room s \<le> tail_room t + k \<and> allocs (kernel_heap s) \<subseteq> allocs (kernel_heap t)"

lemma grown_refl: "heap_inv (kernel_heap s) \<Longrightarrow> grown s 0 s"
  by (simp add: grown_def grows_def)

lemma grown_fields: "grown s k t \<Longrightarrow> kernel_heap t' = kernel_heap t \<Longrightarrow> mem t' = mem t \<Longrightarrow> grown s k t'"
  by (simp add: grown_def grows_def tail_room_def)

lemma disk_stream_new_step:
  fixes t :: "'a disks_scheme"
  assumes "grown s k t" "k < tail_room s"
  obtains p m h where "disk_stream_new 0 t = Some (p, t\<lparr>mem := m, kernel_heap := h,
      streams := (streams t)(p \<mapsto> \<lparr>position = 0, stream_disk = TheDisk\<rparr>)\<rparr>)"
    "grown s (Suc k) (t\<lparr>mem := m, kernel_heap := h\<rparr>)" "p \<noteq> 0"
    "allocs h = insert (p, 1) (allocs (kernel_heap t))" "(p, 1) \<notin> allocs (kernel_heap t)"
proof -
  have t: "heap_inv (kernel_heap t)" "0 < tail_room t" using assms by (auto simp: grown_def grows_def)
  obtain p m h where p: "disk_stream_new 0 t = Some (p, t\<lparr>mem := m, kernel_heap := h,
      streams := (streams t)(p \<mapsto> \<lparr>position = 0, stream_disk = TheDisk\<rparr>)\<rparr>)" "p \<noteq> 0"
    "grows t (t\<lparr>mem := m, kernel_heap := h\<rparr>)" "allocs h = insert (p, 1) (allocs (kernel_heap t))"
    "tail_room t \<le> Suc (free_tail (entries (table h)))" "free_page (kernel_heap t) (page_of p)"
    by (rule disk_stream_new_object [OF t], rule that) assumption+
  have "grown s (Suc k) (t\<lparr>mem := m, kernel_heap := h\<rparr>)"
    using assms(1) p(4,5) grows_trans [OF _ p(3)] by (auto simp: grown_def tail_room_def)
  moreover have "(p, 1) \<notin> allocs (kernel_heap t)"
    using live_pagesI [of p "kernel_heap t"] p(6) by (auto simp: free_page_def)
  ultimately show ?thesis using p(1,2,4) by (intro that [of p h m]) auto
qed

lemma fat16_resolve_prepare:
  fixes s :: "'a fatfs_scheme"
  assumes "heap_inv (kernel_heap s)" "5 \<le> tail_room s" "disk_id (disk s) = 0"
  obtains p r fp s' where "fat_prepared p r fp s s'"
    "fat16_resolve TheDisk s = do { (res, s) \<leftarrow> fat16_resolve_read TheDisk p r s'; Some (fat16_resolve_out p r res s) }"
proof -
  let ?z = "\<lparr>position = 0, stream_disk = TheDisk\<rparr>"
  let ?d0 = "\<lparr>dir_item = 0, total_items = 0, sector_pos = 0, ending_sector_pos = 0\<rparr>"
  obtain p m h where p: "kernel_zalloc 92 s = Some (p, s\<lparr>mem := m, kernel_heap := h\<rparr>)" "p \<noteq> 0" "page_aligned p"
    "grows s (s\<lparr>mem := m, kernel_heap := h\<rparr>)" "allocs h = insert (p, 1) (allocs (kernel_heap s))"
    "tail_room s \<le> Suc (free_tail (entries (table h)))" "free_page (kernel_heap s) (page_of p)"
    by (rule kernel_zalloc_object [of s 92]) (use assms in auto)
  define s1 where "s1 = s\<lparr>kernel_heap := h, mem := memset p 0 92 m,
      fat_directories := (fat_directories s)(root_directory p \<mapsto> ?d0)\<rparr>"
  have "memset p 0 92 m a = m a" if "\<not> free_page (kernel_heap s) (page_of a)" for a
    using that p(7) in_page_iff [OF p(3), of a] by (auto simp: memset_apply)
  then have "grows s s1"
    by (intro grows_mem [OF p(4)]) (auto simp: s1_def)
  then have g1: "grown s 1 s1" using p(5,6) by (auto simp: grown_def s1_def tail_room_def)
  obtain a m2 h2 where a: "disk_stream_new 0 s1 = Some (a, s1\<lparr>mem := m2, kernel_heap := h2, streams := (streams s1)(a \<mapsto> ?z)\<rparr>)"
      "grown s (Suc 1) (s1\<lparr>mem := m2, kernel_heap := h2\<rparr>)" "a \<noteq> 0"
      "allocs h2 = insert (a, 1) (allocs (kernel_heap s1))" "(a, 1) \<notin> allocs (kernel_heap s1)"
    by (rule disk_stream_new_step [OF g1], use assms(2) in simp, rule that) assumption+
  define s2 where "s2 = s1\<lparr>mem := m2, kernel_heap := h2, streams := (streams s1)(a \<mapsto> ?z)\<rparr>"
  have g2: "grown s 2 s2" using grown_fields [OF a(2), of s2] by (simp add: s2_def numeral_2_eq_2)
  obtain b m3 h3 where b: "disk_stream_new 0 s2 = Some (b, s2\<lparr>mem := m3, kernel_heap := h3, streams := (streams s2)(b \<mapsto> ?z)\<rparr>)"
      "grown s (Suc 2) (s2\<lparr>mem := m3, kernel_heap := h3\<rparr>)" "b \<noteq> 0"
      "allocs h3 = insert (b, 1) (allocs (kernel_heap s2))" "(b, 1) \<notin> allocs (kernel_heap s2)"
    by (rule disk_stream_new_step [OF g2], use assms(2) in simp, rule that) assumption+
  define s3 where "s3 = s2\<lparr>mem := m3, kernel_heap := h3, streams := (streams s2)(b \<mapsto> ?z)\<rparr>"
  have g3: "grown s 3 s3" using grown_fields [OF b(2), of s3] by (simp add: s3_def)
  obtain c m4 h4 where c: "disk_stream_new 0 s3 = Some (c, s3\<lparr>mem := m4, kernel_heap := h4, streams := (streams s3)(c \<mapsto> ?z)\<rparr>)"
      "grown s (Suc 3) (s3\<lparr>mem := m4, kernel_heap := h4\<rparr>)" "c \<noteq> 0"
      "allocs h4 = insert (c, 1) (allocs (kernel_heap s3))" "(c, 1) \<notin> allocs (kernel_heap s3)"
    by (rule disk_stream_new_step [OF g3], use assms(2) in simp, rule that) assumption+
  let ?fp = "\<lparr>cluster_read_stream = a, fat_read_stream = b, directory_stream = c\<rparr>"
  define s4 where "s4 = s3\<lparr>mem := m4, kernel_heap := h4, streams := (streams s3)(c \<mapsto> ?z),
      fat_privates := (fat_privates s)(p \<mapsto> ?fp), disk := (disk s)\<lparr>fs_private := p, filesystem := Fat16Filesystem\<rparr>\<rparr>"
  have g4: "grown s 4 s4" using grown_fields [OF c(2), of s4] by (simp add: s4_def)
  obtain r m5 h5 where r: "disk_stream_new 0 s4 = Some (r, s4\<lparr>mem := m5, kernel_heap := h5, streams := (streams s4)(r \<mapsto> ?z)\<rparr>)"
      "grown s (Suc 4) (s4\<lparr>mem := m5, kernel_heap := h5\<rparr>)" "r \<noteq> 0"
      "allocs h5 = insert (r, 1) (allocs (kernel_heap s4))" "(r, 1) \<notin> allocs (kernel_heap s4)"
    by (rule disk_stream_new_step [OF g4], use assms(2) in simp, rule that) assumption+
  define s5 where "s5 = s4\<lparr>mem := m5, kernel_heap := h5, streams := (streams s4)(r \<mapsto> ?z)\<rparr>"
  have g5: "grown s 5 s5" using grown_fields [OF r(2), of s5] by (simp add: s5_def)
  have "fat16_init_private TheDisk p (s\<lparr>mem := m, kernel_heap := h\<rparr>) = Some (s4\<lparr>disk := disk s\<rparr>)"
    using p(2) a(1) b(1) c(1) assms(3)
    by (simp add: fat16_init_private_def disk_of_def s1_def s2_def s3_def s4_def)
  then have run: "fat16_resolve TheDisk s = do { (res, s) \<leftarrow> fat16_resolve_read TheDisk p r s5; Some (fat16_resolve_out p r res s) }"
    using p(1) r(1,3) assms(3)
    by (simp add: fat16_resolve_def s5_def s4_def)
  have new: "(p, 1) \<notin> allocs (kernel_heap s)"
    using live_pagesI [of p "kernel_heap s"] p(7) by (auto simp: free_page_def)
  have al: "allocs h5 = allocs (kernel_heap s) \<union> {(p, 1), (r, 1)} \<union> fat_streams ?fp" "distinct [p, r, a, b, c]"
      "({(p, 1), (r, 1)} \<union> fat_streams ?fp) \<inter> allocs (kernel_heap s) = {}"
    using new p(5) a(4,5) b(4,5) c(4,5) r(4,5) by (auto simp: s1_def s2_def s3_def s4_def fat_streams_def)
  have "fat_prepared p r ?fp s s5"
    unfolding fat_prepared_def
  proof (intro conjI)
    show "\<exists>m h sts. s5 = s\<lparr>mem := m, kernel_heap := h, streams := sts,
        fat_directories := (fat_directories s)(root_directory p \<mapsto> ?d0),
        fat_privates := (fat_privates s)(p \<mapsto> ?fp),
        disk := (disk s)\<lparr>fs_private := p, filesystem := Fat16Filesystem\<rparr>\<rparr>"
      by (rule exI [of _ m5], rule exI [of _ h5], rule exI [of _ "(streams s)(a \<mapsto> ?z, b \<mapsto> ?z, c \<mapsto> ?z, r \<mapsto> ?z)"])
         (simp add: s5_def s4_def s3_def s2_def s1_def)
  qed (use g5 p(2,3) not_free_live [of "page_of p" "kernel_heap s"] p(7) al a(3) b(3) r(3) in \<open>auto simp: grown_def s5_def s4_def s3_def s2_def stream_position_def\<close>)
  then show ?thesis using run by (rule that)
qed


text \<open>
  A FAT16 volume whose root directory ends, with the number of entries before its end, and all
  positions within the range of a stream.
\<close>

definition fat_image :: "(nat \<Rightarrow> byte) \<Rightarrow> nat \<Rightarrow> bool" where
  "fat_image img n \<longleftrightarrow> img 38 = 0x29 \<and> 0 < vol_entries img \<and>
     (\<forall>k < n. img (512 * vol_root_sector img + 32 * k) \<noteq> 0) \<and> img (512 * vol_root_sector img + 32 * n) = 0 \<and>
     512 * vol_root_sector img + 32 * Suc n < 2 ^ 31 \<and> 512 * vol_root_sector img + 32 * vol_entries img < 2 ^ 31"

definition root_size :: "(nat \<Rightarrow> byte) \<Rightarrow> u32" where "root_size img = of_nat (32 * vol_entries img)"

text \<open>The root directory in memory: the bytes of the image in live pages.\<close>

definition fat_root :: "(nat \<Rightarrow> byte) \<Rightarrow> nat \<Rightarrow> 'a fatfs_scheme \<Rightarrow> bool" where
  "fat_root img n s \<longleftrightarrow> (\<exists>root. fat_directories s (root_directory (fs_private (disk s))) = Some root \<and>
     total_items root = int (used_items img (512 * vol_root_sector img) n) \<and>
     sector_pos root = int (vol_root_sector img) \<and> ending_sector_pos root = int (vol_data_sector img) \<and>
     (\<forall>i < 32 * vol_entries img. page_of (dir_item root + of_nat i) \<in> live_pages (kernel_heap s)) \<and>
     mem_bytes (mem s) (dir_item root) (32 * vol_entries img) =
       map img [512 * vol_root_sector img..<512 * vol_root_sector img + 32 * vol_entries img])"

lemma live_pages_mono: "allocs h \<subseteq> allocs h' \<Longrightarrow> live_pages h \<subseteq> live_pages h'"
  unfolding live_pages_def by blast

text \<open>Memory that mounting leaves alone: what is allocated, and what is neither heap nor stack.\<close>

definition steady :: "'a fatfs_scheme \<Rightarrow> addr \<Rightarrow> bool" where
  "steady s a \<longleftrightarrow> page_of a \<in> live_pages (kernel_heap s) \<or> page_of a \<notin> heap_pages (kernel_heap s) \<and> off_stack s a"

definition root_alloc :: "(nat \<Rightarrow> byte) \<Rightarrow> addr \<Rightarrow> 'a fatfs_scheme \<Rightarrow> bool" where
  "root_alloc img p s \<longleftrightarrow> (\<exists>root. fat_directories s (root_directory p) = Some root \<and>
     (dir_item root, blocks_for (root_size img)) \<in> allocs (kernel_heap s))"

lemma vol_entries_less: "vol_entries img < 65536"
  using unat_byte_less [of "img 17"] unat_byte_less [of "img 18"] by (simp add: vol_entries_def img16_def)

lemma root_size: "unat (root_size img) = 32 * vol_entries img" "0 < vol_entries img \<Longrightarrow> 0 < root_size img"
  "unat (root_size img) \<le> 2 ^ 32 - 4096" "32 * vol_entries img \<le> 4096 * blocks_for (root_size img)"
proof -
  show u: "unat (root_size img) = 32 * vol_entries img"
    using vol_entries_less [of img] unfolding root_size_def
    by (simp only: unat_of_nat) (simp add: take_bit_nat_eq_self)
  show "0 < root_size img" if "0 < vol_entries img" using that u by (simp add: word_less_nat_alt)
  show "unat (root_size img) \<le> 2 ^ 32 - 4096" using vol_entries_less [of img] u by simp
  show "32 * vol_entries img \<le> 4096 * blocks_for (root_size img)" by (simp add: blocks_for_def u)
qed

lemma fat16_get_total_items_result:
  fixes s :: "'a fatfs_scheme"
  assumes "ata_drive img (device s)" "stack_ok s" "sector_size (disk s) = 512"
    "fat_privates s (fs_private (disk s)) = Some fp" "stream_position s (directory_stream fp) \<noteq> None"
    "\<And>k. k < n \<Longrightarrow> img (512 * sec + 32 * k) \<noteq> 0" "img (512 * sec + 32 * n) = 0" "512 * sec + 32 * Suc n < 2 ^ 31"
  obtains s' where "fat16_get_total_items_for_directory TheDisk (of_nat sec) s =
      Some (int (used_items img (512 * sec) n), s')" "fat_quiet s s'"
proof -
  have pos: "sint (of_nat sec * word_of_int 512 :: u32) = int (512 * sec)"
  proof -
    have "of_nat sec * word_of_int 512 = (of_nat (512 * sec) :: u32)" by simp
    then show ?thesis using assms(8) by (simp only: sint_of_nat_small)
  qed
  obtain q where q: "stream_position s (directory_stream fp) = Some q" using assms(5) by auto
  obtain s1 where s1: "disk_stream_seek (directory_stream fp) (int (512 * sec)) s = Some (0, s1)"
      "ata_drive img (device s1)" "stream_position s1 = (stream_position s)(directory_stream fp \<mapsto> int (512 * sec))"
      "mem s1 = mem s" "stream_frame s s1"
    using ds.seek_ok [OF assms(1) q] by blast
  have q1: "fat_quiet s s1" using s1 by (simp add: fat_quiet_def)
  have at: "stream_position s1 (directory_stream fp) = Some (int (512 * sec))" using s1(3) by simp
  obtain s2 where "fat16_count_items (directory_stream fp) 0 s1 = Some (int (used_items img (512 * sec) n), s2)"
      "fat_quiet s1 s2"
    using fat16_count_items_result [OF s1(2) stack_ok_quiet [OF assms(2) q1] at assms(6-8), of 0] by auto
  then show ?thesis
    using s1(1) pos assms(3,4) fat_quiet_trans [OF q1]
    by (intro that [of s2]) (simp_all add: fat16_get_total_items_for_directory_def disk_of_def)
qed

lemma fat_quiet_heap:
  assumes "fat_quiet s s'"
  shows "kernel_heap s' = kernel_heap s" "disk s' = disk s" "device s' = device s" "fat_privates s' = fat_privates s"
    "fat_directories s' = fat_directories s" "local_addr s' = local_addr s" "tail_room s' = tail_room s"
  using assms stream_frame_fields [of s s'] stream_frame_fat_fields [of s s']
  by (auto simp: fat_quiet_def tail_room_def)

text \<open>What \<open>fat16_get_root_directory\<close> needs: an open volume whose header has been read.\<close>

definition fat_header_loaded :: "(nat \<Rightarrow> byte) \<Rightarrow> addr \<Rightarrow> fat_private \<Rightarrow> 'a fatfs_scheme \<Rightarrow> bool" where
  "fat_header_loaded img p fp s \<longleftrightarrow> ata_drive img (device s) \<and> stack_ok s \<and> heap_inv (kernel_heap s) \<and>
     sector_size (disk s) = 512 \<and> fs_private (disk s) = p \<and> page_aligned p \<and> (p, 1) \<in> allocs (kernel_heap s) \<and>
     mem_bytes (mem s) p 62 = map img [0..<62] \<and> fat_privates s p = Some fp \<and> fat_read_stream fp \<noteq> 0 \<and>
     (\<forall>st \<in> {cluster_read_stream fp, fat_read_stream fp, directory_stream fp}. stream_position s st \<noteq> None)"

lemma fat16_get_root_directory_result:
  fixes s :: "'a fatfs_scheme"
  assumes "fat_header_loaded img p fp s" "fat_image img n" "blocks_for (root_size img) \<le> tail_room s"
  obtains s' where "fat16_get_root_directory TheDisk p (root_directory p) s = Some (0, s')"
    "fat_header_loaded img p fp s'" "fat_root img n s'" "root_alloc img p s'"
    "tail_room s \<le> tail_room s' + blocks_for (root_size img)"
    "allocs (kernel_heap s) \<subseteq> allocs (kernel_heap s')" "heap_pages (kernel_heap s') = heap_pages (kernel_heap s)"
    "\<exists>log m h sts dirs. s' = s\<lparr>io_log := log, mem := m, kernel_heap := h, streams := sts, fat_directories := dirs\<rparr>"
    "\<And>st. stream_position s st \<noteq> None \<Longrightarrow> stream_position s' st \<noteq> None"
    "\<And>a. steady s a \<Longrightarrow> mem s' a = mem s a"
    "\<And>root. fat_directories s' (root_directory p) = Some root \<Longrightarrow> page_of (dir_item root) \<notin> live_pages (kernel_heap s)"
proof -
  note hl = assms(1) [unfolded fat_header_loaded_def] and im = assms(2) [unfolded fat_image_def]
  let ?R = "vol_root_sector img" and ?N = "32 * vol_entries img"
  have hdr: "mem_bytes (mem s) p 62 = map img [0..<62]" using hl by blast
  have rs: "uint (fat_copies (mem s) p) * uint (sectors_per_fat (mem s) p) + uint (reserved_sectors (mem s) p) = int ?R"
    "uint (root_dir_entries (mem s) p) * 32 = int ?N"
    by (simp_all only: uint_nat fat_header_fields(4) [OF hdr] fat_header_fields(6) [OF hdr, symmetric] of_nat_mult of_nat_add
        of_nat_numeral mult.commute)
  obtain s1 where s1: "fat16_get_total_items_for_directory TheDisk (of_nat ?R) s = Some (int (used_items img (512 * ?R) n), s1)"
      "fat_quiet s s1"
    by (rule fat16_get_total_items_result [of img s fp n ?R]) (use hl im in auto)
  note q1 = fat_quiet_heap [OF s1(2)]
  have inv1: "heap_inv (kernel_heap s1)" "blocks_for (root_size img) \<le> tail_room s1"
    using hl q1 assms(3) by auto
  obtain dir s2 where z: "kernel_zalloc (root_size img) s1 = Some (dir, s2)" "dir \<noteq> 0" "page_aligned dir" "grows s1 s2"
      "allocs (kernel_heap s2) = insert (dir, blocks_for (root_size img)) (allocs (kernel_heap s1))"
      "\<And>i. i < 4096 * blocks_for (root_size img) \<Longrightarrow> free_page (kernel_heap s1) (page_of (dir + of_nat i))"
      "tail_room s1 \<le> tail_room s2 + blocks_for (root_size img)"
  proof (rule kernel_zalloc_tail [OF inv1(1) root_size(2,3) inv1(2)])
    show "0 < vol_entries img" using im by blast
  qed (use that in blast)
  obtain m h where sh2: "s2 = s1\<lparr>mem := m, kernel_heap := h\<rparr>" using kernel_zalloc_shape [OF z(1)] by blast
  have pos2: "stream_position s2 = stream_position s1" by (simp add: sh2 stream_position_def fun_eq_iff)
  obtain q where q: "stream_position s2 (directory_stream fp) = Some q"
    using hl s1(2) pos2 by (auto simp: fat_quiet_def)
  obtain s3 s4 where s4: "disk_stream_seek (directory_stream fp) (int (512 * ?R)) s2 = Some (0, s3)"
      "disk_stream_read (directory_stream fp) dir (int ?N) s3 = Some (0, s4)"
      "stream_position s4 = (stream_position s2)(directory_stream fp \<mapsto> int (512 * ?R) + int ?N)"
      "mem s4 = write_bytes dir (map img [nat (int (512 * ?R))..<nat (int (512 * ?R) + int ?N)]) (mem s2)" "stream_frame s2 s4"
    by (rule ds.read_at [of img s2 "directory_stream fp" q "int (512 * ?R)" "int ?N" dir])
       (use hl im q q1 sh2 in auto)
  let ?bs = "map img [512 * ?R..<512 * ?R + ?N]"
  have m4: "mem s4 = write_bytes dir ?bs (mem s2)"
    using s4(4) by (simp add: nat_add_distrib nat_mult_distrib)
  let ?d = "\<lparr>dir_item = dir, total_items = int (used_items img (512 * ?R) n), sector_pos = int ?R,
      ending_sector_pos = int ?R + int ?N sdiv 512\<rparr>"
  define s5 where "s5 = s4\<lparr>fat_directories := (fat_directories s4)(root_directory p \<mapsto> ?d)\<rparr>"
  have N: "?N \<le> 4096 * blocks_for (root_size img)" "?N < 2 ^ 32"
    using root_size(4) vol_entries_less [of img] by auto
  have keep: "mem s5 a = mem s a" if "steady s a" for a
  proof -
    have nf: "\<not> free_page (kernel_heap s1) (page_of a)" using that q1(1) by (auto simp: steady_def free_page_def)
    have "?N \<le> unat (a - dir)"
    proof (rule ccontr)
      assume "\<not> ?N \<le> unat (a - dir)"
      then have "free_page (kernel_heap s1) (page_of (dir + of_nat (unat (a - dir))))" using N by (intro z(6)) simp
      with nf show False by simp
    qed
    then have "mem s5 a = mem s2 a" by (simp add: s5_def m4 write_bytes_outside)
    also have "\<dots> = mem s1 a" using z(4) nf by (simp add: grows_def)
    also have "\<dots> = mem s a"
      using s1(2) that live_pages_heap_pages [of "kernel_heap s"] hl by (auto simp: steady_def fat_quiet_def)
    finally show ?thesis .
  qed
  note f4 = stream_frame_fields [OF s4(5)] stream_frame_fat_fields [OF s4(5)]
  have heaps: "kernel_heap s5 = h" "allocs (kernel_heap s) \<subseteq> allocs h" "heap_inv h" "heap_pages h = heap_pages (kernel_heap s)"
    using z(4,5) q1 f4 by (auto simp: s5_def sh2 grows_def)
  have "stream_position s5 = stream_position s4" by (simp add: s5_def stream_position_def fun_eq_iff)
  then have st: "stream_position s5 q \<noteq> None" if "stream_position s q \<noteq> None" for q
    using that s1(2) s4(3) pos2 by (auto simp: fat_quiet_def)
  have run: "fat16_get_root_directory TheDisk p (root_directory p) s = Some (0, s5)"
    using hl q1 s1(1) z(1,2) s4(1,2) rs f4
    by (simp add: fat16_get_root_directory_def disk_of_def Let_def s5_def sh2 root_size_def fat16_sectore_to_absolute_def
       mult.commute)
  have hdr5: "mem_bytes (mem s5) p 62 = map img [0..<62]"
  proof -
    have "mem s5 (p + of_nat i) = mem s (p + of_nat i)" if "i < 62" for i
      using hl page_of_add [of p i] live_pagesI [of p "kernel_heap s"] that by (intro keep) (auto simp: steady_def)
    then have "mem_bytes (mem s5) p 62 = mem_bytes (mem s) p 62" by (intro mem_bytes_eqI) simp_all
    then show ?thesis using hdr by simp
  qed
  have shape: "\<exists>log m h sts dirs. s5 = s\<lparr>io_log := log, mem := m, kernel_heap := h, streams := sts, fat_directories := dirs\<rparr>"
  proof -
    obtain log1 m1 sts1 where "s1 = s\<lparr>io_log := log1, mem := m1, streams := sts1\<rparr>"
      using s1(2) by (auto simp: fat_quiet_def stream_frame_def)
    moreover obtain log2 m2 sts2 where "s4 = s2\<lparr>io_log := log2, mem := m2, streams := sts2\<rparr>"
      using s4(5) by (auto simp: stream_frame_def)
    ultimately have "s5 = s\<lparr>io_log := log2, mem := m2, kernel_heap := h, streams := sts2,
        fat_directories := fat_directories s5\<rparr>" by (simp add: s5_def sh2)
    then show ?thesis by blast
  qed
  have root: "fat_root img n s5"
    unfolding fat_root_def
  proof (intro exI conjI)
    show "fat_directories s5 (root_directory (fs_private (disk s5))) = Some ?d"
      using hl f4 q1 by (simp add: s5_def sh2)
    show "mem_bytes (mem s5) (dir_item ?d) ?N = ?bs"
      using mem_bytes_write_bytes [of ?bs dir "mem s2"] N(2) by (simp add: s5_def m4)
    show "ending_sector_pos ?d = int (vol_data_sector img)"
      using int_sdiv_smod(1) [of ?N 512] by (simp add: vol_data_sector_def)
    show "\<forall>i < ?N. page_of (dir_item ?d + of_nat i) \<in> live_pages (kernel_heap s5)"
      using z(5) heaps(1,3) sh2 N(1) by (auto intro!: alloc_region(2) [of _ _ "blocks_for (root_size img)"])
  qed auto
  have al: "root_alloc img p s5" using z(5) heaps(1) sh2 by (simp add: root_alloc_def s5_def)
  have room: "tail_room s \<le> tail_room s5 + blocks_for (root_size img)"
    using z(7) q1(7) heaps(1) sh2 by (simp add: tail_room_def)
  have "fat_header_loaded img p fp s5"
    unfolding fat_header_loaded_def using hl hdr5 heaps st f4 q1
    by (auto simp: s5_def sh2 stack_ok_def)
  moreover have "page_of dir \<notin> live_pages (kernel_heap s)"
    using z(6) [of 0] q1(1) blocks_for_pos [of "root_size img"] root_size(2) [of img] im
    by (auto simp: free_page_def)
  ultimately show ?thesis
    using run root al room heaps(1,2,4) shape st keep by (intro that [of s5]) (auto simp: s5_def)
qed


text \<open>What mounting may change: the disk, streams, its own objects and memory that was not allocated.\<close>

definition fat_resolve_frame :: "'a fatfs_scheme \<Rightarrow> 'a fatfs_scheme \<Rightarrow> bool" where
  "fat_resolve_frame s s' \<longleftrightarrow> (\<exists>log m h sts dk privs dirs. s' = s\<lparr>io_log := log, mem := m, kernel_heap := h,
       streams := sts, disk := dk, fat_privates := privs, fat_directories := dirs\<rparr>) \<and>
     allocs (kernel_heap s) \<subseteq> allocs (kernel_heap s') \<and> heap_pages (kernel_heap s') = heap_pages (kernel_heap s) \<and>
     (\<forall>a. steady s a \<longrightarrow> mem s' a = mem s a)"

lemma steady_trans:
  assumes "allocs (kernel_heap s) \<subseteq> allocs (kernel_heap t)" "heap_pages (kernel_heap t) = heap_pages (kernel_heap s)"
    "local_addr t = local_addr s" "steady s a"
  shows "steady t a"
  using assms live_pages_mono [OF assms(1)] by (auto simp: steady_def off_stack_def)

lemma fat_resolve_frame_trans:
  assumes "fat_resolve_frame s t" "fat_resolve_frame t u"
  shows "fat_resolve_frame s u"
proof -
  have "\<exists>log m h sts dk privs dirs. u = s\<lparr>io_log := log, mem := m, kernel_heap := h,
       streams := sts, disk := dk, fat_privates := privs, fat_directories := dirs\<rparr>"
    using assms unfolding fat_resolve_frame_def by (elim conjE exE) (intro exI, simp)
  then show ?thesis
    using assms steady_trans [of s t] unfolding fat_resolve_frame_def by auto
qed

text \<open>A mounted volume.\<close>

definition fat_mounted :: "(nat \<Rightarrow> byte) \<Rightarrow> nat \<Rightarrow> 'a fatfs_scheme \<Rightarrow> bool" where
  "fat_mounted img n s \<longleftrightarrow> filesystem (disk s) = Fat16Filesystem \<and> fat_volume img s \<and> fat_root img n s \<and> stack_ok s"

lemma fat_prepared_header:
  fixes s :: "'a fatfs_scheme"
  assumes "fat_prepared p r fp s s1" "ata_drive img (device s)" "sector_size (disk s) = 512" "stack_ok s"
  obtains s2 where "disk_stream_read r p 62 s1 = Some (0, s2)" "fat_header_loaded img p fp s2"
    "stream_frame s1 s2" "stream_position s2 = (stream_position s1)(r \<mapsto> 62)"
    "fat_resolve_frame s s2"
proof -
  note fp = assms(1) [unfolded fat_prepared_def]
  have d1: "device s1 = device s" "sector_size (disk s1) = 512" "local_addr s1 = local_addr s"
      "fs_private (disk s1) = p" "fat_privates s1 p = Some fp"
    using fp assms(3) by auto
  have h1: "heap_inv (kernel_heap s1)" "heap_pages (kernel_heap s1) = heap_pages (kernel_heap s)"
    using fp by (auto simp: grows_def)
  obtain s2 where s2: "disk_stream_read r p 62 s1 = Some (0, s2)" "ata_drive img (device s2)"
      "stream_position s2 = (stream_position s1)(r \<mapsto> 62)" "mem s2 = write_bytes p (map img [0..<62]) (mem s1)"
      "stream_frame s1 s2"
    using ds.read_ok [of img s1 r 0 62 p] fp assms(2) d1 by auto
  note f2 = stream_frame_fields [OF s2(5)] stream_frame_fat_fields [OF s2(5)]
  have "mem_bytes (mem s2) p 62 = map img [0..<62]"
    using mem_bytes_write_bytes [of "map img [0..<62]" p "mem s1"] s2(4) by simp
  then have "fat_header_loaded img p fp s2"
    unfolding fat_header_loaded_def using fp d1 h1 f2 s2 assms(4) by (auto simp: stack_ok_def)
  moreover have "fat_resolve_frame s s2"
    unfolding fat_resolve_frame_def
  proof (intro conjI allI impI)
    obtain m h sts dirs privs dk where "s1 = s\<lparr>mem := m, kernel_heap := h, streams := sts,
        fat_directories := dirs, fat_privates := privs, disk := dk\<rparr>"
      using conjunct1 [OF fp] by (elim exE) (rule that)
    moreover obtain log m' sts' where "s2 = s1\<lparr>io_log := log, mem := m', streams := sts'\<rparr>"
      using s2(5) by (auto simp: stream_frame_def)
    ultimately have "s2 = s\<lparr>io_log := log, mem := m', kernel_heap := h, streams := sts', disk := dk,
        fat_privates := privs, fat_directories := dirs\<rparr>" by (cases s) simp
    then show "\<exists>log m h sts dk privs dirs. s2 = s\<lparr>io_log := log, mem := m, kernel_heap := h,
       streams := sts, disk := dk, fat_privates := privs, fat_directories := dirs\<rparr>" by blast
    show "allocs (kernel_heap s) \<subseteq> allocs (kernel_heap s2)" using fp f2(1) by auto
    show "heap_pages (kernel_heap s2) = heap_pages (kernel_heap s)" using h1(2) f2(1) by simp
    show "mem s2 a = mem s a" if a: "steady s a" for a
    proof -
      have nf: "\<not> free_page (kernel_heap s) (page_of a)" using a by (auto simp: steady_def free_page_def)
      have "free_page (kernel_heap s) (page_of p)"
        using fp h1 allocs_heap_pages [of "kernel_heap s1" p 1] by (auto simp: free_page_def)
      with nf have "page_of a \<noteq> page_of p" by metis
      then have "62 \<le> unat (a - p)" using in_page_iff [of p a] fp by auto
      then have "mem s2 a = mem s1 a" using s2(4) by (simp add: write_bytes_outside)
      also have "\<dots> = mem s a" using fp nf by (simp add: grows_def)
      finally show ?thesis .
    qed
  qed
  ultimately show ?thesis using s2 by (intro that [of s2])
qed

lemma disk_stream_close_volume:
  fixes s :: "'a fatfs_scheme"
  assumes "fat_header_loaded img p fp s" "fat_root img n s" "root_alloc img p s" "(r, 1) \<in> allocs (kernel_heap s)" "r \<noteq> p"
    "r \<notin> {cluster_read_stream fp, fat_read_stream fp, directory_stream fp}"
    "\<And>root. fat_directories s (root_directory p) = Some root \<Longrightarrow> dir_item root \<noteq> r"
  shows "fat_volume img (disk_stream_close r s)" "fat_root img n (disk_stream_close r s)"
    "stack_ok (disk_stream_close r s)" "disk (disk_stream_close r s) = disk s"
    "device (disk_stream_close r s) = device s"
proof -
  let ?c = "disk_stream_close r s"
  note hl = assms(1) [unfolded fat_header_loaded_def]
  have f: "kernel_heap ?c = heap_free (kernel_heap s) r" "mem ?c = mem s" "fat_privates ?c = fat_privates s"
      "fat_directories ?c = fat_directories s" "streams ?c = (streams s)(r := None)"
      "local_addr ?c = local_addr s"
    by (simp_all add: disk_stream_close_def kernel_free_def)
  show d: "disk ?c = disk s" "device ?c = device s" by (simp_all add: disk_stream_close_def kernel_free_def)
  have al: "heap_inv (kernel_heap ?c)" "allocs (kernel_heap ?c) = allocs (kernel_heap s) - {(r, 1)}"
    using heap_free_inv [of "kernel_heap s" r 1] hl assms(4) by (auto simp: f)
  have st: "stream_position ?c q = stream_position s q" if "q \<noteq> r" for q
    using that by (simp add: stream_position_def f)
  have "(p, 1) \<in> allocs (kernel_heap ?c)" using al hl assms(5) by auto
  then have lp: "page_of p \<in> live_pages (kernel_heap ?c)" by (rule live_pagesI)
  obtain root where root: "fat_directories s (root_directory p) = Some root" "(dir_item root, blocks_for (root_size img)) \<in> allocs (kernel_heap s)"
    using assms(3) by (auto simp: root_alloc_def)
  have "(dir_item root, blocks_for (root_size img)) \<in> allocs (kernel_heap ?c)"
    using root assms(7) [OF root(1)] al(2) by auto
  then have "page_of (dir_item root + of_nat i) \<in> live_pages (kernel_heap ?c)" if "i < 32 * vol_entries img" for i
    using alloc_region(2) [OF al(1)] root_size(4) [of img] that by auto
  then show "fat_root img n ?c"
    using assms(2) hl root(1) unfolding fat_root_def by (auto simp: f d)
  obtain root' where "fat_directories s (root_directory p) = Some root'" "ending_sector_pos root' = int (vol_data_sector img)"
    using assms(2) hl by (auto simp: fat_root_def)
  then show "fat_volume img ?c"
    unfolding fat_volume_def using hl al lp st assms(6) by (auto simp: f d)
  show "stack_ok ?c" using hl by (simp add: stack_ok_def f)
qed

lemma fat16_resolve_read_result:
  fixes s :: "'a fatfs_scheme"
  assumes "fat_prepared p r fp s s1" "ata_drive img (device s)" "sector_size (disk s) = 512" "stack_ok s"
    "fat_image img n" "5 + blocks_for (root_size img) \<le> tail_room s"
  obtains s2 where "fat16_resolve_read TheDisk p r s1 = Some (0, s2)" "fat_header_loaded img p fp s2"
    "fat_root img n s2" "root_alloc img p s2" "allocs (kernel_heap s1) \<subseteq> allocs (kernel_heap s2)"
    "tail_room s1 \<le> tail_room s2 + blocks_for (root_size img)" "filesystem (disk s2) = Fat16Filesystem"
    "disk_id (disk s2) = disk_id (disk s)" "fat_resolve_frame s s2"
    "\<And>root. fat_directories s2 (root_directory p) = Some root \<Longrightarrow> page_of (dir_item root) \<notin> live_pages (kernel_heap s1)"
proof -
  obtain s3 where s3: "disk_stream_read r p 62 s1 = Some (0, s3)" "fat_header_loaded img p fp s3" "stream_frame s1 s3"
      "fat_resolve_frame s s3"
    by (rule fat_prepared_header [OF assms(1-4)])
  note f3 = stream_frame_fields [OF s3(3)]
  have room: "blocks_for (root_size img) \<le> tail_room s3"
    using assms(1,6) f3(1) by (auto simp: fat_prepared_def tail_room_def)
  obtain s2 where s2: "fat16_get_root_directory TheDisk p (root_directory p) s3 = Some (0, s2)"
      "fat_header_loaded img p fp s2" "fat_root img n s2" "root_alloc img p s2" "allocs (kernel_heap s3) \<subseteq> allocs (kernel_heap s2)"
      "tail_room s3 \<le> tail_room s2 + blocks_for (root_size img)" "disk s2 = disk s3" "fat_resolve_frame s3 s2"
      "\<And>root. fat_directories s2 (root_directory p) = Some root \<Longrightarrow> page_of (dir_item root) \<notin> live_pages (kernel_heap s3)"
  proof (rule fat16_get_root_directory_result [OF s3(2) assms(5) room])
    fix t assume sh: "\<exists>log m h sts dirs. t = s3\<lparr>io_log := log, mem := m, kernel_heap := h, streams := sts, fat_directories := dirs\<rparr>"
      and k: "allocs (kernel_heap s3) \<subseteq> allocs (kernel_heap t)" "heap_pages (kernel_heap t) = heap_pages (kernel_heap s3)"
        "\<And>a. steady s3 a \<Longrightarrow> mem t a = mem s3 a"
    from sh obtain log m h sts dirs where "t = s3\<lparr>io_log := log, mem := m, kernel_heap := h, streams := sts,
      disk := disk s3, fat_privates := fat_privates s3, fat_directories := dirs\<rparr>" by auto
    then have "fat_resolve_frame s3 t" "disk t = disk s3" using k unfolding fat_resolve_frame_def by (blast, simp)
    moreover assume "fat16_get_root_directory TheDisk p (root_directory p) s3 = Some (0, t)"
      "fat_header_loaded img p fp t" "fat_root img n t" "root_alloc img p t"
      "tail_room s3 \<le> tail_room t + blocks_for (root_size img)"
      "\<And>root. fat_directories t (root_directory p) = Some root \<Longrightarrow> page_of (dir_item root) \<notin> live_pages (kernel_heap s3)"
    ultimately show thesis using k(1) by (intro that [of t])
  qed
  have "mem_bytes (mem s3) p 62 = map img [0..<62]" using s3(2) by (simp add: fat_header_loaded_def)
  then have sig: "fat_signature (mem s3) p = 0x29"
    using assms(5) fat_header_fields(5) [of "mem s3" p img] by (simp add: fat_image_def)
  have r: "r \<noteq> 0" "filesystem (disk s1) = Fat16Filesystem" "disk_id (disk s1) = disk_id (disk s)"
    using assms(1) by (auto simp: fat_prepared_def)
  show ?thesis
    by (rule that [of s2]) (use s2 s3 sig f3 r fat_resolve_frame_trans [OF s3(4) s2(8)] in \<open>auto simp: fat16_resolve_read_def tail_room_def\<close>)
qed

lemma fat16_resolve_mounts_volume:
  fixes s :: "'a fatfs_scheme"
  assumes "ata_drive img (device s)" "heap_inv (kernel_heap s)" "stack_ok s" "disk_id (disk s) = 0"
    "sector_size (disk s) = 512" "fat_image img n" "5 + blocks_for (root_size img) \<le> tail_room s"
  obtains s' where "fat16_resolve TheDisk s = Some (0, s')" "fat_mounted img n s'" "disk_id (disk s') = 0"
    "tail_room s \<le> tail_room s' + 5 + blocks_for (root_size img)" "fat_resolve_frame s s'"
    "page_of (fs_private (disk s')) \<notin> live_pages (kernel_heap s)"
proof -
  obtain p r fp s1 where p: "fat_prepared p r fp s s1"
      "fat16_resolve TheDisk s = do { (res, s) \<leftarrow> fat16_resolve_read TheDisk p r s1; Some (fat16_resolve_out p r res s) }"
    by (rule fat16_resolve_prepare [OF assms(2) _ assms(4)]) (use assms(7) in auto)
  note fp = p(1) [unfolded fat_prepared_def]
  obtain s2 where s2: "fat16_resolve_read TheDisk p r s1 = Some (0, s2)" "fat_header_loaded img p fp s2"
      "fat_root img n s2" "root_alloc img p s2" "allocs (kernel_heap s1) \<subseteq> allocs (kernel_heap s2)"
      "tail_room s1 \<le> tail_room s2 + blocks_for (root_size img)" "filesystem (disk s2) = Fat16Filesystem"
      "disk_id (disk s2) = disk_id (disk s)" "fat_resolve_frame s s2"
      "\<And>root. fat_directories s2 (root_directory p) = Some root \<Longrightarrow> page_of (dir_item root) \<notin> live_pages (kernel_heap s1)"
    by (rule fat16_resolve_read_result [OF p(1) assms(1,5,3,6,7)]) blast
  have r: "(r, 1) \<in> allocs (kernel_heap s1)" "r \<noteq> p" "r \<noteq> 0"
      "r \<notin> {cluster_read_stream fp, fat_read_stream fp, directory_stream fp}" "(r, 1) \<notin> allocs (kernel_heap s)"
    using fp by auto
  have r2: "(r, 1) \<in> allocs (kernel_heap s2)" using r(1) s2(5) by blast
  have "dir_item root \<noteq> r" if "fat_directories s2 (root_directory p) = Some root" for root
    using s2(10) [OF that] live_pagesI [OF r(1)] by auto
  note c = disk_stream_close_volume [OF s2(2,3,4) r2 r(2,4) this]
  have hi: "heap_inv (kernel_heap s2)" using s2(2) by (simp add: fat_header_loaded_def)
  let ?c = "disk_stream_close r s2"
  have h: "kernel_heap ?c = heap_free (kernel_heap s2) r" by (simp add: disk_stream_close_def kernel_free_def)
  have "tail_room s \<le> tail_room ?c + 5 + blocks_for (root_size img)"
    using fp s2(6) free_tail_heap_free [OF hi r2] h by (simp add: tail_room_def)
  moreover have "fat_resolve_frame s ?c"
  proof -
    obtain log m h' sts dk privs dirs where "s2 = s\<lparr>io_log := log, mem := m, kernel_heap := h',
       streams := sts, disk := dk, fat_privates := privs, fat_directories := dirs\<rparr>"
      using s2(9) unfolding fat_resolve_frame_def by blast
    then have "?c = s\<lparr>io_log := log, mem := m, kernel_heap := heap_free h' r,
       streams := sts(r := None), disk := dk, fat_privates := privs, fat_directories := dirs\<rparr>"
      by (cases s) (simp add: disk_stream_close_def kernel_free_def)
    then have "\<exists>log m h sts dk privs dirs. ?c = s\<lparr>io_log := log, mem := m, kernel_heap := h,
       streams := sts, disk := dk, fat_privates := privs, fat_directories := dirs\<rparr>" by blast
    moreover have "allocs (kernel_heap ?c) = allocs (kernel_heap s2) - {(r, 1)}" "mem ?c = mem s2"
        "heap_pages (kernel_heap ?c) = heap_pages (kernel_heap s2)"
      using heap_free_inv(2) [OF hi r2] h by (simp_all add: disk_stream_close_def kernel_free_def)
    ultimately show ?thesis
      using s2(9) r(5) unfolding fat_resolve_frame_def by auto
  qed
  moreover have "page_of (fs_private (disk ?c)) \<notin> live_pages (kernel_heap s)"
    using fp s2(2) c(4) by (auto simp: fat_header_loaded_def)
  ultimately show ?thesis
    using p(2) s2(1,7,8) r(3) c assms(4)
    by (intro that [of ?c]) (simp_all add: fat_mounted_def fat16_resolve_out_def)
qed

lemma fat16_resolve_refuses_volume:
  fixes s :: "'a fatfs_scheme"
  assumes "ata_drive img (device s)" "heap_inv (kernel_heap s)" "stack_ok s" "disk_id (disk s) = 0"
    "sector_size (disk s) = 512" "5 \<le> tail_room s" "img 38 \<noteq> 0x29"
  obtains s' L where "fat16_resolve TheDisk s = Some (- FILE_SYSTEM_NOT_US_ERROR, s')" "heap_inv (kernel_heap s')"
    "allocs (kernel_heap s') = allocs (kernel_heap s) \<union> L" "card L = 3" "L \<inter> allocs (kernel_heap s) = {}"
    "disk s' = (disk s)\<lparr>fs_private := 0, filesystem := Fat16Filesystem\<rparr>"
proof -
  obtain p r fp s1 where p: "fat_prepared p r fp s s1"
      "fat16_resolve TheDisk s = do { (res, s) \<leftarrow> fat16_resolve_read TheDisk p r s1; Some (fat16_resolve_out p r res s) }"
    by (rule fat16_resolve_prepare [OF assms(2,6,4)])
  note fp = p(1) [unfolded fat_prepared_def]
  obtain s2 where s2: "disk_stream_read r p 62 s1 = Some (0, s2)" "fat_header_loaded img p fp s2" "stream_frame s1 s2"
    by (rule fat_prepared_header [OF p(1) assms(1,5,3)])
  have "mem_bytes (mem s2) p 62 = map img [0..<62]" using s2(2) by (simp add: fat_header_loaded_def)
  then have sig: "fat_signature (mem s2) p \<noteq> 0x29"
    using assms(7) fat_header_fields(5) [of "mem s2" p img] by simp
  have r: "r \<noteq> 0" "disk s1 = (disk s)\<lparr>fs_private := p, filesystem := Fat16Filesystem\<rparr>" using fp by auto
  have rd: "fat16_resolve_read TheDisk p r s1 = Some (- FILE_SYSTEM_NOT_US_ERROR, s2)"
    using s2(1) sig r(1) by (simp add: fat16_resolve_read_def)
  define s3 where "s3 = snd (fat16_resolve_out p r (- FILE_SYSTEM_NOT_US_ERROR) s2)"
  have run: "fat16_resolve TheDisk s = Some (- FILE_SYSTEM_NOT_US_ERROR, s3)"
    using p(2) rd by (simp add: s3_def fat16_resolve_out_def Let_def)
  have d: "disk s3 = (disk s)\<lparr>fs_private := 0, filesystem := Fat16Filesystem\<rparr>"
      "kernel_heap s3 = heap_free (heap_free (kernel_heap s1) r) p"
    using r stream_frame_fields [OF s2(3)]
    by (simp_all add: s3_def fat16_resolve_out_def disk_stream_close_def kernel_free_def)
  have h1: "heap_inv (kernel_heap s1)" "(r, 1) \<in> allocs (kernel_heap s1)" "(p, 1) \<in> allocs (kernel_heap s1)" "p \<noteq> r"
    using fp by (auto simp: grows_def)
  note f1 = heap_free_inv [OF h1(1,2)]
  have "(p, 1) \<in> allocs (heap_free (kernel_heap s1) r)" using f1(2) h1(3,4) by simp
  note f2 = heap_free_inv [OF f1(1) this]
  have "allocs (kernel_heap s3) = allocs (kernel_heap s) \<union> fat_streams fp"
    using f1(2) f2(2) fp d(2) by (auto simp: fat_streams_def)
  moreover have "card (fat_streams fp) = 3" using fp by (auto simp: fat_streams_def)
  ultimately show ?thesis
    using run d f2(1) fp by (intro that [of s3 "fat_streams fp"]) auto
qed

section \<open>Properties of mounting\<close>

text \<open>
  C16. Mounting. On a drive with a FAT16 volume, with room at the end of the heap for the five
  objects of the driver and for the root directory, \<open>fat16_resolve\<close> returns 0, and the volume
  is mounted: the private data has the header of the volume, the three streams are open, the
  root directory is in memory, and its entries are counted without those that are deleted. The
  private data is in fresh memory, and no allocated memory changes.
\<close>

theorem fat16_resolve_mounts:
  fixes s :: "'a fatfs_scheme"
  assumes "ata_drive img (device s)" "heap_inv (kernel_heap s)" "stack_ok s" "disk_id (disk s) = 0"
    "sector_size (disk s) = 512" "fat_image img n" "5 + blocks_for (root_size img) \<le> tail_room s"
  shows "\<exists>s'. fat16_resolve TheDisk s = Some (0, s') \<and> fat_mounted img n s' \<and> fat_resolve_frame s s' \<and>
    page_of (fs_private (disk s')) \<notin> live_pages (kernel_heap s)"
  by (rule fat16_resolve_mounts_volume [OF assms]) blast

text \<open>
  C39. Refusing. A disk whose signature byte is not 0x29 is refused with
  \<open>FILE_SYSTEM_NOT_US_ERROR\<close>. The private data and the stream of the header are freed, but the
  three streams of \<open>fat16_init_private\<close> stay allocated, and the disk still names the driver.
\<close>

theorem fat16_resolve_refuses:
  fixes s :: "'a fatfs_scheme"
  assumes "ata_drive img (device s)" "heap_inv (kernel_heap s)" "stack_ok s" "disk_id (disk s) = 0"
    "sector_size (disk s) = 512" "5 \<le> tail_room s" "img 38 \<noteq> 0x29"
  shows "\<exists>s' L. fat16_resolve TheDisk s = Some (- FILE_SYSTEM_NOT_US_ERROR, s') \<and> heap_inv (kernel_heap s') \<and>
    allocs (kernel_heap s') = allocs (kernel_heap s) \<union> L \<and> card L = 3 \<and> L \<inter> allocs (kernel_heap s) = {} \<and>
    disk s' = (disk s)\<lparr>fs_private := 0, filesystem := Fat16Filesystem\<rparr>"
  by (rule fat16_resolve_refuses_volume [OF assms]) blast

text \<open>
  A volume of one reserved sector, one table of one sector, a root directory of one sector with
  the file \<^verbatim>\<open>A.TXT\<close>, whose cluster 2 starts with the bytes 72, 105; and a kernel whose heap has one
  allocated page, which holds a path, a mode and a buffer.
\<close>

definition demo_volume :: "nat \<Rightarrow> byte" where
  "demo_volume i =
     (if i \<in> {13, 14, 16, 22} then 1 else if i = 17 then 16 else if i = 38 then 0x29
      else if 1024 \<le> i \<and> i < 1056
        then ([65, 32, 32, 32, 32, 32, 32, 32, 84, 88, 84, 32, 0, 0, 0, 0] @
              [0, 0, 0, 0, 0, 0, 0, 0, 0, 0, 2, 0, 2, 0, 0, 0]) ! (i - 1024)
      else if i = 1536 then 72 else if i = 1537 then 105 else 0)"

definition demo_fat :: "(nat \<Rightarrow> byte) \<Rightarrow> 'a \<Rightarrow> 'a fatfs_scheme" where
  "demo_fat img x = \<lparr>mem = write_bytes 0x01000000 [48, 58, 47, 65, 46, 84, 88, 84, 0]
       (write_bytes 0x01000040 [114, 0] (\<lambda>_. 7)),
     device = demo_drive img, io_log = [], video_memory = 0xB8000, terminal_row = 0, terminal_col = 0,
     kernel_heap = \<lparr>table = \<lparr>entries = run_entries 1 @ replicate 25599 0\<rparr>, start_address = 0x01000000\<rparr>,
     current_directory = 0, cr3 = 0, paging_enabled = False,
     disk = \<lparr>disk_type = 0, sector_size = 512, disk_id = 0, filesystem = NullFilesystem, fs_private = 0\<rparr>,
     streams = Map.empty, path_roots = Map.empty, path_parts = Map.empty,
     fat_privates = Map.empty, fat_directories = Map.empty, fat_items = Map.empty,
     fat_descriptors = Map.empty, fat16_name = replicate 20 0, local_addr = (\<lambda>_. 0x5FF000), \<dots> = x\<rparr>"

lemma demo_fat_heap:
  "heap_inv (kernel_heap (demo_fat img x))" "tail_room (demo_fat img x) = 25599"
  "(0x01000000, 1) \<in> allocs (kernel_heap (demo_fat img x))" "ata_drive img (device (demo_fat img x))"
proof -
  have "wf_entries (run_entries 1 @ replicate 25599 0)" by (rule wf_Run) (simp_all add: wf_entries_replicate_free)
  then show "heap_inv (kernel_heap (demo_fat img x))"
    by (simp add: heap_inv_def demo_fat_def total_def page_aligned_def)
  show "tail_room (demo_fat img x) = 25599"
    using free_tail_append [of "run_entries 1" "replicate 25599 0"] free_tail_snoc [of "[]" 65]
    by (simp add: tail_room_def demo_fat_def is_free_def heap_get_entry_type_def)
  show "(0x01000000, 1) \<in> allocs (kernel_heap (demo_fat img x))"
    by (simp add: allocs_def demo_fat_def block_addr_def)
  show "ata_drive img (device (demo_fat img x))" by (simp add: demo_fat_def ata_drive_demo)
qed

lemma demo_fat_stack: "stack_ok (demo_fat img x)"
  unfolding stack_ok_def
proof (intro allI impI)
  fix v :: kernel_local and i :: nat assume "i < 4096"
  then have "page_of (0x5FF000 + of_nat i :: addr) = page_of 0x5FF000"
    by (intro page_of_add) (simp_all add: page_aligned_def)
  then show "page_of (local_addr (demo_fat img x) v + of_nat i) \<notin> heap_pages (kernel_heap (demo_fat img x))"
    by (simp add: demo_fat_def heap_pages_def page_of_def)
qed

lemma demo_volume_fields:
  "vol_spc demo_volume = 1" "vol_reserved demo_volume = 1" "vol_entries demo_volume = 16"
  "vol_root_sector demo_volume = 2" "vol_data_sector demo_volume = 3" "cluster_size demo_volume = 512"
  "unat (root_size demo_volume) = 512" "blocks_for (root_size demo_volume) = 1"
proof -
  show f: "vol_spc demo_volume = 1" "vol_reserved demo_volume = 1" "vol_entries demo_volume = 16"
    "vol_root_sector demo_volume = 2"
    by (simp_all add: vol_spc_def vol_reserved_def vol_entries_def vol_root_sector_def img16_def demo_volume_def)
  then show "vol_data_sector demo_volume = 3" "cluster_size demo_volume = 512"
    by (simp_all add: vol_data_sector_def cluster_size_def)
  show u: "unat (root_size demo_volume) = 512" using f by (simp add: root_size(1))
  then show "blocks_for (root_size demo_volume) = 1" by (simp add: blocks_for_def)
qed

lemma fat_image_demo: "fat_image demo_volume 1"
  unfolding fat_image_def demo_volume_fields by (simp add: demo_volume_def)

theorem fat16_resolve_mounts_witness:
  "\<exists>s'. fat16_resolve TheDisk (demo_fat demo_volume ()) = Some (0, s') \<and> fat_mounted demo_volume 1 s'"
  using fat16_resolve_mounts [of demo_volume "demo_fat demo_volume ()" 1] demo_fat_heap [of demo_volume "()"]
    demo_fat_stack [of demo_volume "()"] fat_image_demo demo_volume_fields(8)
  by (auto simp: demo_fat_def)

theorem fat16_resolve_refuses_witness:
  "\<exists>s'. fat16_resolve TheDisk (demo_fat (\<lambda>_. 0) ()) = Some (- FILE_SYSTEM_NOT_US_ERROR, s')"
  using fat16_resolve_refuses [of "\<lambda>_. 0" "demo_fat (\<lambda>_. 0) ()"] demo_fat_heap [of "\<lambda>_. 0" "()"]
    demo_fat_stack [of "\<lambda>_. 0" "()"]
  by (auto simp: demo_fat_def)
section \<open>The position of a table entry\<close>

text \<open>
  The successor of cluster \<open>c\<close> is read from byte \<open>1024 * reserved * c\<close> of the disk, the
  product of the position of the table and of the offset in it, and nothing but streams and
  memory outside the heap changes. For a cluster of the data area this is never the place
  \<open>512 * reserved + 2 * c\<close> where the table has the entry.
\<close>

theorem fat16_get_fat_entry_position:
  assumes "fat_volume img s" "stack_ok s" "1024 * vol_reserved img * c + 2 < 2 ^ 31" "2 \<le> c" "0 < vol_reserved img"
  shows "\<exists>s'. fat16_get_fat_entry TheDisk (int c) s = Some (int (img16 img (1024 * vol_reserved img * c)), s') \<and>
    fat_quiet s s' \<and> 1024 * vol_reserved img * c \<noteq> 512 * vol_reserved img + 2 * c"
proof -
  obtain s' where "fat16_get_fat_entry TheDisk (int c) s = Some (int (driver_next img c), s')" "fat_quiet s s'"
    by (rule fat16_get_fat_entry_result [OF assms(1-3)])
  moreover have "512 * vol_reserved img + 2 * c < 1024 * vol_reserved img * c"
  proof -
    obtain r where r: "vol_reserved img = Suc r" using assms(5) gr0_implies_Suc by blast
    obtain k where "c = k + 2" using assms(4) by (metis add.commute le_Suc_ex)
    then show ?thesis unfolding r by (simp add: algebra_simps)
  qed
  ultimately show ?thesis by (auto simp: driver_next_def)
qed

theorem fat16_get_fat_entry_position_witness:
  "\<exists>s s'. fat_mounted demo_volume 1 (s :: fatfs) \<and> fat16_get_fat_entry TheDisk 2 s = Some (0, s')"
proof -
  obtain s where s: "fat_mounted demo_volume 1 (s :: fatfs)"
    by (rule fat16_resolve_mounts_volume [of demo_volume "demo_fat demo_volume ()" 1])
       (use demo_fat_heap [of demo_volume "()"] demo_fat_stack [of demo_volume "()"] fat_image_demo demo_volume_fields(8)
        in \<open>auto simp: demo_fat_def\<close>)
  then have "fat_volume demo_volume s" "stack_ok s" by (simp_all add: fat_mounted_def)
  from fat16_get_fat_entry_position [OF this, of 2] s show ?thesis
    by (auto simp: demo_volume_fields img16_def demo_volume_def)
qed

end
