(* ===== verification/FatOpen.thy ===== *)
theory FatOpen
  imports FatMount
begin

text \<open>
  Files of a mounted volume: finding an entry of the root directory by its name, opening,
  reading and closing it.
\<close>

section \<open>Finding and opening a file\<close>

text \<open>Steps that only take memory: what is allocated stays, with its contents.\<close>

definition fat_keeps :: "'a fatfs_scheme \<Rightarrow> 'a fatfs_scheme \<Rightarrow> bool" where
  "fat_keeps s s' \<longleftrightarrow> (\<exists>m h items fds. s' = s\<lparr>mem := m, kernel_heap := h, fat_items := items, fat_descriptors := fds\<rparr>) \<and>
     heap_inv (kernel_heap s') \<and> heap_pages (kernel_heap s') = heap_pages (kernel_heap s) \<and>
     allocs (kernel_heap s) \<subseteq> allocs (kernel_heap s') \<and> tail_keeps (kernel_heap s) (kernel_heap s') \<and>
     (\<forall>a. page_of a \<in> live_pages (kernel_heap s) \<longrightarrow> mem s' a = mem s a)"

lemma fat_keeps_fields:
  assumes "fat_keeps s s'"
  shows "device s' = device s" "disk s' = disk s" "streams s' = streams s" "path_parts s' = path_parts s"
    "fat_privates s' = fat_privates s" "fat_directories s' = fat_directories s" "local_addr s' = local_addr s"
    "path_roots s' = path_roots s" "heap_inv (kernel_heap s')"
  using assms by (auto simp: fat_keeps_def)

lemma fat_keeps_live: "fat_keeps s s' \<Longrightarrow> live_pages (kernel_heap s) \<subseteq> live_pages (kernel_heap s')"
  by (simp add: fat_keeps_def live_pages_mono)

lemma fat_keeps_mem: "fat_keeps s s' \<Longrightarrow> page_of a \<in> live_pages (kernel_heap s) \<Longrightarrow> mem s' a = mem s a"
  by (simp add: fat_keeps_def)

lemma fat_keeps_trans:
  assumes "fat_keeps s t" "fat_keeps t u"
  shows "fat_keeps s u"
proof -
  have "\<exists>m h items fds. u = s\<lparr>mem := m, kernel_heap := h, fat_items := items, fat_descriptors := fds\<rparr>"
    using assms unfolding fat_keeps_def by (elim conjE exE) (intro exI, simp)
  then show ?thesis
    using assms live_pages_mono [of "kernel_heap s" "kernel_heap t"]
      tail_keeps_trans [of "kernel_heap s" "kernel_heap t" "kernel_heap u"] unfolding fat_keeps_def by fastforce
qed

lemma fat_keeps_shape:
  assumes "heap_inv h" "heap_pages h = heap_pages (kernel_heap s)" "allocs (kernel_heap s) \<subseteq> allocs h"
    "tail_keeps (kernel_heap s) h" "\<And>a. page_of a \<in> live_pages (kernel_heap s) \<Longrightarrow> m a = mem s a"
  shows "fat_keeps s (s\<lparr>mem := m, kernel_heap := h, fat_items := items, fat_descriptors := fds\<rparr>)"
  unfolding fat_keeps_def using assms by (auto intro!: exI)

lemma fat_keeps_bytes:
  assumes "fat_keeps s s'" "\<And>i. i < n \<Longrightarrow> page_of (p + of_nat i) \<in> live_pages (kernel_heap s)"
  shows "mem_bytes (mem s') p n = mem_bytes (mem s) p n"
  using assms fat_keeps_mem [OF assms(1)] by (intro mem_bytes_eqI) simp_all

text \<open>A volume stays mounted while memory is only allocated.\<close>

lemma fat_mounted_grows:
  assumes "fat_mounted img n s" "device s' = device s" "disk s' = disk s" "streams s' = streams s"
    "fat_privates s' = fat_privates s" "fat_directories s' = fat_directories s" "local_addr s' = local_addr s"
    "heap_inv (kernel_heap s')" "heap_pages (kernel_heap s') = heap_pages (kernel_heap s)"
    "live_pages (kernel_heap s) \<subseteq> live_pages (kernel_heap s')"
    "\<And>a. page_of a \<in> live_pages (kernel_heap s) \<Longrightarrow> mem s' a = mem s a"
  shows "fat_mounted img n s'"
proof -
  note f = assms(2-7)
  have v: "fat_volume img s" "fat_root img n s" using assms(1) by (simp_all add: fat_mounted_def)
  have bytes: "mem_bytes (mem s') p k = mem_bytes (mem s) p k"
    if "\<And>i. i < k \<Longrightarrow> page_of (p + of_nat i) \<in> live_pages (kernel_heap s)" for p k
    using that assms(11) by (intro mem_bytes_eqI) simp_all
  have pl: "page_aligned (fs_private (disk s))" "page_of (fs_private (disk s)) \<in> live_pages (kernel_heap s)"
    using v(1) by (simp_all add: fat_volume_def)
  have "mem_bytes (mem s') (fs_private (disk s)) 62 = map img [0..<62]"
    using bytes [of 62 "fs_private (disk s)"] fat_volume_header [OF v(1)] pl by (simp add: page_of_add)
  then have "fat_volume img s'"
    using v(1) pl assms(8,10) unfolding fat_volume_def stream_position_def f by auto
  moreover obtain root where root: "fat_directories s (root_directory (fs_private (disk s))) = Some root"
      "\<And>i. i < 32 * vol_entries img \<Longrightarrow> page_of (dir_item root + of_nat i) \<in> live_pages (kernel_heap s)"
    using v(2) by (auto simp: fat_root_def)
  have "fat_root img n s'"
    using v(2) bytes [OF root(2)] root assms(10) unfolding fat_root_def f by auto
  moreover have "stack_ok s'" using assms(1,9) by (simp add: fat_mounted_def stack_ok_def f)
  ultimately show ?thesis using assms(1) by (simp add: fat_mounted_def f)
qed

lemma fat_mounted_keeps:
  assumes "fat_mounted img n s" "fat_keeps s s'"
  shows "fat_mounted img n s'"
  by (rule fat_mounted_grows [OF assms(1)])
     (use fat_keeps_fields [OF assms(2)] fat_keeps_live [OF assms(2)] assms(2) in \<open>auto simp: fat_keeps_def\<close>)

text \<open>A file item: a copy of the directory entry in an allocation of its own.\<close>

definition item_of :: "'a fatfs_scheme \<Rightarrow> addr \<Rightarrow> addr" where
  "item_of s f = (case fat_items s f of Some it \<Rightarrow> item_ptr it | None \<Rightarrow> 0)"

definition item_allocs :: "'a fatfs_scheme \<Rightarrow> addr \<Rightarrow> (addr \<times> nat) set" where
  "item_allocs s f = {(f, 1), (item_of s f, 1)}"

definition file_item :: "byte list \<Rightarrow> addr \<Rightarrow> 'a fatfs_scheme \<Rightarrow> bool" where
  "file_item bs f s \<longleftrightarrow> f \<noteq> 0 \<and> (f, 1) \<in> allocs (kernel_heap s) \<and> (\<exists>c. fat_items s f = Some \<lparr>item_ptr = c, item_type = FAT_ITEM_TYPE_FILE\<rparr> \<and>
     (c, 1) \<in> allocs (kernel_heap s) \<and> c \<noteq> f \<and> mem_bytes (mem s) c 32 = bs)"

lemma zalloc_keeps:
  fixes s :: "'a fatfs_scheme"
  assumes "heap_inv (kernel_heap s)" "0 < sz" "unat sz \<le> 4096" "0 < free_blocks (kernel_heap s)"
  obtains p s' where "kernel_zalloc sz s = Some (p, s')" "p \<noteq> 0" "page_aligned p" "fat_keeps s s'"
    "allocs (kernel_heap s') = insert (p, 1) (allocs (kernel_heap s))"
    "free_blocks (kernel_heap s) = Suc (free_blocks (kernel_heap s'))"
    "page_of p \<notin> live_pages (kernel_heap s)" "fat_items s' = fat_items s" "fat_descriptors s' = fat_descriptors s"
proof -
  obtain p s' where p: "kernel_zalloc sz s = Some (p, s')" "p \<noteq> 0" "page_aligned p" "grows s s'"
    "allocs (kernel_heap s') = insert (p, 1) (allocs (kernel_heap s))"
    "free_blocks (kernel_heap s) = Suc (free_blocks (kernel_heap s'))" "free_page (kernel_heap s) (page_of p)"
    by (rule kernel_zalloc_grows [OF assms]) blast
  obtain m h where s': "s' = s\<lparr>mem := m, kernel_heap := h\<rparr>" using kernel_zalloc_shape [OF p(1)] by blast
  have "fat_keeps s (s\<lparr>mem := m, kernel_heap := h, fat_items := fat_items s, fat_descriptors := fat_descriptors s\<rparr>)"
    using p(4,5) by (intro fat_keeps_shape) (auto simp: grows_def free_page_def s')
  then have "fat_keeps s s'" by (simp add: s')
  with p show ?thesis by (intro that [of p s']) (auto simp: s' free_page_def)
qed

lemma zalloc_tail_fat_keeps:
  fixes s :: "'a fatfs_scheme"
  assumes "heap_inv (kernel_heap s)" "0 < sz" "unat sz \<le> 2 ^ 32 - 4096" "blocks_for sz \<le> tail_room s"
  obtains p s' where "kernel_zalloc sz s = Some (p, s')" "p \<noteq> 0" "page_aligned p" "fat_keeps s s'"
    "allocs (kernel_heap s') = insert (p, blocks_for sz) (allocs (kernel_heap s))"
    "tail_room s \<le> tail_room s' + blocks_for sz"
    "\<And>i. i < 4096 * blocks_for sz \<Longrightarrow> page_of (p + of_nat i) = page_of p + i div 4096 \<and>
      free_page (kernel_heap s) (page_of (p + of_nat i)) \<and> page_of (p + of_nat i) \<in> live_pages (kernel_heap s')"
    "\<And>a. unat (a - p) < unat sz \<Longrightarrow> mem s' a = 0"
    "\<exists>m h. s' = s\<lparr>mem := m, kernel_heap := h\<rparr>"
proof -
  obtain p s' where p: "kernel_zalloc sz s = Some (p, s')" "p \<noteq> 0" "page_aligned p" "grows s s'"
    "allocs (kernel_heap s') = insert (p, blocks_for sz) (allocs (kernel_heap s))"
    "tail_room s \<le> tail_room s' + blocks_for sz"
    "\<And>i. i < 4096 * blocks_for sz \<Longrightarrow> page_of (p + of_nat i) = page_of p + i div 4096 \<and>
      free_page (kernel_heap s) (page_of (p + of_nat i)) \<and> page_of (p + of_nat i) \<in> live_pages (kernel_heap s')"
    "\<And>a. unat (a - p) < unat sz \<Longrightarrow> mem s' a = 0"
    by (rule kernel_zalloc_tail [OF assms]) (rule that, assumption+)
  obtain m h where s': "s' = s\<lparr>mem := m, kernel_heap := h\<rparr>" using kernel_zalloc_shape [OF p(1)] by blast
  have "fat_keeps s (s\<lparr>mem := m, kernel_heap := h, fat_items := fat_items s, fat_descriptors := fat_descriptors s\<rparr>)"
    using p(4,5) by (intro fat_keeps_shape) (auto simp: grows_def free_page_def s')
  then have fk: "fat_keeps s s'" by (simp add: s')
  have ex: "\<exists>m h. s' = s\<lparr>mem := m, kernel_heap := h\<rparr>" using s' by blast
  show ?thesis by (rule that [OF p(1-3) fk p(5-8) ex])
qed

lemma fat_keeps_update:
  assumes "fat_keeps s s'" "\<And>a. page_of a \<in> live_pages (kernel_heap s) \<Longrightarrow> m a = mem s' a"
  shows "fat_keeps s (s'\<lparr>mem := m, fat_items := items, fat_descriptors := fds\<rparr>)"
proof -
  obtain ma h items' fds' where s': "s' = s\<lparr>mem := ma, kernel_heap := h, fat_items := items', fat_descriptors := fds'\<rparr>"
    using assms(1) by (auto simp: fat_keeps_def)
  have "fat_keeps s (s\<lparr>mem := m, kernel_heap := h, fat_items := items, fat_descriptors := fds\<rparr>)"
    using assms by (intro fat_keeps_shape) (auto simp: fat_keeps_def s')
  moreover have "s'\<lparr>mem := m, fat_items := items, fat_descriptors := fds\<rparr> =
      s\<lparr>mem := m, kernel_heap := h, fat_items := items, fat_descriptors := fds\<rparr>"
    by (cases s) (simp add: s')
  ultimately show ?thesis by simp
qed

lemma memcpy_page:
  assumes "page_aligned p" "unat n \<le> 4096" "\<And>i. i < unat n \<Longrightarrow> page_of (q + of_nat i) \<noteq> page_of p"
  shows "mem_bytes (memcpy p q n m) p (unat n) = mem_bytes m q (unat n)"
    "page_of a \<noteq> page_of p \<Longrightarrow> memcpy p q n m a = m a"
proof -
  have "unat n \<le> unat (p - q)"
  proof (rule ccontr)
    assume "\<not> unat n \<le> unat (p - q)"
    then have "page_of (q + of_nat (unat (p - q))) \<noteq> page_of p" by (intro assms(3)) simp
    then show False by simp
  qed
  then have cp: "memcpy p q n m a = (if unat (a - p) < unat n then m (q + (a - p)) else m a)" for a
    by (intro memcpy_apply) simp
  show "memcpy p q n m a = m a" if "page_of a \<noteq> page_of p"
    using that in_page_iff [OF assms(1), of a] assms(2) by (auto simp: cp)
  show "mem_bytes (memcpy p q n m) p (unat n) = mem_bytes m q (unat n)"
    using assms(2) by (intro mem_bytes_eqI) (auto simp: cp unat_of_nat take_bit_nat_eq_self)
qed

lemma fat16_new_item_file:
  fixes s :: "'a fatfs_scheme"
  assumes "heap_inv (kernel_heap s)" "2 \<le> free_blocks (kernel_heap s)" "attributes (mem s) item AND 0x10 = 0"
    "\<And>i. i < 32 \<Longrightarrow> page_of (item + of_nat i) \<in> live_pages (kernel_heap s)"
  obtains f s' where "fat16_new_fat_item_for_directory_item TheDisk item s = Some (f, s')"
    "fat_keeps s s'" "free_blocks (kernel_heap s) = free_blocks (kernel_heap s') + 2" "file_item (mem_bytes (mem s) item 32) f s'"
    "fat_descriptors s' = fat_descriptors s" "allocs (kernel_heap s') = allocs (kernel_heap s) \<union> item_allocs s' f"
    "item_allocs s' f \<inter> allocs (kernel_heap s) = {}"
proof -
  obtain f s1 where f: "kernel_zalloc 8 s = Some (f, s1)" "f \<noteq> 0" "fat_keeps s s1"
    "allocs (kernel_heap s1) = insert (f, 1) (allocs (kernel_heap s))" "free_blocks (kernel_heap s) = Suc (free_blocks (kernel_heap s1))"
    "fat_descriptors s1 = fat_descriptors s" "page_of f \<notin> live_pages (kernel_heap s)"
    by (rule zalloc_keeps [OF assms(1), of 8]) (use assms(2) in auto)
  note f1 = fat_keeps_fields [OF f(3)]
  have room: "0 < free_blocks (kernel_heap s1)" using f(5) assms(2) by simp
  obtain c s2 where c: "kernel_zalloc 32 s1 = Some (c, s2)" "c \<noteq> 0" "page_aligned c" "fat_keeps s1 s2"
    "allocs (kernel_heap s2) = insert (c, 1) (allocs (kernel_heap s1))" "free_blocks (kernel_heap s1) = Suc (free_blocks (kernel_heap s2))" "page_of c \<notin> live_pages (kernel_heap s1)"
    "fat_descriptors s2 = fat_descriptors s1"
    by (rule zalloc_keeps [OF f1(9), of 32]) (use room in auto)
  have live: "page_of (item + of_nat i) \<in> live_pages (kernel_heap s1)" if "i < 32" for i
    using assms(4) [OF that] fat_keeps_live [OF f(3)] by blast
  let ?m = "memcpy c item 32 (mem s2)"
  note cp = memcpy_page [OF c(3), of 32 item, simplified]
  have ne: "page_of (item + of_nat i) \<noteq> page_of c" if "i < 32" for i using live [OF that] c(7) by metis
  let ?s = "s2\<lparr>mem := ?m, fat_items := (fat_items s2)(f \<mapsto> \<lparr>item_ptr = c, item_type = FAT_ITEM_TYPE_FILE\<rparr>)\<rparr>"
  have "fat_keeps s1 (s2\<lparr>mem := ?m, fat_items := fat_items ?s, fat_descriptors := fat_descriptors s2\<rparr>)"
    using cp(2) [OF ne] c(7) by (intro fat_keeps_update [OF c(4)]) metis
  then have k: "fat_keeps s ?s" using fat_keeps_trans [OF f(3)] by simp
  have "mem_bytes ?m c 32 = mem_bytes (mem s2) item 32" using ne by (rule cp(1))
  also have "\<dots> = mem_bytes (mem s) item 32"
    using fat_keeps_bytes [OF fat_keeps_trans [OF f(3) c(4)] assms(4)] .
  finally have bytes: "mem_bytes ?m c 32 = mem_bytes (mem s) item 32" .
  have new: "(f, 1) \<notin> allocs (kernel_heap s)" "(c, 1) \<notin> allocs (kernel_heap s1)"
    using live_pagesI [of f "kernel_heap s"] live_pagesI [of c "kernel_heap s1"] f(7) c(7) by auto
  then have "c \<noteq> f" using f(4) by auto
  then have "file_item (mem_bytes (mem s) item 32) f ?s"
    using f(2,4) c(5) bytes by (simp add: file_item_def)
  moreover have "item_allocs ?s f = {(f, 1), (c, 1)}" by (simp add: item_allocs_def item_of_def)
  moreover have "attributes (mem s1) item AND 0x10 = 0"
    using assms(3) fat_keeps_mem [OF f(3) assms(4) [of 11]] by (simp add: attributes_def)
  then have "fat16_new_fat_item_for_directory_item TheDisk item s = Some (f, ?s)"
    using f(1,2) c(1,2) by (simp add: fat16_new_fat_item_for_directory_item_def fat16_clone_directory_item_def)
  ultimately show ?thesis
    using k f(4-6) c(5,6,8) new by (intro that [of f ?s]) auto
qed


text \<open>The name of an entry as \<open>fat16_get_full_relative_filename\<close> builds it, and the entries it is right for.\<close>

definition entry_base :: "byte list \<Rightarrow> byte list" where
  "entry_base bs = takeWhile (\<lambda>b. \<not> name_stop b) (take 8 bs)"
definition entry_ext :: "byte list \<Rightarrow> byte list" where
  "entry_ext bs = takeWhile (\<lambda>b. \<not> name_stop b) (take 3 (drop 8 bs))"

definition plain_entry :: "byte list \<Rightarrow> bool" where
  "plain_entry bs \<longleftrightarrow> name_stop (bs ! 11) \<and> take 12 bs = entry_base bs @ replicate (8 - length (entry_base bs)) 0x20 @
     entry_ext bs @ replicate (3 - length (entry_ext bs)) 0x20 @ [bs ! 11]"

definition file_name :: "byte list \<Rightarrow> byte list" where
  "file_name bs = entry_name (entry_base bs) (entry_ext bs)"

lemma plain_entry_short:
  assumes "plain_entry (mem_bytes m item 32)"
  shows "short_entry m item (entry_base (mem_bytes m item 32)) (entry_ext (mem_bytes m item 32))"
proof -
  let ?bs = "mem_bytes m item 32"
  have "mem_bytes m item 12 = take 12 ?bs" by (rule nth_equalityI) simp_all
  moreover have "\<not> name_stop c" if "c \<in> set (entry_base ?bs @ entry_ext ?bs)" for c
    using that by (auto simp: entry_base_def entry_ext_def dest: set_takeWhileD)
  moreover have "length (entry_base ?bs) \<le> 8" "length (entry_ext ?bs) \<le> 3"
    using length_takeWhile_le [of _ "take 8 ?bs"] length_takeWhile_le [of _ "take 3 (drop 8 ?bs)"]
    by (auto simp: entry_base_def entry_ext_def intro: order_trans)
  ultimately show ?thesis
    using assms unfolding short_entry_def plain_entry_def by (intro conjI ballI exI [of _ "?bs ! 11"]) auto
qed

definition same_name :: "byte list \<Rightarrow> byte list \<Rightarrow> bool" where
  "same_name a b \<longleftrightarrow> map tolower a = map tolower b"

lemma same_name_take:
  assumes "length a < 108"
  shows "map tolower (take 108 a) = map tolower (take 108 b) \<longleftrightarrow> same_name a b"
proof (cases "length b < 108")
  case False
  then have "length (map tolower (take 108 b)) \<noteq> length (map tolower (take 108 a))" using assms by simp
  moreover have "length (map tolower a) \<noteq> length (map tolower b)" using False assms by simp
  ultimately show ?thesis unfolding same_name_def by metis
qed (use assms in \<open>simp add: same_name_def\<close>)

lemma fat16_find_name:
  fixes s :: "'a fatfs_scheme"
  assumes "heap_inv (kernel_heap s)" "stack_ok s" "plain_entry (mem_bytes (mem s) item 32)"
    "\<And>i. i < 32 \<Longrightarrow> page_of (item + of_nat i) \<in> live_pages (kernel_heap s)"
    "cstring (mem s) name cs" "\<And>i. i \<le> length cs \<Longrightarrow> page_of (name + of_nat i) \<in> live_pages (kernel_heap s)"
  obtains m where "fat16_get_full_relative_filename item (local_addr s Local_tmp_filename) 108 (mem s) = Some m"
    "fat_keeps s (s\<lparr>mem := m\<rparr>)"
    "istrncmp m (local_addr s Local_tmp_filename) name 108 = 0 \<longleftrightarrow> same_name (file_name (mem_bytes (mem s) item 32)) cs"
proof -
  let ?l = "local_addr s Local_tmp_filename" and ?bs = "mem_bytes (mem s) item 32"
  have off: "108 \<le> unat (a - ?l)" if "page_of a \<in> live_pages (kernel_heap s)" for a
    using stack_outside [OF assms(2) live_pages_heap_pages [OF assms(1) that], of 108] by simp
  have "apart ?l 108 item 32"
    unfolding apart_def
  proof (intro allI impI notI)
    fix i j :: nat assume a: "i < 108" "j < 32" "?l + of_nat i = item + of_nat j"
    have "108 \<le> unat (?l + of_nat i - ?l)" unfolding a(3) by (intro off assms(4) a)
    then show False using a(1) by (simp add: unat_of_nat take_bit_nat_eq_self)
  qed
  then obtain m where m: "fat16_get_full_relative_filename item ?l 108 (mem s) = Some m"
      "cstring m ?l (file_name ?bs)" "\<And>a. 108 \<le> unat (a - ?l) \<Longrightarrow> m a = mem s a"
    using fat16_full_name [OF plain_entry_short [OF assms(3)]] by (metis file_name_def)
  have keep: "m a = mem s a" if "page_of a \<in> live_pages (kernel_heap s)" for a using off [OF that] by (rule m(3))
  have "fat_keeps s (s\<lparr>mem := m, kernel_heap := kernel_heap s, fat_items := fat_items s, fat_descriptors := fat_descriptors s\<rparr>)"
    using assms(1) keep by (intro fat_keeps_shape) auto
  then have k: "fat_keeps s (s\<lparr>mem := m\<rparr>)" by simp
  have "cstring m name cs" by (rule cstring_cong [OF assms(5)]) (intro keep assms(6))
  moreover have "length (file_name ?bs) < 108"
    using plain_entry_short [OF assms(3)] by (auto simp: file_name_def entry_name_def short_entry_def)
  ultimately show ?thesis
    using m(1) k istrncmp_eq_0_iff [OF m(2), of name cs 108] same_name_take [of "file_name ?bs" cs]
    by (intro that [of m]) auto
qed

text \<open>The loop creates an item for every entry with the name, and keeps the last one.\<close>

definition dir_loaded :: "(nat \<Rightarrow> byte list) \<Rightarrow> nat \<Rightarrow> addr \<Rightarrow> 'a fatfs_scheme \<Rightarrow> bool" where
  "dir_loaded ent n items s \<longleftrightarrow> (\<forall>k < n. plain_entry (ent k) \<and> mem_bytes (mem s) (items + of_nat (32 * k)) 32 = ent k \<and>
     (\<forall>i < 32. page_of (items + of_nat (32 * k) + of_nat i) \<in> live_pages (kernel_heap s)))"

definition name_loaded :: "addr \<Rightarrow> byte list \<Rightarrow> 'a kstate_scheme \<Rightarrow> bool" where
  "name_loaded name cs s \<longleftrightarrow> cstring (mem s) name cs \<and>
     (\<forall>i \<le> length cs. page_of (name + of_nat i) \<in> live_pages (kernel_heap s))"

lemma dir_loaded_keeps:
  assumes "dir_loaded ent n items s" "fat_keeps s s'"
  shows "dir_loaded ent n items s'"
  unfolding dir_loaded_def
proof (intro allI impI conjI)
  fix k assume k: "k < n"
  show "plain_entry (ent k)" using assms(1) k by (simp add: dir_loaded_def)
  have "mem_bytes (mem s') (items + of_nat (32 * k)) 32 = mem_bytes (mem s) (items + of_nat (32 * k)) 32"
    using assms(1) k unfolding dir_loaded_def by (intro fat_keeps_bytes [OF assms(2)]) blast
  then show "mem_bytes (mem s') (items + of_nat (32 * k)) 32 = ent k" using assms(1) k by (simp add: dir_loaded_def)
  show "page_of (items + of_nat (32 * k) + of_nat i) \<in> live_pages (kernel_heap s')" if "i < 32" for i
    using assms(1) k that fat_keeps_live [OF assms(2)] unfolding dir_loaded_def by blast
qed

lemma name_loaded_keeps:
  assumes "name_loaded name cs s" "fat_keeps s s'"
  shows "name_loaded name cs s'"
proof -
  have n: "cstring (mem s) name cs" "\<And>i. i \<le> length cs \<Longrightarrow> page_of (name + of_nat i) \<in> live_pages (kernel_heap s)"
    using assms(1) by (simp_all add: name_loaded_def)
  have "cstring (mem s') name cs" by (rule cstring_cong [OF n(1)]) (intro fat_keeps_mem [OF assms(2)] n(2))
  then show ?thesis using assms(1) fat_keeps_live [OF assms(2)] unfolding name_loaded_def by blast
qed

lemma file_item_keeps:
  assumes "file_item bs f s" "fat_keeps s s'" "fat_items s' f = fat_items s f" "heap_inv (kernel_heap s)"
  shows "file_item bs f s'"
proof -
  obtain c where c: "fat_items s f = Some \<lparr>item_ptr = c, item_type = FAT_ITEM_TYPE_FILE\<rparr>"
     "(c, 1) \<in> allocs (kernel_heap s)" "c \<noteq> f" "mem_bytes (mem s) c 32 = bs"
    using assms(1) by (auto simp: file_item_def)
  have "mem_bytes (mem s') c 32 = mem_bytes (mem s) c 32"
    by (intro fat_keeps_bytes [OF assms(2)] alloc_region(2) [OF assms(4) c(2)]) simp
  then show ?thesis using assms(1-3) c by (auto simp: file_item_def fat_keeps_def)
qed

definition found_item :: "byte list \<Rightarrow> nat list \<Rightarrow> addr \<Rightarrow> 'a fatfs_scheme \<Rightarrow> 'a fatfs_scheme \<Rightarrow> bool" where
  "found_item bs rest g s s' \<longleftrightarrow> file_item bs g s' \<and> item_allocs s' g \<inter> allocs (kernel_heap s) = {} \<and>
     (rest = [] \<longrightarrow> allocs (kernel_heap s') = allocs (kernel_heap s) \<union> item_allocs s' g)"

lemma plain_entry_attributes:
  assumes "plain_entry (mem_bytes m item 32)"
  shows "attributes m item AND 0x10 = 0"
proof -
  have "name_stop (m (item + 11))" using assms by (simp add: plain_entry_def)
  then show ?thesis by (auto simp: attributes_def name_stop_def)
qed

lemma fat16_find_loop_result:
  fixes s :: "'a fatfs_scheme"
  assumes "heap_inv (kernel_heap s)" "stack_ok s" "dir_loaded ent n items s" "name_loaded name cs s" "set ks \<subseteq> {..<n}"
    "2 * length (filter (\<lambda>k. same_name (file_name (ent k)) cs) ks) \<le> free_blocks (kernel_heap s)"
  shows "\<exists>g s'. fat16_find_loop TheDisk items name ks f s = Some (g, s') \<and> fat_keeps s s' \<and>
    fat_descriptors s' = fat_descriptors s \<and>
    free_blocks (kernel_heap s) = free_blocks (kernel_heap s') + 2 * length (filter (\<lambda>k. same_name (file_name (ent k)) cs) ks) \<and>
    (case filter (\<lambda>k. same_name (file_name (ent k)) cs) ks of [] \<Rightarrow> g = f \<and> fat_items s' = fat_items s \<and> allocs (kernel_heap s') = allocs (kernel_heap s)
     | k # rest \<Rightarrow> found_item (ent (last (k # rest))) rest g s s')"
  using assms
proof (induction ks arbitrary: f s)
  case Nil
  have "fat_keeps s (s\<lparr>mem := mem s, kernel_heap := kernel_heap s, fat_items := fat_items s, fat_descriptors := fat_descriptors s\<rparr>)"
    using Nil by (intro fat_keeps_shape) auto
  then show ?case by simp
next
  case (Cons k ks)
  let ?item = "items + of_nat (32 * k)" and ?l = "local_addr s Local_tmp_filename"
  let ?match = "\<lambda>k. same_name (file_name (ent k)) cs"
  have k: "k < n" "set ks \<subseteq> {..<n}" using Cons.prems(5) by auto
  have e: "mem_bytes (mem s) ?item 32 = ent k" "plain_entry (mem_bytes (mem s) ?item 32)"
    "\<And>i. i < 32 \<Longrightarrow> page_of (?item + of_nat i) \<in> live_pages (kernel_heap s)"
    using Cons.prems(3) k(1) by (auto simp: dir_loaded_def)
  obtain m where m: "fat16_get_full_relative_filename ?item ?l 108 (mem s) = Some m" "fat_keeps s (s\<lparr>mem := m\<rparr>)"
    "istrncmp m ?l name 108 = 0 \<longleftrightarrow> ?match k"
    by (rule fat16_find_name [OF Cons.prems(1,2) e(2,3), of name cs]) (use Cons.prems(4) e(1) in \<open>auto simp: name_loaded_def\<close>)
  define s1 where "s1 = s\<lparr>mem := m\<rparr>"
  note k1 = m(2) [folded s1_def]
  have so: "stack_ok s1" "kernel_heap s1 = kernel_heap s" "fat_items s1 = fat_items s" "fat_descriptors s1 = fat_descriptors s"
    using Cons.prems(2) by (auto simp: s1_def stack_ok_def)
  note l1 = fat_keeps_fields(9) [OF k1] so(1) dir_loaded_keeps [OF Cons.prems(3) k1] name_loaded_keeps [OF Cons.prems(4) k1]
  show ?case
  proof (cases "?match k")
    case False
    have run: "fat16_find_loop TheDisk items name (k # ks) f s = fat16_find_loop TheDisk items name ks f s1"
      using m(1,3) False by (simp add: s1_def)
    from Cons.IH [OF l1 k(2), of f] Cons.prems(6) so(2) False
    obtain g s' where "fat16_find_loop TheDisk items name ks f s1 = Some (g, s')" "fat_keeps s1 s'"
      "fat_descriptors s' = fat_descriptors s1" "free_blocks (kernel_heap s1) = free_blocks (kernel_heap s') + 2 * length (filter ?match ks)"
      "case filter ?match ks of [] \<Rightarrow> g = f \<and> fat_items s' = fat_items s1 \<and> allocs (kernel_heap s') = allocs (kernel_heap s1)
        | k # rest \<Rightarrow> found_item (ent (last (k # rest))) rest g s1 s'"
      by auto
    then show ?thesis
      using run False so fat_keeps_trans [OF k1] by (auto split: list.splits simp: found_item_def s1_def)
  next
    case True
    have e1: "mem_bytes (mem s1) ?item 32 = ent k" "attributes (mem s1) ?item AND 0x10 = 0"
      "\<And>i. i < 32 \<Longrightarrow> page_of (?item + of_nat i) \<in> live_pages (kernel_heap s1)"
      using l1(3) k(1) plain_entry_attributes [of "mem s1" ?item] by (auto simp: dir_loaded_def)
    have room: "2 + 2 * length (filter ?match ks) \<le> free_blocks (kernel_heap s1)" using Cons.prems(6) True so(2) by simp
    obtain g s2 where g: "fat16_new_fat_item_for_directory_item TheDisk ?item s1 = Some (g, s2)" "fat_keeps s1 s2"
      "free_blocks (kernel_heap s1) = free_blocks (kernel_heap s2) + 2" "file_item (ent k) g s2" "fat_descriptors s2 = fat_descriptors s1"
      "allocs (kernel_heap s2) = allocs (kernel_heap s1) \<union> item_allocs s2 g" "item_allocs s2 g \<inter> allocs (kernel_heap s1) = {}"
      by (rule fat16_new_item_file [OF l1(1) _ e1(2,3)]) (use room e1(1) in auto)
    have so2: "stack_ok s2" using so(1) g(2) fat_keeps_fields(7) [OF g(2)] by (simp add: stack_ok_def fat_keeps_def)
    have "2 * length (filter ?match ks) \<le> free_blocks (kernel_heap s2)" using room g(3) by simp
    note ih = Cons.IH [OF fat_keeps_fields(9) [OF g(2)] so2 dir_loaded_keeps [OF l1(3) g(2)] name_loaded_keeps [OF l1(4) g(2)] k(2) this, of g]
    then obtain g' s' where s': "fat16_find_loop TheDisk items name ks g s2 = Some (g', s')" "fat_keeps s2 s'"
      "fat_descriptors s' = fat_descriptors s2" "free_blocks (kernel_heap s2) = free_blocks (kernel_heap s') + 2 * length (filter ?match ks)"
      "case filter ?match ks of [] \<Rightarrow> g' = g \<and> fat_items s' = fat_items s2 \<and> allocs (kernel_heap s') = allocs (kernel_heap s2)
        | k # rest \<Rightarrow> found_item (ent (last (k # rest))) rest g' s2 s'"
      by blast
    have "fat16_find_loop TheDisk items name (k # ks) f s = Some (g', s')"
      using m(1,3) True g(1) s'(1) by (simp add: s1_def)
    moreover have "found_item (ent (last (k # filter ?match ks))) (filter ?match ks) g' s s'"
      using s'(5) file_item_keeps [OF g(4) s'(2) _ fat_keeps_fields(9) [OF g(2)]] g(6,7)
      by (auto split: list.splits simp: found_item_def s1_def item_allocs_def item_of_def)
    moreover have "fat_keeps s s'" using fat_keeps_trans [OF fat_keeps_trans [OF k1 g(2)] s'(2)] .
    ultimately show ?thesis using True s'(3,4) g(3,5) so by simp
  qed
qed

text \<open>The entries of the root directory on the disk, none of them deleted.\<close>

definition root_entry :: "(nat \<Rightarrow> byte) \<Rightarrow> nat \<Rightarrow> byte list" where
  "root_entry img k = map img [512 * vol_root_sector img + 32 * k..<512 * vol_root_sector img + 32 * k + 32]"

definition plain_root :: "(nat \<Rightarrow> byte) \<Rightarrow> nat \<Rightarrow> bool" where
  "plain_root img n \<longleftrightarrow> n \<le> vol_entries img \<and>
     (\<forall>k < n. plain_entry (root_entry img k) \<and> img (512 * vol_root_sector img + 32 * k) \<noteq> 0xE5)"

definition matches :: "(nat \<Rightarrow> byte) \<Rightarrow> nat \<Rightarrow> byte list \<Rightarrow> nat list" where
  "matches img n cs = filter (\<lambda>k. same_name (file_name (root_entry img k)) cs) [0..<n]"

lemma fat_root_dir_loaded:
  assumes "fat_mounted img n s" "plain_root img n"
  obtains root where "fat_directories s (root_directory (fs_private (disk s))) = Some root" "total_items root = int n"
    "dir_loaded (root_entry img) n (dir_item root) s"
proof -
  let ?R = "512 * vol_root_sector img"
  have all: "used_items img ?R n = n"
    using assms(2) by (simp add: used_items_def plain_root_def)
  obtain root where root: "fat_directories s (root_directory (fs_private (disk s))) = Some root"
    "total_items root = int n" "\<And>i. i < 32 * vol_entries img \<Longrightarrow> page_of (dir_item root + of_nat i) \<in> live_pages (kernel_heap s)"
    "mem_bytes (mem s) (dir_item root) (32 * vol_entries img) = map img [?R..<?R + 32 * vol_entries img]"
    using assms(1) all by (auto simp: fat_mounted_def fat_root_def)
  have "dir_loaded (root_entry img) n (dir_item root) s"
    unfolding dir_loaded_def
  proof (intro allI impI conjI)
    fix k assume k: "k < n"
    then have le: "32 * k + 32 \<le> 32 * vol_entries img" using assms(2) by (auto simp: plain_root_def)
    show "plain_entry (root_entry img k)" using assms(2) k by (simp add: plain_root_def)
    show "mem_bytes (mem s) (dir_item root + of_nat (32 * k)) 32 = root_entry img k"
    proof (rule mem_bytes_eqI)
      fix i :: nat assume i: "i < 32"
      have "mem_bytes (mem s) (dir_item root) (32 * vol_entries img) ! (32 * k + i) = img (?R + (32 * k + i))"
        unfolding root(4) using le i by simp
      then show "mem s (dir_item root + of_nat (32 * k) + of_nat i) = root_entry img k ! i"
        using le i by (simp add: root_entry_def add.assoc)
    qed (simp add: root_entry_def)
    show "page_of (dir_item root + of_nat (32 * k) + of_nat i) \<in> live_pages (kernel_heap s)" if "i < 32" for i
      using root(3) [of "32 * k + i"] le that by (simp add: add.assoc)
  qed
  with root(1,2) show ?thesis by (rule that)
qed

lemma fat16_find_item_result:
  fixes s :: "'a fatfs_scheme"
  assumes "fat_mounted img n s" "plain_root img n" "name_loaded name cs s" "2 * length (matches img n cs) \<le> free_blocks (kernel_heap s)"
  obtains f s' where "fat16_find_item_in_directory TheDisk (root_directory (fs_private (disk s))) name s = Some (f, s')"
    "fat_keeps s s'" "fat_descriptors s' = fat_descriptors s"
    "free_blocks (kernel_heap s) = free_blocks (kernel_heap s') + 2 * length (matches img n cs)"
    "if matches img n cs = [] then f = 0
     else found_item (root_entry img (last (matches img n cs))) (tl (matches img n cs)) f s s'"
proof -
  obtain root where root: "fat_directories s (root_directory (fs_private (disk s))) = Some root" "total_items root = int n"
    "dir_loaded (root_entry img) n (dir_item root) s"
    by (rule fat_root_dir_loaded [OF assms(1,2)])
  have st: "heap_inv (kernel_heap s)" "stack_ok s" using assms(1) by (simp_all add: fat_mounted_def fat_volume_def)
  have rng: "set [0..<n] \<subseteq> {..<n}" by auto
  note loop = fat16_find_loop_result [OF st root(3) assms(3) rng, folded matches_def, OF assms(4), of 0]
  then obtain f s' where "fat16_find_loop TheDisk (dir_item root) name [0..<n] 0 s = Some (f, s')" "fat_keeps s s'"
    "fat_descriptors s' = fat_descriptors s"
    "free_blocks (kernel_heap s) = free_blocks (kernel_heap s') + 2 * length (matches img n cs)"
    "case matches img n cs of [] \<Rightarrow> f = 0 \<and> fat_items s' = fat_items s \<and> allocs (kernel_heap s') = allocs (kernel_heap s)
     | k # rest \<Rightarrow> found_item (root_entry img (last (k # rest))) rest f s s'"
    by blast
  then show ?thesis
    using root by (intro that [of f s']) (auto simp: fat16_find_item_in_directory_def split: list.splits)
qed

text \<open>An open file: a descriptor at position 0 with a file item, in allocations of their own.\<close>

definition open_file :: "byte list \<Rightarrow> addr \<Rightarrow> 'a fatfs_scheme \<Rightarrow> bool" where
  "open_file bs d s \<longleftrightarrow> d \<noteq> 0 \<and> (d, 1) \<in> allocs (kernel_heap s) \<and>
     (\<exists>f. fat_descriptors s d = Some \<lparr>descriptor_item = f, pos = 0\<rparr> \<and> file_item bs f s \<and> d \<notin> {f, item_of s f})"

definition file_allocs :: "'a fatfs_scheme \<Rightarrow> addr \<Rightarrow> (addr \<times> nat) set" where
  "file_allocs s d = insert (d, 1) (case fat_descriptors s d of Some fd \<Rightarrow> item_allocs s (descriptor_item fd) | None \<Rightarrow> {})"

lemma fat_descriptors_update [simp]:
  "file_item bs f (s\<lparr>fat_descriptors := fds\<rparr>) = file_item bs f s"
  "item_of (s\<lparr>fat_descriptors := fds\<rparr>) f = item_of s f"
  "item_allocs (s\<lparr>fat_descriptors := fds\<rparr>) f = item_allocs s f"
  by (simp_all add: file_item_def item_of_def item_allocs_def)

lemma fat_keeps_refl: "heap_inv (kernel_heap s) \<Longrightarrow> fat_keeps s s"
  using fat_keeps_shape [where h = "kernel_heap s" and s = s and m = "mem s" and items = "fat_items s" and fds = "fat_descriptors s"]
  by simp

lemma fat_keeps_descriptors: "fat_keeps s s' \<Longrightarrow> fat_keeps s (s'\<lparr>fat_descriptors := fds\<rparr>)"
  using fat_keeps_update [where s = s and s' = s' and m = "mem s'" and items = "fat_items s'" and fds = fds] by simp

lemma fat16_open_result:
  fixes s :: "'a fatfs_scheme"
  assumes "fat_mounted img n s" "plain_root img n" "path_parts s path = Some pp" "name_loaded (part pp) cs s"
    "Suc (2 * length (matches img n cs)) \<le> free_blocks (kernel_heap s)"
  obtains d s' where "fat16_open TheDisk path FILE_MODE_READ s = Some (d, s')" "fat_keeps s s'" "fat_mounted img n s'"
    "free_blocks (kernel_heap s) = free_blocks (kernel_heap s') + Suc (2 * length (matches img n cs))"
    "if matches img n cs = [] \<or> next_part pp \<noteq> 0 then d = ERROR (- IO_ERROR)
     else open_file (root_entry img (last (matches img n cs))) d s' \<and> file_allocs s' d \<inter> allocs (kernel_heap s) = {} \<and>
       (tl (matches img n cs) = [] \<longrightarrow> allocs (kernel_heap s') = allocs (kernel_heap s) \<union> file_allocs s' d)"
proof -
  have hi: "heap_inv (kernel_heap s)" using assms(1) by (simp add: fat_mounted_def fat_volume_def)
  obtain d s1 where d: "kernel_zalloc 8 s = Some (d, s1)" "d \<noteq> 0" "fat_keeps s s1"
    "allocs (kernel_heap s1) = insert (d, 1) (allocs (kernel_heap s))" "free_blocks (kernel_heap s) = Suc (free_blocks (kernel_heap s1))"
    "page_of d \<notin> live_pages (kernel_heap s)"
    by (rule zalloc_keeps [OF hi, of 8]) (use assms(5) in auto)
  note f1 = fat_keeps_fields [OF d(3)]
  have room: "2 * length (matches img n cs) \<le> free_blocks (kernel_heap s1)" using assms(5) d(5) by simp
  let ?bs = "root_entry img (last (matches img n cs))"
  obtain f s2 where f: "fat16_find_item_in_directory TheDisk (root_directory (fs_private (disk s1))) (part pp) s1 = Some (f, s2)"
    "fat_keeps s1 s2" "fat_descriptors s2 = fat_descriptors s1"
    "free_blocks (kernel_heap s1) = free_blocks (kernel_heap s2) + 2 * length (matches img n cs)"
    "if matches img n cs = [] then f = 0 else found_item ?bs (tl (matches img n cs)) f s1 s2"
    by (rule fat16_find_item_result [OF fat_mounted_keeps [OF assms(1) d(3)] assms(2) name_loaded_keeps [OF assms(4) d(3)] room])
  let ?bad = "matches img n cs = [] \<or> next_part pp \<noteq> 0"
  let ?e = "if ?bad then 0 else f"
  let ?s = "s2\<lparr>fat_descriptors := (fat_descriptors s2)(d \<mapsto> \<lparr>descriptor_item = ?e, pos = 0\<rparr>)\<rparr>"
  have desc: "fat16_descend TheDisk f (next_part pp) s2 = Some (?e, s2)" if "matches img n cs \<noteq> []"
    using f(5) that by (subst fat16_descend.simps) (auto simp: found_item_def file_item_def)
  have f0: "f = 0 \<longleftrightarrow> matches img n cs = []" using f(5) by (auto simp: found_item_def file_item_def split: if_splits)
  then have "fat16_get_directory_entry TheDisk path s1 = Some (?e, s2)"
    using f(1) assms(3) f1 desc by (cases "matches img n cs = []") (simp_all add: fat16_get_directory_entry_def disk_of_def)
  moreover have nz: "?e = 0 \<longleftrightarrow> ?bad" using f0 by auto
  ultimately have run: "fat16_open TheDisk path FILE_MODE_READ s = Some (if ?bad then ERROR (- IO_ERROR) else d, ?s)"
    using d(1,2) by (simp add: fat16_open_def)
  have k: "fat_keeps s ?s" using fat_keeps_trans [OF d(3) f(2)] by (rule fat_keeps_descriptors)
  have fresh: "(d, 1) \<notin> allocs (kernel_heap s)" using live_pagesI [of d "kernel_heap s"] d(6) by auto
  have "open_file ?bs d ?s \<and> file_allocs ?s d \<inter> allocs (kernel_heap s) = {} \<and>
      (tl (matches img n cs) = [] \<longrightarrow> allocs (kernel_heap ?s) = allocs (kernel_heap s) \<union> file_allocs ?s d)" if "\<not> ?bad"
  proof -
    have fi: "found_item ?bs (tl (matches img n cs)) f s1 s2" using f(5) that by simp
    then have "d \<notin> {f, item_of s2 f}" using d(4) by (auto simp: found_item_def item_allocs_def)
    moreover have "(d, 1) \<in> allocs (kernel_heap s2)" using d(4) f(2) by (auto simp: fat_keeps_def)
    ultimately show ?thesis
      using fi d(2,4) fresh that by (auto simp: open_file_def file_allocs_def found_item_def)
  qed
  with run k show ?thesis
    using fat_mounted_keeps [OF assms(1) k] d(5) f(4) by (intro that [of "if ?bad then ERROR (- IO_ERROR) else d" ?s]) auto
qed

section \<open>Closing a file\<close>

text \<open>The items of a file are freed with its descriptor.\<close>

lemma kernel_free_allocs:
  assumes "heap_inv (kernel_heap s)" "(p, n) \<in> allocs (kernel_heap s)"
  shows "heap_inv (kernel_heap (kernel_free p s))" "allocs (kernel_heap (kernel_free p s)) = allocs (kernel_heap s) - {(p, n)}"
  using heap_free_inv [OF assms] by (simp_all add: kernel_free_def)

lemma fat16_close_result:
  fixes s :: "'a fatfs_scheme"
  assumes "heap_inv (kernel_heap s)" "open_file bs d s"
  obtains s' where "fat16_close d s = Some (0, s')" "heap_inv (kernel_heap s')"
    "allocs (kernel_heap s') = allocs (kernel_heap s) - file_allocs s d" "fat_descriptors s' d = None" "mem s' = mem s"
    "tail_room s \<le> tail_room s'" "heap_pages (kernel_heap s') = heap_pages (kernel_heap s)" "\<exists>h items fds. s' = s\<lparr>kernel_heap := h, fat_items := items, fat_descriptors := fds\<rparr>"
proof -
  obtain f c where d: "d \<noteq> 0" "(d, 1) \<in> allocs (kernel_heap s)" "fat_descriptors s d = Some \<lparr>descriptor_item = f, pos = 0\<rparr>"
    "d \<notin> {f, c}" "(f, 1) \<in> allocs (kernel_heap s)" "(c, 1) \<in> allocs (kernel_heap s)" "c \<noteq> f"
    "fat_items s f = Some \<lparr>item_ptr = c, item_type = FAT_ITEM_TYPE_FILE\<rparr>"
    using assms(2) by (auto simp: open_file_def file_item_def item_of_def)
  define s1 where "s1 = kernel_free c s"
  define s2 where "s2 = (kernel_free f s1)\<lparr>fat_items := (fat_items s1)(f := None)\<rparr>"
  define s3 where "s3 = (kernel_free d s2)\<lparr>fat_descriptors := (fat_descriptors s2)(d := None)\<rparr>"
  have "s3 = s\<lparr>kernel_heap := kernel_heap s3, fat_items := fat_items s3, fat_descriptors := fat_descriptors s3\<rparr>"
    by (cases s) (simp add: s3_def s2_def s1_def kernel_free_def)
  then have shape: "\<exists>h items fds. s3 = s\<lparr>kernel_heap := h, fat_items := items, fat_descriptors := fds\<rparr>" by blast
  have run: "fat16_close d s = Some (0, s3)"
    using d by (simp add: fat16_close_def fat16_free_file_descriptor_def fat16_fat_item_free_def s1_def s2_def s3_def)
  have 1: "heap_inv (kernel_heap s1)" "allocs (kernel_heap s1) = allocs (kernel_heap s) - {(c, 1)}"
    using kernel_free_allocs [OF assms(1) d(6)] by (simp_all add: s1_def)
  have 2: "heap_inv (kernel_heap s2)" "allocs (kernel_heap s2) = allocs (kernel_heap s) - {(c, 1), (f, 1)}"
    using kernel_free_allocs [OF 1(1), of f 1] 1(2) d by (auto simp: s2_def)
  have 3: "heap_inv (kernel_heap s3)" "allocs (kernel_heap s3) = allocs (kernel_heap s) - {(c, 1), (f, 1), (d, 1)}"
    using kernel_free_allocs [OF 2(1), of d 1] 2(2) d by (auto simp: s3_def)
  have "tail_room s \<le> tail_room s1" "tail_room s1 \<le> tail_room s2" "tail_room s2 \<le> tail_room s3"
    using free_tail_heap_free [OF assms(1) d(6)] free_tail_heap_free [OF 1(1), of f 1] free_tail_heap_free [OF 2(1), of d 1]
      d 1(2) 2(2) by (auto simp: tail_room_def s1_def s2_def s3_def kernel_free_def)
  then have "tail_room s \<le> tail_room s3" by simp
  moreover have "file_allocs s d = {(c, 1), (f, 1), (d, 1)}"
    using d by (auto simp: file_allocs_def item_allocs_def item_of_def)
  ultimately show ?thesis
    using run 3 shape by (intro that [of s3]) (auto simp: s3_def s2_def s1_def kernel_free_def)
qed

section \<open>Reading a file\<close>

definition entry_cluster :: "byte list \<Rightarrow> nat" where
  "entry_cluster bs = unat (bs ! 26) + 256 * unat (bs ! 27)"

lemma fat16_get_first_cluster_entry:
  assumes "mem_bytes m item 32 = bs" "bs ! 20 = 0" "bs ! 21 = 0"
  shows "fat16_get_first_cluster m item = of_nat (entry_cluster bs)"
proof -
  have b: "m (item + of_nat i) = bs ! i" if "i < 32" for i using that by (simp flip: assms(1))
  have "high_16_bits_first_cluster m item = 0"
    using b [of 20] b [of 21] assms(2,3) by (simp add: high_16_bits_first_cluster_def load16_def add.assoc)
  moreover have "unat (low_16_bits_first_cluster m item) = entry_cluster bs"
    using b [of 26] b [of 27] by (simp add: low_16_bits_first_cluster_def unat_load16 entry_cluster_def add.assoc)
  ultimately show ?thesis
    by (simp add: fat16_get_first_cluster_def flip: \<open>unat (low_16_bits_first_cluster m item) = entry_cluster bs\<close>)
qed

lemma entry_cluster_less: "entry_cluster bs < 65536"
  using unat_byte_less [of "bs ! 26"] unat_byte_less [of "bs ! 27"] by (simp add: entry_cluster_def)

text \<open>A buffer in live memory that is apart from the volume header and from the entry of the file.\<close>

definition read_buffer :: "addr \<Rightarrow> addr \<Rightarrow> nat \<Rightarrow> 'a fatfs_scheme \<Rightarrow> bool" where
  "read_buffer d out n s \<longleftrightarrow> fat_buffer s out n \<and> (\<forall>fd. fat_descriptors s d = Some fd \<longrightarrow>
     (\<forall>i < n. page_of (out + of_nat i) \<noteq> page_of (item_of s (descriptor_item fd))))"

lemma fat16_read_result:
  fixes s :: "'a fatfs_scheme"
  assumes "fat_volume img s" "stack_ok s" "fat_descriptors s d = Some \<lparr>descriptor_item = f, pos = of_nat off\<rparr>" "file_item bs f s"
    "bs ! 20 = 0" "bs ! 21 = 0" "0 < sz" "off + unat nmemb * unat sz < 2 ^ 31"
    "\<And>i. i < unat nmemb \<Longrightarrow> fat_readable img (entry_cluster bs) (off + i * unat sz) (unat sz)"
    "read_buffer d out (unat nmemb * unat sz) s"
  obtains s' where "fat16_read TheDisk d sz nmemb out s = Some (sint nmemb, s')" "stream_frame s s'" "fat_volume img s'"
    "stack_ok s'" "\<And>k. k < unat nmemb * unat sz \<Longrightarrow>
      mem s' (out + of_nat k) = file_byte img (entry_cluster bs) (off + k div unat sz * unat sz) (k mod unat sz)"
    "\<And>a. page_of a \<in> heap_pages (kernel_heap s) \<Longrightarrow> unat nmemb * unat sz \<le> unat (a - out) \<Longrightarrow> mem s' a = mem s a"
proof -
  obtain c where c: "fat_items s f = Some \<lparr>item_ptr = c, item_type = FAT_ITEM_TYPE_FILE\<rparr>"
      "(c, 1) \<in> allocs (kernel_heap s)" "mem_bytes (mem s) c 32 = bs"
    using assms(4) by (auto simp: file_item_def)
  have hi: "heap_inv (kernel_heap s)" using assms(1) by (simp add: fat_volume_def)
  have fc: "fat16_get_first_cluster (mem s) c = of_nat (entry_cluster bs)"
    using fat16_get_first_cluster_entry [OF c(3) assms(5,6)] .
  let ?n = "unat nmemb * unat sz"
  have it: "page_of (c + of_nat i) \<in> heap_pages (kernel_heap s) \<and> ?n \<le> unat (c + of_nat i - out)" if "i < 32" for i
  proof
    have pg: "page_of (c + of_nat i) = page_of c" "page_of (c + of_nat i) \<in> live_pages (kernel_heap s)"
      using alloc_region [OF hi c(2), of i] that by auto
    then show "page_of (c + of_nat i) \<in> heap_pages (kernel_heap s)" using live_pages_heap_pages [OF hi] by blast
    show "?n \<le> unat (c + of_nat i - out)"
    proof (rule ccontr)
      assume "\<not> ?n \<le> unat (c + of_nat i - out)"
      then have "page_of (out + of_nat (unat (c + of_nat i - out))) \<noteq> page_of c"
        using assms(3,10) c(1) unfolding read_buffer_def item_of_def by (metis not_le_imp_less fat_file_descriptor.select_convs(1) fat_item.select_convs(1) option.case(2))
      then show False using pg by simp
    qed
  qed
  have "\<exists>s'. fat16_read_loop TheDisk c (unat nmemb) (int off) sz out s = Some (0, s') \<and>
    stream_frame s s' \<and> fat_volume img s' \<and> stack_ok s' \<and>
    (\<forall>k < ?n. mem s' (out + of_nat k) = file_byte img (entry_cluster bs) (off + k div unat sz * unat sz) (k mod unat sz)) \<and>
    (\<forall>a. page_of a \<in> heap_pages (kernel_heap s) \<longrightarrow> ?n \<le> unat (a - out) \<longrightarrow> mem s' a = mem s a)"
    by (rule fat16_read_loop_result [OF assms(1,2,7) fc entry_cluster_less assms(9) _ assms(8) it])
       (use assms(10) in \<open>auto simp: read_buffer_def\<close>)
  then obtain s' where "fat16_read_loop TheDisk c (unat nmemb) (int off) sz out s = Some (0, s')"
    "stream_frame s s'" "fat_volume img s'" "stack_ok s'"
    "\<And>k. k < ?n \<Longrightarrow> mem s' (out + of_nat k) = file_byte img (entry_cluster bs) (off + k div unat sz * unat sz) (k mod unat sz)"
    "\<And>a. page_of a \<in> heap_pages (kernel_heap s) \<Longrightarrow> ?n \<le> unat (a - out) \<Longrightarrow> mem s' a = mem s a"
    by blast
  moreover have "sint (of_nat off :: u32) = int off" using assms(8) by (intro sint_of_nat_small) simp
  ultimately show ?thesis
    using assms(3) c(1) by (intro that [of s']) (simp_all add: fat16_read_def)
qed

section \<open>The contract of a file system driver\<close>

text \<open>
  What the file layer relies on of a driver: opening a file that is there gives a handle in
  fresh memory, and closing a handle gives this memory back.
\<close>

locale file_driver =
  fixes mounted :: "'s \<Rightarrow> bool"
    and used :: "'s \<Rightarrow> (addr \<times> nat) set"
    and finds :: "'p \<Rightarrow> 'f \<Rightarrow> 's \<Rightarrow> bool"
    and is_open :: "'f \<Rightarrow> addr \<Rightarrow> 's \<Rightarrow> bool"
    and handle_memory :: "'s \<Rightarrow> addr \<Rightarrow> (addr \<times> nat) set"
    and open_call :: "'p \<Rightarrow> 's \<Rightarrow> (addr \<times> 's) option"
    and close_call :: "addr \<Rightarrow> 's \<Rightarrow> (int \<times> 's) option"
  assumes open_ok: "mounted s \<Longrightarrow> finds p f s \<Longrightarrow> \<exists>d s'. open_call p s = Some (d, s') \<and> mounted s' \<and> is_open f d s' \<and>
      handle_memory s' d \<inter> used s = {} \<and> used s' = used s \<union> handle_memory s' d"
    and close_ok: "mounted s \<Longrightarrow> is_open f d s \<Longrightarrow>
      \<exists>s'. close_call d s = Some (0, s') \<and> used s' = used s - handle_memory s d"
begin

lemma open_close:
  assumes "mounted s" "finds p f s"
  shows "\<exists>d s' s''. open_call p s = Some (d, s') \<and> is_open f d s' \<and> close_call d s' = Some (0, s'') \<and> used s'' = used s"
proof -
  obtain d s' where o: "open_call p s = Some (d, s')" "mounted s'" "is_open f d s'"
      "handle_memory s' d \<inter> used s = {}" "used s' = used s \<union> handle_memory s' d"
    using open_ok [OF assms] by blast
  obtain s'' where "close_call d s' = Some (0, s'')" "used s'' = used s' - handle_memory s' d"
    using close_ok [OF o(2,3)] by blast
  with o show ?thesis by auto
qed

end

text \<open>The path part leads to the one entry of the root directory that has its name.\<close>

definition names_entry :: "(nat \<Rightarrow> byte) \<Rightarrow> nat \<Rightarrow> addr \<Rightarrow> byte list \<Rightarrow> 'a fatfs_scheme \<Rightarrow> bool" where
  "names_entry img n path bs s \<longleftrightarrow> (\<exists>name cs k. path_parts s path = Some \<lparr>part = name, next_part = 0\<rparr> \<and>
     name_loaded name cs s \<and> matches img n cs = [k] \<and> bs = root_entry img k \<and> 3 \<le> free_blocks (kernel_heap s))"

interpretation fat: file_driver "\<lambda>s. fat_mounted img n s \<and> plain_root img n" "\<lambda>s. allocs (kernel_heap s)"
  "names_entry img n" open_file file_allocs "\<lambda>path. fat16_open TheDisk path FILE_MODE_READ" fat16_close for img n
proof unfold_locales
  fix s :: "'a fatfs_scheme" and p f
  assume m: "fat_mounted img n s \<and> plain_root img n" and "names_entry img n p f s"
  then obtain name cs k where c: "path_parts s p = Some \<lparr>part = name, next_part = 0\<rparr>" "name_loaded name cs s"
      "matches img n cs = [k]" "f = root_entry img k" "3 \<le> free_blocks (kernel_heap s)"
    by (auto simp: names_entry_def)
  obtain d s' where "fat16_open TheDisk p FILE_MODE_READ s = Some (d, s')" "fat_mounted img n s'"
    "if matches img n cs = [] \<or> next_part \<lparr>part = name, next_part = 0\<rparr> \<noteq> 0 then d = ERROR (- IO_ERROR)
     else open_file (root_entry img (last (matches img n cs))) d s' \<and> file_allocs s' d \<inter> allocs (kernel_heap s) = {} \<and>
       (tl (matches img n cs) = [] \<longrightarrow> allocs (kernel_heap s') = allocs (kernel_heap s) \<union> file_allocs s' d)"
    by (rule fat16_open_result [OF conjunct1 [OF m] conjunct2 [OF m] c(1)]) (use c in auto)
  then show "\<exists>d s'. fat16_open TheDisk p FILE_MODE_READ s = Some (d, s') \<and> (fat_mounted img n s' \<and> plain_root img n) \<and>
      open_file f d s' \<and> file_allocs s' d \<inter> allocs (kernel_heap s) = {} \<and>
      allocs (kernel_heap s') = allocs (kernel_heap s) \<union> file_allocs s' d"
    using m c(3,4) by auto
next
  fix s :: "'a fatfs_scheme" and f d
  assume "fat_mounted img n s \<and> plain_root img n" and o: "open_file f d s"
  then have "heap_inv (kernel_heap s)" by (simp add: fat_mounted_def fat_volume_def)
  from fat16_close_result [OF this o]
  show "\<exists>s'. fat16_close d s = Some (0, s') \<and> allocs (kernel_heap s') = allocs (kernel_heap s) - file_allocs s d"
    by metis
qed

section \<open>Properties of files\<close>

text \<open>
  C17. Opening a file of a mounted volume. \<open>fat16_open\<close> always returns. If no entry of the root
  directory has the name of the first path part, letter case apart, or if the path has a second
  part, the result is the error \<open>IO_ERROR\<close>; otherwise it is a descriptor at position 0 for a copy
  of the last entry with the name. The volume stays mounted and all allocated memory is kept.
\<close>

theorem fat16_open_last_match:
  fixes s :: "'a fatfs_scheme"
  assumes "fat_mounted img n s" "plain_root img n" "path_parts s path = Some pp" "name_loaded (part pp) cs s"
    "Suc (2 * length (matches img n cs)) \<le> free_blocks (kernel_heap s)"
  shows "\<exists>d s'. fat16_open TheDisk path FILE_MODE_READ s = Some (d, s') \<and> fat_keeps s s' \<and> fat_mounted img n s' \<and>
    (if matches img n cs = [] \<or> next_part pp \<noteq> 0 then d = ERROR (- IO_ERROR)
     else open_file (root_entry img (last (matches img n cs))) d s')"
proof -
  obtain d s' where "fat16_open TheDisk path FILE_MODE_READ s = Some (d, s')" "fat_keeps s s'" "fat_mounted img n s'"
    "if matches img n cs = [] \<or> next_part pp \<noteq> 0 then d = ERROR (- IO_ERROR)
     else open_file (root_entry img (last (matches img n cs))) d s' \<and> file_allocs s' d \<inter> allocs (kernel_heap s) = {} \<and>
       (tl (matches img n cs) = [] \<longrightarrow> allocs (kernel_heap s') = allocs (kernel_heap s) \<union> file_allocs s' d)"
    by (rule fat16_open_result [OF assms]) blast
  then show ?thesis by (intro exI [of _ d] exI [of _ s']) (auto split: if_splits)
qed

text \<open>
  Opening a file that is there, under a name that only one entry has, and closing it again
  gives back exactly the memory that was taken.
\<close>

theorem fat16_open_close:
  fixes s :: "'a fatfs_scheme"
  assumes "fat_mounted img n s" "plain_root img n" "names_entry img n path bs s"
  shows "\<exists>d s' s''. fat16_open TheDisk path FILE_MODE_READ s = Some (d, s') \<and> open_file bs d s' \<and>
    fat16_close d s' = Some (0, s'') \<and> allocs (kernel_heap s'') = allocs (kernel_heap s)"
  using fat.open_close [OF _ assms(3)] assms(1,2) by blast

text \<open>
  What the driver takes for the contents of a file, by the chain of clusters it follows, and the
  reads that stay in this chain: a block that starts at a cluster boundary, or that does not cross
  one.
\<close>

definition driver_content :: "(nat \<Rightarrow> byte) \<Rightarrow> nat \<Rightarrow> nat \<Rightarrow> byte" where
  "driver_content img c i =
     img (cluster_pos img (the (driver_chain img (i div cluster_size img) c)) + i mod cluster_size img)"

definition block_fits :: "(nat \<Rightarrow> byte) \<Rightarrow> nat \<Rightarrow> nat \<Rightarrow> bool" where
  "block_fits img off sz \<longleftrightarrow> off mod cluster_size img = 0 \<or> off mod cluster_size img + sz \<le> cluster_size img"

lemma file_byte_driver:
  assumes "block_fits img off sz" "j < sz"
  shows "file_byte img c off j = driver_content img c (off + j)"
proof (cases "off mod cluster_size img = 0")
  case True
  then obtain q where q: "off = cluster_size img * q" by auto
  show ?thesis
    by (cases "cluster_size img = 0") (simp_all add: file_byte_def driver_content_def q)
next
  case False
  then have le: "off mod cluster_size img + j < cluster_size img" using assms by (auto simp: block_fits_def)
  then have "(off + j) mod cluster_size img = off mod cluster_size img + j" "(off + j) div cluster_size img = off div cluster_size img"
    using mod_add_left_eq [of off "cluster_size img" j] div_add1_eq [of off j "cluster_size img"] by auto
  then show ?thesis using le by (simp add: file_byte_def driver_content_def add.assoc)
qed

text \<open>Where the driver finds the right clusters these are the contents of the file.\<close>

lemma driver_content_file:
  "table_agrees img c (i div cluster_size img) \<Longrightarrow> driver_chain img (i div cluster_size img) c \<noteq> None \<Longrightarrow>
   driver_content img c i = file_content img c i"
  unfolding driver_content_def file_content_def by (drule (1) driver_chain_file) (rule arg_cong, simp only:)

lemma first_cluster_content: "i < cluster_size img \<Longrightarrow> driver_content img c i = file_content img c i"
  by (simp add: driver_content_def file_content_def)

lemma readable_chain:
  assumes "fat_readable img c off sz" "block_fits img off sz" "j < sz"
  shows "driver_chain img ((off + j) div cluster_size img) c \<noteq> None"
proof -
  have "(off + j) div cluster_size img = off div cluster_size img + j div cluster_size img"
  proof (cases "off mod cluster_size img = 0")
    case True
    then show ?thesis by (auto simp: div_add1_eq [of off j])
  next
    case False
    then have "off mod cluster_size img + j < cluster_size img" using assms(2,3) by (auto simp: block_fits_def)
    moreover from this have "(off mod cluster_size img + j mod cluster_size img) div cluster_size img = 0"
      using mod_less_eq_dividend [of j "cluster_size img"] by (intro div_less) linarith
    ultimately show ?thesis using div_add1_eq [of off j "cluster_size img"] by simp
  qed
  moreover have "j div cluster_size img \<le> (sz - 1) div cluster_size img" using assms(3) by (intro div_le_mono) simp
  ultimately show ?thesis using assms(1) unfolding fat_readable_def by (metis option.distinct(1))
qed

text \<open>
  C18. Reading. \<open>fat16_read\<close> of \<open>nmemb\<close> blocks of \<open>sz\<close> bytes, each of which starts at a cluster
  boundary or stays within a cluster, returns \<open>nmemb\<close> and delivers the bytes of the clusters that
  the driver's look-ups lead to. These are the contents of the file in its first cluster, and
  further on as long as every look-up gives what the allocation table has for the cluster;
  the look-ups are in the wrong place (\<open>fat16_get_fat_entry_position\<close>), so nothing else is
  promised behind the first cluster. Memory of the heap outside the buffer is kept, and the
  position of the descriptor does not advance.
\<close>

theorem fat16_read_delivers:
  fixes s :: "'a fatfs_scheme"
  assumes "fat_volume img s" "stack_ok s" "fat_descriptors s d = Some \<lparr>descriptor_item = f, pos = of_nat off\<rparr>" "file_item bs f s"
    "bs ! 20 = 0" "bs ! 21 = 0" "0 < sz" "off + unat nmemb * unat sz < 2 ^ 31"
    "\<And>i. i < unat nmemb \<Longrightarrow> fat_readable img (entry_cluster bs) (off + i * unat sz) (unat sz) \<and>
       block_fits img (off + i * unat sz) (unat sz)"
    "read_buffer d out (unat nmemb * unat sz) s"
  shows "\<exists>s'. fat16_read TheDisk d sz nmemb out s = Some (sint nmemb, s') \<and> fat_descriptors s' = fat_descriptors s \<and>
    (\<forall>k < unat nmemb * unat sz. mem s' (out + of_nat k) = driver_content img (entry_cluster bs) (off + k)) \<and>
    (\<forall>k < unat nmemb * unat sz. table_agrees img (entry_cluster bs) ((off + k) div cluster_size img) \<longrightarrow>
       mem s' (out + of_nat k) = file_content img (entry_cluster bs) (off + k)) \<and>
    (\<forall>a. page_of a \<in> heap_pages (kernel_heap s) \<longrightarrow> unat nmemb * unat sz \<le> unat (a - out) \<longrightarrow> mem s' a = mem s a)"
proof -
  obtain s' where s': "fat16_read TheDisk d sz nmemb out s = Some (sint nmemb, s')" "stream_frame s s'"
    "\<And>k. k < unat nmemb * unat sz \<Longrightarrow>
      mem s' (out + of_nat k) = file_byte img (entry_cluster bs) (off + k div unat sz * unat sz) (k mod unat sz)"
    "\<And>a. page_of a \<in> heap_pages (kernel_heap s) \<Longrightarrow> unat nmemb * unat sz \<le> unat (a - out) \<Longrightarrow> mem s' a = mem s a"
    by (rule fat16_read_result [OF assms(1-8) _ assms(10)]) (use assms(9) in auto)
  have "mem s' (out + of_nat k) = driver_content img (entry_cluster bs) (off + k) \<and>
      (table_agrees img (entry_cluster bs) ((off + k) div cluster_size img) \<longrightarrow>
       mem s' (out + of_nat k) = file_content img (entry_cluster bs) (off + k))" if "k < unat nmemb * unat sz" for k
  proof -
    have z: "0 < unat sz" using assms(7) by (simp add: word_less_nat_alt)
    have i: "k div unat sz < unat nmemb" using that by (simp add: less_mult_imp_div_less)
    then have c: "driver_chain img ((off + k div unat sz * unat sz + k mod unat sz) div cluster_size img) (entry_cluster bs) \<noteq> None"
      using assms(9) z by (intro readable_chain [where sz = "unat sz"]) auto
    have "file_byte img (entry_cluster bs) (off + k div unat sz * unat sz) (k mod unat sz) =
        driver_content img (entry_cluster bs) (off + k div unat sz * unat sz + k mod unat sz)"
      using assms(9) z i by (intro file_byte_driver [where sz = "unat sz"]) auto
    then show ?thesis using s'(3) [OF that] c driver_content_file by (simp add: add.assoc)
  qed
  then show ?thesis
    using s'(1,4) stream_frame_fat_fields(4) [OF s'(2)] by blast
qed


section \<open>An example\<close>

lemma demo_root_entry:
  "root_entry demo_volume 0 = [65, 32, 32, 32, 32, 32, 32, 32, 84, 88, 84, 32, 0, 0, 0, 0,
     0, 0, 0, 0, 0, 0, 0, 0, 0, 0, 2, 0, 2, 0, 0, 0]"
  by (simp add: root_entry_def demo_volume_fields upt_rec demo_volume_def)

lemma demo_plain_root: "plain_root demo_volume 1"
proof -
  have r: "replicate 7 (32 :: byte) = [32, 32, 32, 32, 32, 32, 32]" by (simp add: numeral_eq_Suc)
  have "plain_entry (root_entry demo_volume 0)"
    by (simp add: demo_root_entry plain_entry_def entry_base_def entry_ext_def name_stop_def r)
  then show ?thesis
    by (simp add: plain_root_def demo_volume_fields demo_volume_def)
qed

lemma demo_matches: "matches demo_volume (Suc 0) [65, 46, 84, 88, 84] = [0]"
  by (simp add: matches_def demo_root_entry file_name_def entry_name_def entry_base_def entry_ext_def name_stop_def same_name_def)

lemma demo_mounted:
  obtains s where "fat_mounted demo_volume 1 (s :: fatfs)"
    "path_parts s 0x01000100 = Some \<lparr>part = 0x01000003, next_part = 0\<rparr>"
    "name_loaded 0x01000003 [65, 46, 84, 88, 84] s" "25000 \<le> free_blocks (kernel_heap s)"
    "(0x01000000, 1) \<in> allocs (kernel_heap s)" "page_of (fs_private (disk s)) \<noteq> page_of 0x01000000"
proof -
  let ?d = "demo_fat demo_volume ()"
  obtain s where s: "fat_mounted demo_volume 1 s" "tail_room ?d \<le> tail_room s + 5 + blocks_for (root_size demo_volume)"
      "fat_resolve_frame ?d s" "page_of (fs_private (disk s)) \<notin> live_pages (kernel_heap ?d)"
    by (rule fat16_resolve_mounts_volume [of demo_volume ?d 1])
       (use demo_fat_heap [of demo_volume "()"] demo_fat_stack [of demo_volume "()"] fat_image_demo demo_volume_fields(8)
        in \<open>auto simp: demo_fat_def\<close>)
  have al: "(0x01000000, 1) \<in> allocs (kernel_heap s)"
    using s(3) demo_fat_heap(3) [of demo_volume "()"] by (auto simp: fat_resolve_frame_def)
  define t where "t = s\<lparr>path_parts := [0x01000100 \<mapsto> \<lparr>part = 0x01000003, next_part = 0\<rparr>]\<rparr>"
  have hi: "heap_inv (kernel_heap s)" using s(1) by (simp add: fat_mounted_def fat_volume_def)
  have pr: "page_of (fs_private (disk t)) \<noteq> page_of 0x01000000"
    using s(4) live_pagesI [OF demo_fat_heap(3) [of demo_volume "()"]] by (auto simp: t_def)
  have live: "page_of (0x01000003 + of_nat i) \<in> live_pages (kernel_heap ?d)" if "i \<le> 5" for i
    using alloc_region(2) [OF demo_fat_heap(1,3), of "3 + i" demo_volume "()"] that by simp
  have str: "cstring (mem ?d) 0x01000003 [65, 46, 84, 88, 84]"
    by (simp add: demo_fat_def write_bytes_def)
  have same: "mem t a = mem ?d a" if "page_of a \<in> live_pages (kernel_heap ?d)" for a
    using s(3) that unfolding fat_resolve_frame_def t_def by (simp add: steady_def)
  have "cstring (mem t) 0x01000003 [65, 46, 84, 88, 84]"
  proof (rule cstring_cong [OF str])
    fix i assume "i \<le> length [65 :: byte, 46, 84, 88, 84]"
    then show "mem t (0x01000003 + of_nat i) = mem ?d (0x01000003 + of_nat i)" by (intro same live) simp
  qed
  moreover have "live_pages (kernel_heap ?d) \<subseteq> live_pages (kernel_heap t)"
    using s(3) live_pages_mono unfolding fat_resolve_frame_def t_def by simp
  ultimately have "name_loaded 0x01000003 [65, 46, 84, 88, 84] t"
    unfolding name_loaded_def using live by auto
  moreover have "fat_mounted demo_volume 1 t"
    by (rule fat_mounted_grows [OF s(1)]) (use hi in \<open>simp_all add: t_def\<close>)
  ultimately show ?thesis
    using s(2) al pr demo_fat_heap(2) [of demo_volume "()"] demo_volume_fields(8) tail_room_free_blocks [of s]
    by (intro that [of t]) (simp_all add: t_def)
qed

theorem fat16_open_last_match_witness:
  "\<exists>s d s'. fat16_open TheDisk 0x01000100 FILE_MODE_READ (s :: fatfs) = Some (d, s') \<and>
     open_file (root_entry demo_volume 0) d s'"
proof -
  obtain s where s: "fat_mounted demo_volume 1 (s :: fatfs)"
    "path_parts s 0x01000100 = Some \<lparr>part = 0x01000003, next_part = 0\<rparr>"
    "name_loaded 0x01000003 [65, 46, 84, 88, 84] s" "25000 \<le> free_blocks (kernel_heap s)"
    by (rule demo_mounted)
  from fat16_open_last_match [OF s(1) demo_plain_root s(2), of "[65, 46, 84, 88, 84]"] s(3,4)
  show ?thesis by (auto simp: demo_matches)
qed

theorem fat16_open_close_witness:
  "\<exists>s d s' s''. fat16_open TheDisk 0x01000100 FILE_MODE_READ (s :: fatfs) = Some (d, s') \<and>
     fat16_close d s' = Some (0, s'') \<and> allocs (kernel_heap s'') = allocs (kernel_heap s)"
proof -
  obtain s where s: "fat_mounted demo_volume 1 (s :: fatfs)"
    "path_parts s 0x01000100 = Some \<lparr>part = 0x01000003, next_part = 0\<rparr>"
    "name_loaded 0x01000003 [65, 46, 84, 88, 84] s" "25000 \<le> free_blocks (kernel_heap s)"
    by (rule demo_mounted)
  then have "names_entry demo_volume 1 0x01000100 (root_entry demo_volume 0) s"
    unfolding names_entry_def using demo_matches by fastforce
  from fat16_open_close [OF s(1) demo_plain_root this] show ?thesis by blast
qed

lemma demo_readable: "fat_readable demo_volume 2 0 2"
  by (simp add: fat_readable_def demo_volume_fields cluster_pos_def)

theorem fat16_read_delivers_witness:
  "\<exists>s d s'. fat16_read TheDisk d 2 1 0x01000800 (s :: fatfs) = Some (1, s') \<and>
     mem s' 0x01000800 = 72 \<and> mem s' 0x01000801 = 105"
proof -
  obtain s0 where s0: "fat_mounted demo_volume 1 (s0 :: fatfs)"
    "path_parts s0 0x01000100 = Some \<lparr>part = 0x01000003, next_part = 0\<rparr>"
    "name_loaded 0x01000003 [65, 46, 84, 88, 84] s0" "25000 \<le> free_blocks (kernel_heap s0)"
    "(0x01000000, 1) \<in> allocs (kernel_heap s0)" "page_of (fs_private (disk s0)) \<noteq> page_of 0x01000000"
    by (rule demo_mounted)
  obtain d s where d: "fat_mounted demo_volume 1 s" "open_file (root_entry demo_volume 0) d s"
      "file_allocs s d \<inter> allocs (kernel_heap s0) = {}" "fat_keeps s0 s"
    by (rule fat16_open_result [OF s0(1) demo_plain_root s0(2), of "[65, 46, 84, 88, 84]"])
       (use s0(3,4) in \<open>auto simp: demo_matches\<close>)
  obtain f where f: "fat_descriptors s d = Some \<lparr>descriptor_item = f, pos = 0\<rparr>" "file_item (root_entry demo_volume 0) f s"
    using d(2) by (auto simp: open_file_def)
  have v: "fat_volume demo_volume s" "stack_ok s" "heap_inv (kernel_heap s)" using d(1) by (simp_all add: fat_mounted_def fat_volume_def)
  have al: "(0x01000000, 1) \<in> allocs (kernel_heap s)" using s0(5) d(4) by (auto simp: fat_keeps_def)
  have "(item_of s f, 1) \<in> file_allocs s d" using f(1) by (simp add: file_allocs_def item_allocs_def)
  then have "item_of s f \<noteq> 0x01000000" "(item_of s f, 1) \<in> allocs (kernel_heap s)"
    using d(3) s0(5) f(2) by (auto simp: file_item_def item_of_def)
  then have it: "page_of (item_of s f) \<noteq> page_of 0x01000000"
    using allocs_disjoint [OF v(3) al, of "item_of s f" 1] by auto
  have pg: "page_of (0x01000800 + of_nat i) = page_of 0x01000000" "page_of (0x01000800 + of_nat i) \<in> heap_pages (kernel_heap s)"
    if "i < 2" for i
    using alloc_region [OF v(3) al, of "2048 + i"] live_pages_heap_pages [OF v(3)] that by auto
  have "fs_private (disk s) = fs_private (disk s0)" using fat_keeps_fields(2) [OF d(4)] by simp
  then have "read_buffer d 0x01000800 2 s"
    unfolding read_buffer_def fat_buffer_def using pg f(1) it s0(6) by auto
  moreover have "entry_cluster (root_entry demo_volume 0) = 2" by (simp add: demo_root_entry entry_cluster_def)
  moreover have "root_entry demo_volume 0 ! 20 = 0" "root_entry demo_volume 0 ! 21 = 0" by (simp_all add: demo_root_entry)
  ultimately obtain s' where s': "fat16_read TheDisk d 2 1 0x01000800 s = Some (1, s')"
      "\<forall>k < 2. table_agrees demo_volume 2 (k div 512) \<longrightarrow> mem s' (0x01000800 + of_nat k) = file_content demo_volume 2 k"
    using fat16_read_delivers [OF v(1,2) _ f(2), of d 0 2 1 "0x01000800"] f(1) demo_readable by (auto simp: block_fits_def demo_volume_fields)
  have "file_content demo_volume 2 0 = 72" "file_content demo_volume 2 1 = 105"
    by (simp_all add: file_content_def demo_volume_fields cluster_pos_def demo_volume_def)
  then show ?thesis using s'(1) s'(2) [rule_format, of 0] s'(2) [rule_format, of 1] by auto
qed

end
