(* ===== verification/File.thy ===== *)
theory File
  imports FatOpen
begin

text \<open>
  The file layer, \<^verbatim>\<open>src/src/fileSystem/file.c\<close>, and \<open>disk_search_and_init\<close> of
  \<^verbatim>\<open>src/src/disk/disk.c\<close>, which calls it. A driver is reached through the pointers of
  \<open>struct filesystem\<close>; FAT16 is the only one, so that a call through a pointer is a case
  distinction on the driver, with no value for a null pointer. The tables \<open>filesystems\<close> and
  \<open>file_descriptors\<close> are lists of pointers, and the descriptors are objects of a store.
\<close>

section \<open>Definitions\<close>

definition OS_MAX_FILESYSTEMS :: nat where [simp]: "OS_MAX_FILESYSTEMS = 20"
definition OS_MAX_FILE_DESCRIPTORS :: nat where [simp]: "OS_MAX_FILE_DESCRIPTORS = 512"

record file_descriptor =
  fd_index :: int
  fd_filesystem :: filesystem_ptr
  fd_private :: addr
  fd_disk :: disk_ptr

record files = fatfs +
  filesystems :: "filesystem_ptr list"
  file_descriptors :: "addr list"
  fd_objects :: "addr \<rightharpoonup> file_descriptor"

text \<open>The index of the first free entry of a table.\<close>

fun first_free :: "('b \<Rightarrow> bool) \<Rightarrow> nat \<Rightarrow> 'b list \<Rightarrow> nat option" where
  "first_free free i [] = None"
| "first_free free i (x # xs) = (if free x then Some i else first_free free (Suc i) xs)"

definition fs_get_free_filesystem :: "'a files_scheme \<Rightarrow> nat option" where
  "fs_get_free_filesystem s = first_free (\<lambda>f. f = NullFilesystem) 0 (filesystems s)"

definition fs_insert_filesystem :: "filesystem_ptr \<Rightarrow> 'a files_scheme \<Rightarrow> 'a files_scheme option" where
  "fs_insert_filesystem fs s = do {
     i \<leftarrow> fs_get_free_filesystem s;
     Some (s\<lparr>filesystems := (filesystems s)[i := fs]\<rparr>)
   }"

definition fs_static_load :: "'a files_scheme \<Rightarrow> 'a files_scheme option" where
  "fs_static_load s = (let (fs, s) = fat16_init s in fs_insert_filesystem fs s)"

definition fs_load :: "'a files_scheme \<Rightarrow> 'a files_scheme option" where
  "fs_load s = fs_static_load (s\<lparr>filesystems := replicate OS_MAX_FILESYSTEMS NullFilesystem\<rparr>)"

definition fs_init :: "'a files_scheme \<Rightarrow> 'a files_scheme option" where
  "fs_init s = fs_load (s\<lparr>file_descriptors := replicate OS_MAX_FILE_DESCRIPTORS 0\<rparr>)"

definition file_free_descriptor :: "addr \<Rightarrow> 'a files_scheme \<Rightarrow> 'a files_scheme option" where
  "file_free_descriptor descriptor s = do {
     d \<leftarrow> fd_objects s descriptor;
     if 1 \<le> fd_index d \<and> fd_index d \<le> int OS_MAX_FILE_DESCRIPTORS
     then Some ((kernel_free descriptor s)\<lparr>
       file_descriptors := (file_descriptors s)[nat (fd_index d - 1) := 0],
       fd_objects := (fd_objects s)(descriptor := None)\<rparr>)
     else None
   }"

text \<open>The new object is written to without a test of the pointer; there is no value if it is null.\<close>

definition file_new_descriptor :: "'a files_scheme \<Rightarrow> (int \<times> addr \<times> 'a files_scheme) option" where
  "file_new_descriptor s =
     (case first_free (\<lambda>p. p = 0) 0 (file_descriptors s) of
        None \<Rightarrow> Some (- NO_MEMORY_ERROR, 0, s)
      | Some i \<Rightarrow> do {
          (descriptor, s) \<leftarrow> kernel_zalloc 16 s;
          if descriptor = 0 then None
          else Some (0, descriptor, s\<lparr>
            fd_objects := (fd_objects s)(descriptor \<mapsto>
              \<lparr>fd_index = int i + 1, fd_filesystem = NullFilesystem, fd_private = 0, fd_disk = NullDisk\<rparr>),
            file_descriptors := (file_descriptors s)[i := descriptor]\<rparr>)
        })"

definition file_get_descriptor :: "int \<Rightarrow> 'a files_scheme \<Rightarrow> addr" where
  "file_get_descriptor file_descriptor_index s =
     (if file_descriptor_index \<le> 0 \<or> file_descriptor_index \<ge> int OS_MAX_FILE_DESCRIPTORS then 0
      else file_descriptors s ! nat (file_descriptor_index - 1))"

subsection \<open>Calls through \<open>struct filesystem\<close>\<close>

definition fs_call_resolve :: "filesystem_ptr \<Rightarrow> disk_ptr \<Rightarrow> 'a files_scheme \<Rightarrow> (int \<times> 'a files_scheme) option" where
  "fs_call_resolve fs d s = (case fs of NullFilesystem \<Rightarrow> None | Fat16Filesystem \<Rightarrow> fat16_resolve d s)"

definition fs_call_open ::
    "filesystem_ptr \<Rightarrow> disk_ptr \<Rightarrow> addr \<Rightarrow> FILE_MODE \<Rightarrow> 'a files_scheme \<Rightarrow> (addr \<times> 'a files_scheme) option" where
  "fs_call_open fs d path mode s = (case fs of NullFilesystem \<Rightarrow> None | Fat16Filesystem \<Rightarrow> fat16_open d path mode s)"

definition fs_call_read ::
    "filesystem_ptr \<Rightarrow> disk_ptr \<Rightarrow> addr \<Rightarrow> u32 \<Rightarrow> u32 \<Rightarrow> addr \<Rightarrow> 'a files_scheme \<Rightarrow> (int \<times> 'a files_scheme) option" where
  "fs_call_read fs d private sz nmemb out s =
     (case fs of NullFilesystem \<Rightarrow> None | Fat16Filesystem \<Rightarrow> fat16_read d private sz nmemb out s)"

definition fs_call_seek ::
    "filesystem_ptr \<Rightarrow> addr \<Rightarrow> u32 \<Rightarrow> FILE_SEEK_MODE \<Rightarrow> 'a files_scheme \<Rightarrow> (int \<times> 'a files_scheme) option" where
  "fs_call_seek fs private offset mode s =
     (case fs of NullFilesystem \<Rightarrow> None | Fat16Filesystem \<Rightarrow> fat16_seek private offset mode s)"

definition fs_call_stat :: "filesystem_ptr \<Rightarrow> addr \<Rightarrow> file_stat \<Rightarrow> 'a files_scheme \<Rightarrow> (int \<times> file_stat) option" where
  "fs_call_stat fs private stat s =
     (case fs of NullFilesystem \<Rightarrow> None | Fat16Filesystem \<Rightarrow> fat16_stat private stat s)"

definition fs_call_close :: "filesystem_ptr \<Rightarrow> addr \<Rightarrow> 'a files_scheme \<Rightarrow> (int \<times> 'a files_scheme) option" where
  "fs_call_close fs private s = (case fs of NullFilesystem \<Rightarrow> None | Fat16Filesystem \<Rightarrow> fat16_close private s)"

subsection \<open>Mounting the disk\<close>

fun fs_resolve_loop ::
    "disk_ptr \<Rightarrow> filesystem_ptr list \<Rightarrow> 'a files_scheme \<Rightarrow> (filesystem_ptr \<times> 'a files_scheme) option" where
  "fs_resolve_loop d [] s = Some (NullFilesystem, s)"
| "fs_resolve_loop d (fs # rest) s =
     (if fs \<noteq> NullFilesystem
      then do {
        (res, s) \<leftarrow> fs_call_resolve fs d s;
        if res = 0 then Some (fs, s) else fs_resolve_loop d rest s
      }
      else fs_resolve_loop d rest s)"

definition fs_resolve :: "disk_ptr \<Rightarrow> 'a files_scheme \<Rightarrow> (filesystem_ptr \<times> 'a files_scheme) option" where
  "fs_resolve d s = fs_resolve_loop d (filesystems s) s"

definition disk_search_and_init :: "'a files_scheme \<Rightarrow> 'a files_scheme option" where
  "disk_search_and_init s = do {
     let s = s\<lparr>disk := \<lparr>disk_type = 0, sector_size = SECTOR_SIZE, disk_id = 0, filesystem = NullFilesystem,
                        fs_private = 0\<rparr>\<rparr>;
     (fs, s) \<leftarrow> fs_resolve TheDisk s;
     Some (s\<lparr>disk := (disk s)\<lparr>filesystem := fs, disk_id := 0\<rparr>\<rparr>)
   }"

subsection \<open>The operations on files\<close>

text \<open>A comparison of one character with a literal is a comparison of a byte.\<close>

definition file_get_mode_by_string :: "memory \<Rightarrow> addr \<Rightarrow> FILE_MODE" where
  "file_get_mode_by_string m str =
     (if m str = 0x72 then FILE_MODE_READ
      else if m str = 0x77 then FILE_MODE_WRITE
      else if m str = 0x61 then FILE_MODE_APPEND
      else FILE_MODE_INVALID)"

definition ERROR_I :: "addr \<Rightarrow> int" where "ERROR_I value = sint value"

text \<open>The end of \<open>fopen\<close>: an error becomes 0.\<close>

definition fopen_out :: "int \<Rightarrow> int" where "fopen_out res = (if res < 0 then 0 else res)"

definition fopen_file :: "path_root \<Rightarrow> addr \<Rightarrow> 'a files_scheme \<Rightarrow> (int \<times> 'a files_scheme) option" where
  "fopen_file root_path mode_str s =
     (let d = disk_get (drive_number root_path)
      in if d = NullDisk then Some (fopen_out (- IO_ERROR), s)
         else if filesystem (disk s) = NullFilesystem then Some (fopen_out (- IO_ERROR), s)
         else
           let mode = file_get_mode_by_string (mem s) mode_str
           in if mode = FILE_MODE_INVALID then Some (fopen_out (- INVALID_ARGUMENT_ERROR), s)
              else do {
                (descriptor_private_data, s) \<leftarrow> fs_call_open (filesystem (disk s)) d (first root_path) mode s;
                if ISERR descriptor_private_data then Some (fopen_out (ERROR_I descriptor_private_data), s)
                else do {
                  (res, descriptor, s) \<leftarrow> file_new_descriptor s;
                  if res < 0 then Some (res, s)
                  else do {
                    fd \<leftarrow> fd_objects s descriptor;
                    Some (fopen_out (fd_index fd), s\<lparr>fd_objects := (fd_objects s)(descriptor \<mapsto>
                      fd\<lparr>fd_filesystem := filesystem (disk s), fd_private := descriptor_private_data, fd_disk := d\<rparr>)\<rparr>)
                  }
                }
              })"

definition fopen :: "addr \<Rightarrow> addr \<Rightarrow> 'a files_scheme \<Rightarrow> (int \<times> 'a files_scheme) option" where
  "fopen filename mode_str s = do {
     (root, s) \<leftarrow> pathparser_parse filename s;
     if root = 0 then Some (fopen_out (- INVALID_ARGUMENT_ERROR), s)
     else do {
       root_path \<leftarrow> path_roots s root;
       if first root_path = 0 then Some (fopen_out (- INVALID_ARGUMENT_ERROR), s)
       else fopen_file root_path mode_str s
     }
   }"

definition fread :: "addr \<Rightarrow> u32 \<Rightarrow> u32 \<Rightarrow> int \<Rightarrow> 'a files_scheme \<Rightarrow> (int \<times> 'a files_scheme) option" where
  "fread ptr sz nmemb fd s =
     (if sz = 0 \<or> nmemb = 0 \<or> fd < 1 then Some (- INVALID_ARGUMENT_ERROR, s)
      else
        let descriptor = file_get_descriptor fd s
        in if descriptor = 0 then Some (- INVALID_ARGUMENT_ERROR, s)
           else do {
             d \<leftarrow> fd_objects s descriptor;
             fs_call_read (fd_filesystem d) (fd_disk d) (fd_private d) sz nmemb ptr s
           })"

definition fseek :: "int \<Rightarrow> int \<Rightarrow> FILE_SEEK_MODE \<Rightarrow> 'a files_scheme \<Rightarrow> (int \<times> 'a files_scheme) option" where
  "fseek fd offset whence s =
     (let descriptor = file_get_descriptor fd s
      in if descriptor = 0 then Some (- INVALID_ARGUMENT_ERROR, s)
         else do {
           d \<leftarrow> fd_objects s descriptor;
           fs_call_seek (fd_filesystem d) (fd_private d) (word_of_int offset) whence s
         })"

definition fstat :: "int \<Rightarrow> file_stat \<Rightarrow> 'a files_scheme \<Rightarrow> (int \<times> file_stat) option" where
  "fstat fd stat s =
     (let descriptor = file_get_descriptor fd s
      in if descriptor = 0 then Some (- INVALID_ARGUMENT_ERROR, stat)
         else do {
           d \<leftarrow> fd_objects s descriptor;
           fs_call_stat (fd_filesystem d) (fd_private d) stat s
         })"

definition fclose :: "int \<Rightarrow> 'a files_scheme \<Rightarrow> (int \<times> 'a files_scheme) option" where
  "fclose fd s =
     (let descriptor = file_get_descriptor fd s
      in if descriptor = 0 then Some (- INVALID_ARGUMENT_ERROR, s)
         else do {
           d \<leftarrow> fd_objects s descriptor;
           (res, s) \<leftarrow> fs_call_close (fd_filesystem d) (fd_private d) s;
           if res = ALL_OK then do { s \<leftarrow> file_free_descriptor descriptor s; Some (res, s) }
           else Some (res, s)
         })"


section \<open>Tables\<close>

lemma first_free_shift: "first_free free i xs = map_option (\<lambda>k. i + k) (first_free free 0 xs)"
proof (induction xs arbitrary: i)
  case (Cons x xs)
  show ?case using Cons.IH [of "Suc i"] Cons.IH [of "Suc 0"] by (cases "first_free free 0 xs") simp_all
qed simp

lemma first_free_Some:
  assumes "first_free free 0 xs = Some i"
  shows "i < length xs \<and> free (xs ! i) \<and> (\<forall>j < i. \<not> free (xs ! j))"
  using assms
proof (induction xs arbitrary: i)
  case (Cons x xs)
  show ?case
  proof (cases "free x")
    case False
    then obtain k where "first_free free 0 xs = Some k" "i = Suc k"
      using Cons.prems first_free_shift [of free "Suc 0" xs] by auto
    then show ?thesis using Cons.IH False by (auto simp: less_Suc_eq_0_disj)
  qed (use Cons.prems in simp)
qed simp

lemma first_free_None: "first_free free 0 xs = None \<longleftrightarrow> (\<forall>x \<in> set xs. \<not> free x)"
proof (induction xs)
  case (Cons x xs)
  then show ?case using first_free_shift [of free "Suc 0" xs] by auto
qed simp

section \<open>Frames of the extended state\<close>

lemma fat_keeps_files:
  fixes s :: "'a files_scheme"
  assumes "fat_keeps s s'"
  shows "filesystems s' = filesystems s" "file_descriptors s' = file_descriptors s" "fd_objects s' = fd_objects s"
  using assms by (auto simp: fat_keeps_def)

lemma paths_frame_fields:
  fixes s :: "'a files_scheme"
  assumes "paths_frame s s'"
  shows "filesystems s' = filesystems s" "file_descriptors s' = file_descriptors s" "fd_objects s' = fd_objects s"
    "device s' = device s" "disk s' = disk s" "streams s' = streams s" "fat_privates s' = fat_privates s"
    "fat_directories s' = fat_directories s" "local_addr s' = local_addr s"
  using assms by (auto simp: paths_frame_def)

lemma stream_frame_files:
  fixes s :: "'a files_scheme"
  assumes "stream_frame s s'"
  shows "filesystems s' = filesystems s" "file_descriptors s' = file_descriptors s" "fd_objects s' = fd_objects s"
  using assms by (auto simp: stream_frame_def)

lemma files_update [simp]:
  fixes s :: "'a files_scheme"
  shows "fat_volume img (s\<lparr>fd_objects := os\<rparr>) = fat_volume img s"
    "fat_mounted img n (s\<lparr>fd_objects := os\<rparr>) = fat_mounted img n s"
    "open_file bs d (s\<lparr>fd_objects := os\<rparr>) = open_file bs d s"
    "fat_volume img (s\<lparr>file_descriptors := fds\<rparr>) = fat_volume img s"
    "fat_mounted img n (s\<lparr>file_descriptors := fds\<rparr>) = fat_mounted img n s"
    "open_file bs d (s\<lparr>file_descriptors := fds\<rparr>) = open_file bs d s"
  by (simp_all add: fat_mounted_def fat_volume_def fat_root_def stack_ok_def stream_position_def open_file_def
      file_item_def item_of_def)

text \<open>The parts of the state the file layer works on; nothing else changes.\<close>

definition file_frame :: "'a files_scheme \<Rightarrow> 'a files_scheme \<Rightarrow> bool" where
  "file_frame s s' \<longleftrightarrow> (\<exists>log m h sts rs ps its des fds os. s' = s\<lparr>io_log := log, mem := m, kernel_heap := h,
     streams := sts, path_roots := rs, path_parts := ps, fat_items := its, fat_descriptors := des,
     file_descriptors := fds, fd_objects := os\<rparr>)"

lemma file_frame_trans:
  assumes "file_frame s t" "file_frame t u"
  shows "file_frame s u"
  using assms unfolding file_frame_def by (elim exE) (intro exI, simp)

lemma file_frameI:
  fixes s :: "'a files_scheme"
  shows "paths_frame s s' \<Longrightarrow> file_frame s s'" "fat_keeps s s' \<Longrightarrow> file_frame s s'" "stream_frame s s' \<Longrightarrow> file_frame s s'"
proof -
  have shape: "file_frame s (s\<lparr>io_log := log, mem := m, kernel_heap := h, streams := sts, path_roots := rs, path_parts := ps,
      fat_items := its, fat_descriptors := des, file_descriptors := fds, fd_objects := os\<rparr>)"
    for log m h sts rs ps its des fds os
    unfolding file_frame_def by (intro exI) (rule refl)
  show "file_frame s s'" if "paths_frame s s'"
    using that shape [where log = "io_log s" and sts = "streams s" and its = "fat_items s"
      and des = "fat_descriptors s" and fds = "file_descriptors s" and os = "fd_objects s"]
    by (auto simp: paths_frame_def)
  show "file_frame s s'" if "fat_keeps s s'"
    using that shape [where log = "io_log s" and sts = "streams s" and rs = "path_roots s"
      and ps = "path_parts s" and fds = "file_descriptors s" and os = "fd_objects s"]
    by (auto simp: fat_keeps_def)
  show "file_frame s s'" if "stream_frame s s'"
    using that shape [where h = "kernel_heap s" and rs = "path_roots s" and ps = "path_parts s"
      and its = "fat_items s" and des = "fat_descriptors s" and fds = "file_descriptors s" and os = "fd_objects s"]
    by (auto simp: stream_frame_def)
qed

lemma file_frame_upd:
  fixes s :: "'a files_scheme"
  shows "file_frame s (s\<lparr>fd_objects := os, file_descriptors := fds\<rparr>)"
    "file_frame s (s\<lparr>kernel_heap := h, fat_items := its, fat_descriptors := des\<rparr>)"
    "file_frame s (s\<lparr>kernel_heap := h, file_descriptors := fds, fd_objects := os\<rparr>)"
proof -
  have shape: "file_frame s (s\<lparr>io_log := log, mem := m, kernel_heap := h, streams := sts, path_roots := rs, path_parts := ps,
      fat_items := its, fat_descriptors := des, file_descriptors := fds, fd_objects := os\<rparr>)"
    for log m h sts rs ps its des fds os
    unfolding file_frame_def by (intro exI) (rule refl)
  show "file_frame s (s\<lparr>fd_objects := os, file_descriptors := fds\<rparr>)"
    using shape [where log = "io_log s" and m = "mem s" and h = "kernel_heap s" and sts = "streams s"
      and rs = "path_roots s" and ps = "path_parts s" and its = "fat_items s" and des = "fat_descriptors s" and fds = fds and os = os]
    by (cases s) simp
  show "file_frame s (s\<lparr>kernel_heap := h, fat_items := its, fat_descriptors := des\<rparr>)"
    using shape [where log = "io_log s" and m = "mem s" and h = h and sts = "streams s"
      and rs = "path_roots s" and ps = "path_parts s" and its = its and des = des and fds = "file_descriptors s" and os = "fd_objects s"]
    by simp
  show "file_frame s (s\<lparr>kernel_heap := h, file_descriptors := fds, fd_objects := os\<rparr>)"
    using shape [where log = "io_log s" and m = "mem s" and h = h and sts = "streams s"
      and rs = "path_roots s" and ps = "path_parts s" and its = "fat_items s" and des = "fat_descriptors s" and fds = fds and os = os]
    by simp
qed

section \<open>Opening\<close>

text \<open>The heap lies below two gigabytes, so that no pointer to it reads as an error code.\<close>

definition heap_low :: "heap \<Rightarrow> bool" where
  "heap_low h \<longleftrightarrow> page_of (start_address h) + total (table h) \<le> 2 ^ 19"

lemma page_of_less_iff: "page_of p < 2 ^ 19 \<longleftrightarrow> unat p < 2 ^ 31"
  using div_less_iff_less_mult [of 4096 "unat p" "2 ^ 19"] by (simp add: page_of_def)

lemma allocs_not_error:
  assumes "heap_inv h" "(p, n) \<in> allocs h" "heap_pages h \<subseteq> {..<2 ^ 19}"
  shows "\<not> ISERR p"
proof -
  have "page_of p \<in> heap_pages h" using allocs_heap_pages [OF assms(1,2)] .
  then have "unat p < 2 ^ 31" using assms(3) page_of_less_iff by blast
  then have "sint p = int (unat p)" using sint_of_nat_small [of "unat p"] by simp
  then show ?thesis by (simp add: ISERR_def)
qed

lemma open_file_keeps:
  assumes "open_file bs d s" "fat_keeps s s'" "fat_items s' = fat_items s" "fat_descriptors s' = fat_descriptors s"
    "heap_inv (kernel_heap s)"
  shows "open_file bs d s'"
proof -
  obtain f where f: "fat_descriptors s d = Some \<lparr>descriptor_item = f, pos = 0\<rparr>" "file_item bs f s" "d \<notin> {f, item_of s f}"
    using assms(1) by (auto simp: open_file_def)
  have "item_of s' f = item_of s f" using assms(3) by (simp add: item_of_def)
  then show ?thesis
    using assms f file_item_keeps [OF f(2) assms(2) _ assms(5)] by (auto simp: open_file_def fat_keeps_def)
qed

lemma file_new_descriptor_result:
  fixes s :: "'a files_scheme"
  assumes "heap_inv (kernel_heap s)" "0 < free_blocks (kernel_heap s)" "first_free (\<lambda>p. p = 0) 0 (file_descriptors s) = Some i"
  obtains p s' where "file_new_descriptor s = Some (0, p, s'\<lparr>fd_objects := (fd_objects s)(p \<mapsto>
        \<lparr>fd_index = int i + 1, fd_filesystem = NullFilesystem, fd_private = 0, fd_disk = NullDisk\<rparr>),
      file_descriptors := (file_descriptors s)[i := p]\<rparr>)"
    "p \<noteq> 0" "fat_keeps s s'" "allocs (kernel_heap s') = insert (p, 1) (allocs (kernel_heap s))" "(p, 1) \<notin> allocs (kernel_heap s)"
    "fat_items s' = fat_items s" "fat_descriptors s' = fat_descriptors s"
    "free_blocks (kernel_heap s) = Suc (free_blocks (kernel_heap s'))"
proof -
  obtain p s' where p: "kernel_zalloc 16 s = Some (p, s')" "p \<noteq> 0" "fat_keeps s s'"
    "allocs (kernel_heap s') = insert (p, 1) (allocs (kernel_heap s))" "page_of p \<notin> live_pages (kernel_heap s)"
    "free_blocks (kernel_heap s) = Suc (free_blocks (kernel_heap s'))" "fat_items s' = fat_items s" "fat_descriptors s' = fat_descriptors s"
    by (rule zalloc_keeps [OF assms(1), of 16]) (use assms(2) in auto)
  have "(p, 1) \<notin> allocs (kernel_heap s)" using live_pagesI [of p "kernel_heap s"] p(5) by auto
  then show ?thesis
    using p assms(3) fat_keeps_files [OF p(3)] by (intro that [of p s']) (simp_all add: file_new_descriptor_def)
qed

text \<open>A path on the first drive with one component, and what it leaves after it has been parsed.\<close>

definition path_to :: "byte list \<Rightarrow> addr \<Rightarrow> 'a kstate_scheme \<Rightarrow> bool" where
  "path_to c path s \<longleftrightarrow> c \<noteq> [] \<and> 0x2F \<notin> set c \<and> length c \<le> 104 \<and> path_ok s path (0x30 # 0x3A # 0x2F # c)"

lemma components_single: "c \<noteq> [] \<Longrightarrow> 0x2F \<notin> set c \<Longrightarrow> components c = [c]"
proof -
  assume c: "c \<noteq> []" "0x2F \<notin> set c"
  then have no: "\<forall>x \<in> set c. x \<noteq> 0x2F" by auto
  then have dw: "dropWhile (\<lambda>x. x \<noteq> 0x2F) c = []" by simp
  have "head_part c = c" using no by (simp add: head_part_def)
  moreover have "rest_part c = []" unfolding rest_part_def dw by simp
  moreover have "components [] = []" by (simp add: components.simps head_part_def)
  ultimately show "components c = [c]" using c(1) by (simp add: components.simps [of c])
qed

lemma pathparser_parse_single:
  fixes s :: "'a files_scheme"
  assumes "fat_mounted img n s" "path_to c path s" "4 \<le> free_blocks (kernel_heap s)"
  obtains root r pp s1 where "pathparser_parse path s = Some (root, s1)" "root \<noteq> 0" "path_roots s1 root = Some r"
    "drive_number r = 0" "first r \<noteq> 0" "path_parts s1 (first r) = Some pp" "next_part pp = 0" "name_loaded (part pp) c s1"
    "fat_mounted img n s1" "grows s s1" "free_blocks (kernel_heap s) = free_blocks (kernel_heap s1) + 3" "paths_frame s s1"
proof -
  have c: "components c = [c]" "length c \<le> 104" "cstring (mem s) path (0x30 # 0x3A # 0x2F # c)"
    "\<And>i. i \<le> length c + 3 \<Longrightarrow> \<not> free_page (kernel_heap s) (page_of (path + of_nat i))"
    using assms(2) components_single [of c] unfolding path_to_def path_ok_def by auto
  have hi: "heap_inv (kernel_heap s)" using assms(1) by (simp add: fat_mounted_def fat_volume_def)
  have "is_digit 0x30" by (simp add: is_digit_def)
  then obtain root r s1 where r: "pathparser_parse path s = Some (root, s1)" "root \<noteq> 0" "grows s s1"
      "free_blocks (kernel_heap s) = free_blocks (kernel_heap s1) + 3" "path_roots s1 root = Some r" "drive_number r = 0"
      "parts_list s1 (first r) [c]"
    using pathparser_parse_result [OF c(3) _ c(2) c(4) hi] assms(3) c(1) by auto
  note f = paths_frame_fields [OF pathparser_parse_frame [OF r(1)]]
  have m1: "fat_mounted img n s1"
    by (rule fat_mounted_grows [OF assms(1)]) (use f r(3) in \<open>auto simp: grows_def free_page_def\<close>)
  obtain pp where pp: "path_parts s1 (first r) = Some pp" "first r \<noteq> 0" "next_part pp = 0" "page_aligned (part pp)"
      "page_of (part pp) \<in> live_pages (kernel_heap s1)" "length c < 4096" "cstring (mem s1) (part pp) c"
    using r(7) by (auto split: option.splits)
  have "name_loaded (part pp) c s1"
    using pp(4-7) by (simp add: name_loaded_def page_of_add)
  then show ?thesis using r pp m1 pathparser_parse_frame [OF r(1)] by (intro that [of root s1 r pp])
qed

text \<open>The copy of the directory entry that belongs to a descriptor of the driver and to a table entry.\<close>

definition file_ptr :: "'a fatfs_scheme \<Rightarrow> addr \<Rightarrow> addr" where
  "file_ptr s d = (case fat_descriptors s d of Some fd \<Rightarrow> item_of s (descriptor_item fd) | None \<Rightarrow> 0)"

definition fd_ptr :: "'a files_scheme \<Rightarrow> nat \<Rightarrow> addr" where
  "fd_ptr s i = (case fd_objects s (file_descriptors s ! i) of Some o' \<Rightarrow> file_ptr s (fd_private o') | None \<Rightarrow> 0)"

text \<open>The allocations behind a table entry.\<close>

definition fd_allocs :: "'a files_scheme \<Rightarrow> nat \<Rightarrow> (addr \<times> nat) set" where
  "fd_allocs s i = (case fd_objects s (file_descriptors s ! i) of
     Some o' \<Rightarrow> insert (file_descriptors s ! i, 1) (file_allocs s (fd_private o')) | None \<Rightarrow> {})"

lemma fresh_page:
  assumes "heap_inv h'" "allocs h \<subseteq> allocs h'" "(p, 1) \<in> allocs h'" "(p, 1) \<notin> allocs h"
  shows "page_of p \<notin> live_pages h"
proof
  assume "page_of p \<in> live_pages h"
  then obtain q k where q: "(q, k) \<in> allocs h" "page_of q \<le> page_of p" "page_of p < page_of q + k"
    by (auto simp: live_pages_def)
  then show False using allocs_disjoint [OF assms(1,3), of q k] assms(2,4) by auto
qed

text \<open>An open file of the file layer: a table entry, its object and a file of the driver.\<close>

definition fd_open :: "byte list \<Rightarrow> nat \<Rightarrow> 'a files_scheme \<Rightarrow> bool" where
  "fd_open bs i s \<longleftrightarrow> i < length (file_descriptors s) \<and> (\<exists>p d. file_descriptors s ! i = p \<and> p \<noteq> 0 \<and>
     (p, 1) \<in> allocs (kernel_heap s) \<and> (p, 1) \<notin> file_allocs s d \<and>
     fd_objects s p = Some \<lparr>fd_index = int i + 1, fd_filesystem = Fat16Filesystem, fd_private = d, fd_disk = TheDisk\<rparr> \<and>
     open_file bs d s)"

text \<open>The result of opening the file \<open>c\<close>: 0 if there is none, the number of the first free table entry otherwise.\<close>

definition opened :: "(nat \<Rightarrow> byte) \<Rightarrow> nat \<Rightarrow> byte list \<Rightarrow> 'a files_scheme \<Rightarrow> int \<Rightarrow> 'a files_scheme \<Rightarrow> bool" where
  "opened img n c s res s' \<longleftrightarrow>
     (if matches img n c = [] then res = 0 \<and> file_descriptors s' = file_descriptors s
      else case first_free (\<lambda>p. p = 0) 0 (file_descriptors s) of
        None \<Rightarrow> res = - NO_MEMORY_ERROR \<and> file_descriptors s' = file_descriptors s
      | Some i \<Rightarrow> res = int i + 1 \<and> fd_open (root_entry img (last (matches img n c))) i s' \<and>
          fd_allocs s' i \<inter> allocs (kernel_heap s) = {} \<and> page_of (fd_ptr s' i) \<notin> live_pages (kernel_heap s) \<and>
          (\<exists>p. file_descriptors s' = (file_descriptors s)[i := p]))"

lemma opened_some:
  "opened img n c s res s' \<Longrightarrow> matches img n c \<noteq> [] \<Longrightarrow> first_free (\<lambda>p. p = 0) 0 (file_descriptors s) = Some i \<Longrightarrow>
     res = int i + 1 \<and> fd_open (root_entry img (last (matches img n c))) i s' \<and>
     fd_allocs s' i \<inter> allocs (kernel_heap s) = {} \<and> page_of (fd_ptr s' i) \<notin> live_pages (kernel_heap s) \<and>
     (\<exists>p. file_descriptors s' = (file_descriptors s)[i := p])"
  by (simp add: opened_def)

lemma fopen_file_result:
  fixes s :: "'a files_scheme"
  assumes "fat_mounted img n s" "plain_root img n" "drive_number r = 0" "path_parts s (first r) = Some pp" "next_part pp = 0"
    "name_loaded (part pp) c s" "2 + 2 * length (matches img n c) \<le> free_blocks (kernel_heap s)"
    "heap_pages (kernel_heap s) \<subseteq> {..<2 ^ 19}" "mem s mode_str = 0x72"
  obtains res s' where "fopen_file r mode_str s = Some (res, s')" "fat_mounted img n s'"
    "allocs (kernel_heap s) \<subseteq> allocs (kernel_heap s')" "fs_private (disk s') = fs_private (disk s)"
    "file_frame s s'" "tail_keeps (kernel_heap s) (kernel_heap s')" "heap_pages (kernel_heap s') = heap_pages (kernel_heap s)"
    "free_blocks (kernel_heap s) \<le> free_blocks (kernel_heap s') + 2 + 2 * length (matches img n c)"
    "\<And>a. page_of a \<in> live_pages (kernel_heap s) \<Longrightarrow> mem s' a = mem s a"
    "opened img n c s res s'"
proof -
  let ?bs = "root_entry img (last (matches img n c))"
  have fs: "filesystem (disk s) = Fat16Filesystem" using assms(1) by (simp add: fat_mounted_def)
  obtain d s1 where d: "fat16_open TheDisk (first r) FILE_MODE_READ s = Some (d, s1)" "fat_keeps s s1" "fat_mounted img n s1"
    "free_blocks (kernel_heap s) = free_blocks (kernel_heap s1) + Suc (2 * length (matches img n c))"
    "matches img n c = [] \<Longrightarrow> d = ERROR (- IO_ERROR)" "matches img n c \<noteq> [] \<Longrightarrow> open_file ?bs d s1"
    "matches img n c \<noteq> [] \<Longrightarrow> file_allocs s1 d \<inter> allocs (kernel_heap s) = {}"
    by (rule fat16_open_result [OF assms(1,2,4,6)]) (use assms(5,7) in auto)
  note k1 = fat_keeps_fields [OF d(2)] fat_keeps_files [OF d(2)]
  have pre: "fopen_file r mode_str s =
      (if ISERR d then Some (fopen_out (ERROR_I d), s1)
       else do {
         (res, descriptor, s) \<leftarrow> file_new_descriptor s1;
         if res < 0 then Some (res, s)
         else do {
           fd \<leftarrow> fd_objects s descriptor;
           Some (fopen_out (fd_index fd), s\<lparr>fd_objects := (fd_objects s)(descriptor \<mapsto>
             fd\<lparr>fd_filesystem := filesystem (disk s), fd_private := d, fd_disk := TheDisk\<rparr>)\<rparr>)
         }
       })"
    using assms(3,9) fs d(1) by (simp add: fopen_file_def disk_get_def file_get_mode_by_string_def fs_call_open_def)
  show ?thesis
  proof (cases "matches img n c = []")
    case True
    then have "fopen_file r mode_str s = Some (0, s1)"
      using pre d(5) by (simp add: ISERR_def ERROR_def ERROR_I_def fopen_out_def)
    then show ?thesis
      using True d(2-4) k1 file_frameI(2) [OF d(2)] by (intro that [of 0 s1]) (auto simp: fat_keeps_def opened_def)
  next
    case False
    note op = d(6) [OF False]
    have al: "(d, 1) \<in> allocs (kernel_heap s1)" using op by (simp add: open_file_def)
    have ne: "\<not> ISERR d"
      using allocs_not_error [OF k1(9) al] assms(8) d(2) by (simp add: fat_keeps_def)
    show ?thesis
    proof (cases "first_free (\<lambda>p. p = 0) 0 (file_descriptors s)")
      case None
      then have "fopen_file r mode_str s = Some (- NO_MEMORY_ERROR, s1)"
        using pre ne k1 by (simp add: file_new_descriptor_def)
      then show ?thesis
        using None False d(2-4) k1 file_frameI(2) [OF d(2)]
        by (intro that [of "- NO_MEMORY_ERROR" s1]) (auto simp: fat_keeps_def opened_def)
    next
      case (Some i)
      have room: "0 < free_blocks (kernel_heap s1)" using d(4) assms(7) by simp
      let ?o = "\<lparr>fd_index = int i + 1, fd_filesystem = NullFilesystem, fd_private = 0, fd_disk = NullDisk\<rparr>"
      obtain p s2 where p: "file_new_descriptor s1 = Some (0, p, s2\<lparr>fd_objects := (fd_objects s1)(p \<mapsto> ?o),
            file_descriptors := (file_descriptors s1)[i := p]\<rparr>)"
        "p \<noteq> 0" "fat_keeps s1 s2" "allocs (kernel_heap s2) = insert (p, 1) (allocs (kernel_heap s1))"
        "(p, 1) \<notin> allocs (kernel_heap s1)" "fat_items s2 = fat_items s1" "fat_descriptors s2 = fat_descriptors s1"
        "free_blocks (kernel_heap s1) = Suc (free_blocks (kernel_heap s2))"
        by (rule file_new_descriptor_result [OF k1(9) room]) (use Some k1 in auto)
      let ?f = "\<lparr>fd_index = int i + 1, fd_filesystem = Fat16Filesystem, fd_private = d, fd_disk = TheDisk\<rparr>"
      let ?s = "s2\<lparr>fd_objects := (fd_objects s1)(p \<mapsto> ?f), file_descriptors := (file_descriptors s1)[i := p]\<rparr>"
      note k2 = fat_keeps_fields [OF p(3)]
      have eq: "s2\<lparr>fd_objects := (fd_objects s1)(p \<mapsto> ?o), file_descriptors := (file_descriptors s1)[i := p],
          fd_objects := (fd_objects s1)(p \<mapsto> ?f)\<rparr> = ?s" by (cases s2) simp
      have run: "fopen_file r mode_str s = Some (int i + 1, ?s)"
        using pre ne p(1) k1 k2 fs eq by (simp add: fopen_out_def)
      have i: "i < length (file_descriptors s)" using first_free_Some [OF Some] by simp
      have fa: "file_allocs s1 d \<subseteq> allocs (kernel_heap s1)"
        using op by (auto simp: open_file_def file_allocs_def item_allocs_def file_item_def item_of_def)
      moreover have "file_allocs ?s d = file_allocs s1 d"
        using p(6,7) by (simp add: file_allocs_def item_allocs_def item_of_def split: option.split)
      ultimately have "fd_open ?bs i ?s"
        using i p(2,4,5) k1 open_file_keeps [OF op p(3,6,7) k1(9)] by (auto simp: fd_open_def)
      moreover have "fd_allocs ?s i \<inter> allocs (kernel_heap s) = {}"
      proof -
        have "fd_allocs ?s i = insert (p, 1) (file_allocs s1 d)"
          using i k1 p(6,7) by (simp add: fd_allocs_def file_allocs_def item_allocs_def item_of_def split: option.split)
        then show ?thesis using p(5) d(2) d(7) [OF False] by (auto simp: fat_keeps_def)
      qed
      moreover have "page_of (fd_ptr ?s i) \<notin> live_pages (kernel_heap s)"
      proof (rule fresh_page [OF k1(9)])
        have fp: "fd_ptr ?s i = file_ptr s1 d"
          using i k1 p(6,7) by (simp add: fd_ptr_def file_ptr_def item_of_def split: option.split)
        have "(file_ptr s1 d, 1) \<in> file_allocs s1 d"
          using op by (auto simp: open_file_def file_ptr_def file_allocs_def item_allocs_def)
        then show "(fd_ptr ?s i, 1) \<notin> allocs (kernel_heap s)" "(fd_ptr ?s i, 1) \<in> allocs (kernel_heap s1)"
          using d(7) [OF False] fa fp by auto
        show "allocs (kernel_heap s) \<subseteq> allocs (kernel_heap s1)" using d(2) by (simp add: fat_keeps_def)
      qed
      moreover have "fat_mounted img n ?s" using fat_mounted_keeps [OF d(3) p(3)] by simp
      moreover have "file_frame s ?s"
        by (rule file_frame_trans [OF file_frameI(2) [OF fat_keeps_trans [OF d(2) p(3)]] file_frame_upd(1)])
      ultimately show ?thesis
        using run False Some k1 fat_keeps_trans [OF d(2) p(3)] d(4) p(8)
        by (intro that [of "int i + 1" ?s]) (auto simp: fat_keeps_def opened_def)
    qed
  qed
qed

lemma fopen_result:
  fixes s :: "'a files_scheme"
  assumes "fat_mounted img n s" "plain_root img n" "path_to c path s"
    "5 + 2 * length (matches img n c) \<le> free_blocks (kernel_heap s)"
    "heap_pages (kernel_heap s) \<subseteq> {..<2 ^ 19}" "mem s mode_str = 0x72" "\<not> free_page (kernel_heap s) (page_of mode_str)"
  obtains res s' where "fopen path mode_str s = Some (res, s')" "fat_mounted img n s'"
    "allocs (kernel_heap s) \<subseteq> allocs (kernel_heap s')" "fs_private (disk s') = fs_private (disk s)"
    "file_frame s s'" "tail_keeps (kernel_heap s) (kernel_heap s')" "heap_pages (kernel_heap s') = heap_pages (kernel_heap s)"
    "free_blocks (kernel_heap s) \<le> free_blocks (kernel_heap s') + 5 + 2 * length (matches img n c)"
    "\<And>a. page_of a \<in> live_pages (kernel_heap s) \<Longrightarrow> mem s' a = mem s a"
    "opened img n c s res s'"
proof -
  obtain root r pp s1 where r: "pathparser_parse path s = Some (root, s1)" "root \<noteq> 0" "path_roots s1 root = Some r"
    "drive_number r = 0" "first r \<noteq> 0" "path_parts s1 (first r) = Some pp" "next_part pp = 0" "name_loaded (part pp) c s1"
    "fat_mounted img n s1" "grows s s1" "free_blocks (kernel_heap s) = free_blocks (kernel_heap s1) + 3" "paths_frame s s1"
    by (rule pathparser_parse_single [OF assms(1,3)]) (use assms(4) in auto)
  note g = r(10) [unfolded grows_def] and f = paths_frame_fields [OF r(12)]
  have room: "2 + 2 * length (matches img n c) \<le> free_blocks (kernel_heap s1)" using assms(4) r(11) by simp
  have hp: "heap_pages (kernel_heap s1) \<subseteq> {..<2 ^ 19}" using assms(5) g by simp
  have md: "mem s1 mode_str = 0x72" using assms(6,7) g by simp
  have lv: "live_pages (kernel_heap s) \<subseteq> live_pages (kernel_heap s1)" using g by simp
  have pre: "fopen path mode_str s = fopen_file r mode_str s1" using r(1-3,5) by (simp add: fopen_def)
  show ?thesis
  proof (rule fopen_file_result [OF r(9) assms(2) r(4,6,7,8) room hp md])
    fix res s'
    assume a: "fopen_file r mode_str s1 = Some (res, s')" "fat_mounted img n s'" "allocs (kernel_heap s1) \<subseteq> allocs (kernel_heap s')"
      "fs_private (disk s') = fs_private (disk s1)" "\<And>a. page_of a \<in> live_pages (kernel_heap s1) \<Longrightarrow> mem s' a = mem s1 a"
      "file_frame s1 s'" "tail_keeps (kernel_heap s1) (kernel_heap s')" "heap_pages (kernel_heap s') = heap_pages (kernel_heap s1)"
      "free_blocks (kernel_heap s1) \<le> free_blocks (kernel_heap s') + 2 + 2 * length (matches img n c)"
      "opened img n c s1 res s'"
    have "mem s' a = mem s a" if "page_of a \<in> live_pages (kernel_heap s)" for a
      using a(5) [of a] that lv g by (auto simp: free_page_def)
    moreover have "file_frame s s'" by (rule file_frame_trans [OF file_frameI(1) [OF r(12)] a(6)])
    moreover have "tail_keeps (kernel_heap s) (kernel_heap s')" using g a(7) by (blast intro: tail_keeps_trans)
    moreover have "allocs (kernel_heap s) \<subseteq> allocs (kernel_heap s')" using g a(3) by blast
    ultimately show thesis
      using a f(2,5) pre lv r(11) g by (intro that [of res s']) (auto simp: opened_def split: if_splits option.splits)
  qed
qed

section \<open>Reading and closing\<close>

lemma fd_openD:
  assumes "fd_open bs i s" "i < 511" "length (file_descriptors s) = 512"
  obtains p d f where "file_get_descriptor (int i + 1) s = p" "p \<noteq> 0" "(p, 1) \<in> allocs (kernel_heap s)"
    "(p, 1) \<notin> file_allocs s d"
    "fd_objects s p = Some \<lparr>fd_index = int i + 1, fd_filesystem = Fat16Filesystem, fd_private = d, fd_disk = TheDisk\<rparr>"
    "open_file bs d s" "fat_descriptors s d = Some \<lparr>descriptor_item = f, pos = 0\<rparr>" "file_item bs f s" "fd_ptr s i = item_of s f"
proof -
  obtain d where d: "file_descriptors s ! i \<noteq> 0" "(file_descriptors s ! i, 1) \<in> allocs (kernel_heap s)"
    "(file_descriptors s ! i, 1) \<notin> file_allocs s d"
    "fd_objects s (file_descriptors s ! i) = Some \<lparr>fd_index = int i + 1, fd_filesystem = Fat16Filesystem, fd_private = d, fd_disk = TheDisk\<rparr>"
    "open_file bs d s"
    using assms(1) by (auto simp: fd_open_def)
  obtain f where "fat_descriptors s d = Some \<lparr>descriptor_item = f, pos = 0\<rparr>" "file_item bs f s"
    using d(5) by (auto simp: open_file_def)
  then show ?thesis
    using d assms(2) by (intro that [of "file_descriptors s ! i" d f]) (simp_all add: file_get_descriptor_def fd_ptr_def file_ptr_def)
qed

lemma fread_result:
  fixes s :: "'a files_scheme"
  assumes "fat_mounted img n s" "fd_open bs i s" "i < 511" "length (file_descriptors s) = 512" "bs ! 20 = 0" "bs ! 21 = 0" "0 < sz"
    "unat sz < 2 ^ 31" "fat_readable img (entry_cluster bs) 0 (unat sz)"
    "\<And>j. j < unat sz \<Longrightarrow> page_of (out + of_nat j) \<in> live_pages (kernel_heap s) \<and>
       page_of (out + of_nat j) \<noteq> page_of (fs_private (disk s)) \<and> page_of (out + of_nat j) \<noteq> page_of (fd_ptr s i)"
  obtains s' where "fread out sz 1 (int i + 1) s = Some (1, s')" "stream_frame s s'"
    "\<And>k. k < unat sz \<Longrightarrow> mem s' (out + of_nat k) = driver_content img (entry_cluster bs) k"
    "\<And>a. page_of a \<in> heap_pages (kernel_heap s) \<Longrightarrow> unat sz \<le> unat (a - out) \<Longrightarrow> mem s' a = mem s a"
proof -
  obtain p d f where p: "file_get_descriptor (int i + 1) s = p" "p \<noteq> 0"
    "fd_objects s p = Some \<lparr>fd_index = int i + 1, fd_filesystem = Fat16Filesystem, fd_private = d, fd_disk = TheDisk\<rparr>"
    "fat_descriptors s d = Some \<lparr>descriptor_item = f, pos = 0\<rparr>" "file_item bs f s" "fd_ptr s i = item_of s f"
    by (rule fd_openD [OF assms(2-4)])
  have v: "fat_volume img s" "stack_ok s" "heap_inv (kernel_heap s)" using assms(1) by (simp_all add: fat_mounted_def fat_volume_def)
  have rb: "read_buffer d out (unat sz) s"
    using assms(8,10) p(4,6) live_pages_heap_pages [OF v(3)] by (auto simp: read_buffer_def fat_buffer_def)
  have des: "fat_descriptors s d = Some \<lparr>descriptor_item = f, pos = of_nat 0\<rparr>" using p(4) by simp
  obtain s' where s': "fat16_read TheDisk d sz 1 out s = Some (1, s')" "stream_frame s s'"
    "\<And>k. k < unat sz \<Longrightarrow> mem s' (out + of_nat k) = file_byte img (entry_cluster bs) (k div unat sz * unat sz) (k mod unat sz)"
    "\<And>a. page_of a \<in> heap_pages (kernel_heap s) \<Longrightarrow> unat sz \<le> unat (a - out) \<Longrightarrow> mem s' a = mem s a"
    by (rule fat16_read_result [OF v(1,2) des p(5) assms(5,6,7), where nmemb = 1 and out = out])
       (use assms(8,9) rb in \<open>auto simp del: of_nat_0\<close>)
  have "mem s' (out + of_nat k) = driver_content img (entry_cluster bs) k" if "k < unat sz" for k
    using s'(3) [OF that] that file_byte_driver [of img 0 "unat sz" k] by (simp add: block_fits_def)
  then show ?thesis
    using s' p(1-3) assms(7) by (intro that [of s']) (auto simp: fread_def fs_call_read_def)
qed

lemma fclose_result:
  fixes s :: "'a files_scheme"
  assumes hi: "heap_inv (kernel_heap s)" and "fd_open bs i s" "i < 511" "length (file_descriptors s) = 512"
  obtains s' p d where "fclose (int i + 1) s = Some (0, s')" "heap_inv (kernel_heap s')"
    "file_descriptors s' = (file_descriptors s)[i := 0]"
    "allocs (kernel_heap s') = allocs (kernel_heap s) - insert (p, 1) (file_allocs s d)"
    "fd_allocs s i = insert (p, 1) (file_allocs s d)" "p = file_descriptors s ! i"
    "open_file bs d s" "fd_objects s' = (fd_objects s)(p := None)"
    "file_frame s s'" "mem s' = mem s" "tail_room s \<le> tail_room s'" "heap_pages (kernel_heap s') = heap_pages (kernel_heap s)"
proof -
  obtain p d f where p: "file_get_descriptor (int i + 1) s = p" "p \<noteq> 0" "(p, 1) \<in> allocs (kernel_heap s)"
    "(p, 1) \<notin> file_allocs s d"
    "fd_objects s p = Some \<lparr>fd_index = int i + 1, fd_filesystem = Fat16Filesystem, fd_private = d, fd_disk = TheDisk\<rparr>"
    "open_file bs d s"
    by (rule fd_openD [OF assms(2-4)])
  have pi: "p = file_descriptors s ! i" using p(1) assms(3) by (simp add: file_get_descriptor_def)
  obtain s1 where s1: "fat16_close d s = Some (0, s1)" "heap_inv (kernel_heap s1)"
    "allocs (kernel_heap s1) = allocs (kernel_heap s) - file_allocs s d"
    "tail_room s \<le> tail_room s1" "heap_pages (kernel_heap s1) = heap_pages (kernel_heap s)" "\<exists>h items fds. s1 = s\<lparr>kernel_heap := h, fat_items := items, fat_descriptors := fds\<rparr>"
    by (rule fat16_close_result [OF hi p(6)])
  have f1: "fd_objects s1 = fd_objects s" "file_descriptors s1 = file_descriptors s" "mem s1 = mem s" using s1(6) by auto
  have "(p, 1) \<in> allocs (kernel_heap s1)" using s1(3) p(3,4) by simp
  note fr = kernel_free_allocs [OF s1(2) this]
  let ?s = "(kernel_free p s1)\<lparr>file_descriptors := (file_descriptors s)[i := 0], fd_objects := (fd_objects s)(p := None)\<rparr>"
  have "fclose (int i + 1) s = Some (0, ?s)"
    using p(1,2,5) s1(1) f1 assms(3) by (simp add: fclose_def fs_call_close_def file_free_descriptor_def)
  moreover have "file_frame s ?s"
    using s1(6) file_frame_trans [OF file_frame_upd(2) file_frame_upd(3)] by (auto simp: kernel_free_def)
  moreover have "tail_room s \<le> tail_room ?s"
    using s1(4) free_tail_heap_free [OF s1(2) \<open>(p, 1) \<in> allocs (kernel_heap s1)\<close>]
    by (simp add: tail_room_def kernel_free_def)
  moreover have "fd_allocs s i = insert (p, 1) (file_allocs s d)" using p(5) pi by (simp add: fd_allocs_def)
  ultimately show ?thesis
    using fr s1(3,5) pi p(6) f1(3) by (intro that [of ?s p d]) (auto simp: kernel_free_def)
qed

section \<open>Start\<close>

lemma fs_init_result:
  "fs_init s = Some (s\<lparr>file_descriptors := replicate 512 0, filesystems := Fat16Filesystem # replicate 19 NullFilesystem,
     fat16_name := [0x46, 0x41, 0x54, 0x31, 0x36, 0] @ drop 6 (fat16_name s)\<rparr>)"
proof -
  have "replicate 20 NullFilesystem = NullFilesystem # replicate 19 NullFilesystem" by (simp add: numeral_eq_Suc)
  then show ?thesis
    by (cases s) (simp add: fs_init_def fs_load_def fs_static_load_def fat16_init_def fs_insert_filesystem_def fs_get_free_filesystem_def)
qed

lemma disk_search_and_init_result:
  fixes s :: "'a files_scheme"
  assumes "ata_drive img (device s)" "heap_inv (kernel_heap s)" "stack_ok s" "filesystems s = Fat16Filesystem # rest"
    "fat_image img n" "5 + blocks_for (root_size img) \<le> tail_room s"
  obtains s' where "disk_search_and_init s = Some s'" "fat_mounted img n s'"
    "tail_room s \<le> tail_room s' + 5 + blocks_for (root_size img)" "fat_resolve_frame s s'"
    "page_of (fs_private (disk s')) \<notin> live_pages (kernel_heap s)"
proof -
  let ?s = "s\<lparr>disk := \<lparr>disk_type = 0, sector_size = 512, disk_id = 0, filesystem = NullFilesystem, fs_private = 0\<rparr>\<rparr>"
  have tr: "tail_room ?s = tail_room s" "stack_ok ?s" using assms(3) by (simp_all add: tail_room_def stack_ok_def)
  obtain s' where s': "fat16_resolve TheDisk ?s = Some (0, s')" "fat_mounted img n s'" "disk_id (disk s') = 0"
    "tail_room ?s \<le> tail_room s' + 5 + blocks_for (root_size img)" "fat_resolve_frame ?s s'"
    "page_of (fs_private (disk s')) \<notin> live_pages (kernel_heap ?s)"
    by (rule fat16_resolve_mounts_volume [of img ?s n]) (use assms tr in auto)
  have "filesystem (disk s') = Fat16Filesystem" using s'(2) by (simp add: fat_mounted_def)
  then have "s'\<lparr>disk := (disk s')\<lparr>filesystem := Fat16Filesystem, disk_id := 0\<rparr>\<rparr> = s'" using s'(3) by (cases s') auto
  then have "disk_search_and_init s = Some s'"
    using s'(1) assms(4) by (simp add: disk_search_and_init_def fs_resolve_def fs_call_resolve_def)
  moreover have "fat_resolve_frame s s'"
    using s'(5) unfolding fat_resolve_frame_def by (elim conjE exE) (intro conjI exI, auto simp: steady_def off_stack_def)
  ultimately show ?thesis using s'(2,4,6) tr(1) by (intro that [of s']) simp_all
qed

text \<open>A buffer in allocated memory; a string that survives the start.\<close>

definition live_range :: "addr \<Rightarrow> nat \<Rightarrow> 'a kstate_scheme \<Rightarrow> bool" where
  "live_range a n s \<longleftrightarrow> (\<forall>i < n. page_of (a + of_nat i) \<in> live_pages (kernel_heap s))"

definition steady_range :: "addr \<Rightarrow> nat \<Rightarrow> 'a fatfs_scheme \<Rightarrow> bool" where
  "steady_range a n s \<longleftrightarrow> (\<forall>i < n. steady s (a + of_nat i))"

lemma live_range_steady: "live_range a n s \<Longrightarrow> steady_range a n s"
  by (simp add: live_range_def steady_range_def steady_def)

text \<open>What the start leaves alone.\<close>

definition boot_frame :: "'a files_scheme \<Rightarrow> 'a files_scheme \<Rightarrow> bool" where
  "boot_frame s s' \<longleftrightarrow> (\<exists>log m h sts dk privs dirs nm fsys fds. s' = s\<lparr>io_log := log, mem := m, kernel_heap := h,
       streams := sts, disk := dk, fat_privates := privs, fat_directories := dirs, fat16_name := nm,
       filesystems := fsys, file_descriptors := fds\<rparr>) \<and>
     allocs (kernel_heap s) \<subseteq> allocs (kernel_heap s') \<and> heap_pages (kernel_heap s') = heap_pages (kernel_heap s) \<and>
     (\<forall>a. steady s a \<longrightarrow> mem s' a = mem s a)"

lemma boot_result:
  fixes s :: "'a files_scheme"
  assumes "ata_drive img (device s)" "heap_inv (kernel_heap s)" "stack_ok s" "heap_pages (kernel_heap s) \<subseteq> {..<2 ^ 19}"
    "fat_image img n" "cstring (mem s) path (0x30 # 0x3A # 0x2F # c)" "c \<noteq> []" "0x2F \<notin> set c" "length c \<le> 104"
    "steady_range path (length c + 4) s" "mem s mode_str = 0x72" "steady s mode_str"
    "5 + blocks_for (root_size img) \<le> tail_room s"
  obtains s1 s2 where "fs_init s = Some s1" "disk_search_and_init s1 = Some s2" "fat_mounted img n s2" "path_to c path s2"
    "mem s2 mode_str = 0x72" "\<not> free_page (kernel_heap s2) (page_of mode_str)"
    "tail_room s \<le> tail_room s2 + 5 + blocks_for (root_size img)"
    "heap_pages (kernel_heap s2) \<subseteq> {..<2 ^ 19}" "file_descriptors s2 = replicate 512 0"
    "page_of (fs_private (disk s2)) \<notin> live_pages (kernel_heap s)" "boot_frame s s2"
proof -
  obtain s1 where s1: "fs_init s = Some s1" "filesystems s1 = Fat16Filesystem # replicate 19 NullFilesystem"
      "file_descriptors s1 = replicate 512 0" "device s1 = device s" "kernel_heap s1 = kernel_heap s" "mem s1 = mem s"
      "local_addr s1 = local_addr s"
    using fs_init_result [of s] by simp
  have st1: "stack_ok s1" "tail_room s1 = tail_room s" using assms(3) s1 by (simp_all add: stack_ok_def tail_room_def)
  obtain s2 where s2: "disk_search_and_init s1 = Some s2" "fat_mounted img n s2"
    "tail_room s1 \<le> tail_room s2 + 5 + blocks_for (root_size img)" "fat_resolve_frame s1 s2"
    "page_of (fs_private (disk s2)) \<notin> live_pages (kernel_heap s1)"
    by (rule disk_search_and_init_result [of img s1 "replicate 19 NullFilesystem" n]) (use assms s1 st1 in auto)
  have s1': "s1 = s\<lparr>file_descriptors := file_descriptors s1, filesystems := filesystems s1, fat16_name := fat16_name s1\<rparr>"
    using s1(1) fs_init_result [of s] by auto
  have fr: "boot_frame s s2"
  proof -
    obtain log m h sts dk privs dirs where "s2 = s1\<lparr>io_log := log, mem := m, kernel_heap := h,
       streams := sts, disk := dk, fat_privates := privs, fat_directories := dirs\<rparr>"
      using s2(4) unfolding fat_resolve_frame_def by blast
    then have "s2 = s\<lparr>io_log := log, mem := m, kernel_heap := h, streams := sts, disk := dk, fat_privates := privs,
        fat_directories := dirs, fat16_name := fat16_name s1, filesystems := filesystems s1,
        file_descriptors := file_descriptors s1\<rparr>"
      by (subst (asm) s1') simp
    then have "\<exists>log m h sts dk privs dirs nm fsys fds. s2 = s\<lparr>io_log := log, mem := m, kernel_heap := h,
       streams := sts, disk := dk, fat_privates := privs, fat_directories := dirs, fat16_name := nm,
       filesystems := fsys, file_descriptors := fds\<rparr>" by blast
    then show ?thesis
      using s2(4) s1(5-7) unfolding boot_frame_def fat_resolve_frame_def by (simp add: steady_def off_stack_def)
  qed
  note bf = fr [unfolded boot_frame_def]
  have fds: "file_descriptors s2 = replicate 512 0" using s2(4) s1(3) by (auto simp: fat_resolve_frame_def)
  have used: "\<not> free_page (kernel_heap s2) (page_of a)" if "steady s a" for a
    using that bf live_pages_mono [of "kernel_heap s" "kernel_heap s2"] by (auto simp: steady_def free_page_def)
  have len: "length (0x30 # 0x3A # 0x2F # c) = length c + 3" by simp
  have "cstring (mem s2) path (0x30 # 0x3A # 0x2F # c)"
    by (rule cstring_cong [OF assms(6)]) (use assms(10) bf len in \<open>auto simp: steady_range_def\<close>)
  then have "path_to c path s2"
    using assms(7-10) used by (auto simp: path_to_def path_ok_def steady_range_def)
  moreover have "mem s2 mode_str = 0x72" using assms(11,12) bf by simp
  ultimately show ?thesis
    using s1 s2 st1 fr fds assms(4,12) used bf by (intro that [of s1 s2]) auto
qed

section \<open>Properties\<close>

text \<open>
  C19. \<open>fopen\<close> on a mounted volume with a path \<^verbatim>\<open>0:/NAME\<close> and mode \<^verbatim>\<open>r\<close>. If no entry of the root
  directory has the name the result is 0. If one has, the result is the number of the first
  free table entry, counted from 1, and the entry has a descriptor for the file; but if the
  table is full the result is \<open>-NO_MEMORY_ERROR\<close>, although every other error is reported as 0.
\<close>

theorem fopen_opens:
  fixes s :: "'a files_scheme"
  assumes "fat_mounted img n s" "plain_root img n" "path_to c path s"
    "5 + 2 * length (matches img n c) \<le> free_blocks (kernel_heap s)"
    "heap_pages (kernel_heap s) \<subseteq> {..<2 ^ 19}" "mem s mode_str = 0x72" "\<not> free_page (kernel_heap s) (page_of mode_str)"
  shows "\<exists>res s'. fopen path mode_str s = Some (res, s') \<and> fat_mounted img n s' \<and>
    (if matches img n c = [] then res = 0 \<and> file_descriptors s' = file_descriptors s
     else case first_free (\<lambda>p. p = 0) 0 (file_descriptors s) of
       None \<Rightarrow> res = - NO_MEMORY_ERROR \<and> file_descriptors s' = file_descriptors s
     | Some i \<Rightarrow> res = int i + 1 \<and> fd_open (root_entry img (last (matches img n c))) i s')"
proof -
  obtain res s' where "fopen path mode_str s = Some (res, s')" "fat_mounted img n s'"
    "opened img n c s res s'"
    by (rule fopen_result [OF assms])
  then show ?thesis by (intro exI [of _ res] exI [of _ s']) (auto simp: opened_def split: if_splits option.splits)
qed

text \<open>
  C12. From start to data: on a drive with a FAT16 volume, after \<open>fs_init\<close> and
  \<open>disk_search_and_init\<close> the first \<open>fopen\<close> of a file returns descriptor 1, and \<open>fread\<close> of one block
  that is not larger than a cluster (64 KiB on the volume that \<^verbatim>\<open>boot.asm\<close> describes) returns 1 and
  delivers the contents of the file from its first byte.
\<close>

theorem boot_reads_file:
  fixes s :: "'a files_scheme"
  assumes "ata_drive img (device s)" "heap_inv (kernel_heap s)" "stack_ok s" "heap_pages (kernel_heap s) \<subseteq> {..<2 ^ 19}"
    "fat_image img n" "plain_root img n" "cstring (mem s) path (0x30 # 0x3A # 0x2F # c)" "c \<noteq> []" "0x2F \<notin> set c" "length c \<le> 104"
    "steady_range path (length c + 4) s" "mem s mode_str = 0x72" "steady s mode_str" "live_range out (unat sz) s"
    "matches img n c \<noteq> []" "bs = root_entry img (last (matches img n c))" "bs ! 20 = 0" "bs ! 21 = 0"
    "0 < sz" "unat sz \<le> cluster_size img" "fat_readable img (entry_cluster bs) 0 (unat sz)"
    "10 + blocks_for (root_size img) + 2 * length (matches img n c) \<le> tail_room s"
  shows "\<exists>s1 s2 s3 s4. fs_init s = Some s1 \<and> disk_search_and_init s1 = Some s2 \<and> fopen path mode_str s2 = Some (1, s3) \<and>
    fread out sz 1 1 s3 = Some (1, s4) \<and> (\<forall>k < unat sz. mem s4 (out + of_nat k) = file_content img (entry_cluster bs) k)"
proof -
  obtain s1 s2 where s2: "fs_init s = Some s1" "disk_search_and_init s1 = Some s2" "fat_mounted img n s2" "path_to c path s2"
    "mem s2 mode_str = 0x72" "\<not> free_page (kernel_heap s2) (page_of mode_str)"
    "tail_room s \<le> tail_room s2 + 5 + blocks_for (root_size img)"
    "heap_pages (kernel_heap s2) \<subseteq> {..<2 ^ 19}" "file_descriptors s2 = replicate 512 0"
    "page_of (fs_private (disk s2)) \<notin> live_pages (kernel_heap s)" "boot_frame s s2"
    by (rule boot_result [OF assms(1-5,7-13)]) (use assms(22) in auto)
  have lv: "live_pages (kernel_heap s) \<subseteq> live_pages (kernel_heap s2)"
    using s2(11) live_pages_mono [of "kernel_heap s" "kernel_heap s2"] by (simp add: boot_frame_def)
  have ff: "first_free (\<lambda>p. p = 0) 0 (file_descriptors s2) = Some 0" using s2(9) by (simp add: numeral_eq_Suc)
  obtain res s3 where s3: "fopen path mode_str s2 = Some (res, s3)" "fat_mounted img n s3"
    "allocs (kernel_heap s2) \<subseteq> allocs (kernel_heap s3)" "fs_private (disk s3) = fs_private (disk s2)"
    "opened img n c s2 res s3"
    by (rule fopen_result [OF s2(3) assms(6) s2(4) _ s2(8,5,6)]) (use assms(22) s2(7) tail_room_free_blocks [of s2] in auto)
  have o: "res = 1" "fd_open bs 0 s3" "page_of (fd_ptr s3 0) \<notin> live_pages (kernel_heap s2)" "length (file_descriptors s3) = 512"
    using opened_some [OF s3(5) assms(15) ff] assms(16) s2(9) by auto
  have buf: "page_of (out + of_nat j) \<in> live_pages (kernel_heap s3) \<and>
      page_of (out + of_nat j) \<noteq> page_of (fs_private (disk s3)) \<and> page_of (out + of_nat j) \<noteq> page_of (fd_ptr s3 0)"
    if "j < unat sz" for j
  proof -
    have l: "page_of (out + of_nat j) \<in> live_pages (kernel_heap s)" using assms(14) that by (simp add: live_range_def)
    then show ?thesis using s2(10) lv live_pages_mono [OF s3(3)] s3(4) o(3) by auto
  qed
  have small: "unat sz < 2 ^ 31" by (rule le_less_trans [OF assms(20) cluster_size_less])
  obtain s4 where s4: "fread out sz 1 (int 0 + 1) s3 = Some (1, s4)"
    "\<And>k. k < unat sz \<Longrightarrow> mem s4 (out + of_nat k) = driver_content img (entry_cluster bs) k"
    by (rule fread_result [OF s3(2) o(2) _ o(4) assms(17-19) small assms(21), of out]) (use buf in auto)
  have "mem s4 (out + of_nat k) = file_content img (entry_cluster bs) k" if "k < unat sz" for k
    using s4(2) [OF that] first_cluster_content [of k img] that assms(20) by simp
  then show ?thesis using s2(1,2) s3(1) o(1) s4(1) by auto
qed

text \<open>
  C38. Closing a file that \<open>fopen\<close> has opened returns 0, and the table of descriptors is again what
  it was before; except for the last descriptor, 512, which \<open>fopen\<close> hands out and \<open>fclose\<close> refuses
  without a change, so that its entry stays taken.
\<close>

theorem fopen_fclose_table:
  fixes s :: "'a files_scheme"
  assumes "fat_mounted img n s" "plain_root img n" "path_to c path s" "matches img n c \<noteq> []"
    "5 + 2 * length (matches img n c) \<le> free_blocks (kernel_heap s)"
    "heap_pages (kernel_heap s) \<subseteq> {..<2 ^ 19}" "mem s mode_str = 0x72" "\<not> free_page (kernel_heap s) (page_of mode_str)"
    "length (file_descriptors s) = 512" "first_free (\<lambda>p. p = 0) 0 (file_descriptors s) = Some i"
  shows "\<exists>s'. fopen path mode_str s = Some (int i + 1, s') \<and> file_descriptors s' ! i \<noteq> 0 \<and>
    (if i < 511
     then \<exists>s''. fclose (int i + 1) s' = Some (0, s'') \<and> file_descriptors s'' = file_descriptors s \<and> heap_inv (kernel_heap s'')
     else fclose (int i + 1) s' = Some (- INVALID_ARGUMENT_ERROR, s'))"
proof -
  obtain res s' where s': "fopen path mode_str s = Some (res, s')" "fat_mounted img n s'"
    "opened img n c s res s'"
    by (rule fopen_result [OF assms(1-3,5-8)])
  then obtain p where o: "res = int i + 1" "fd_open (root_entry img (last (matches img n c))) i s'"
      "file_descriptors s' = (file_descriptors s)[i := p]"
    using opened_some [OF s'(3) assms(4,10)] by auto
  have len: "length (file_descriptors s') = 512" using o(3) assms(9) by simp
  have z: "file_descriptors s ! i = 0" using first_free_Some [OF assms(10)] by simp
  have "\<exists>s''. fclose (int i + 1) s' = Some (0, s'') \<and> file_descriptors s'' = file_descriptors s \<and> heap_inv (kernel_heap s'')"
    if i: "i < 511"
  proof -
    obtain s'' where "fclose (int i + 1) s' = Some (0, s'')" "heap_inv (kernel_heap s'')"
        "file_descriptors s'' = (file_descriptors s')[i := 0]"
      by (rule fclose_result [OF _ o(2) i len]) (use s'(2) in \<open>auto simp: fat_mounted_def fat_volume_def\<close>)
    then show ?thesis using o(3) by (auto simp: list_update_id [of "file_descriptors s" i, unfolded z])
  qed
  moreover have "fclose (int i + 1) s' = Some (- INVALID_ARGUMENT_ERROR, s')" if "\<not> i < 511"
    using that by (simp add: fclose_def file_get_descriptor_def)
  ultimately show ?thesis using s'(1) o by (auto simp: fd_open_def)
qed

text \<open>
  C40. The bound of the descriptors. A descriptor that is not between 1 and 511 is refused by every
  operation without any change; but \<open>file_new_descriptor\<close> hands out 512 when only the last entry
  of the table is free, and this entry can then never be used nor be closed.
\<close>

theorem file_descriptor_bounds:
  fixes s :: "'a files_scheme"
  shows "fd \<le> 0 \<or> 512 \<le> fd \<Longrightarrow>
    fread out sz nmemb fd s = Some (- INVALID_ARGUMENT_ERROR, s) \<and>
    fseek fd off whence s = Some (- INVALID_ARGUMENT_ERROR, s) \<and>
    fstat fd stat s = Some (- INVALID_ARGUMENT_ERROR, stat) \<and>
    fclose fd s = Some (- INVALID_ARGUMENT_ERROR, s) \<and>
    (heap_inv (kernel_heap s) \<longrightarrow> 0 < free_blocks (kernel_heap s) \<longrightarrow> file_descriptors s = replicate 511 1 @ [0] \<longrightarrow>
       (\<exists>p s' o'. file_new_descriptor s = Some (0, p, s') \<and> fd_objects s' p = Some o' \<and> fd_index o' = 512))"
proof (intro conjI impI)
  assume h: "heap_inv (kernel_heap s)" "0 < free_blocks (kernel_heap s)" "file_descriptors s = replicate 511 1 @ [0]"
  have "first_free (\<lambda>p. p = 0) i (replicate k 1 @ [0 :: addr]) = Some (i + k)" for i k
    by (induction k arbitrary: i) simp_all
  then have ff: "first_free (\<lambda>p. p = 0) 0 (file_descriptors s) = Some 511" using h(3) by simp
  show "\<exists>p s' o'. file_new_descriptor s = Some (0, p, s') \<and> fd_objects s' p = Some o' \<and> fd_index o' = 512"
    by (rule file_new_descriptor_result [OF h(1,2) ff]) auto
qed (auto simp: fread_def fseek_def fstat_def fclose_def file_get_descriptor_def)

section \<open>An example\<close>

definition demo_files :: files where
  "demo_files = demo_fat demo_volume \<lparr>filesystems = [], file_descriptors = [], fd_objects = Map.empty\<rparr>"

lemmas demo_files_facts = demo_fat_heap [of demo_volume "\<lparr>filesystems = [], file_descriptors = [], fd_objects = Map.empty\<rparr>", folded demo_files_def]
  demo_fat_stack [of demo_volume "\<lparr>filesystems = [], file_descriptors = [], fd_objects = Map.empty\<rparr>", folded demo_files_def]

lemma demo_files_low: "heap_pages (kernel_heap demo_files) \<subseteq> {..<2 ^ 19}"
  by (auto simp: demo_files_def demo_fat_def heap_pages_def total_def page_of_def)

lemma demo_files_range:
  assumes "k + n \<le> 4096"
  shows "live_range (0x01000000 + of_nat k) n demo_files"
  unfolding live_range_def
proof (intro allI impI)
  fix i assume "i < n"
  then show "page_of (0x01000000 + of_nat k + of_nat i) \<in> live_pages (kernel_heap demo_files)"
    using alloc_region(2) [OF demo_files_facts(1,3), of "k + i"] assms by (simp add: add.assoc)
qed

lemma demo_files_steady: "steady_range 0x01000000 9 demo_files" "steady demo_files 0x01000040"
  using live_range_steady [OF demo_files_range [of 0 9]] live_range_steady [OF demo_files_range [of 64 1]]
  by (simp_all add: steady_range_def)

lemma demo_files_strings:
  "cstring (mem demo_files) 0x01000000 (0x30 # 0x3A # 0x2F # [65, 46, 84, 88, 84])" "mem demo_files 0x01000040 = 0x72"
  by (simp_all add: demo_files_def demo_fat_def write_bytes_def)

theorem boot_reads_file_witness:
  "\<exists>s1 s2 s3 s4. fs_init demo_files = Some s1 \<and> disk_search_and_init s1 = Some s2 \<and>
     fopen 0x01000000 0x01000040 s2 = Some (1, s3) \<and> fread 0x01000800 2 1 1 s3 = Some (1, s4) \<and>
     mem s4 0x01000800 = 72 \<and> mem s4 0x01000801 = 105"
proof -
  have e: "entry_cluster (root_entry demo_volume 0) = 2" "root_entry demo_volume 0 ! 20 = 0" "root_entry demo_volume 0 ! 21 = 0"
    by (simp_all add: demo_root_entry entry_cluster_def)
  have "\<exists>s1 s2 s3 s4. fs_init demo_files = Some s1 \<and> disk_search_and_init s1 = Some s2 \<and>
      fopen 0x01000000 0x01000040 s2 = Some (1, s3) \<and> fread 0x01000800 2 1 1 s3 = Some (1, s4) \<and>
      (\<forall>k < unat (2 :: u32). mem s4 (0x01000800 + of_nat k) = file_content demo_volume (entry_cluster (root_entry demo_volume 0)) k)"
    by (rule boot_reads_file [OF demo_files_facts(4,1,5) demo_files_low fat_image_demo demo_plain_root demo_files_strings(1)])
       (use demo_files_steady demo_files_range [of 2048 2] demo_files_strings(2)
          demo_matches e demo_readable demo_files_facts(2) demo_volume_fields(6,8) in simp_all)
  then obtain s1 s2 s3 s4 where s: "fs_init demo_files = Some s1" "disk_search_and_init s1 = Some s2"
      "fopen 0x01000000 0x01000040 s2 = Some (1, s3)" "fread 0x01000800 2 1 1 s3 = Some (1, s4)"
      "\<And>k. k < 2 \<Longrightarrow> mem s4 (0x01000800 + of_nat k) = file_content demo_volume 2 k"
    using e(1) by auto
  have "file_content demo_volume 2 0 = 72" "file_content demo_volume 2 1 = 105"
    by (simp_all add: file_content_def demo_volume_fields cluster_pos_def demo_volume_def)
  then show ?thesis using s(1-4) s(5) [of 0] s(5) [of 1] by auto
qed

lemma demo_files_mounted:
  obtains s where "fat_mounted demo_volume 1 (s :: files)" "path_to [65, 46, 84, 88, 84] 0x01000000 s" "mem s 0x01000040 = 0x72"
    "\<not> free_page (kernel_heap s) (page_of 0x01000040)" "25000 \<le> free_blocks (kernel_heap s)"
    "heap_pages (kernel_heap s) \<subseteq> {..<2 ^ 19}" "file_descriptors s = replicate 512 0"
proof (rule boot_result [OF demo_files_facts(4,1,5) demo_files_low fat_image_demo demo_files_strings(1) _ _ _ _ demo_files_strings(2)])
  show "steady_range 0x01000000 (length [65 :: byte, 46, 84, 88, 84] + 4) demo_files" "steady demo_files 0x01000040"
    using demo_files_steady by simp_all
next
  fix s1 s2 :: files
  assume "tail_room demo_files \<le> tail_room s2 + 5 + blocks_for (root_size demo_volume)"
  then have "25000 \<le> free_blocks (kernel_heap s2)"
    using demo_files_facts(2) demo_volume_fields(8) tail_room_free_blocks [of s2] by simp
  moreover assume "fat_mounted demo_volume 1 s2" "path_to [65, 46, 84, 88, 84] 0x01000000 s2" "mem s2 0x01000040 = 0x72"
    "\<not> free_page (kernel_heap s2) (page_of 0x01000040)" "heap_pages (kernel_heap s2) \<subseteq> {..<2 ^ 19}"
    "file_descriptors s2 = replicate 512 0"
  ultimately show thesis by (intro that)
qed (use demo_files_facts(2) demo_volume_fields(8) in auto)

theorem fopen_opens_witness:
  "\<exists>s s'. fat_mounted demo_volume 1 s \<and> fopen 0x01000000 0x01000040 (s :: files) = Some (1, s') \<and>
     fd_open (root_entry demo_volume 0) 0 s'"
proof -
  obtain s where s: "fat_mounted demo_volume 1 (s :: files)" "path_to [65, 46, 84, 88, 84] 0x01000000 s" "mem s 0x01000040 = 0x72"
    "\<not> free_page (kernel_heap s) (page_of 0x01000040)" "25000 \<le> free_blocks (kernel_heap s)"
    "heap_pages (kernel_heap s) \<subseteq> {..<2 ^ 19}" "file_descriptors s = replicate 512 0"
    by (rule demo_files_mounted)
  have ff: "first_free (\<lambda>p. p = 0) 0 (file_descriptors s) = Some 0" using s(7) by (simp add: numeral_eq_Suc)
  from fopen_opens [OF s(1) demo_plain_root s(2) _ s(6,3,4)] s(1,5) show ?thesis
    by (auto simp: demo_matches ff)
qed

theorem fopen_fclose_table_witness:
  "\<exists>s s' s''. fopen 0x01000000 0x01000040 (s :: files) = Some (1, s') \<and> file_descriptors s' ! 0 \<noteq> 0 \<and>
     fclose 1 s' = Some (0, s'') \<and> file_descriptors s'' = replicate 512 0"
proof -
  obtain s where s: "fat_mounted demo_volume 1 (s :: files)" "path_to [65, 46, 84, 88, 84] 0x01000000 s" "mem s 0x01000040 = 0x72"
    "\<not> free_page (kernel_heap s) (page_of 0x01000040)" "25000 \<le> free_blocks (kernel_heap s)"
    "heap_pages (kernel_heap s) \<subseteq> {..<2 ^ 19}" "file_descriptors s = replicate 512 0"
    by (rule demo_files_mounted)
  have ff: "first_free (\<lambda>p. p = 0) 0 (file_descriptors s) = Some 0" using s(7) by (simp add: numeral_eq_Suc)
  have room: "5 + 2 * length (matches demo_volume 1 [65, 46, 84, 88, 84]) \<le> free_blocks (kernel_heap s)"
    using s(5) by (simp add: demo_matches)
  from fopen_fclose_table [OF s(1) demo_plain_root s(2) _ room s(6,3,4) _ ff] s(7) show ?thesis
    by (auto simp: demo_matches)
qed

theorem file_descriptor_bounds_witness:
  "fclose 512 (demo_files\<lparr>file_descriptors := replicate 511 1 @ [0]\<rparr>) =
     Some (- INVALID_ARGUMENT_ERROR, demo_files\<lparr>file_descriptors := replicate 511 1 @ [0]\<rparr>) \<and>
   (\<exists>p s' o'. file_new_descriptor (demo_files\<lparr>file_descriptors := replicate 511 1 @ [0]\<rparr>) = Some (0, p, s') \<and>
     fd_objects s' p = Some o' \<and> fd_index o' = 512)"
proof -
  have "0 < free_blocks (kernel_heap demo_files)"
    using tail_room_free_blocks [of demo_files] demo_files_facts(2) by simp
  then show ?thesis
    using file_descriptor_bounds [of 512 _ _ _ "demo_files\<lparr>file_descriptors := replicate 511 1 @ [0]\<rparr>"] demo_files_facts(1) by simp
qed

end
