(* ===== verification/Elf.thy ===== *)
theory Elf
  imports Strings
begin

text \<open>
  The ELF format and the part of the loader that works on a loaded image,
  \<^verbatim>\<open>src/src/loader/formats/elf.h\<close>, \<^verbatim>\<open>elf.c\<close> and \<^verbatim>\<open>elfloader.c\<close>. Headers are read from memory
  at the offsets of the packed structs; an \<open>elf_file\<close> is a record. The main result: for a
  valid image the loader finds the lowest virtual address and the highest virtual end of the
  loadable segments, together with the physical addresses that belong to them.
\<close>

section \<open>Definitions\<close>

subsection \<open>Headers (elf.h)\<close>

definition PF_W :: u32 where [simp]: "PF_W = 0x02"
definition PT_LOAD :: u32 where [simp]: "PT_LOAD = 1"
definition ET_EXEC :: u16 where [simp]: "ET_EXEC = 2"
definition EI_CLASS :: u32 where [simp]: "EI_CLASS = 4"
definition EI_DATA :: u32 where [simp]: "EI_DATA = 5"
definition ELFCLASSNONE :: byte where [simp]: "ELFCLASSNONE = 0"
definition ELFCLASS32 :: byte where [simp]: "ELFCLASS32 = 1"
definition ELFDATANONE :: byte where [simp]: "ELFDATANONE = 0"
definition ELFDATA2LSB :: byte where [simp]: "ELFDATA2LSB = 1"
definition OS_PROGRAM_VIRTUAL_ADDRESS :: addr where [simp]: "OS_PROGRAM_VIRTUAL_ADDRESS = 0x400000"

definition e_ident :: "memory \<Rightarrow> addr \<Rightarrow> u32 \<Rightarrow> byte" where "e_ident m header i = m (header + i)"
definition e_type :: "memory \<Rightarrow> addr \<Rightarrow> u16" where "e_type m header = load16 m (header + 16)"
definition e_entry :: "memory \<Rightarrow> addr \<Rightarrow> u32" where "e_entry m header = load32 m (header + 24)"
definition e_phoff :: "memory \<Rightarrow> addr \<Rightarrow> u32" where "e_phoff m header = load32 m (header + 28)"
definition e_shoff :: "memory \<Rightarrow> addr \<Rightarrow> u32" where "e_shoff m header = load32 m (header + 32)"
definition e_phnum :: "memory \<Rightarrow> addr \<Rightarrow> u16" where "e_phnum m header = load16 m (header + 44)"
definition e_shstrndx :: "memory \<Rightarrow> addr \<Rightarrow> u16" where "e_shstrndx m header = load16 m (header + 50)"

definition p_type :: "memory \<Rightarrow> addr \<Rightarrow> u32" where "p_type m phdr = load32 m phdr"
definition p_offset :: "memory \<Rightarrow> addr \<Rightarrow> u32" where "p_offset m phdr = load32 m (phdr + 4)"
definition p_vaddr :: "memory \<Rightarrow> addr \<Rightarrow> u32" where "p_vaddr m phdr = load32 m (phdr + 8)"
definition p_filesz :: "memory \<Rightarrow> addr \<Rightarrow> u32" where "p_filesz m phdr = load32 m (phdr + 16)"
definition p_memsz :: "memory \<Rightarrow> addr \<Rightarrow> u32" where "p_memsz m phdr = load32 m (phdr + 20)"
definition p_flags :: "memory \<Rightarrow> addr \<Rightarrow> u32" where "p_flags m phdr = load32 m (phdr + 24)"

definition sh_offset :: "memory \<Rightarrow> addr \<Rightarrow> u32" where "sh_offset m shdr = load32 m (shdr + 16)"

definition elf_get_entry_ptr :: "memory \<Rightarrow> addr \<Rightarrow> addr" where
  "elf_get_entry_ptr m header = e_entry m header"

definition elf_get_entry :: "memory \<Rightarrow> addr \<Rightarrow> u32" where
  "elf_get_entry m header = e_entry m header"

subsection \<open>The loader (elfloader.c)\<close>

record elf_file =
  elf_filename :: "byte list"
  in_memory_size :: int
  elf_mem :: addr
  virtual_base_address :: addr
  virtual_end_address :: addr
  physical_base_address :: addr
  physical_end_address :: addr

definition elf_signature :: "byte list" where
  "elf_signature = [0x7F, 0x45, 0x4C, 0x46]"

text \<open>The comparison with the constant array is one of four bytes.\<close>

definition elf_valid_signature :: "memory \<Rightarrow> addr \<Rightarrow> bool" where
  "elf_valid_signature m buffer \<longleftrightarrow> mem_bytes m buffer 4 = elf_signature"

definition elf_valid_class :: "memory \<Rightarrow> addr \<Rightarrow> bool" where
  "elf_valid_class m header \<longleftrightarrow>
     e_ident m header EI_CLASS = ELFCLASSNONE \<or> e_ident m header EI_CLASS = ELFCLASS32"

definition elf_valid_encoding :: "memory \<Rightarrow> addr \<Rightarrow> bool" where
  "elf_valid_encoding m header \<longleftrightarrow>
     e_ident m header EI_DATA = ELFDATANONE \<or> e_ident m header EI_DATA = ELFDATA2LSB"

definition elf_is_executable :: "memory \<Rightarrow> addr \<Rightarrow> bool" where
  "elf_is_executable m header \<longleftrightarrow>
     e_type m header = ET_EXEC \<and> OS_PROGRAM_VIRTUAL_ADDRESS \<le> e_entry m header"

definition elf_has_program_header :: "memory \<Rightarrow> addr \<Rightarrow> bool" where
  "elf_has_program_header m header \<longleftrightarrow> e_phoff m header \<noteq> 0"

definition elf_memory :: "elf_file \<Rightarrow> addr" where "elf_memory f = elf_mem f"
definition elf_header :: "elf_file \<Rightarrow> addr" where "elf_header f = elf_mem f"

definition elf_sheader :: "memory \<Rightarrow> addr \<Rightarrow> addr" where
  "elf_sheader m header = header + e_shoff m header"

definition elf_pheader :: "memory \<Rightarrow> addr \<Rightarrow> addr" where
  "elf_pheader m header = (if e_phoff m header = 0 then 0 else header + e_phoff m header)"

definition elf_program_header :: "memory \<Rightarrow> addr \<Rightarrow> nat \<Rightarrow> addr" where
  "elf_program_header m header index = elf_pheader m header + of_nat (32 * index)"

definition elf_section :: "memory \<Rightarrow> addr \<Rightarrow> nat \<Rightarrow> addr" where
  "elf_section m header index = elf_sheader m header + of_nat (40 * index)"

definition elf_phdr_phys_address :: "memory \<Rightarrow> elf_file \<Rightarrow> addr \<Rightarrow> addr" where
  "elf_phdr_phys_address m f phdr = elf_memory f + p_offset m phdr"

definition elf_str_table :: "memory \<Rightarrow> addr \<Rightarrow> addr" where
  "elf_str_table m header =
     header + sh_offset m (elf_section m header (unat (e_shstrndx m header)))"

definition elf_virtual_base :: "elf_file \<Rightarrow> addr" where "elf_virtual_base f = virtual_base_address f"
definition elf_virtual_end :: "elf_file \<Rightarrow> addr" where "elf_virtual_end f = virtual_end_address f"
definition elf_phys_base :: "elf_file \<Rightarrow> addr" where "elf_phys_base f = physical_base_address f"
definition elf_phys_end :: "elf_file \<Rightarrow> addr" where "elf_phys_end f = physical_end_address f"

definition elf_validate_loaded :: "memory \<Rightarrow> addr \<Rightarrow> int" where
  "elf_validate_loaded m header =
     (if elf_valid_signature m header \<and> elf_valid_class m header \<and>
         elf_valid_encoding m header \<and> elf_has_program_header m header
      then ALL_OK else - INVALID_FORMAT_ERROR)"

definition elf_process_phdr_pt_load :: "memory \<Rightarrow> addr \<Rightarrow> elf_file \<Rightarrow> int \<times> elf_file" where
  "elf_process_phdr_pt_load m phdr f =
     (let f = (if virtual_base_address f \<ge> p_vaddr m phdr \<or> virtual_base_address f = 0
               then f\<lparr>virtual_base_address := p_vaddr m phdr,
                      physical_base_address := elf_memory f + p_offset m phdr\<rparr>
               else f);
          end_virtual_address = p_vaddr m phdr + p_filesz m phdr;
          f = (if virtual_end_address f \<le> end_virtual_address \<or> virtual_end_address f = 0
               then f\<lparr>virtual_end_address := end_virtual_address,
                      physical_end_address := elf_memory f + p_offset m phdr + p_filesz m phdr\<rparr>
               else f)
      in (0, f))"

definition elf_process_pheader :: "memory \<Rightarrow> addr \<Rightarrow> elf_file \<Rightarrow> int \<times> elf_file" where
  "elf_process_pheader m phdr f =
     (if p_type m phdr = PT_LOAD then elf_process_phdr_pt_load m phdr f else (0, f))"

text \<open>The loop over the indexes still to come.\<close>

fun elf_process_pheaders_loop :: "memory \<Rightarrow> addr \<Rightarrow> nat list \<Rightarrow> int \<Rightarrow> elf_file \<Rightarrow> int \<times> elf_file" where
  "elf_process_pheaders_loop m header [] res f = (res, f)"
| "elf_process_pheaders_loop m header (i # is) res f =
     (let (res, f) = elf_process_pheader m (elf_program_header m header i) f
      in if res < 0 then (res, f) else elf_process_pheaders_loop m header is res f)"

definition elf_process_pheaders :: "memory \<Rightarrow> elf_file \<Rightarrow> int \<times> elf_file" where
  "elf_process_pheaders m f =
     elf_process_pheaders_loop m (elf_header f) [0..<unat (e_phnum m (elf_header f))] 0 f"

definition elf_process_loaded :: "memory \<Rightarrow> elf_file \<Rightarrow> int \<times> elf_file" where
  "elf_process_loaded m f =
     (let res = elf_validate_loaded m (elf_header f)
      in if res < 0 then (res, f) else elf_process_pheaders m f)"

section \<open>Specification\<close>

text \<open>The loadable program headers with an index in a list, in order.\<close>

definition loads :: "memory \<Rightarrow> addr \<Rightarrow> nat list \<Rightarrow> addr list" where
  "loads m header is = filter (\<lambda>p. p_type m p = 1) (map (elf_program_header m header) is)"

definition file_end :: "memory \<Rightarrow> addr \<Rightarrow> u32" where
  "file_end m p = p_vaddr m p + p_filesz m p"

text \<open>
  The addresses that a segment occupies in memory (\<open>p_memsz\<close> of them), those that the file has bytes for
  (\<open>p_filesz\<close>), and those of the range that \<open>elf_process_loaded\<close> records.
\<close>

definition memory_range :: "memory \<Rightarrow> addr \<Rightarrow> nat set" where
  "memory_range m p = {unat (p_vaddr m p)..<unat (p_vaddr m p) + unat (p_memsz m p)}"

definition file_range :: "memory \<Rightarrow> addr \<Rightarrow> nat set" where
  "file_range m p = {unat (p_vaddr m p)..<unat (p_vaddr m p) + unat (p_filesz m p)}"

definition recorded_range :: "elf_file \<Rightarrow> nat set" where
  "recorded_range f = {unat (virtual_base_address f)..<unat (virtual_end_address f)}"

text \<open>Headers as the format has them: a segment ends below 4 GiB and has at most as much file as memory.\<close>

definition proper_header :: "memory \<Rightarrow> addr \<Rightarrow> bool" where
  "proper_header m p \<longleftrightarrow> unat (p_vaddr m p) + unat (p_memsz m p) < 2 ^ 32 \<and> p_filesz m p \<le> p_memsz m p"

text \<open>What a file says about the loadable headers seen so far.\<close>

definition covers :: "memory \<Rightarrow> addr list \<Rightarrow> elf_file \<Rightarrow> bool" where
  "covers m ps f \<longleftrightarrow>
     (if ps = [] then virtual_base_address f = 0 \<and> virtual_end_address f = 0
      else
        (\<exists>p \<in> set ps. virtual_base_address f = p_vaddr m p \<and>
           physical_base_address f = elf_mem f + p_offset m p) \<and>
        (\<exists>p \<in> set ps. virtual_end_address f = file_end m p \<and>
           physical_end_address f = elf_mem f + p_offset m p + p_filesz m p) \<and>
        (\<forall>p \<in> set ps. virtual_base_address f \<le> p_vaddr m p \<and> file_end m p \<le> virtual_end_address f))"

section \<open>The loop over the program headers\<close>

lemma covers_step:
  assumes "covers m ps f" "\<And>q. q \<in> set (ps @ [p]) \<Longrightarrow> p_vaddr m q \<noteq> 0"
  shows "covers m (ps @ [p]) (snd (elf_process_phdr_pt_load m p f))"
proof (cases "ps = []")
  case True
  then show ?thesis
    using assms by (auto simp: covers_def elf_process_phdr_pt_load_def Let_def file_end_def elf_memory_def)
next
  case False
  let ?f = "snd (elf_process_phdr_pt_load m p f)"
  have "virtual_base_address f \<noteq> 0"
    using assms False by (auto simp: covers_def)
  then have eq: "virtual_base_address ?f = min (virtual_base_address f) (p_vaddr m p)"
      "virtual_end_address ?f = max (virtual_end_address f) (file_end m p)"
      "elf_mem ?f = elf_mem f"
      "physical_base_address ?f = (if virtual_base_address f \<ge> p_vaddr m p
         then elf_mem f + p_offset m p else physical_base_address f)"
      "physical_end_address ?f = (if virtual_end_address f \<le> file_end m p
         then elf_mem f + p_offset m p + p_filesz m p else physical_end_address f)"
    by (auto simp: elf_process_phdr_pt_load_def Let_def file_end_def elf_memory_def min_def max_def)
  show ?thesis
    using assms(1) False unfolding covers_def eq by (auto simp: min_def max_def)
qed

lemma elf_process_pheaders_loop_covers:
  assumes "covers m ps f" "\<And>q. q \<in> set (ps @ loads m header is) \<Longrightarrow> p_vaddr m q \<noteq> 0"
  shows "\<exists>f'. elf_process_pheaders_loop m header is 0 f = (0, f') \<and> covers m (ps @ loads m header is) f' \<and>
    elf_mem f' = elf_mem f"
  using assms
proof (induction "is" arbitrary: ps f)
  case (Cons i "is")
  let ?p = "elf_program_header m header i"
  show ?case
  proof (cases "p_type m ?p = 1")
    case True
    let ?f = "snd (elf_process_phdr_pt_load m ?p f)"
    have ld: "loads m header (i # is) = ?p # loads m header is"
      using True by (simp add: loads_def)
    have "covers m (ps @ [?p]) ?f"
      using Cons.prems ld by (intro covers_step) auto
    then have "\<exists>f'. elf_process_pheaders_loop m header is 0 ?f = (0, f') \<and>
        covers m ((ps @ [?p]) @ loads m header is) f' \<and> elf_mem f' = elf_mem ?f"
      using Cons.prems ld by (intro Cons.IH) auto
    then show ?thesis
      using True ld by (auto simp: elf_process_pheader_def elf_process_phdr_pt_load_def Let_def)
  next
    case False
    then have ld: "loads m header (i # is) = loads m header is" by (simp add: loads_def)
    then show ?thesis
      using False Cons.IH [of ps f] Cons.prems by (simp add: elf_process_pheader_def)
  qed
qed (simp add: loads_def)

text \<open>The recorded range and the segments: the files fit, the rest of the last segment does not.\<close>

lemma file_end_unat: "proper_header m p \<Longrightarrow> unat (file_end m p) = unat (p_vaddr m p) + unat (p_filesz m p)"
  by (simp add: file_end_def proper_header_def word_le_nat_alt unat_word_ariths)

lemma covers_file_range:
  assumes "covers m ps f" "p \<in> set ps" "proper_header m p"
  shows "file_range m p \<subseteq> recorded_range f"
proof -
  have "virtual_base_address f \<le> p_vaddr m p" "file_end m p \<le> virtual_end_address f"
    using assms(1,2) by (cases ps; auto simp: covers_def)+
  then show ?thesis
    using file_end_unat [OF assms(3)] by (auto simp: file_range_def recorded_range_def word_le_nat_alt)
qed

lemma covers_memory_range:
  assumes "proper_header m p" "virtual_end_address f = file_end m p" "p_filesz m p < p_memsz m p"
  shows "\<not> memory_range m p \<subseteq> recorded_range f"
proof -
  have "unat (p_vaddr m p) + unat (p_filesz m p) \<in> memory_range m p"
    using assms(3) by (simp add: memory_range_def word_less_nat_alt)
  moreover have "unat (p_vaddr m p) + unat (p_filesz m p) \<notin> recorded_range f"
    using file_end_unat [OF assms(1)] assms(2) by (simp add: recorded_range_def)
  ultimately show ?thesis by blast
qed

section \<open>Properties\<close>

text \<open>The test that decides between an ELF program and a flat binary.\<close>

definition valid_image :: "memory \<Rightarrow> addr \<Rightarrow> bool" where
  "valid_image m h \<longleftrightarrow> mem_bytes m h 4 = [0x7F, 0x45, 0x4C, 0x46] \<and> m (h + 4) \<in> {0, 1} \<and>
     m (h + 5) \<in> {0, 1} \<and> load32 m (h + 28) \<noteq> 0"

lemma elf_validate_loaded_iff:
  "elf_validate_loaded m h = (if valid_image m h then 0 else - INVALID_FORMAT_ERROR)"
  by (simp add: elf_validate_loaded_def valid_image_def elf_valid_signature_def elf_signature_def
      elf_valid_class_def elf_valid_encoding_def elf_has_program_header_def e_ident_def e_phoff_def)

text \<open>
  C32. \<open>elf_process_loaded\<close> refuses an image without the signature, class, encoding or program
  header table with \<open>-INVALID_FORMAT_ERROR\<close> and leaves the file record alone; for a valid image
  whose loadable segments do not start at virtual address 0 it returns 0 and records the smallest
  range of addresses that contains what the file has of every loadable segment, with the physical
  bounds of segments that attain it. That is not what the segments occupy: the code adds
  \<open>p_filesz\<close> where a segment ends after \<open>p_memsz\<close> bytes, so a segment at the end of the range that
  has more memory than file sticks out of it.
\<close>

theorem elf_process_loaded_range:
  assumes "virtual_base_address f = 0" "virtual_end_address f = 0"
    "\<And>p. p \<in> set (loads m (elf_mem f) [0..<unat (e_phnum m (elf_mem f))]) \<Longrightarrow> p_vaddr m p \<noteq> 0"
  shows "if valid_image m (elf_mem f)
    then \<exists>f'. elf_process_loaded m f = (0, f') \<and> elf_mem f' = elf_mem f \<and>
      covers m (loads m (elf_mem f) [0..<unat (e_phnum m (elf_mem f))]) f' \<and>
      (\<forall>p \<in> set (loads m (elf_mem f) [0..<unat (e_phnum m (elf_mem f))]). proper_header m p \<longrightarrow>
         file_range m p \<subseteq> recorded_range f' \<and>
         (virtual_end_address f' = file_end m p \<longrightarrow> p_filesz m p < p_memsz m p \<longrightarrow>
           \<not> memory_range m p \<subseteq> recorded_range f'))
    else elf_process_loaded m f = (- INVALID_FORMAT_ERROR, f)"
proof (cases "valid_image m (elf_mem f)")
  case True
  let ?ls = "loads m (elf_mem f) [0..<unat (e_phnum m (elf_mem f))]"
  have "covers m [] f" using assms(1,2) by (simp add: covers_def)
  then obtain f' where f': "elf_process_pheaders_loop m (elf_mem f) [0..<unat (e_phnum m (elf_mem f))] 0 f = (0, f')"
      "covers m ?ls f'" "elf_mem f' = elf_mem f"
    using elf_process_pheaders_loop_covers [of m "[]" f "elf_mem f" "[0..<unat (e_phnum m (elf_mem f))]"] assms(3) by auto
  have "elf_process_loaded m f = (0, f')"
    using f'(1) True elf_validate_loaded_iff [of m "elf_mem f"]
    by (simp add: elf_process_loaded_def elf_process_pheaders_def elf_header_def)
  moreover have "file_range m p \<subseteq> recorded_range f' \<and>
      (virtual_end_address f' = file_end m p \<longrightarrow> p_filesz m p < p_memsz m p \<longrightarrow> \<not> memory_range m p \<subseteq> recorded_range f')"
    if "p \<in> set ?ls" "proper_header m p" for p
    using covers_file_range [OF f'(2) that] covers_memory_range [OF that(2)] by blast
  ultimately show ?thesis using True f'(2,3) by auto
qed (use elf_validate_loaded_iff [of m "elf_mem f"] in \<open>simp add: elf_process_loaded_def elf_header_def\<close>)

text \<open>An image at \<open>0x2000\<close> with two loadable segments, the last one with more memory than file.\<close>

definition demo_elf :: memory where
  "demo_elf = write_bytes 0x2000
    ([0x7F, 0x45, 0x4C, 0x46, 1, 1] @ replicate 10 0 @ [2, 0, 3, 0, 1, 0, 0, 0, 0, 0, 0x40, 0] @
     [52, 0, 0, 0] @ replicate 12 0 @ [2, 0] @ replicate 6 0 @
     [1, 0, 0, 0, 0, 0x10, 0, 0, 0, 0x10, 0x40, 0, 0, 0, 0, 0, 0x20, 0, 0, 0, 0x30, 0, 0, 0] @ replicate 8 0 @
     [1, 0, 0, 0, 0, 0x02, 0, 0, 0, 0, 0x40, 0, 0, 0, 0, 0, 0x10, 0, 0, 0, 0x10, 0, 0, 0] @ replicate 8 0) (\<lambda>_. 0)"

definition demo_file :: elf_file where
  "demo_file = \<lparr>elf_filename = [], in_memory_size = 0, elf_mem = 0x2000, virtual_base_address = 0,
     virtual_end_address = 0, physical_base_address = 0, physical_end_address = 0\<rparr>"

lemmas demo_elf_eval = demo_elf_def write_bytes_def nth_append nth_Cons' load16_def load32_def

lemma demo_elf_header:
  "e_phnum demo_elf 0x2000 = 2" "e_phoff demo_elf 0x2000 = 52" "valid_image demo_elf 0x2000"
  by (simp_all add: e_phnum_def e_phoff_def valid_image_def mem_bytes_def upt_rec demo_elf_eval)

lemma demo_elf_segments:
  "p_type demo_elf 0x2034 = 1" "p_vaddr demo_elf 0x2034 = 0x401000" "p_filesz demo_elf 0x2034 = 0x20"
  "p_offset demo_elf 0x2034 = 0x1000" "p_memsz demo_elf 0x2034 = 0x30"
  "p_type demo_elf 0x2054 = 1" "p_vaddr demo_elf 0x2054 = 0x400000" "p_filesz demo_elf 0x2054 = 0x10"
  "p_offset demo_elf 0x2054 = 0x200" "p_memsz demo_elf 0x2054 = 0x10"
  by (simp_all add: p_type_def p_vaddr_def p_filesz_def p_memsz_def p_offset_def demo_elf_eval)

theorem elf_process_loaded_range_witness:
  "\<exists>f'. elf_process_loaded demo_elf demo_file = (0, f') \<and> virtual_base_address f' = 0x400000 \<and>
     physical_base_address f' = 0x2200 \<and> virtual_end_address f' = 0x401020 \<and>
     \<not> memory_range demo_elf 0x2034 \<subseteq> recorded_range f'"
proof -
  have ld: "loads demo_elf 0x2000 [0..<2] = [0x2034, 0x2054]"
    by (simp add: loads_def elf_program_header_def elf_pheader_def demo_elf_header demo_elf_segments upt_rec)
  have "\<And>p. p \<in> set (loads demo_elf 0x2000 [0..<2]) \<Longrightarrow> p_vaddr demo_elf p \<noteq> 0"
    by (auto simp: ld demo_elf_segments)
  then obtain f' where "elf_process_loaded demo_elf demo_file = (0, f')" "elf_mem f' = 0x2000"
      "covers demo_elf [0x2034, 0x2054] f'"
      "virtual_end_address f' = file_end demo_elf 0x2034 \<longrightarrow> \<not> memory_range demo_elf 0x2034 \<subseteq> recorded_range f'"
    using elf_process_loaded_range [of demo_file demo_elf] demo_elf_header ld
    by (auto simp: demo_file_def proper_header_def demo_elf_segments simp del: upt_conv_Cons)
  then show ?thesis
    by (auto simp: covers_def file_end_def demo_elf_segments)
qed

end
