(* ===== verification/Access.thy ===== *)
theory Access
  imports Paging
begin

text \<open>
  What the processor checks when it walks the tables of \<^verbatim>\<open>src/src/memory/paging/paging.c\<close>: an access
  goes through only if the directory entry and the table entry both grant it. The kernel runs
  with all rights but the one on presence (write protection of the supervisor is off: the
  assembly of \<open>enable_paging\<close> sets one bit of \<open>cr0\<close>), a program also needs the user bit; every
  other access is a page fault. The lemmas say which pages of an address space grant what
  after mapping and after building a directory.
\<close>

section \<open>The check\<close>

definition page_grants :: "u32 \<Rightarrow> addr \<Rightarrow> addr \<Rightarrow> memory \<Rightarrow> bool" where
  "page_grants flags directory v m \<longleftrightarrow>
     load32 m (directory + 4 * (v div (1024 * PAGING_PAGE_SIZE))) AND flags = flags \<and>
     paging_get directory (paging_align_to_lower_page v) m AND flags = flags"

text \<open>An access of the kernel, and a read of a program.\<close>

abbreviation kernel_access :: "addr \<Rightarrow> addr \<Rightarrow> memory \<Rightarrow> bool" where
  "kernel_access \<equiv> page_grants PAGING_IS_PRESENT"

abbreviation user_access :: "addr \<Rightarrow> addr \<Rightarrow> memory \<Rightarrow> bool" where
  "user_access \<equiv> page_grants (PAGING_IS_PRESENT OR PAGING_ACCESS_FROM_ALL)"

text \<open>A directory whose entries all grant \<open>flags\<close>, and an address space that grants them everywhere.\<close>

definition directory_grants :: "u32 \<Rightarrow> addr \<Rightarrow> memory \<Rightarrow> bool" where
  "directory_grants flags chunk m \<longleftrightarrow> (\<forall>i < 1024. load32 m (slot (load32 m chunk) i) AND flags = flags)"

definition space_grants :: "u32 \<Rightarrow> addr \<Rightarrow> memory \<Rightarrow> bool" where
  "space_grants flags chunk m \<longleftrightarrow> directory_grants flags chunk m \<and> (\<forall>v. page_grants flags (load32 m chunk) v m)"

section \<open>Entries\<close>

lemma mask_flags:
  assumes "page_aligned p" "fl < 4096"
  shows "(p OR f) AND fl = f AND (fl :: u32)"
  by (rule bit_word_eqI)
     (use assms small_flags_bit [OF assms(2)] in \<open>auto simp: page_aligned_bit bit_simps\<close>)

lemma page_grants_iff:
  "page_grants fl dir v m \<longleftrightarrow> load32 m (slot dir (dir_index v)) AND fl = fl \<and>
     load32 m (entry_slot m dir (paging_align_to_lower_page v)) AND fl = fl"
proof -
  have "v div 0x400000 = of_nat (dir_index v)"
    using index_bounds [of v] by (simp add: word_unat_eq_iff unat_div_distrib dir_index_def unat_of_nat take_bit_nat_eq_self)
  then show ?thesis by (simp add: page_grants_def paging_get_aligned slot_of_nat)
qed

lemma page_grants_mono: "page_grants fl dir v m \<Longrightarrow> fl AND g = g \<Longrightarrow> page_grants g dir v m"
  unfolding page_grants_iff by (metis and.assoc)

lemma space_grants_mono: "space_grants fl c m \<Longrightarrow> fl AND g = g \<Longrightarrow> space_grants g c m"
  unfolding space_grants_def directory_grants_def by (metis and.assoc page_grants_mono)

lemma space_grantsD:
  "space_grants fl c m \<Longrightarrow> directory_grants fl c m" "space_grants fl c m \<Longrightarrow> page_grants fl (load32 m c) v m"
  by (simp_all add: space_grants_def)

text \<open>What an address space grants depends on its own pages only.\<close>

lemma grants_cong:
  assumes "wf_chunk chunk m" "\<And>a. page_of a \<in> chunk_pages chunk m \<Longrightarrow> m' a = m a"
  shows "page_grants fl (load32 m' chunk) v m' = page_grants fl (load32 m chunk) v m"
    "directory_grants fl chunk m' = directory_grants fl chunk m" "space_grants fl chunk m' = space_grants fl chunk m"
proof -
  let ?d = "load32 m chunk"
  have d: "load32 m' chunk = ?d" "page_aligned ?d"
    using chunk_cong(2) [OF assms] assms(1) by (auto simp: wf_chunk_def wf_dir_def)
  have e: "load32 m' (slot ?d i) = load32 m (slot ?d i)" if "i < 1024" for i
    using load32_same_page [OF d(2) that, of m' m] assms(2) by (simp add: chunk_pages_def)
  have t: "load32 m' (entry_slot m' ?d w) = load32 m (entry_slot m ?d w)" for w
  proof -
    have "entry_slot m' ?d w = entry_slot m ?d w" using e [OF index_bounds(1)] by (simp add: entry_slot_def table_of_def)
    moreover have "load32 m' (entry_slot m ?d w) = load32 m (entry_slot m ?d w)"
      unfolding entry_slot_def using index_bounds [of w]
      by (intro load32_same_page assms(2)) (auto simp: chunk_pages_def table_pages_def)
    ultimately show ?thesis by simp
  qed
  show p: "page_grants fl (load32 m' chunk) v m' = page_grants fl (load32 m chunk) v m" for v
    using e [OF index_bounds(1)] t by (simp add: page_grants_iff d(1))
  show "directory_grants fl chunk m' = directory_grants fl chunk m" using e by (simp add: directory_grants_def d(1))
  then show "space_grants fl chunk m' = space_grants fl chunk m" using p by (simp add: space_grants_def)
qed

section \<open>Mapping\<close>

lemma paging_map_grants:
  fixes f :: u32
  assumes "wf_chunk c m" "page_aligned p" "page_aligned q" "fl < 4096"
  defines "m' \<equiv> snd (paging_map c p q f m)"
  shows "directory_grants fl c m' = directory_grants fl c m"
    and "page_grants fl (load32 m' c) v m' \<longleftrightarrow>
      (if page_of v = page_of p then load32 m (slot (load32 m c) (dir_index v)) AND fl = fl \<and> f AND fl = fl
       else page_grants fl (load32 m c) v m)"
proof -
  let ?d = "load32 m c" and ?l = "paging_align_to_lower_page v"
  have m': "m' = store32 m (entry_slot m ?d p) (q OR f)"
    using paging_map_aligned [OF assms(2,3), of c f m] by (simp add: m'_def)
  have d: "load32 m' c = ?d" "page_aligned ?d" "table_of m ?d (dir_index p) \<noteq> ?d"
    using load32_chunk_store_entry [OF assms(1)] assms(1) index_bounds [of p] by (auto simp: m' wf_chunk_def wf_dir_def)
  have e: "load32 m' (slot ?d i) = load32 m (slot ?d i)" if "i < 1024" for i
    using that d(2,3) index_bounds [of p] by (simp add: m' entry_slot_def load32_store32_slot)
  show "directory_grants fl c m' = directory_grants fl c m" using e by (simp add: directory_grants_def d(1))
  have "page_of ?l = page_of v" using in_page_iff [OF paging_align_to_lower_page_aligned, of v v] lower_page_rest [of v] by simp
  then have same: "?l = p \<longleftrightarrow> page_of v = page_of p" using page_of_inject [of ?l p] assms(2) by simp
  have "load32 m' (entry_slot m' ?d ?l) = (if ?l = p then q OR f else load32 m (entry_slot m ?d ?l))"
    using pm.map_lookup [OF assms(1-3) paging_align_to_lower_page_aligned, of f v] d(1)
    by (simp add: paging_get_aligned m'_def)
  then show "page_grants fl (load32 m' c) v m' \<longleftrightarrow>
      (if page_of v = page_of p then load32 m (slot (load32 m c) (dir_index v)) AND fl = fl \<and> f AND fl = fl
       else page_grants fl (load32 m c) v m)"
    using e [OF index_bounds(1), of v] mask_flags [OF assms(3,4)] same by (simp add: page_grants_iff d(1))
qed

text \<open>Mapping with enough rights never takes a right away.\<close>

lemma paging_map_keeps_grants:
  assumes "wf_chunk c m" "space_grants fl c m" "fl < 4096" "f AND fl = fl"
  shows "space_grants fl c (snd (paging_map c p q f m))"
proof (cases "page_aligned p \<and> page_aligned q")
  case True
  then show ?thesis
    using paging_map_grants [OF assms(1) _ _ assms(3), of p q f] assms(2,4) index_bounds
    by (auto simp: space_grants_def directory_grants_def)
qed (use assms(2) paging_map_unaligned in auto)

lemma paging_map_loop_keeps_grants:
  assumes "wf_chunk c m" "space_grants fl c m" "fl < 4096" "f AND fl = fl"
  shows "space_grants fl c (snd (paging_map_loop n c p q f r m))"
  using assms(1,2)
proof (induction n arbitrary: p q r m)
  case (Suc n)
  have "wf_chunk c (snd (paging_map c p q f m))" by (rule pm.map_inv [OF Suc.prems(1)])
  moreover have "space_grants fl c (snd (paging_map c p q f m))"
    by (rule paging_map_keeps_grants [OF Suc.prems assms(3,4)])
  ultimately show ?case using Suc.IH by (simp add: split_beta)
qed simp

lemma paging_map_to_keeps_grants:
  assumes "wf_chunk c m" "space_grants fl c m" "fl < 4096" "f AND fl = fl"
  shows "space_grants fl c (snd (paging_map_to c p q e f m))"
  using paging_map_loop_keeps_grants [OF assms] assms(2) by (simp add: paging_map_to_def paging_map_range_def Let_def)

section \<open>A new directory\<close>

lemma fresh_chunk_grants:
  assumes "fresh_chunk (ucast (flags :: byte)) s chunk d tbl s'" "ucast flags AND fl = fl" "fl < 4096"
  shows "space_grants fl chunk (mem s')"
proof -
  have d: "load32 (mem s') chunk = d" using assms(1) by (simp add: fresh_chunk_def)
  have e: "load32 (mem s') (slot d i) AND fl = fl" if "i < 1024" for i
  proof -
    have "load32 (mem s') (slot d i) AND fl = (tbl i OR (ucast flags OR 2)) AND fl" "page_aligned (tbl i)"
      using assms(1) that by (auto simp: fresh_chunk_def or.assoc)
    then have "load32 (mem s') (slot d i) AND fl = (ucast flags OR 2) AND fl" using mask_flags assms(3) by simp
    also have "\<dots> = fl"
    proof (rule bit_word_eqI)
      fix n have "bit (ucast flags AND fl) n = bit fl n" by (simp only: assms(2))
      then show "bit ((ucast flags OR 2) AND fl) n = bit fl n" by (auto simp: bit_and_iff bit_or_iff)
    qed
    finally show ?thesis .
  qed
  have "load32 (mem s') (entry_slot (mem s') d w) AND fl = fl" if "page_aligned w" for w
    using fresh_chunk_get [OF assms(1) that] mask_flags [OF that assms(3), of "ucast flags"] assms(2) that
    by (simp add: paging_get_aligned)
  then show ?thesis
    using e index_bounds by (simp add: space_grants_def directory_grants_def page_grants_iff d)
qed

end
