(* ===== verification/Task.thy ===== *)
theory Task
  imports File Elf Access
begin

text \<open>
  Tasks, \<^verbatim>\<open>src/src/task/task.c\<close> and \<^verbatim>\<open>task.h\<close>, with the data of a process from
  \<^verbatim>\<open>src/src/task/process.h\<close>. Task and process objects live in the stores \<open>tasks\<close> and
  \<open>processes\<close>, keyed by the addresses of the kernel heap; the scheduler's list runs through the
  fields \<open>next\<close> and \<open>prev\<close> of the tasks. Entering user mode (\<open>task_return\<close>, assembly) does not
  come back to the caller; the model returns the registers it is given. While the address
  space of a task is active, memory is accessed through its page tables
  (\<open>paging_get_physical_address\<close>), and an access to a page that is not present is a page fault,
  the outcome \<open>None\<close> like any other fault of the kernel.

  The theorems: a well formed list is walked round robin and every task gets its turn, creating
  a task appends it with an address space that maps every page to itself, and removing a task
  takes it out of the forward list but leaves the back pointer of its successor dangling, so
  that removing the successor next is a use after free.
\<close>

section \<open>Definitions\<close>

definition PROCESS_FILETYPE_ELF :: byte where [simp]: "PROCESS_FILETYPE_ELF = 0"
definition PROCESS_FILETYPE_BINARY :: byte where [simp]: "PROCESS_FILETYPE_BINARY = 1"
definition USER_DATA_SEGMENT :: u32 where [simp]: "USER_DATA_SEGMENT = 0x23"
definition USER_CODE_SEGMENT :: u32 where [simp]: "USER_CODE_SEGMENT = 0x1b"
definition OS_USER_PROGRAM_VIRTUAL_STACK_ADDRESS_START :: addr where
  [simp]: "OS_USER_PROGRAM_VIRTUAL_STACK_ADDRESS_START = 0x3FF000"

record registers =
  edi :: u32
  esi :: u32
  ebp :: u32
  ebx :: u32
  edx :: u32
  ecx :: u32
  eax :: u32
  ip :: u32
  cs_reg :: u32
  eflags :: u32
  esp :: u32
  ss_reg :: u32

record interrupt_frame =
  f_edi :: u32
  f_esi :: u32
  f_ebp :: u32
  f_reserved :: u32
  f_ebx :: u32
  f_edx :: u32
  f_ecx :: u32
  f_eax :: u32
  f_ip :: u32
  f_cs :: u32
  f_flags :: u32
  f_esp :: u32
  f_ss :: u32

record task =
  page_directory :: addr
  registers :: registers
  task_process :: addr
  task_next_link :: addr
  task_prev_link :: addr

record process_allocation =
  alloc_ptr :: addr
  alloc_size :: u32

record keyboard_buffer =
  kbuffer :: "byte list"
  ktail :: int
  khead :: int

record process =
  process_id :: u16
  process_filename :: "byte list"
  process_task :: addr
  allocations :: "process_allocation list"
  filetype :: byte
  process_ptr :: addr
  stack :: addr
  process_size :: u32
  keyboard :: keyboard_buffer
  argc :: int
  argv :: addr

text \<open>The address of a string constant of the kernel's image is \<open>literal_addr\<close> of its characters.\<close>

record procs = files +
  elf_files :: "addr \<rightharpoonup> elf_file"
  tasks :: "addr \<rightharpoonup> task"
  processes :: "addr \<rightharpoonup> process"
  current_task :: addr
  task_head :: addr
  task_tail :: addr
  current_process :: addr
  process_table :: "addr list"
  kernel_chunk :: addr
  literal_addr :: "byte list \<Rightarrow> addr"

definition zero_registers :: registers where
  "zero_registers = \<lparr>edi = 0, esi = 0, ebp = 0, ebx = 0, edx = 0, ecx = 0, eax = 0, ip = 0,
     cs_reg = 0, eflags = 0, esp = 0, ss_reg = 0\<rparr>"

definition zero_task :: task where
  "zero_task = \<lparr>page_directory = 0, registers = zero_registers, task_process = 0,
     task_next_link = 0, task_prev_link = 0\<rparr>"

text \<open>\<open>kernel_page\<close> of \<^verbatim>\<open>kernel.c\<close>; the segment registers are not part of the model.\<close>

definition kernel_page :: "'a procs_scheme \<Rightarrow> 'a procs_scheme" where
  "kernel_page s = paging_switch (kernel_chunk s) s"

definition task_current :: "'a procs_scheme \<Rightarrow> addr" where
  "task_current s = current_task s"

definition task_get_next :: "'a procs_scheme \<Rightarrow> addr option" where
  "task_get_next s = do {
     t \<leftarrow> tasks s (current_task s);
     Some (if task_next_link t = 0 then task_head s else task_next_link t)
   }"

definition task_list_remove :: "addr \<Rightarrow> 'a procs_scheme \<Rightarrow> 'a procs_scheme option" where
  "task_list_remove t s = do {
     tk \<leftarrow> tasks s t;
     s \<leftarrow> (if task_prev_link tk \<noteq> 0 then do {
               p \<leftarrow> tasks s (task_prev_link tk);
               Some (s\<lparr>tasks := (tasks s)(task_prev_link tk \<mapsto> p\<lparr>task_next_link := task_next_link tk\<rparr>)\<rparr>)
             } else Some s);
     let s = (if t = task_head s then s\<lparr>task_head := task_next_link tk\<rparr> else s);
     let s = (if t = task_tail s then s\<lparr>task_tail := task_prev_link tk\<rparr> else s);
     if t = current_task s then do {
       next_task \<leftarrow> task_get_next s;
       Some (s\<lparr>current_task := next_task\<rparr>)
     } else Some s
   }"

text \<open>\<open>paging_free_4gb\<close> dereferences the directory; a task that has none yet cannot be freed.\<close>

definition task_free :: "addr \<Rightarrow> 'a procs_scheme \<Rightarrow> (int \<times> 'a procs_scheme) option" where
  "task_free t s = do {
     tk \<leftarrow> tasks s t;
     s \<leftarrow> (if page_directory tk = 0 then None else Some (paging_free_4gb (page_directory tk) s));
     s \<leftarrow> task_list_remove t s;
     let s = kernel_free t s;
     Some (0, s\<lparr>tasks := (tasks s)(t := None)\<rparr>)
   }"

definition task_init :: "addr \<Rightarrow> addr \<Rightarrow> 'a procs_scheme \<Rightarrow> (int \<times> 'a procs_scheme) option" where
  "task_init t proc s = do {
     let s = s\<lparr>tasks := (tasks s)(t \<mapsto> zero_task)\<rparr>;
     (dir, s) \<leftarrow> paging_new_4gb (0x01 OR 0x04) s;
     if dir = 0 then Some (- IO_ERROR, s)
     else do {
       p \<leftarrow> processes s proc;
       entry \<leftarrow> (if filetype p = PROCESS_FILETYPE_ELF
                  then do { f \<leftarrow> elf_files s (process_ptr p); Some (e_entry (mem s) (elf_header f)) }
                  else Some OS_PROGRAM_VIRTUAL_ADDRESS);
       Some (0, s\<lparr>tasks := (tasks s)(t \<mapsto> zero_task\<lparr>page_directory := dir, task_process := proc,
         registers := zero_registers\<lparr>ip := entry, ss_reg := USER_DATA_SEGMENT,
           cs_reg := USER_CODE_SEGMENT,
           esp := OS_USER_PROGRAM_VIRTUAL_STACK_ADDRESS_START\<rparr>\<rparr>)\<rparr>)
     }
   }"

text \<open>An error is returned as a negative pointer, as the macro \<open>ERROR\<close> does.\<close>

definition task_new :: "addr \<Rightarrow> 'a procs_scheme \<Rightarrow> (addr \<times> 'a procs_scheme) option" where
  "task_new proc s = do {
     (t, s) \<leftarrow> kernel_zalloc 64 s;
     if t = 0 then do { (r, s) \<leftarrow> task_free t s; Some (word_of_int (- NO_MEMORY_ERROR), s) }
     else do {
       (res, s) \<leftarrow> task_init t proc s;
       if res \<noteq> ALL_OK then do { (r, s) \<leftarrow> task_free t s; Some (word_of_int res, s) }
       else if task_head s = 0
       then Some (t, s\<lparr>task_head := t, task_tail := t, current_task := t\<rparr>)
       else do {
         last \<leftarrow> tasks s (task_tail s);
         let s = s\<lparr>tasks := (tasks s)(task_tail s \<mapsto> last\<lparr>task_next_link := t\<rparr>)\<rparr>;
         tk \<leftarrow> tasks s t;
         let s = s\<lparr>tasks := (tasks s)(t \<mapsto> tk\<lparr>task_prev_link := task_tail s\<rparr>)\<rparr>;
         Some (t, s\<lparr>task_tail := t\<rparr>)
       }
     }
   }"

definition task_switch :: "addr \<Rightarrow> 'a procs_scheme \<Rightarrow> (int \<times> 'a procs_scheme) option" where
  "task_switch t s = do {
     let s = s\<lparr>current_task := t\<rparr>;
     tk \<leftarrow> tasks s t;
     Some (0, paging_switch (page_directory tk) s)
   }"

text \<open>
  \<open>strncpy\<close> while the directory \<open>dir\<close> translates every access; each character is read and each byte
  written only if its page is present.
\<close>

function strncpy_paged :: "addr \<Rightarrow> addr \<Rightarrow> addr \<Rightarrow> int \<Rightarrow> nat \<Rightarrow> memory \<Rightarrow> memory option" where
  "strncpy_paged dir dest src count i m =
     (let phys = (\<lambda>a. paging_get_physical_address dir a m)
      in if int i < count - 1 \<and> \<not> kernel_access dir (src + of_nat i) m then None
         else if \<not> kernel_access dir (dest + of_nat i) m then None
         else if int i < count - 1 \<and> m (phys (src + of_nat i)) \<noteq> 0
         then strncpy_paged dir dest src count (Suc i)
                (m(phys (dest + of_nat i) := m (phys (src + of_nat i))))
         else Some (m(phys (dest + of_nat i) := 0)))"
  by pat_completeness auto
termination
  by (relation "measure (\<lambda>(dir, dest, src, count, i, m). nat (count - 1 - int i))") auto

declare strncpy_paged.simps [simp del]

definition copy_string_from_task ::
    "addr \<Rightarrow> addr \<Rightarrow> addr \<Rightarrow> int \<Rightarrow> 'a procs_scheme \<Rightarrow> (int \<times> 'a procs_scheme) option" where
  "copy_string_from_task t virtual_address physical_address max_len s =
     (if max_len \<ge> int (unat PAGING_PAGE_SIZE) then Some (- INVALID_ARGUMENT_ERROR, s)
      else do {
        (tmp, s) \<leftarrow> kernel_zalloc (word_of_int max_len) s;
        if tmp = 0 then Some (- NO_MEMORY_ERROR, s)
        else do {
          tk \<leftarrow> tasks s t;
          let task_directory = load32 (mem s) (page_directory tk);
          let old_entry = paging_get task_directory tmp (mem s);
          let s = s\<lparr>mem := snd (paging_map (page_directory tk) tmp tmp
                              (PAGING_IS_WRITEABLE OR PAGING_IS_PRESENT OR PAGING_ACCESS_FROM_ALL)
                              (mem s))\<rparr>;
          let s = paging_switch (page_directory tk) s;
          m \<leftarrow> strncpy_paged (cr3 s) tmp virtual_address max_len 0 (mem s);
          let s = kernel_page (s\<lparr>mem := m\<rparr>);
          let (res, m) = paging_set_physical_address task_directory tmp old_entry (mem s);
          let s = s\<lparr>mem := m\<rparr>;
          if res < 0 then Some (- IO_ERROR, kernel_free tmp s)
          else Some (res, kernel_free tmp (s\<lparr>mem := strncpy physical_address tmp max_len (mem s)\<rparr>))
        }
      })"

definition task_page :: "'a procs_scheme \<Rightarrow> (int \<times> 'a procs_scheme) option" where
  "task_page s = do { (r, s) \<leftarrow> task_switch (current_task s) s; Some (0, s) }"

definition task_page_task :: "addr \<Rightarrow> 'a procs_scheme \<Rightarrow> (int \<times> 'a procs_scheme) option" where
  "task_page_task t s = do { tk \<leftarrow> tasks s t; Some (0, paging_switch (page_directory tk) s) }"

definition task_run_first_ever_task :: "'a procs_scheme \<Rightarrow> (registers \<times> 'a procs_scheme) option" where
  "task_run_first_ever_task s =
     (if current_task s = 0 then None
      else do {
        (r, s) \<leftarrow> task_switch (task_head s) s;
        tk \<leftarrow> tasks s (task_head s);
        Some (registers tk, s)
      })"

definition task_save_state :: "addr \<Rightarrow> interrupt_frame \<Rightarrow> 'a procs_scheme \<Rightarrow> 'a procs_scheme option" where
  "task_save_state t frame s = do {
     tk \<leftarrow> tasks s t;
     Some (s\<lparr>tasks := (tasks s)(t \<mapsto> tk\<lparr>registers := (registers tk)\<lparr>ip := f_ip frame,
       cs_reg := f_cs frame, eflags := f_flags frame, esp := f_esp frame, ss_reg := f_ss frame,
       eax := f_eax frame, ebp := f_ebp frame, ebx := f_ebx frame, ecx := f_ecx frame,
       edi := f_edi frame, edx := f_edx frame, esi := f_esi frame\<rparr>\<rparr>)\<rparr>)
   }"

definition task_current_save_state :: "interrupt_frame \<Rightarrow> 'a procs_scheme \<Rightarrow> 'a procs_scheme option" where
  "task_current_save_state frame s =
     (if task_current s = 0 then None else task_save_state (task_current s) frame s)"

text \<open>A word of the user's stack, read through the page tables of the task if its bytes are present.\<close>

definition word_access :: "addr \<Rightarrow> addr \<Rightarrow> memory \<Rightarrow> bool" where
  "word_access dir a m \<longleftrightarrow> list_all (\<lambda>k. kernel_access dir (a + of_nat k) m) [0..<4]"

definition task_get_stack_item :: "addr \<Rightarrow> int \<Rightarrow> 'a procs_scheme \<Rightarrow> (u32 \<times> 'a procs_scheme) option" where
  "task_get_stack_item t index s = do {
     tk \<leftarrow> tasks s t;
     let stack_pointer = esp (registers tk);
     (r, s) \<leftarrow> task_page_task t s;
     let item = stack_pointer + word_of_int (4 * index);
     if \<not> word_access (cr3 s) item (mem s) then None
     else
       let result = load32 (\<lambda>a. mem s (paging_get_physical_address (cr3 s) a (mem s))) item
       in Some (result, kernel_page s)
   }"

definition task_virtual_address_to_physical :: "addr \<Rightarrow> addr \<Rightarrow> 'a procs_scheme \<Rightarrow> addr option" where
  "task_virtual_address_to_physical t virtual_address s = do {
     tk \<leftarrow> tasks s t;
     Some (paging_get_physical_address (load32 (mem s) (page_directory tk)) virtual_address (mem s))
   }"

definition task_next :: "'a procs_scheme \<Rightarrow> (registers \<times> 'a procs_scheme) option" where
  "task_next s = do {
     next_task \<leftarrow> task_get_next s;
     if next_task = 0 then None
     else do {
       (r, s) \<leftarrow> task_switch next_task s;
       tk \<leftarrow> tasks s next_task;
       Some (registers tk, s)
     }
   }"

section \<open>Specification of the task list\<close>

text \<open>A segment of the forward list from \<open>p\<close> up to \<open>q\<close>, and the back pointers.\<close>

fun seg :: "(addr \<rightharpoonup> task) \<Rightarrow> addr \<Rightarrow> addr list \<Rightarrow> addr \<Rightarrow> bool" where
  "seg tk p [] q \<longleftrightarrow> p = q"
| "seg tk p (t # ts) q \<longleftrightarrow>
     p = t \<and> t \<noteq> 0 \<and> (case tk t of None \<Rightarrow> False | Some r \<Rightarrow> seg tk (task_next_link r) ts q)"

fun back_links :: "(addr \<rightharpoonup> task) \<Rightarrow> addr \<Rightarrow> addr list \<Rightarrow> bool" where
  "back_links tk q [] \<longleftrightarrow> True"
| "back_links tk q (t # ts) \<longleftrightarrow>
     (case tk t of None \<Rightarrow> False | Some r \<Rightarrow> task_prev_link r = q \<and> back_links tk t ts)"

definition task_list :: "'a procs_scheme \<Rightarrow> addr list \<Rightarrow> bool" where
  "task_list s ts \<longleftrightarrow> seg (tasks s) (task_head s) ts 0 \<and> distinct ts \<and>
     task_tail s = (if ts = [] then 0 else last ts)"

definition wf_task_list :: "'a procs_scheme \<Rightarrow> addr list \<Rightarrow> bool" where
  "wf_task_list s ts \<longleftrightarrow> task_list s ts \<and> back_links (tasks s) 0 ts"

section \<open>Lists\<close>

lemma current_task_idem: "current_task s = t \<Longrightarrow> s\<lparr>current_task := t\<rparr> = (s :: 'a procs_scheme)"
  by (cases s) simp

lemma seg_append [simp]: "seg tk p (xs @ ys) q \<longleftrightarrow> (\<exists>r. seg tk p xs r \<and> seg tk r ys q)"
  by (induction xs arbitrary: p) (auto split: option.splits)

lemma seg_None: "t \<notin> set ts \<Longrightarrow> seg (tk(t := None)) p ts q \<longleftrightarrow> seg tk p ts q"
  by (induction ts arbitrary: p) (auto split: option.splits)

lemma seg_upd: "t \<notin> set ts \<Longrightarrow> seg (tk(t := r)) p ts q \<longleftrightarrow> seg tk p ts q"
  by (induction ts arbitrary: p) (auto split: option.splits)

lemma back_links_upd: "t \<notin> set ts \<Longrightarrow> back_links (tk(t := r)) q ts \<longleftrightarrow> back_links tk q ts"
  by (induction ts arbitrary: q) (auto split: option.splits)

lemma back_links_append:
  "back_links tk q (xs @ ys) \<longleftrightarrow>
     back_links tk q xs \<and> back_links tk (if xs = [] then q else last xs) ys"
  by (induction xs arbitrary: q) (auto split: option.splits)

lemma seg_not_null: "seg tk p ts q \<Longrightarrow> t \<in> set ts \<Longrightarrow> t \<noteq> 0 \<and> tk t \<noteq> None"
  by (induction ts arbitrary: p) (auto split: option.splits)

lemma seg_nth:
  assumes "seg tk p ts 0" "i < length ts"
  shows "\<exists>r. tk (ts ! i) = Some r \<and> ts ! i \<noteq> 0 \<and>
    task_next_link r = (if Suc i < length ts then ts ! Suc i else 0)"
  using assms
proof (induction ts arbitrary: p i)
  case (Cons t ts)
  then obtain r where r: "tk t = Some r" "t \<noteq> 0" "seg tk (task_next_link r) ts 0"
    by (auto split: option.splits)
  show ?case
  proof (cases i)
    case 0
    with r show ?thesis by (cases ts) auto
  next
    case (Suc j)
    with Cons.IH [OF r(3), of j] Cons.prems show ?thesis by auto
  qed
qed simp

lemma seg_head: "seg tk p ts 0 \<Longrightarrow> p = (if ts = [] then 0 else hd ts)"
  by (cases ts) auto

section \<open>Round robin\<close>

lemma task_get_next_cyclic:
  assumes "task_list s ts" "i < length ts" "current_task s = ts ! i"
  shows "task_get_next s = Some (ts ! (Suc i mod length ts))"
proof -
  obtain r where r: "tasks s (ts ! i) = Some r"
      "task_next_link r = (if Suc i < length ts then ts ! Suc i else 0)"
    using seg_nth [of "tasks s" "task_head s" ts i] assms by (auto simp: task_list_def)
  show ?thesis
  proof (cases "Suc i < length ts")
    case True
    then have "ts ! Suc i \<noteq> 0"
      using seg_nth [of "tasks s" "task_head s" ts "Suc i"] assms by (auto simp: task_list_def)
    with True r assms(3) show ?thesis by (simp add: task_get_next_def)
  next
    case False
    then have "Suc i = length ts" using assms(2) by simp
    moreover have "task_head s = ts ! 0"
      using assms seg_head [of "tasks s" "task_head s" ts] by (auto simp: task_list_def hd_conv_nth)
    ultimately show ?thesis using r assms(3) by (simp add: task_get_next_def)
  qed
qed

lemma task_next_step:
  assumes "task_list s ts" "i < length ts" "current_task s = ts ! i"
  obtains tk s' where "task_next s = Some (registers tk, s')" "tasks s (ts ! (Suc i mod length ts)) = Some tk"
    "current_task s' = ts ! (Suc i mod length ts)" "task_list s' ts" "tasks s' = tasks s" "mem s' = mem s"
    "cr3 s' = load32 (mem s) (page_directory tk)"
proof -
  let ?t = "ts ! (Suc i mod length ts)"
  have "Suc i mod length ts < length ts" using assms(2) by (intro mod_less_divisor) linarith
  then obtain tk where tk: "tasks s ?t = Some tk" "?t \<noteq> 0"
    using seg_nth [of "tasks s" "task_head s" ts "Suc i mod length ts"] assms(1) by (auto simp: task_list_def)
  define s' where "s' = paging_switch (page_directory tk) (s\<lparr>current_task := ?t\<rparr>)"
  have "task_next s = Some (registers tk, s')"
    using task_get_next_cyclic [OF assms] tk
    by (simp add: task_next_def task_switch_def s'_def paging_switch_def paging_load_directory_def)
  then show ?thesis
    using that tk assms(1)
    by (simp add: s'_def paging_switch_def paging_load_directory_def task_list_def)
qed

text \<open>The state after \<open>k\<close> timer interrupts that each pass the processor to the next task.\<close>

fun task_slices :: "nat \<Rightarrow> 'a procs_scheme \<Rightarrow> 'a procs_scheme option" where
  "task_slices 0 s = Some s"
| "task_slices (Suc k) s = do { (r, s) \<leftarrow> task_next s; task_slices k s }"

lemma task_slices_current:
  assumes "task_list s ts" "i < length ts" "current_task s = ts ! i"
  shows "\<exists>s'. task_slices k s = Some s' \<and> task_list s' ts \<and> current_task s' = ts ! ((i + k) mod length ts)"
  using assms
proof (induction k arbitrary: s i)
  case (Suc k)
  obtain tk :: task and s1 where s1: "task_next s = Some (registers tk, s1)"
      "current_task s1 = ts ! (Suc i mod length ts)" "task_list s1 ts"
    by (rule task_next_step [OF Suc.prems], rule that) assumption+
  have "Suc i mod length ts < length ts" using Suc.prems(2) by (intro mod_less_divisor) linarith
  with Suc.IH [OF s1(3) this s1(2)] s1(1) show ?case
    by (auto simp: mod_add_left_eq)
qed simp

section \<open>Removing a task\<close>

lemma task_list_remove_forward_list:
  assumes "wf_task_list s ts" "t \<in> set ts"
  shows "\<exists>s'. task_list_remove t s = Some s' \<and> task_list s' (remove1 t ts) \<and>
    dom (tasks s') = dom (tasks s) \<and>
    (current_task s \<noteq> t \<longrightarrow> current_task s' = current_task s)"
proof -
  obtain xs ys where ts: "ts = xs @ t # ys" using assms(2) by (auto simp: in_set_conv_decomp)
  have d: "t \<notin> set xs" "t \<notin> set ys" "distinct xs" "distinct ys" "set xs \<inter> set ys = {}"
    using assms(1) ts by (auto simp: wf_task_list_def task_list_def)
  then have rm: "remove1 t ts = xs @ ys" by (simp add: ts remove1_append)
  obtain r where r: "seg (tasks s) (task_head s) xs t" "t \<noteq> 0" "tasks s t = Some r"
      "seg (tasks s) (task_next_link r) ys 0" "task_prev_link r = (if xs = [] then 0 else last xs)"
      "task_tail s = (if ys = [] then t else last ys)"
    using assms(1) by (auto simp: ts wf_task_list_def task_list_def back_links_append split: option.splits if_splits)
  define u where "u = (if xs = [] then s else s\<lparr>tasks := (tasks s)(last xs \<mapsto>
    (the (tasks s (last xs)))\<lparr>task_next_link := task_next_link r\<rparr>)\<rparr>)"
  define v where "v = u\<lparr>task_head := (if xs = [] then task_next_link r else task_head s),
    task_tail := (if ys = [] then task_prev_link r else task_tail s)\<rparr>"
  have hd: "task_head s = t \<longleftrightarrow> xs = []" "t = task_head s \<longleftrightarrow> xs = []"
    using r(1) d(1) by (cases xs; auto)+
  have tl: "task_tail s = t \<longleftrightarrow> ys = []" "t = task_tail s \<longleftrightarrow> ys = []"
    using r(6) d(2) by (cases ys rule: rev_cases; auto)+
  have px: "xs \<noteq> [] \<Longrightarrow> last xs \<noteq> 0 \<and> tasks s (last xs) \<noteq> None \<and> last xs \<noteq> t"
    using seg_not_null [OF r(1), of "last xs"] d(1) by (metis last_in_set)
  have tv: "tasks v t = Some r"
    using px r(3) by (auto simp: v_def u_def)
  have eq: "task_list_remove t s = (if t = current_task s then
      do { n \<leftarrow> task_get_next v; Some (v\<lparr>current_task := n\<rparr>) } else Some v)"
  proof (cases "xs = []")
    case True
    then show ?thesis
      using r(3,5) hd tl by (cases "ys = []") (simp_all add: task_list_remove_def v_def u_def Let_def)
  next
    case False
    then obtain q where "tasks s (last xs) = Some q" "last xs \<noteq> 0" using px by blast
    then show ?thesis
      using False r(3,5) hd tl by (cases "ys = []") (simp_all add: task_list_remove_def v_def u_def Let_def)
  qed
  have "seg (tasks v) (task_head v) (xs @ ys) 0"
  proof (cases xs rule: rev_cases)
    case Nil
    then show ?thesis using r(4) by (simp add: v_def u_def)
  next
    case (snoc xs' p)
    have "p \<notin> set xs'" "p \<notin> set ys" using d snoc by auto
    moreover from snoc r(1) have "seg (tasks s) (task_head s) xs' p" by (auto split: option.splits)
    ultimately show ?thesis
      using r(4) snoc px by (auto simp: v_def u_def seg_upd)
  qed
  moreover have "task_tail v = (if xs @ ys = [] then 0 else last (xs @ ys))"
    using r(5,6) by (simp add: v_def)
  ultimately have tv': "task_list v (xs @ ys)"
    using d by (simp add: task_list_def)
  have dom: "dom (tasks v) = dom (tasks s)"
    using px by (auto simp: v_def u_def dom_def)
  have "\<exists>n. task_get_next v = Some n" if "t = current_task s"
  proof -
    have "current_task v = t" using that by (simp add: v_def u_def)
    then show ?thesis using tv by (simp add: task_get_next_def)
  qed
  moreover have "current_task v = current_task s" by (simp add: v_def u_def)
  moreover have "task_list (v\<lparr>current_task := n\<rparr>) (xs @ ys)" for n
    using tv' by (simp add: task_list_def)
  ultimately show ?thesis
    using eq tv' dom rm by auto
qed

section \<open>Creating a task\<close>

text \<open>The address a new task starts at.\<close>

definition entry_point :: "'a procs_scheme \<Rightarrow> process \<Rightarrow> addr" where
  "entry_point s p = (if filetype p = 0
     then (case elf_files s (process_ptr p) of None \<Rightarrow> 0 | Some f \<Rightarrow> e_entry (mem s) (elf_mem f))
     else 0x400000)"

text \<open>The header of the program is loaded and is not in free memory.\<close>

definition entry_loaded :: "'a procs_scheme \<Rightarrow> process \<Rightarrow> bool" where
  "entry_loaded s p \<longleftrightarrow> filetype p = 0 \<longrightarrow>
     (case elf_files s (process_ptr p) of None \<Rightarrow> False
      | Some f \<Rightarrow> \<forall>i < 4. page_of (elf_mem f + 24 + of_nat i) \<in> live_pages (kernel_heap s))"

lemma load32_live:
  assumes "\<forall>i < 4. page_of (a + of_nat i) \<in> live_pages h"
    "\<And>x. page_of x \<in> live_pages h \<Longrightarrow> m' x = m x"
  shows "load32 m' a = load32 m a"
  using assms(1)
  by (intro load32_cong assms(2)) (auto dest: spec [of _ 0] spec [of _ 1] spec [of _ 2] spec [of _ 3])

text \<open>Creating a task leaves the processes and the loaded files alone, and all memory in use.\<close>

definition task_frame :: "'a procs_scheme \<Rightarrow> 'a procs_scheme \<Rightarrow> bool" where
  "task_frame s s' \<longleftrightarrow> processes s' = processes s \<and> elf_files s' = elf_files s \<and> process_table s' = process_table s \<and>
     current_process s' = current_process s \<and> file_descriptors s' = file_descriptors s \<and>
     allocs (kernel_heap s) \<subseteq> allocs (kernel_heap s') \<and>
     (\<forall>a. page_of a \<in> live_pages (kernel_heap s) \<longrightarrow> mem s' a = mem s a)"

text \<open>A new address space: the identity, present and readable for programs, in memory that was free.\<close>

definition new_space :: "'a procs_scheme \<Rightarrow> task \<Rightarrow> 'a procs_scheme \<Rightarrow> bool" where
  "new_space s tk s' \<longleftrightarrow> wf_chunk (page_directory tk) (mem s') \<and>
     (\<forall>v. paging_get_physical_address (load32 (mem s') (page_directory tk)) v (mem s') = v) \<and>
     space_grants (PAGING_IS_PRESENT OR PAGING_ACCESS_FROM_ALL) (page_directory tk) (mem s') \<and>
     chunk_pages (page_directory tk) (mem s') \<inter> live_pages (kernel_heap s) = {} \<and>
     chunk_pages (page_directory tk) (mem s') \<subseteq> live_pages (kernel_heap s')"

lemma task_init_result:
  fixes s :: "'a procs_scheme"
  assumes "heap_inv (kernel_heap s)" "1026 \<le> free_blocks (kernel_heap s)" "processes s proc = Some p"
    "entry_loaded s p"
  obtains tk s' where "task_init t proc s = Some (0, s')" "tasks s' = (tasks s)(t \<mapsto> tk)"
    "task_next_link tk = 0" "task_prev_link tk = 0" "task_process tk = proc"
    "registers tk = zero_registers\<lparr>ip := entry_point s p, ss_reg := 0x23, cs_reg := 0x1B, esp := 0x3FF000\<rparr>"
    "new_space s tk s'" "task_frame s s'"
    "heap_inv (kernel_heap s')" "task_head s' = task_head s" "task_tail s' = task_tail s"
    "current_task s' = current_task s"
proof -
  let ?s = "s\<lparr>tasks := (tasks s)(t \<mapsto> zero_task)\<rparr>"
  obtain chunk d tbl s1 where new: "paging_new_4gb 5 ?s = Some (chunk, s1)"
      and fresh: "fresh_chunk (ucast (5 :: byte)) ?s chunk d tbl s1"
    by (rule paging_new_4gb_result [of ?s 5]) (use assms in auto)
  obtain m h where s1: "s1 = ?s\<lparr>mem := m, kernel_heap := h\<rparr>"
    using paging_new_4gb_shape [OF new] by blast
  have live: "mem s1 a = mem s a" if "page_of a \<in> live_pages (kernel_heap s)" for a
    using fresh that by (simp add: fresh_chunk_def)
  have "filetype p = 0 \<Longrightarrow> \<exists>f. elf_files s (process_ptr p) = Some f \<and>
      e_entry m (elf_mem f) = e_entry (mem s) (elf_mem f)"
    using assms(4) live load32_live [of _ "kernel_heap s" m "mem s"]
    by (auto simp: entry_loaded_def e_entry_def s1 split: option.splits)
  then have entry: "(if filetype p = 0
      then do { f \<leftarrow> elf_files s1 (process_ptr p); Some (e_entry (mem s1) (elf_header f)) }
      else Some 0x400000) = Some (entry_point s p)"
    by (auto simp: entry_point_def elf_header_def s1)
  define tk where "tk = zero_task\<lparr>page_directory := chunk, task_process := proc,
    registers := zero_registers\<lparr>ip := entry_point s p, ss_reg := 0x23, cs_reg := 0x1B, esp := 0x3FF000\<rparr>\<rparr>"
  define s2 where "s2 = s1\<lparr>tasks := (tasks s1)(t \<mapsto> tk)\<rparr>"
  have ld: "load32 (mem s1) chunk = d" "chunk \<noteq> 0" "heap_inv (kernel_heap s1)"
    using fresh by (auto simp: fresh_chunk_def)
  have "task_init t proc s = Some (0, s2)"
  proof (cases "filetype p = 0")
    case True
    then obtain f where "elf_files s (process_ptr p) = Some f" "e_entry m (elf_header f) = entry_point s p"
      using entry by (cases "elf_files s (process_ptr p)") (auto simp: s1)
    then show ?thesis
      using new assms(3) ld(2) True by (simp add: task_init_def s1 s2_def tk_def)
  next
    case False
    then have "entry_point s p = 0x400000" by (simp add: entry_point_def)
    then show ?thesis
      using new assms(3) ld(2) False by (simp add: task_init_def s1 s2_def tk_def)
  qed
  moreover have "space_grants (PAGING_IS_PRESENT OR PAGING_ACCESS_FROM_ALL) chunk (mem s1)"
    by (rule fresh_chunk_grants [OF fresh]) simp_all
  ultimately show ?thesis
    by (intro that [of s2 tk])
       (use fresh_chunk_wf [OF fresh] fresh_chunk_translate [OF fresh] fresh_chunk_pages [OF fresh] ld live in
         \<open>simp_all add: s2_def tk_def s1 zero_task_def new_space_def task_frame_def\<close>)
qed

section \<open>Properties\<close>

text \<open>
  Scheduling is round robin: from a list of tasks with the current task at position \<open>i\<close>, the
  \<open>k\<close>-th call of \<open>task_next\<close> enters the task at position \<open>(i + k) mod n\<close>; in particular every task
  of the list is entered within \<open>n\<close> calls.
\<close>

theorem task_next_round_robin:
  assumes "task_list s ts" "i < length ts" "current_task s = ts ! i"
  shows "(\<exists>s'. task_slices k s = Some s' \<and> current_task s' = ts ! ((i + k) mod length ts)) \<and>
    (\<forall>t \<in> set ts. \<exists>k \<le> length ts. \<exists>s'. task_slices k s = Some s' \<and> current_task s' = t)"
proof (intro conjI ballI)
  show "\<exists>s'. task_slices k s = Some s' \<and> current_task s' = ts ! ((i + k) mod length ts)"
    using task_slices_current [OF assms, of k] by blast
  fix t assume "t \<in> set ts"
  then obtain j where j: "j < length ts" "t = ts ! j" by (auto simp: in_set_conv_nth)
  let ?k = "if i \<le> j then j - i else j + length ts - i"
  have "i + ?k = (if i \<le> j then j else j + length ts)" using j assms(2) by simp
  then have "(i + ?k) mod length ts = j" using j(1) by simp
  moreover have "?k \<le> length ts" using j(1) assms(2) by (cases "i \<le> j") (simp_all, linarith?)
  moreover obtain s' where "task_slices ?k s = Some s'" "current_task s' = ts ! ((i + ?k) mod length ts)"
    using task_slices_current [OF assms, of ?k] by blast
  ultimately show "\<exists>k \<le> length ts. \<exists>s'. task_slices k s = Some s' \<and> current_task s' = t"
    by (intro exI [of _ ?k] conjI exI [of _ s']) (simp_all only: j(2))
qed

text \<open>
  \<open>task_next\<close> restores the registers of the next task, makes it the current one and
  loads its page directory; the list and the saved tasks are untouched.
\<close>

theorem task_next_switches:
  fixes s :: "'a procs_scheme"
  assumes "task_list s ts" "i < length ts" "current_task s = ts ! i"
  shows "\<exists>tk s'. tasks s (ts ! (Suc i mod length ts)) = Some tk \<and> task_next s = Some (registers tk, s') \<and>
    current_task s' = ts ! (Suc i mod length ts) \<and> cr3 s' = load32 (mem s) (page_directory tk) \<and>
    tasks s' = tasks s \<and> mem s' = mem s \<and> task_list s' ts"
proof -
  obtain tk :: task and s' where "task_next s = Some (registers tk, s')"
    "tasks s (ts ! (Suc i mod length ts)) = Some tk" "current_task s' = ts ! (Suc i mod length ts)"
    "task_list s' ts" "tasks s' = tasks s" "mem s' = mem s" "cr3 s' = load32 (mem s) (page_directory tk)"
    by (rule task_next_step [OF assms])
  then show ?thesis by blast
qed

text \<open>
  Removing a task of a well formed list succeeds and takes exactly it out of the forward
  list, with head and tail right; the current task changes only if it is the one removed.
\<close>

theorem task_list_remove_forward:
  assumes "wf_task_list s ts" "t \<in> set ts"
  shows "\<exists>s'. task_list_remove t s = Some s' \<and> task_list s' (remove1 t ts) \<and>
    dom (tasks s') = dom (tasks s) \<and> (current_task s \<noteq> t \<longrightarrow> current_task s' = current_task s)"
  using task_list_remove_forward_list [OF assms] .

text \<open>
  C33. The back pointer of the successor is not updated. Freeing the first task of a list succeeds and
  leaves the list of the others; freeing the second one, which is then the first, fails, and it
  fails at the freed task: whatever object \<open>r\<close> were still in its place, the second call would
  succeed and would have written into it.
\<close>

theorem task_free_twice_dangling:
  fixes s :: "'a procs_scheme"
  assumes "wf_task_list s (a # b # ts)" "tasks s a = Some ra" "page_directory ra \<noteq> 0"
    "tasks s b = Some rb" "page_directory rb \<noteq> 0"
  shows "\<exists>s'. task_free a s = Some (0, s') \<and> tasks s' = (tasks s)(a := None) \<and> task_list s' (b # ts) \<and>
    task_free b s' = None \<and>
    (\<forall>r. \<exists>s''. task_free b (s'\<lparr>tasks := (tasks s')(a \<mapsto> r)\<rparr>) = Some (0, s'') \<and>
       tasks s'' a = Some (r\<lparr>task_next_link := task_next_link rb\<rparr>))"
proof -
  have l: "task_prev_link ra = 0" "task_next_link ra = b" "task_prev_link rb = a" "a \<noteq> 0" "b \<noteq> 0" "a \<noteq> b"
      "task_head s = a" "task_tail s = last (b # ts)" "a \<notin> set ts" "seg (tasks s) b (b # ts) 0" "distinct (b # ts)"
    using assms by (auto simp: wf_task_list_def task_list_def split: option.splits if_splits)
  then have tl: "task_tail s \<noteq> a" using last_in_set [of "b # ts"] by auto
  obtain h where h: "paging_free_4gb (page_directory ra) s = s\<lparr>kernel_heap := h\<rparr>"
    using paging_free_4gb_shape by blast
  have "\<exists>c. task_list_remove a (s\<lparr>kernel_heap := h\<rparr>) = Some (s\<lparr>kernel_heap := h, task_head := b, current_task := c\<rparr>)"
  proof (cases "a = current_task s")
    case True
    then show ?thesis
      using assms(2) l tl by (intro exI [of _ b]) (simp add: task_list_remove_def task_get_next_def Let_def)
  next
    case False
    have "s\<lparr>kernel_heap := h, task_head := b, current_task := current_task s\<rparr> = s\<lparr>kernel_heap := h, task_head := b\<rparr>"
      by (rule current_task_idem) simp
    then show ?thesis
      using False assms(2) l tl by (intro exI [of _ "current_task s"]) (simp add: task_list_remove_def Let_def)
  qed
  then obtain c where rm: "task_list_remove a (s\<lparr>kernel_heap := h\<rparr>) =
      Some (s\<lparr>kernel_heap := h, task_head := b, current_task := c\<rparr>)" by blast
  define s' where "s' = (kernel_free a (s\<lparr>kernel_heap := h, task_head := b, current_task := c\<rparr>))\<lparr>tasks := (tasks s)(a := None)\<rparr>"
  have free: "task_free a s = Some (0, s')"
    using assms(2,3) h rm by (simp add: task_free_def s'_def kernel_free_def)
  have f': "tasks s' = (tasks s)(a := None)" "task_head s' = b" "task_tail s' = task_tail s"
    by (simp_all add: s'_def kernel_free_def)
  have "seg ((tasks s)(a := None)) b (b # ts) 0 = seg (tasks s) b (b # ts) 0"
    using l(6,9) by (intro seg_None) auto
  then have list: "task_list s' (b # ts)" using l by (simp add: task_list_def f')
  have shape: "\<exists>h. paging_free_4gb (page_directory rb) u = u\<lparr>kernel_heap := h\<rparr>" for u :: "'a procs_scheme"
    using paging_free_4gb_shape by blast
  have stuck: "task_free b s' = None"
    using shape [of s'] assms(4) l by (auto simp: task_free_def task_list_remove_def f')
  have "\<exists>s''. task_free b (s'\<lparr>tasks := (tasks s')(a \<mapsto> r)\<rparr>) = Some (0, s'') \<and>
      tasks s'' a = Some (r\<lparr>task_next_link := task_next_link rb\<rparr>)" for r
  proof -
    let ?u = "s'\<lparr>tasks := (tasks s')(a \<mapsto> r)\<rparr>"
    obtain k where k: "paging_free_4gb (page_directory rb) ?u = ?u\<lparr>kernel_heap := k\<rparr>" using shape by blast
    have "\<exists>v. task_list_remove b (?u\<lparr>kernel_heap := k\<rparr>) = Some v \<and> tasks v = (tasks ?u)(a \<mapsto> r\<lparr>task_next_link := task_next_link rb\<rparr>)"
      using assms(4) l by (cases "current_task s' = b") (auto simp: task_list_remove_def task_get_next_def f' Let_def)
    then show ?thesis using k assms(4,5) l by (auto simp: task_free_def kernel_free_def f')
  qed
  then show ?thesis using free f'(1) list stuck by blast
qed

lemma task_new_result:
  fixes s :: "'a procs_scheme"
  assumes wf: "wf_task_list s ts" and live: "\<And>t. t \<in> set ts \<Longrightarrow> page_of t \<in> live_pages (kernel_heap s)"
    and h: "heap_inv (kernel_heap s)" "1027 \<le> free_blocks (kernel_heap s)"
    and p: "processes s proc = Some p" "entry_loaded s p"
  shows "\<exists>t tk s'. task_new proc s = Some (t, s') \<and> t \<notin> set ts \<and> wf_task_list s' (ts @ [t]) \<and>
    tasks s' t = Some tk \<and> task_process tk = proc \<and>
    registers tk = zero_registers\<lparr>ip := entry_point s p, ss_reg := 0x23, cs_reg := 0x1B, esp := 0x3FF000\<rparr> \<and>
    new_space s tk s' \<and> task_frame s s' \<and> heap_inv (kernel_heap s') \<and> page_aligned t \<and> t \<noteq> 0 \<and>
    page_of t \<in> live_pages (kernel_heap s') \<and>
    current_task s' = (if ts = [] then t else current_task s)"
proof -
  obtain t s1 where z: "kernel_zalloc 64 s = Some (t, s1)" "t \<noteq> 0" "grows s s1"
      "free_blocks (kernel_heap s) = Suc (free_blocks (kernel_heap s1))"
      "free_page (kernel_heap s) (page_of t)" "page_aligned t" "page_of t \<in> live_pages (kernel_heap s1)"
    by (rule kernel_zalloc_grows [of s 64]) (use h in auto)
  obtain m hp where s1: "s1 = s\<lparr>mem := m, kernel_heap := hp\<rparr>"
    using kernel_zalloc_shape [OF z(1)] by blast
  have "t \<notin> set ts" using live z(5) by (auto simp: free_page_def)
  have same: "mem s1 a = mem s a" if "page_of a \<in> live_pages (kernel_heap s)" for a
    using z(3) that by (simp add: grows_def free_page_def)
  have sub: "live_pages (kernel_heap s) \<subseteq> live_pages (kernel_heap s1)"
    using z(3) by (simp add: grows_def)
  have entry: "entry_loaded s1 p" "entry_point s1 p = entry_point s p"
    using p(2) sub same load32_live [of _ "kernel_heap s" "mem s1" "mem s"]
    by (auto simp: entry_loaded_def entry_point_def e_entry_def s1 split: option.splits)
  obtain tk s2 where i: "task_init t proc s1 = Some (0, s2)" "tasks s2 = (tasks s1)(t \<mapsto> tk)"
      "task_next_link tk = 0" "task_prev_link tk = 0" "task_process tk = proc"
      "registers tk = zero_registers\<lparr>ip := entry_point s1 p, ss_reg := 0x23, cs_reg := 0x1B, esp := 0x3FF000\<rparr>"
      "new_space s1 tk s2" "task_frame s1 s2"
      "heap_inv (kernel_heap s2)" "task_head s2 = task_head s1" "task_tail s2 = task_tail s1"
      "current_task s2 = current_task s1"
    by (rule task_init_result [of s1 proc p t])
       (use z(3,4) h p(1) entry in \<open>auto simp: grows_def s1\<close>)
  have fr: "new_space s tk s2" "task_frame s s2" "page_of t \<in> live_pages (kernel_heap s2)"
    using i(7,8) sub z(3,7) live_pages_mono [of "kernel_heap s1" "kernel_heap s2"] same
    by (auto simp: new_space_def task_frame_def s1 grows_def)
  show ?thesis
  proof (cases ts rule: rev_cases)
    case Nil
    then have "task_head s = 0" using wf by (simp add: wf_task_list_def task_list_def)
    then have "task_new proc s = Some (t, s2\<lparr>task_head := t, task_tail := t, current_task := t\<rparr>)"
      using z(1,2) i by (simp add: task_new_def s1)
    then show ?thesis
      using Nil i entry(2) z(2,6) fr
      by (auto simp: wf_task_list_def task_list_def s1 new_space_def task_frame_def)
  next
    case (snoc xs l)
    from wf snoc obtain rl where l: "tasks s l = Some rl" "seg (tasks s) (task_head s) xs l" "l \<noteq> 0"
        "task_tail s = l" "distinct ts" "back_links (tasks s) 0 xs"
        "task_prev_link rl = (if xs = [] then 0 else last xs)" "task_next_link rl = 0"
      by (auto simp: wf_task_list_def task_list_def back_links_append split: option.splits if_splits)
    have "task_head s \<noteq> 0" using l(2,3) by (cases xs) auto
    have "l \<noteq> t" "t \<notin> set xs" "l \<notin> set xs" using \<open>t \<notin> set ts\<close> snoc l(5) by auto
    define s3 where "s3 = s2\<lparr>tasks := (tasks s)(l \<mapsto> rl\<lparr>task_next_link := t\<rparr>, t \<mapsto> tk\<lparr>task_prev_link := l\<rparr>),
      task_tail := t\<rparr>"
    have "task_new proc s = Some (t, s3)"
      using z(1,2) i l \<open>task_head s \<noteq> 0\<close> \<open>l \<noteq> t\<close>
      by (simp add: task_new_def s1 s3_def fun_upd_twist)
    moreover have "wf_task_list s3 (ts @ [t])"
      using l i(3,10) snoc \<open>l \<noteq> t\<close> \<open>t \<notin> set xs\<close> \<open>l \<notin> set xs\<close> z(2)
      by (auto simp: wf_task_list_def task_list_def s3_def s1 seg_upd back_links_upd back_links_append)
    ultimately show ?thesis
      using i entry(2) snoc \<open>t \<notin> set ts\<close> z(2,6) fr
      by (auto simp: s3_def s1 new_space_def task_frame_def)
  qed
qed

text \<open>
  C11. Creating a task for a process, with enough free memory: the task is new, it is appended
  to the (well formed) list, it starts at the entry point of the program with the user
  segments and the user stack, its address space is well formed, maps every address to
  itself and lets the program read there, and it becomes current exactly if the list was empty.
\<close>

theorem task_new_appends:
  fixes s :: "'a procs_scheme"
  assumes "wf_task_list s ts" "\<And>t. t \<in> set ts \<Longrightarrow> page_of t \<in> live_pages (kernel_heap s)"
    "heap_inv (kernel_heap s)" "1027 \<le> free_blocks (kernel_heap s)"
    "processes s proc = Some p" "entry_loaded s p"
  shows "\<exists>t tk s'. task_new proc s = Some (t, s') \<and> t \<notin> set ts \<and> wf_task_list s' (ts @ [t]) \<and>
    tasks s' t = Some tk \<and> task_process tk = proc \<and>
    registers tk = zero_registers\<lparr>ip := entry_point s p, ss_reg := 0x23, cs_reg := 0x1B, esp := 0x3FF000\<rparr> \<and>
    wf_chunk (page_directory tk) (mem s') \<and>
    (\<forall>v. paging_get_physical_address (load32 (mem s') (page_directory tk)) v (mem s') = v \<and>
       user_access (load32 (mem s') (page_directory tk)) v (mem s')) \<and>
    current_task s' = (if ts = [] then t else current_task s)"
proof -
  from task_new_result [OF assms] obtain t tk s' where "task_new proc s = Some (t, s')" "t \<notin> set ts"
    "wf_task_list s' (ts @ [t])" "tasks s' t = Some tk" "task_process tk = proc" "new_space s tk s'"
    "registers tk = zero_registers\<lparr>ip := entry_point s p, ss_reg := 0x23, cs_reg := 0x1B, esp := 0x3FF000\<rparr>"
    "current_task s' = (if ts = [] then t else current_task s)" by blast
  then show ?thesis by (auto simp: new_space_def space_grants_def)
qed

section \<open>Instances\<close>

definition demo_process :: process where
  "demo_process = \<lparr>process_id = 0, process_filename = [], process_task = 0,
     allocations = replicate 1024 \<lparr>alloc_ptr = 0, alloc_size = 0\<rparr>, filetype = 1, process_ptr = 0x01000000,
     stack = 0, process_size = 16, keyboard = \<lparr>kbuffer = replicate 1024 0, ktail = 0, khead = 0\<rparr>,
     argc = 0, argv = 0\<rparr>"

text \<open>A kernel with one loaded program and no task.\<close>

definition demo_procs :: procs where
  "demo_procs = \<lparr>mem = (\<lambda>_. 0), device = (\<lambda>_ _. 0), io_log = [], video_memory = 0xB8000,
     terminal_row = 0, terminal_col = 0,
     kernel_heap = \<lparr>table = \<lparr>entries = replicate 25600 0\<rparr>, start_address = 0x01000000\<rparr>,
     current_directory = 0, cr3 = 0, paging_enabled = False,
     disk = \<lparr>disk_type = 0, sector_size = 512, disk_id = 0, filesystem = NullFilesystem, fs_private = 0\<rparr>,
     streams = Map.empty, path_roots = Map.empty, path_parts = Map.empty, fat_privates = Map.empty,
     fat_directories = Map.empty, fat_items = Map.empty, fat_descriptors = Map.empty, fat16_name = [],
     local_addr = (\<lambda>_. 0x5FF000), filesystems = [], file_descriptors = [], fd_objects = Map.empty, elf_files = Map.empty,
     tasks = Map.empty, processes = [0x2000 \<mapsto> demo_process], current_task = 0, task_head = 0,
     task_tail = 0, current_process = 0x2000, process_table = 0x2000 # replicate 11 0,
     kernel_chunk = 0, literal_addr = (\<lambda>_. 0x5000)\<rparr>"

text \<open>The same kernel with three tasks, the second one running.\<close>

definition demo_tasks :: procs where
  "demo_tasks = demo_procs\<lparr>tasks :=
     [0x100 \<mapsto> zero_task\<lparr>page_directory := 0x9000, task_next_link := 0x200\<rparr>,
      0x200 \<mapsto> zero_task\<lparr>page_directory := 0x9000, task_next_link := 0x300, task_prev_link := 0x100\<rparr>,
      0x300 \<mapsto> zero_task\<lparr>task_prev_link := 0x200\<rparr>],
     task_head := 0x100, task_tail := 0x300, current_task := 0x200\<rparr>"

lemma demo_tasks_list: "wf_task_list demo_tasks [0x100, 0x200, 0x300]"
  by (simp add: wf_task_list_def task_list_def demo_tasks_def zero_task_def)

theorem task_next_round_robin_witness:
  "\<exists>s'. task_slices 5 demo_tasks = Some s' \<and> current_task s' = 0x100"
  using task_next_round_robin [of demo_tasks "[0x100, 0x200, 0x300]" 1 5] demo_tasks_list
  by (auto simp: wf_task_list_def demo_tasks_def)

theorem task_next_switches_witness: "\<exists>r s'. task_next demo_tasks = Some (r, s') \<and> current_task s' = 0x300"
  using task_next_switches [of demo_tasks "[0x100, 0x200, 0x300]" 1] demo_tasks_list
  by (auto simp: wf_task_list_def demo_tasks_def)

theorem task_list_remove_forward_witness:
  "\<exists>s'. task_list_remove 0x200 demo_tasks = Some s' \<and> task_list s' [0x100, 0x300]"
  using task_list_remove_forward [OF demo_tasks_list, of "0x200"] by auto

theorem task_free_twice_dangling_witness:
  "\<exists>s'. task_free 0x100 demo_tasks = Some (0, s') \<and> tasks s' 0x100 = None \<and> task_list s' [0x200, 0x300] \<and>
     task_free 0x200 s' = None"
  using task_free_twice_dangling [OF demo_tasks_list, of "zero_task\<lparr>page_directory := 0x9000, task_next_link := 0x200\<rparr>"
      "zero_task\<lparr>page_directory := 0x9000, task_next_link := 0x300, task_prev_link := 0x100\<rparr>"]
  by (auto simp: demo_tasks_def)

theorem task_new_appends_witness:
  "\<exists>t tk s'. task_new 0x2000 demo_procs = Some (t, s') \<and> wf_task_list s' [t] \<and> tasks s' t = Some tk \<and>
     ip (registers tk) = 0x400000 \<and> current_task s' = t"
proof -
  have "wf_task_list demo_procs []"
    by (simp add: wf_task_list_def task_list_def demo_procs_def)
  moreover have "heap_inv (kernel_heap demo_procs)"
    by (rule heap_inv_fresh [of _ 25600]) (simp_all add: demo_procs_def page_aligned_def)
  moreover have "1027 \<le> free_blocks (kernel_heap demo_procs)"
    by (simp add: demo_procs_def free_blocks_def)
  moreover have "processes demo_procs 0x2000 = Some demo_process" "entry_loaded demo_procs demo_process"
    by (simp_all add: demo_procs_def demo_process_def entry_loaded_def)
  ultimately show ?thesis
    using task_new_appends [of demo_procs "[]" "0x2000" demo_process]
    by (auto simp: entry_point_def demo_process_def)
qed

end
