(* ===== verification/Process.thy ===== *)
theory Process
  imports Task
begin

text \<open>
  Processes, \<^verbatim>\<open>src/src/task/process.c\<close>: the table of processes, mapping a program into the
  address space of its task, the memory a program allocates, its arguments, and termination. A
  process is an object of the store \<open>processes\<close>; its allocation table is a list of 1024 entries
  in which the null pointer marks a free one. Loading a program from a file is not part of this
  theory.

  The theorems: \<open>process_malloc\<close> returns a fresh region of zeroes that the task can reach at the
  same address, and records it; \<open>process_free\<close> undoes it; a free slot or entry is found exactly
  if there is one.
\<close>

section \<open>Definitions\<close>

definition OS_MAX_PROCESSES :: nat where [simp]: "OS_MAX_PROCESSES = 12"
definition OS_MAX_PROGRAM_ALLOCATIONS :: nat where [simp]: "OS_MAX_PROGRAM_ALLOCATIONS = 1024"
definition OS_USER_PROGRAM_VIRTUAL_STACK_SIZE :: u32 where
  [simp]: "OS_USER_PROGRAM_VIRTUAL_STACK_SIZE = 1024 * 16"
definition OS_USER_PROGRAM_VIRTUAL_STACK_ADDRESS_END :: addr where
  [simp]: "OS_USER_PROGRAM_VIRTUAL_STACK_ADDRESS_END = 0x3FF000 - 1024 * 16"

definition zero_process :: process where
  "zero_process = \<lparr>process_id = 0, process_filename = replicate 108 0, process_task = 0,
     allocations = replicate 1024 \<lparr>alloc_ptr = 0, alloc_size = 0\<rparr>, filetype = 0, process_ptr = 0,
     stack = 0, process_size = 0, keyboard = \<lparr>kbuffer = replicate 1024 0, ktail = 0, khead = 0\<rparr>,
     argc = 0, argv = 0\<rparr>"

definition process_init :: "addr \<Rightarrow> 'a procs_scheme \<Rightarrow> 'a procs_scheme" where
  "process_init p s = s\<lparr>processes := (processes s)(p \<mapsto> zero_process)\<rparr>"

definition process_current :: "'a procs_scheme \<Rightarrow> addr" where
  "process_current s = current_process s"

definition process_get :: "int \<Rightarrow> 'a procs_scheme \<Rightarrow> addr" where
  "process_get pid s =
     (if pid < 0 \<or> int OS_MAX_PROCESSES \<le> pid then 0 else process_table s ! nat pid)"

definition process_switch :: "addr \<Rightarrow> 'a procs_scheme \<Rightarrow> int \<times> 'a procs_scheme" where
  "process_switch p s = (0, s\<lparr>current_process := p\<rparr>)"

definition process_map_binary :: "addr \<Rightarrow> 'a procs_scheme \<Rightarrow> (int \<times> 'a procs_scheme) option" where
  "process_map_binary p s = do {
     pr \<leftarrow> processes s p;
     tk \<leftarrow> tasks s (process_task pr);
     let m = snd (paging_map_to (page_directory tk) OS_PROGRAM_VIRTUAL_ADDRESS (process_ptr pr)
               (paging_align_address (process_ptr pr + process_size pr))
               (PAGING_IS_PRESENT OR PAGING_ACCESS_FROM_ALL OR PAGING_IS_WRITEABLE) (mem s));
     Some (0, s\<lparr>mem := m\<rparr>)
   }"

text \<open>The loop of \<open>process_map_elf\<close> over the indexes of the program headers.\<close>

fun process_map_elf_loop ::
    "addr \<Rightarrow> elf_file \<Rightarrow> addr \<Rightarrow> nat list \<Rightarrow> int \<Rightarrow> memory \<Rightarrow> int \<times> memory" where
  "process_map_elf_loop chunk f phdrs [] res m = (res, m)"
| "process_map_elf_loop chunk f phdrs (i # is) res m =
     (let phdr = phdrs + of_nat (32 * i);
          phys = elf_phdr_phys_address m f phdr;
          flags = PAGING_IS_PRESENT OR PAGING_ACCESS_FROM_ALL;
          flags = (if p_flags m phdr AND PF_W \<noteq> 0 then flags OR PAGING_IS_WRITEABLE else flags);
          (res, m) = paging_map_to chunk (paging_align_to_lower_page (p_vaddr m phdr))
             (paging_align_to_lower_page phys) (paging_align_address (phys + p_memsz m phdr)) flags m
      in if res < 0 then (res, m) else process_map_elf_loop chunk f phdrs is res m)"

definition process_map_elf :: "addr \<Rightarrow> 'a procs_scheme \<Rightarrow> (int \<times> 'a procs_scheme) option" where
  "process_map_elf p s = do {
     pr \<leftarrow> processes s p;
     f \<leftarrow> elf_files s (process_ptr pr);
     tk \<leftarrow> tasks s (process_task pr);
     let header = elf_header f;
     let phdrs = elf_pheader (mem s) header;
     let (res, m) = process_map_elf_loop (page_directory tk) f phdrs
                      [0..<unat (e_phnum (mem s) header)] 0 (mem s);
     Some (res, s\<lparr>mem := m\<rparr>)
   }"

definition process_map_memory :: "addr \<Rightarrow> 'a procs_scheme \<Rightarrow> (int \<times> 'a procs_scheme) option" where
  "process_map_memory p s = do {
     pr \<leftarrow> processes s p;
     (res, s) \<leftarrow> (if filetype pr = PROCESS_FILETYPE_ELF then process_map_elf p s
                   else if filetype pr = PROCESS_FILETYPE_BINARY then process_map_binary p s
                   else None);
     if res < 0 then Some (res, s)
     else do {
       tk \<leftarrow> tasks s (process_task pr);
       let m = snd (paging_map_to (page_directory tk) OS_USER_PROGRAM_VIRTUAL_STACK_ADDRESS_END (stack pr)
                 (paging_align_address (stack pr + OS_USER_PROGRAM_VIRTUAL_STACK_SIZE))
                 (PAGING_IS_PRESENT OR PAGING_ACCESS_FROM_ALL OR PAGING_IS_WRITEABLE) (mem s));
       Some (res, s\<lparr>mem := m\<rparr>)
     }
   }"

text \<open>The first index of a list whose element satisfies a test, or an error code.\<close>

fun first_index :: "('b \<Rightarrow> bool) \<Rightarrow> int \<Rightarrow> int \<Rightarrow> 'b list \<Rightarrow> int" where
  "first_index P i err [] = err"
| "first_index P i err (x # xs) = (if P x then i else first_index P (i + 1) err xs)"

definition process_get_free_slot :: "'a procs_scheme \<Rightarrow> int" where
  "process_get_free_slot s = first_index (\<lambda>p. p = 0) 0 (- INITIALIZE_SLOT_TAKEN) (process_table s)"

definition process_find_free_allocation_index :: "process \<Rightarrow> int" where
  "process_find_free_allocation_index pr =
     first_index (\<lambda>a. alloc_ptr a = 0) 0 (- NO_MEMORY_ERROR) (allocations pr)"

definition process_malloc :: "addr \<Rightarrow> u32 \<Rightarrow> 'a procs_scheme \<Rightarrow> (addr \<times> 'a procs_scheme) option" where
  "process_malloc p sz s = do {
     (ptr, s) \<leftarrow> kernel_zalloc sz s;
     if ptr = 0 then Some (0, s)
     else do {
       pr \<leftarrow> processes s p;
       let index = process_find_free_allocation_index pr;
       if index < 0 then Some (0, kernel_free ptr s)
       else do {
         tk \<leftarrow> tasks s (process_task pr);
         let (res, m) = paging_map_to (page_directory tk) ptr ptr (paging_align_address (ptr + sz))
               (PAGING_IS_WRITEABLE OR PAGING_IS_PRESENT OR PAGING_ACCESS_FROM_ALL) (mem s);
         let s = s\<lparr>mem := m\<rparr>;
         if res < 0 then Some (0, kernel_free ptr s)
         else Some (ptr, s\<lparr>processes := (processes s)(p \<mapsto> pr\<lparr>allocations :=
                (allocations pr)[nat index := \<lparr>alloc_ptr = ptr, alloc_size = sz\<rparr>]\<rparr>)\<rparr>)
       }
     }
   }"

definition process_is_process_pointer :: "process \<Rightarrow> addr \<Rightarrow> bool" where
  "process_is_process_pointer pr ptr \<longleftrightarrow> (\<exists>a \<in> set (allocations pr). alloc_ptr a = ptr)"

definition process_allocation_unmark :: "process \<Rightarrow> addr \<Rightarrow> process" where
  "process_allocation_unmark pr ptr = pr\<lparr>allocations :=
     map (\<lambda>a. if alloc_ptr a = ptr then \<lparr>alloc_ptr = 0, alloc_size = 0\<rparr> else a) (allocations pr)\<rparr>"

definition process_get_allocation_by_addr :: "process \<Rightarrow> addr \<Rightarrow> process_allocation option" where
  "process_get_allocation_by_addr pr a = List.find (\<lambda>x. alloc_ptr x = a) (allocations pr)"

definition process_free :: "addr \<Rightarrow> addr \<Rightarrow> 'a procs_scheme \<Rightarrow> 'a procs_scheme option" where
  "process_free p ptr s = do {
     pr \<leftarrow> processes s p;
     case process_get_allocation_by_addr pr ptr of
       None \<Rightarrow> Some s
     | Some a \<Rightarrow> do {
         tk \<leftarrow> tasks s (process_task pr);
         let (res, m) = paging_map_to (page_directory tk) (alloc_ptr a) (alloc_ptr a)
               (paging_align_address (alloc_ptr a + alloc_size a)) 0 (mem s);
         let s = s\<lparr>mem := m\<rparr>;
         if res < 0 then Some s
         else Some (kernel_free ptr
                (s\<lparr>processes := (processes s)(p \<mapsto> process_allocation_unmark pr ptr)\<rparr>))
       }
   }"

definition process_get_arguments :: "addr \<Rightarrow> 'a procs_scheme \<Rightarrow> (int \<times> addr) option" where
  "process_get_arguments p s = do { pr \<leftarrow> processes s p; Some (argc pr, argv pr) }"

text \<open>A \<open>command_argument\<close> in memory: 512 bytes of text, then the pointer to the next one.\<close>

definition argument_next :: "memory \<Rightarrow> addr \<Rightarrow> addr" where
  "argument_next m a = load32 m (a + 512)"

partial_function (option) process_count_command_arguments :: "memory \<Rightarrow> addr \<Rightarrow> int \<Rightarrow> int option" where
  "process_count_command_arguments m cur i =
     (if cur = 0 then Some i else process_count_command_arguments m (argument_next m cur) (i + 1))"

partial_function (option) process_inject_loop ::
    "addr \<Rightarrow> addr \<Rightarrow> addr \<Rightarrow> nat \<Rightarrow> 'a procs_scheme \<Rightarrow> (int \<times> 'a procs_scheme) option" where
  "process_inject_loop p av cur i s =
     (if cur = 0 then Some (0, s)
      else do {
        (str, s) \<leftarrow> process_malloc p 512 s;
        if str = 0 then Some (- NO_MEMORY_ERROR, s)
        else do {
          let s = s\<lparr>mem := strncpy str cur 512 (mem s)\<rparr>;
          let s = s\<lparr>mem := store32 (mem s) (av + of_nat (4 * i)) str\<rparr>;
          process_inject_loop p av (argument_next (mem s) cur) (Suc i) s
        }
      })"

definition process_inject_arguments :: "addr \<Rightarrow> addr \<Rightarrow> 'a procs_scheme \<Rightarrow> (int \<times> 'a procs_scheme) option" where
  "process_inject_arguments p root_argument s = do {
     ac \<leftarrow> process_count_command_arguments (mem s) root_argument 0;
     if ac = 0 then Some (- IO_ERROR, s)
     else do {
       (av, s) \<leftarrow> process_malloc p (word_of_int (4 * ac)) s;
       if av = 0 then Some (- NO_MEMORY_ERROR, s)
       else do {
         (res, s) \<leftarrow> process_inject_loop p av root_argument 0 s;
         if res < 0 then Some (res, s)
         else do {
           pr \<leftarrow> processes s p;
           Some (0, s\<lparr>processes := (processes s)(p \<mapsto> pr\<lparr>argc := ac, argv := av\<rparr>)\<rparr>)
         }
       }
     }
   }"

fun process_terminate_allocations_loop :: "addr \<Rightarrow> nat list \<Rightarrow> 'a procs_scheme \<Rightarrow> 'a procs_scheme option" where
  "process_terminate_allocations_loop p [] s = Some s"
| "process_terminate_allocations_loop p (i # is) s = do {
     pr \<leftarrow> processes s p;
     s \<leftarrow> process_free p (alloc_ptr (allocations pr ! i)) s;
     process_terminate_allocations_loop p is s
   }"

definition process_terminate_allocations :: "addr \<Rightarrow> 'a procs_scheme \<Rightarrow> (int \<times> 'a procs_scheme) option" where
  "process_terminate_allocations p s = do {
     s \<leftarrow> process_terminate_allocations_loop p [0..<OS_MAX_PROGRAM_ALLOCATIONS] s;
     Some (0, s)
   }"

text \<open>\<open>elf_close\<close> of the loader.\<close>

definition elf_close :: "addr \<Rightarrow> 'a procs_scheme \<Rightarrow> 'a procs_scheme option" where
  "elf_close f s =
     (if f = 0 then Some s
      else do {
        ef \<leftarrow> elf_files s f;
        let s = kernel_free f (kernel_free (elf_mem ef) s);
        Some (s\<lparr>elf_files := (elf_files s)(f := None)\<rparr>)
      })"

definition process_free_binary_data :: "addr \<Rightarrow> 'a procs_scheme \<Rightarrow> (int \<times> 'a procs_scheme) option" where
  "process_free_binary_data p s = do { pr \<leftarrow> processes s p; Some (0, kernel_free (process_ptr pr) s) }"

definition process_free_elf_data :: "addr \<Rightarrow> 'a procs_scheme \<Rightarrow> (int \<times> 'a procs_scheme) option" where
  "process_free_elf_data p s = do {
     pr \<leftarrow> processes s p;
     s \<leftarrow> elf_close (process_ptr pr) s;
     Some (0, s)
   }"

definition process_free_program_data :: "addr \<Rightarrow> 'a procs_scheme \<Rightarrow> (int \<times> 'a procs_scheme) option" where
  "process_free_program_data p s = do {
     pr \<leftarrow> processes s p;
     if filetype pr = PROCESS_FILETYPE_BINARY then process_free_binary_data p s
     else if filetype pr = PROCESS_FILETYPE_ELF then process_free_elf_data p s
     else Some (- INVALID_ARGUMENT_ERROR, s)
   }"

text \<open>With no process left this panics.\<close>

definition process_switch_to_any :: "'a procs_scheme \<Rightarrow> 'a procs_scheme option" where
  "process_switch_to_any s = do {
     p \<leftarrow> List.find (\<lambda>p. p \<noteq> 0) (process_table s);
     Some (snd (process_switch p s))
   }"

definition process_unlink :: "addr \<Rightarrow> 'a procs_scheme \<Rightarrow> 'a procs_scheme option" where
  "process_unlink p s = do {
     pr \<leftarrow> processes s p;
     let i = unat (process_id pr);
     if i < length (process_table s) then do {
       let s = s\<lparr>process_table := (process_table s)[i := 0]\<rparr>;
       if current_process s = p then process_switch_to_any s else Some s
     } else None
   }"

definition process_terminate :: "addr \<Rightarrow> 'a procs_scheme \<Rightarrow> (int \<times> 'a procs_scheme) option" where
  "process_terminate p s = do {
     (res, s) \<leftarrow> process_terminate_allocations p s;
     if res < 0 then Some (res, s)
     else do {
       (res, s) \<leftarrow> process_free_program_data p s;
       if res < 0 then Some (res, s)
       else do {
         pr \<leftarrow> processes s p;
         let s = kernel_free (stack pr) s;
         (r, s) \<leftarrow> task_free (process_task pr) s;
         s \<leftarrow> process_unlink p s;
         Some (res, s)
       }
     }
   }"

section \<open>Searching\<close>

lemma first_index_found:
  assumes "i < length xs" "P (xs ! i)" "\<And>j. j < i \<Longrightarrow> \<not> P (xs ! j)"
  shows "first_index P k err xs = k + int i"
  using assms
proof (induction xs arbitrary: i k)
  case (Cons x xs)
  show ?case
  proof (cases i)
    case 0
    with Cons.prems show ?thesis by simp
  next
    case (Suc n)
    have "\<not> P x" using Cons.prems(3) [of 0] Suc by simp
    moreover have "\<not> P (xs ! j)" if "j < n" for j using Cons.prems(3) [of "Suc j"] Suc that by simp
    ultimately show ?thesis
      using Cons.IH [of n "k + 1"] Cons.prems Suc by simp
  qed
qed simp

lemma first_index_none: "(\<And>x. x \<in> set xs \<Longrightarrow> \<not> P x) \<Longrightarrow> first_index P k err xs = err"
  by (induction xs arbitrary: k) auto

section \<open>Regions\<close>

lemma page_in_region:
  assumes "page_aligned p" "page_of p + n \<le> 2 ^ 20" "unat (a - p) < 4096 * n"
  shows "page_of a \<in> {page_of p..<page_of p + n}"
proof -
  let ?k = "unat (a - p)"
  have up: "unat p = 4096 * page_of p"
    using assms(1) div_mult_mod_eq [of "unat p" 4096] by (simp add: page_aligned_def page_of_def)
  have "unat p + ?k < 2 ^ 32" using up assms(2,3) by simp
  then have "unat a = 4096 * page_of p + ?k"
    using unat_add_of_nat [of p ?k] up by simp
  then have "page_of a = page_of p + ?k div 4096" by (simp add: page_of_def)
  moreover have "?k div 4096 < n" using assms(3) by (intro less_mult_imp_div_less) (simp add: mult.commute)
  ultimately show ?thesis by simp
qed

text \<open>A fresh region: where it lies, and that live memory keeps its contents.\<close>

lemma kernel_zalloc_region:
  assumes "heap_inv (kernel_heap s)" "0 < sz" "unat sz \<le> 2 ^ 32 - 4096"
    "kernel_zalloc sz s = Some (p, s')" "p \<noteq> 0"
  shows "heap_inv (kernel_heap s')" "page_aligned p"
    "allocs (kernel_heap s') = insert (p, blocks_for sz) (allocs (kernel_heap s))"
    "(p, blocks_for sz) \<notin> allocs (kernel_heap s)"
    "live_pages (kernel_heap s) \<inter> {page_of p..<page_of p + blocks_for sz} = {}"
    "page_of p + blocks_for sz \<le> 2 ^ 20" "unat sz \<le> 4096 * blocks_for sz"
    "\<And>a. page_of a \<in> live_pages (kernel_heap s) \<Longrightarrow> mem s' a = mem s a"
    "\<And>k. k < unat sz \<Longrightarrow> mem s' (p + of_nat k) = 0"
proof -
  note f = kernel_zalloc_fresh [OF assms]
  show inv: "heap_inv (kernel_heap s')"
    and al: "allocs (kernel_heap s') = insert (p, blocks_for sz) (allocs (kernel_heap s))"
    and new: "(p, blocks_for sz) \<notin> allocs (kernel_heap s)"
    using f by auto
  have "(p, blocks_for sz) \<in> allocs (kernel_heap s')" using al by simp
  from kz.live_page [OF inv this] show pa: "page_aligned p" and hi: "page_of p + blocks_for sz \<le> 2 ^ 20"
    by auto
  show disj: "live_pages (kernel_heap s) \<inter> {page_of p..<page_of p + blocks_for sz} = {}"
  proof -
    have "page_of q + n \<le> page_of p \<or> page_of p + blocks_for sz \<le> page_of q" if "(q, n) \<in> allocs (kernel_heap s)" for q n
      using allocs_disjoint [OF inv, of p "blocks_for sz" q n] al new that by auto
    then show ?thesis by (fastforce simp: live_pages_def)
  qed
  show sz: "unat sz \<le> 4096 * blocks_for sz"
    using div_mult_mod_eq [of "unat sz + 4095" 4096] mod_less_divisor [of 4096 "unat sz + 4095"]
    by (simp add: blocks_for_def)
  show "mem s' a = mem s a" if "page_of a \<in> live_pages (kernel_heap s)" for a
    using f page_in_region [OF pa hi, of a] disj that sz by (auto dest: order_less_le_trans)
  show "mem s' (p + of_nat k) = 0" if "k < unat sz" for k
  proof -
    have "k < 4294967296" using that unat_lt_u32 [of sz] by linarith
    then show ?thesis using f unat_diff_of_nat_index [of k p] that by simp
  qed
qed

section \<open>Memory of a process\<close>

text \<open>A process with its task, whose address space lies in live memory.\<close>

definition process_ok :: "'a procs_scheme \<Rightarrow> addr \<Rightarrow> process \<Rightarrow> task \<Rightarrow> bool" where
  "process_ok s p pr tk \<longleftrightarrow> processes s p = Some pr \<and> tasks s (process_task pr) = Some tk \<and>
     wf_chunk (page_directory tk) (mem s) \<and>
     chunk_pages (page_directory tk) (mem s) \<subseteq> live_pages (kernel_heap s) \<and>
     heap_inv (kernel_heap s)"

text \<open>What the task sees at an address.\<close>

definition translate :: "task \<Rightarrow> memory \<Rightarrow> addr \<Rightarrow> addr" where
  "translate tk m v = paging_get_physical_address (load32 m (page_directory tk)) v m"

lemma region_aligned_end:
  assumes "page_aligned ptr" "0 < n" "unat ptr + 4096 * n < 2 ^ 32"
  shows "page_aligned (ptr + of_nat (4096 * n))" "ptr \<le> ptr + of_nat (4096 * n)"
    "unat (ptr + of_nat (4096 * n) - ptr) = 4096 * n"
  using assms unat_add_of_nat [of ptr "4096 * n"] unat_diff_of_nat_index [of "4096 * n" ptr]
  by (simp_all add: page_aligned_def word_le_nat_alt del: of_nat_mult)

lemma map_region:
  assumes "wf_chunk chunk m" "page_aligned ptr" "0 < sz" "unat ptr + 4096 * blocks_for sz < 2 ^ 32" "flags < 4096"
  obtains m' where "paging_map_to chunk ptr ptr (paging_align_address (ptr + sz)) flags m = (0, m')"
    "wf_chunk chunk m'" "chunk_pages chunk m' = chunk_pages chunk m"
    "\<And>a. page_of a \<notin> chunk_pages chunk m \<Longrightarrow> m' a = m a"
    "\<And>w. paging_get_physical_address (load32 m' chunk) w m' =
      (if unat (w - ptr) < 4096 * blocks_for sz then w else paging_get_physical_address (load32 m chunk) w m)"
proof -
  let ?e = "ptr + of_nat (4096 * blocks_for sz)"
  have e: "paging_align_address (ptr + sz) = ?e"
    using assms by (intro paging_align_address_end)
  note fin = region_aligned_end [OF assms(2) blocks_for_pos [OF assms(3)] assms(4)]
  from paging_map_to_result [OF assms(1,5), of ptr ptr ?e] assms(2) fin
  obtain m' where m': "paging_map_to chunk ptr ptr ?e flags m = (0, m')" "wf_chunk chunk m'"
      "\<And>w. paging_get_physical_address (load32 m' chunk) w m' =
        (if unat (w - ptr) < 4096 * blocks_for sz then w else paging_get_physical_address (load32 m chunk) w m)"
    by auto
  then show ?thesis
    using paging_map_to_frame(1) [OF assms(1), of _ ptr ptr ?e flags]
      paging_map_to_frame(3) [OF assms(1), of ptr ptr ?e flags] m'
    by (intro that [of m']) (auto simp: e chunk_pages_def)
qed

lemma process_malloc_result:
  fixes s :: "'a procs_scheme"
  assumes ok: "process_ok s p pr tk" and sz: "0 < sz" "unat sz \<le> 2 ^ 32 - 4096"
    and z: "kernel_zalloc sz s = Some (ptr, s1)" "ptr \<noteq> 0" "unat ptr + 4096 * blocks_for sz < 2 ^ 32"
    and i: "i < length (allocations pr)" "alloc_ptr (allocations pr ! i) = 0"
      "\<And>j. j < i \<Longrightarrow> alloc_ptr (allocations pr ! j) \<noteq> 0"
  defines "pr' \<equiv> pr\<lparr>allocations := (allocations pr)[i := \<lparr>alloc_ptr = ptr, alloc_size = sz\<rparr>]\<rparr>"
  obtains s' where "process_malloc p sz s = Some (ptr, s')" "process_ok s' p pr' tk"
    "allocs (kernel_heap s') = insert (ptr, blocks_for sz) (allocs (kernel_heap s))"
    "(ptr, blocks_for sz) \<notin> allocs (kernel_heap s)"
    "\<And>k. k < unat sz \<Longrightarrow> mem s' (ptr + of_nat k) = 0"
    "\<And>w. translate tk (mem s') w = (if unat (w - ptr) < 4096 * blocks_for sz then w else translate tk (mem s) w)"
    "live_pages (kernel_heap s) \<inter> {page_of ptr..<page_of ptr + blocks_for sz} = {}"
    "chunk_pages (page_directory tk) (mem s') = chunk_pages (page_directory tk) (mem s)"
proof -
  let ?c = "page_directory tk"
  have heap: "heap_inv (kernel_heap s)" and wf: "wf_chunk ?c (mem s)"
    and sub: "chunk_pages ?c (mem s) \<subseteq> live_pages (kernel_heap s)"
    and pr: "processes s p = Some pr" "tasks s (process_task pr) = Some tk"
    using ok by (auto simp: process_ok_def)
  note r = kernel_zalloc_region [OF heap sz z(1,2)]
  obtain m h where s1: "s1 = s\<lparr>mem := m, kernel_heap := h\<rparr>" using kernel_zalloc_shape [OF z(1)] by blast
  note cong = chunk_cong [OF wf, of "mem s1"]
  have same: "mem s1 a = mem s a" if "page_of a \<in> chunk_pages ?c (mem s)" for a
    using r(8) sub that by blast
  obtain m' where m': "paging_map_to ?c ptr ptr (paging_align_address (ptr + sz)) 7 (mem s1) = (0, m')"
      "wf_chunk ?c m'" "chunk_pages ?c m' = chunk_pages ?c (mem s1)"
      "\<And>a. page_of a \<notin> chunk_pages ?c (mem s1) \<Longrightarrow> m' a = mem s1 a"
      "\<And>w. paging_get_physical_address (load32 m' ?c) w m' =
        (if unat (w - ptr) < 4096 * blocks_for sz then w else paging_get_physical_address (load32 (mem s1) ?c) w (mem s1))"
    by (rule map_region [OF cong(1) [OF same] r(2) sz(1) z(3), of 7]) (simp_all, blast?)
  have idx: "process_find_free_allocation_index pr = int i"
    unfolding process_find_free_allocation_index_def using first_index_found [of i "allocations pr" "\<lambda>a. alloc_ptr a = 0" 0] i
    by simp
  define s' where "s' = s1\<lparr>mem := m', processes := (processes s)(p \<mapsto> pr')\<rparr>"
  have cp: "chunk_pages ?c m' = chunk_pages ?c (mem s)"
    using m'(3) cong(4) [OF same] by simp
  show ?thesis
  proof (rule that [of s'])
    show "process_malloc p sz s = Some (ptr, s')"
      using z(1,2) pr idx m'(1) by (simp add: process_malloc_def s1 s'_def pr'_def)
    show "process_ok s' p pr' tk"
      using pr m'(2) cp sub r(1,3) by (auto simp: process_ok_def s'_def s1 pr'_def live_pages_def)
    show "mem s' (ptr + of_nat k) = 0" if "k < unat sz" for k
    proof -
      have "unat (ptr + of_nat k - ptr) < 4096 * blocks_for sz"
        using unat_diff_of_nat_index [of k ptr] that r(7) unat_lt_u32 [of sz] by simp
      then have "page_of (ptr + of_nat k) \<notin> chunk_pages ?c (mem s1)"
        using page_in_region [OF r(2,6), of "ptr + of_nat k"] r(5) sub cong(4) [OF same] by auto
      then show ?thesis using m'(4) r(9) [OF that] by (simp add: s'_def)
    qed
    show "translate tk (mem s') w = (if unat (w - ptr) < 4096 * blocks_for sz then w else translate tk (mem s) w)" for w
      using m'(5) [of w] cong(5) [OF same, of w] by (simp add: translate_def s'_def)
  qed (use r cp in \<open>simp_all add: s'_def s1\<close>)
qed

text \<open>The recorded allocations are live.\<close>

definition allocations_live :: "'a procs_scheme \<Rightarrow> process \<Rightarrow> bool" where
  "allocations_live s pr \<longleftrightarrow> (\<forall>a \<in> set (allocations pr). alloc_ptr a \<noteq> 0 \<longrightarrow>
     0 < alloc_size a \<and> (alloc_ptr a, blocks_for (alloc_size a)) \<in> allocs (kernel_heap s))"

lemma allocations_live_page:
  assumes "allocations_live s pr" "a \<in> set (allocations pr)" "alloc_ptr a \<noteq> 0"
  shows "page_of (alloc_ptr a) \<in> live_pages (kernel_heap s)"
proof -
  have "(alloc_ptr a, blocks_for (alloc_size a)) \<in> allocs (kernel_heap s)" "0 < blocks_for (alloc_size a)"
    using assms blocks_for_pos by (auto simp: allocations_live_def)
  then show ?thesis by (force simp: live_pages_def)
qed

lemma process_free_result:
  fixes s :: "'a procs_scheme"
  assumes pr: "processes s p = Some pr" "tasks s (process_task pr) = Some tk"
    "wf_chunk (page_directory tk) (mem s)" "heap_inv (kernel_heap s)"
    and a: "process_get_allocation_by_addr pr ptr = Some \<lparr>alloc_ptr = ptr, alloc_size = sz\<rparr>"
      "0 < sz" "(ptr, blocks_for sz) \<in> allocs (kernel_heap s)" "unat ptr + 4096 * blocks_for sz < 2 ^ 32"
  shows "\<exists>s'. process_free p ptr s = Some s' \<and> processes s' p = Some (process_allocation_unmark pr ptr) \<and>
    heap_inv (kernel_heap s') \<and> allocs (kernel_heap s') = allocs (kernel_heap s) - {(ptr, blocks_for sz)} \<and>
    (\<forall>w. translate tk (mem s') w =
      (if unat (w - ptr) < 4096 * blocks_for sz then w else translate tk (mem s) w))"
proof -
  let ?c = "page_directory tk"
  have pa: "page_aligned ptr" using kz.live_page [OF pr(4) a(3)] by simp
  obtain m' where m': "paging_map_to ?c ptr ptr (paging_align_address (ptr + sz)) 0 (mem s) = (0, m')"
      "\<And>w. paging_get_physical_address (load32 m' ?c) w m' =
        (if unat (w - ptr) < 4096 * blocks_for sz then w else paging_get_physical_address (load32 (mem s) ?c) w (mem s))"
    by (rule map_region [OF pr(3) pa a(2,4), of 0], simp, rule that) assumption+
  define s' where "s' = kernel_free ptr (s\<lparr>mem := m', processes := (processes s)(p \<mapsto> process_allocation_unmark pr ptr)\<rparr>)"
  have "process_free p ptr s = Some s'"
    using pr(1,2) a(1) m'(1) by (simp add: process_free_def s'_def)
  then show ?thesis
    using m'(2) kz.release_live [OF pr(4) a(3)]
    by (intro exI [of _ s']) (simp add: s'_def kernel_free_def translate_def)
qed

section \<open>Properties\<close>

text \<open>
  C28. A successful \<open>process_malloc\<close> returns a region that was not allocated, all zero; it is
  recorded in the first free entry of the table of the process, and in the address space of the
  task exactly the addresses of the region are (re)mapped, each to itself. The process stays
  well formed.
\<close>

theorem process_malloc_fresh:
  fixes s :: "'a procs_scheme"
  assumes "process_ok s p pr tk" "0 < sz" "unat sz \<le> 2 ^ 32 - 4096"
    "kernel_zalloc sz s = Some (ptr, s1)" "ptr \<noteq> 0" "unat ptr + 4096 * blocks_for sz < 2 ^ 32"
    "i < length (allocations pr)" "alloc_ptr (allocations pr ! i) = 0"
    "\<And>j. j < i \<Longrightarrow> alloc_ptr (allocations pr ! j) \<noteq> 0"
  shows "\<exists>s'. process_malloc p sz s = Some (ptr, s') \<and>
    process_ok s' p (pr\<lparr>allocations := (allocations pr)[i := \<lparr>alloc_ptr = ptr, alloc_size = sz\<rparr>]\<rparr>) tk \<and>
    allocs (kernel_heap s') = insert (ptr, blocks_for sz) (allocs (kernel_heap s)) \<and>
    (ptr, blocks_for sz) \<notin> allocs (kernel_heap s) \<and>
    (\<forall>k < unat sz. mem s' (ptr + of_nat k) = 0) \<and>
    (\<forall>w. translate tk (mem s') w =
       (if unat (w - ptr) < 4096 * blocks_for sz then w else translate tk (mem s) w))"
  by (rule process_malloc_result [OF assms]) auto

text \<open>
  C29. \<open>process_malloc\<close> followed by \<open>process_free\<close> of the result gives the memory back: the same
  allocations are live, the heap is well formed, and the table holds the same pointers as
  before.
\<close>

theorem process_malloc_free_roundtrip:
  fixes s :: "'a procs_scheme"
  assumes "process_ok s p pr tk" "0 < sz" "unat sz \<le> 2 ^ 32 - 4096"
    "kernel_zalloc sz s = Some (ptr, s1)" "ptr \<noteq> 0" "unat ptr + 4096 * blocks_for sz < 2 ^ 32"
    "i < length (allocations pr)" "alloc_ptr (allocations pr ! i) = 0"
    "\<And>j. j < i \<Longrightarrow> alloc_ptr (allocations pr ! j) \<noteq> 0" "allocations_live s pr"
  shows "\<exists>s' s'' pr''. process_malloc p sz s = Some (ptr, s') \<and> process_free p ptr s' = Some s'' \<and>
    heap_inv (kernel_heap s'') \<and> allocs (kernel_heap s'') = allocs (kernel_heap s) \<and>
    processes s'' p = Some pr'' \<and> map alloc_ptr (allocations pr'') = map alloc_ptr (allocations pr)"
proof -
  let ?a = "\<lparr>alloc_ptr = ptr, alloc_size = sz\<rparr>"
  let ?pr = "pr\<lparr>allocations := (allocations pr)[i := ?a]\<rparr>"
  obtain s' where s': "process_malloc p sz s = Some (ptr, s')" "process_ok s' p ?pr tk"
      "allocs (kernel_heap s') = insert (ptr, blocks_for sz) (allocs (kernel_heap s))"
      "(ptr, blocks_for sz) \<notin> allocs (kernel_heap s)"
      "live_pages (kernel_heap s) \<inter> {page_of ptr..<page_of ptr + blocks_for sz} = {}"
    by (rule process_malloc_result [OF assms(1-9)]) blast
  have other: "alloc_ptr a \<noteq> ptr" if "a \<in> set (allocations pr)" for a
    using allocations_live_page [OF assms(10) that] s'(5) blocks_for_pos [OF assms(2)] assms(5) by auto
  have nth: "alloc_ptr ((allocations pr)[i := ?a] ! j) = ptr \<longleftrightarrow> j = i" if "j < length (allocations pr)" for j
    using other [of "allocations pr ! j"] that assms(7) by (cases "j = i") auto
  have "process_get_allocation_by_addr ?pr ptr = Some ?a"
    unfolding process_get_allocation_by_addr_def find_Some_iff
  proof (intro exI [of _ i] conjI allI impI)
    show "alloc_ptr (allocations ?pr ! j) \<noteq> ptr" if "j < i" for j
      using nth [of j] that assms(7) by simp
  qed (use assms(7) in simp_all)
  then obtain s'' where s'': "process_free p ptr s' = Some s''"
      "processes s'' p = Some (process_allocation_unmark ?pr ptr)" "heap_inv (kernel_heap s'')"
      "allocs (kernel_heap s'') = allocs (kernel_heap s') - {(ptr, blocks_for sz)}"
    using process_free_result [of s' p ?pr tk ptr sz] s'(2,3) assms(2,6)
    unfolding process_ok_def by (auto simp del: Product_Type.prod.inject)
  have "map alloc_ptr (allocations (process_allocation_unmark ?pr ptr)) = map alloc_ptr (allocations pr)"
  proof (rule nth_equalityI)
    fix j assume "j < length (map alloc_ptr (allocations (process_allocation_unmark ?pr ptr)))"
    then show "map alloc_ptr (allocations (process_allocation_unmark ?pr ptr)) ! j = map alloc_ptr (allocations pr) ! j"
      using nth [of j] assms(7,8) by (cases "j = i") (auto simp: process_allocation_unmark_def)
  qed (simp add: process_allocation_unmark_def)
  with s' s'' show ?thesis by auto
qed

text \<open>
  With a full table \<open>process_malloc\<close> fails: it returns the null pointer, gives the block it
  took back to the heap and leaves the process as it was.
\<close>

theorem process_malloc_table_full:
  fixes s :: "'a procs_scheme"
  assumes "processes s p = Some pr" "\<And>a. a \<in> set (allocations pr) \<Longrightarrow> alloc_ptr a \<noteq> 0"
    "heap_inv (kernel_heap s)" "0 < sz" "unat sz \<le> 2 ^ 32 - 4096" "kernel_zalloc sz s = Some (ptr, s1)"
  shows "\<exists>s'. process_malloc p sz s = Some (0, s') \<and> heap_inv (kernel_heap s') \<and>
    allocs (kernel_heap s') = allocs (kernel_heap s) \<and> processes s' = processes s"
proof -
  obtain m h where s1: "s1 = s\<lparr>mem := m, kernel_heap := h\<rparr>" using kernel_zalloc_shape [OF assms(6)] by blast
  have idx: "process_find_free_allocation_index pr = - 3"
    unfolding process_find_free_allocation_index_def using first_index_none [of "allocations pr"] assms(2) by simp
  show ?thesis
  proof (cases "ptr = 0")
    case True
    then have "kernel_malloc sz s = Some (0, s1)"
      using assms(6) by (auto simp: kernel_zalloc_def split: bind_splits if_splits)
    then have "s1 = s" using kz.malloc_null [OF assms(4,5,3)] by blast
    then show ?thesis using True assms(3,6) by (simp add: process_malloc_def)
  next
    case False
    note r = kernel_zalloc_region [OF assms(3-6) False]
    have "(ptr, blocks_for sz) \<in> allocs (kernel_heap s1)" using r(3) by simp
    from kz.release_live [OF r(1) this] r(3,4) assms(1,6) idx False s1
    show ?thesis by (auto simp: process_malloc_def kernel_free_def)
  qed
qed

text \<open>
  A slot for a new process is the first free one of the table, or the error code if all
  twelve are taken; terminating the current process makes the first remaining process current
  and panics only if none remains.
\<close>

theorem process_slots:
  assumes "length (process_table s) = 12"
  shows "(if 0 \<in> set (process_table s)
     then \<exists>i < 12. process_get_free_slot s = int i \<and> process_get (int i) s = 0 \<and>
       (\<forall>j < i. process_get (int j) s \<noteq> 0)
     else process_get_free_slot s = - INITIALIZE_SLOT_TAKEN) \<and>
    (process_switch_to_any s = None \<longleftrightarrow> (\<forall>i < 12. process_get (int i) s = 0)) \<and>
    (\<forall>s'. process_switch_to_any s = Some s' \<longrightarrow>
       (\<exists>i < 12. current_process s' = process_get (int i) s \<and> current_process s' \<noteq> 0 \<and>
          (\<forall>j < i. process_get (int j) s = 0)))"
proof (intro conjI)
  have get: "process_get (int i) s = process_table s ! i" if "i < 12" for i
    using that by (simp add: process_get_def)
  show "if 0 \<in> set (process_table s)
     then \<exists>i < 12. process_get_free_slot s = int i \<and> process_get (int i) s = 0 \<and>
       (\<forall>j < i. process_get (int j) s \<noteq> 0)
     else process_get_free_slot s = - INITIALIZE_SLOT_TAKEN"
  proof (cases "0 \<in> set (process_table s)")
    case True
    define i where "i = (LEAST i. i < 12 \<and> process_table s ! i = 0)"
    have "\<exists>i. i < 12 \<and> process_table s ! i = 0" using True assms by (auto simp: in_set_conv_nth)
    then have i: "i < 12 \<and> process_table s ! i = 0" unfolding i_def by (rule LeastI_ex)
    have less: "process_table s ! j \<noteq> 0" if "j < i" for j
      using not_less_Least [of j "\<lambda>i. i < 12 \<and> process_table s ! i = 0"] that i by (auto simp: i_def)
    have "process_get_free_slot s = int i"
      using first_index_found [of i "process_table s" "\<lambda>p. p = 0" 0] i less assms
      by (simp add: process_get_free_slot_def)
    with i less get True show ?thesis by (auto intro!: exI [of _ i])
  next
    case False
    then show ?thesis
      using first_index_none [of "process_table s" "\<lambda>p. p = 0"] by (auto simp: process_get_free_slot_def)
  qed
  show "process_switch_to_any s = None \<longleftrightarrow> (\<forall>i < 12. process_get (int i) s = 0)"
    using assms get by (auto simp: process_switch_to_any_def find_None_iff in_set_conv_nth bind_eq_None_conv)
  show "\<forall>s'. process_switch_to_any s = Some s' \<longrightarrow>
       (\<exists>i < 12. current_process s' = process_get (int i) s \<and> current_process s' \<noteq> 0 \<and>
          (\<forall>j < i. process_get (int j) s = 0))"
    using assms get by (auto simp: process_switch_to_any_def process_switch_def bind_eq_Some_conv find_Some_iff)
qed

section \<open>Instances\<close>

lemma paging_new_loop_heap_pages:
  "paging_new_loop i offset d flags s = Some s' \<Longrightarrow> heap_pages (kernel_heap s') = heap_pages (kernel_heap s)"
proof (induction "1024 - i" arbitrary: i offset s)
  case 0
  then have "s' = s" by (subst (asm) paging_new_loop.simps) simp
  then show ?case by simp
next
  case (Suc n)
  then have "i < 1024" by simp
  then obtain e s1 where z: "kernel_zalloc 4096 s = Some (e, s1)"
      "paging_new_loop (Suc i) (offset + 1024 * PAGING_PAGE_SIZE) d flags
         (s1\<lparr>mem := store32 (paging_fill_table e offset flags (mem s1)) (d + 4 * of_nat i)
           (e OR flags OR PAGING_IS_WRITEABLE)\<rparr>) = Some s'"
    using Suc.prems by (subst (asm) paging_new_loop.simps) (auto split: bind_splits)
  moreover have "n = 1024 - Suc i" using Suc.hyps(2) by simp
  ultimately show ?case
    using Suc.hyps(1) [OF _ z(2)] kz_heap_pages [OF z(1)] by simp
qed

lemma paging_new_4gb_heap_pages:
  assumes "paging_new_4gb flags s = Some (c, s')"
  shows "heap_pages (kernel_heap s') = heap_pages (kernel_heap s)"
proof -
  obtain d s1 s2 s3 where "kernel_zalloc 4096 s = Some (d, s1)"
      "paging_new_loop 0 0 d (ucast flags) s1 = Some s2" "kernel_zalloc 4 s2 = Some (c, s3)"
      "s' = s3\<lparr>mem := store32 (mem s3) c d\<rparr>"
    using assms by (auto simp: paging_new_4gb_def split: bind_splits)
  then show ?thesis
    using kz_heap_pages [of 4096 s d s1] paging_new_loop_heap_pages [of 0 0 d "ucast flags" s1 s2]
      kz_heap_pages [of 4 s2 c s3] by simp
qed

text \<open>The demonstration process with a task and a new address space.\<close>

definition with_task :: "addr \<Rightarrow> procs \<Rightarrow> procs" where
  "with_task chunk s = s\<lparr>tasks := [0x300 \<mapsto> zero_task\<lparr>page_directory := chunk\<rparr>],
     processes := [0x2000 \<mapsto> demo_process\<lparr>process_task := 0x300\<rparr>]\<rparr>"

lemma demo_space:
  obtains chunk s ptr s1 where "paging_new_4gb 5 demo_procs = Some (chunk, s)"
    "process_ok (with_task chunk s) 0x2000 (demo_process\<lparr>process_task := 0x300\<rparr>) (zero_task\<lparr>page_directory := chunk\<rparr>)"
    "kernel_zalloc 100 (with_task chunk s) = Some (ptr, s1)" "ptr \<noteq> 0" "unat ptr + 4096 < 2 ^ 32"
proof -
  have ok: "heap_inv (kernel_heap demo_procs)" "1026 \<le> free_blocks (kernel_heap demo_procs)"
    by (rule heap_inv_fresh [of _ 25600]) (simp_all add: demo_procs_def page_aligned_def free_blocks_def)
  obtain chunk d tbl s where new: "paging_new_4gb 5 demo_procs = Some (chunk, s)"
      and fresh: "fresh_chunk (ucast (5 :: byte)) demo_procs chunk d tbl s"
    by (rule paging_new_4gb_result [OF ok])
  have hi: "heap_inv (kernel_heap s)" and fb: "25600 = free_blocks (kernel_heap s) + 1026"
    using fresh by (auto simp: fresh_chunk_def demo_procs_def free_blocks_def)
  then have "process_ok (with_task chunk s) 0x2000 (demo_process\<lparr>process_task := 0x300\<rparr>) (zero_task\<lparr>page_directory := chunk\<rparr>)"
    using fresh_chunk_wf [OF fresh] fresh_chunk_pages(2) [OF fresh]
    by (simp add: process_ok_def with_task_def zero_task_def)
  moreover obtain ptr s1 where z: "kernel_zalloc 100 (with_task chunk s) = Some (ptr, s1)" "ptr \<noteq> 0"
      "page_of ptr \<in> heap_pages (kernel_heap (with_task chunk s))" "page_aligned ptr"
    by (rule kernel_zalloc_page [of "with_task chunk s" 100]) (use hi fb in \<open>auto simp: with_task_def\<close>)
  moreover have "heap_pages (kernel_heap s) = heap_pages (kernel_heap demo_procs)"
    using paging_new_4gb_heap_pages [OF new] .
  then have "page_of ptr < 29696"
    using z(3) by (simp add: with_task_def heap_pages_def demo_procs_def page_of_def total_def)
  then have "unat ptr + 4096 < 2 ^ 32"
    using z(4) div_mult_mod_eq [of "unat ptr" 4096] by (simp add: page_of_def page_aligned_def)
  ultimately show ?thesis using new that by blast
qed

lemma demo_process_table:
  "allocations demo_process \<noteq> []" "alloc_ptr (allocations demo_process ! 0) = 0"
  "allocations_live s (demo_process\<lparr>process_task := 0x300\<rparr>)"
  by (simp_all add: demo_process_def allocations_live_def)

lemma blocks_for_100: "blocks_for 100 = 1"
  by (simp add: blocks_for_def)

theorem process_malloc_fresh_witness:
  "\<exists>chunk s ptr s'. paging_new_4gb 5 demo_procs = Some (chunk, s) \<and> ptr \<noteq> 0 \<and>
     process_malloc 0x2000 100 (with_task chunk s) = Some (ptr, s') \<and> mem s' (ptr + 99) = 0"
proof -
  obtain chunk s ptr s1 where d: "paging_new_4gb 5 demo_procs = Some (chunk, s)"
      "process_ok (with_task chunk s) 0x2000 (demo_process\<lparr>process_task := 0x300\<rparr>) (zero_task\<lparr>page_directory := chunk\<rparr>)"
      "kernel_zalloc 100 (with_task chunk s) = Some (ptr, s1)" "ptr \<noteq> 0" "unat ptr + 4096 < 2 ^ 32"
    by (rule demo_space)
  from process_malloc_fresh [OF d(2) _ _ d(3,4), of 0] d(5)
  obtain s' where "process_malloc 0x2000 100 (with_task chunk s) = Some (ptr, s')"
      "\<forall>k < 100. mem s' (ptr + of_nat k) = 0"
    by (auto simp: blocks_for_100 demo_process_table)
  moreover from this(2) have "mem s' (ptr + 99) = 0" by (auto dest: spec [of _ 99])
  ultimately show ?thesis using d(1,4) by blast
qed

theorem process_malloc_free_roundtrip_witness:
  "\<exists>chunk s ptr s' s''. paging_new_4gb 5 demo_procs = Some (chunk, s) \<and>
     process_malloc 0x2000 100 (with_task chunk s) = Some (ptr, s') \<and> process_free 0x2000 ptr s' = Some s'' \<and>
     allocs (kernel_heap s'') = allocs (kernel_heap s)"
proof -
  obtain chunk s ptr s1 where d: "paging_new_4gb 5 demo_procs = Some (chunk, s)"
      "process_ok (with_task chunk s) 0x2000 (demo_process\<lparr>process_task := 0x300\<rparr>) (zero_task\<lparr>page_directory := chunk\<rparr>)"
      "kernel_zalloc 100 (with_task chunk s) = Some (ptr, s1)" "ptr \<noteq> 0" "unat ptr + 4096 < 2 ^ 32"
    by (rule demo_space)
  have "kernel_heap (with_task chunk s) = kernel_heap s" by (simp add: with_task_def)
  with process_malloc_free_roundtrip [OF d(2) _ _ d(3,4), of 0] d(5)
  obtain s' s'' where "process_malloc 0x2000 100 (with_task chunk s) = Some (ptr, s')"
      "process_free 0x2000 ptr s' = Some s''" "allocs (kernel_heap s'') = allocs (kernel_heap s)"
    by (auto simp: blocks_for_100 demo_process_table)
  with d(1) show ?thesis by blast
qed

text \<open>A process with a table of one entry, taken.\<close>

definition full_procs :: procs where
  "full_procs = demo_procs\<lparr>processes :=
     [0x2000 \<mapsto> demo_process\<lparr>allocations := [\<lparr>alloc_ptr = 0x5000, alloc_size = 1\<rparr>]\<rparr>]\<rparr>"

theorem process_malloc_table_full_witness:
  "\<exists>s'. process_malloc 0x2000 100 full_procs = Some (0, s') \<and>
     allocs (kernel_heap s') = allocs (kernel_heap full_procs)"
proof -
  have inv: "heap_inv (kernel_heap full_procs)"
    by (rule heap_inv_fresh [of _ 25600]) (simp_all add: full_procs_def demo_procs_def page_aligned_def)
  obtain ptr s1 where "kernel_zalloc 100 full_procs = Some (ptr, s1)"
    by (rule kernel_zalloc_page [of full_procs 100])
       (use inv in \<open>auto simp: full_procs_def demo_procs_def free_blocks_def\<close>)
  moreover have "processes full_procs 0x2000 =
      Some (demo_process\<lparr>allocations := [\<lparr>alloc_ptr = 0x5000, alloc_size = 1\<rparr>]\<rparr>)"
    by (simp add: full_procs_def)
  ultimately show ?thesis
    using process_malloc_table_full [of full_procs "0x2000" _ 100 ptr s1] inv by auto
qed

theorem process_slots_witness: "process_get_free_slot demo_procs = 1"
proof -
  have "length (process_table demo_procs) = 12" "0 \<in> set (process_table demo_procs)"
    by (simp_all add: demo_procs_def)
  with process_slots [of demo_procs] obtain i where i: "i < 12" "process_get_free_slot demo_procs = int i"
      "process_get (int i) demo_procs = 0" "\<forall>j < i. process_get (int j) demo_procs \<noteq> 0"
    by auto
  have "process_get 0 demo_procs \<noteq> 0" "process_get 1 demo_procs = 0"
    by (simp_all add: process_get_def demo_procs_def)
  then have "i \<noteq> 0" using i(3) by (intro notI) simp
  moreover have "\<not> 1 < i"
  proof
    assume "1 < i"
    with i(4) have "process_get (int 1) demo_procs \<noteq> 0" by blast
    with \<open>process_get 1 demo_procs = 0\<close> show False by simp
  qed
  ultimately have "i = 1" by simp
  with i(2) show ?thesis by simp
qed

end
