(* ===== verification/Loader.thy ===== *)
theory Loader
  imports Process
begin

text \<open>
  Loading programs: \<open>elf_load\<close> of \<^verbatim>\<open>src/src/loader/formats/elfloader.c\<close> and the loading half of
  \<^verbatim>\<open>src/src/task/process.c\<close>, from \<open>process_load_binary\<close> to \<open>process_load_switch\<close>. A pointer that
  a function returns through its argument is a part of the result; it is the old value if the
  function does not set it.
\<close>

section \<open>Definitions\<close>

text \<open>The string constants \<^verbatim>\<open>"r"\<close> and \<^verbatim>\<open>"0:/"\<close>.\<close>

definition lit_r :: "byte list" where "lit_r = [0x72]"
definition lit_drive :: "byte list" where "lit_drive = [0x30, 0x3A, 0x2F]"

definition zero_elf_file :: elf_file where
  "zero_elf_file = \<lparr>elf_filename = replicate 108 0, in_memory_size = 0, elf_mem = 0, virtual_base_address = 0,
     virtual_end_address = 0, physical_base_address = 0, physical_end_address = 0\<rparr>"

text \<open>
  After \<open>out\<close> the descriptor is closed, whatever the result. The object for the file is written to
  without a test of the pointer.
\<close>

definition elf_load_file :: "int \<Rightarrow> addr \<Rightarrow> 'a procs_scheme \<Rightarrow> (int \<times> 'a procs_scheme) option" where
  "elf_load_file fd f s = do {
     (res, stat) \<leftarrow> fstat fd \<lparr>stat_flags = 0, stat_filesize = 0\<rparr> s;
     if res < 0 then Some (res, s)
     else if f = 0 then None
     else do {
       (buf, s) \<leftarrow> kernel_zalloc (stat_filesize stat) s;
       let s = s\<lparr>elf_files := (elf_files s)(f \<mapsto> zero_elf_file\<lparr>elf_mem := buf\<rparr>)\<rparr>;
       (res, s) \<leftarrow> fread buf (stat_filesize stat) 1 fd s;
       if res < 0 then Some (res, s)
       else do {
         ef \<leftarrow> elf_files s f;
         let (res, ef) = elf_process_loaded (mem s) ef;
         Some (res, s\<lparr>elf_files := (elf_files s)(f \<mapsto> ef)\<rparr>)
       }
     }
   }"

definition elf_load :: "addr \<Rightarrow> addr \<Rightarrow> 'a procs_scheme \<Rightarrow> (int \<times> addr \<times> 'a procs_scheme) option" where
  "elf_load filename file_out s = do {
     (f, s) \<leftarrow> kernel_zalloc 132 s;
     (res, s) \<leftarrow> fopen filename (literal_addr s lit_r) s;
     if res \<le> 0 then do { (r, s) \<leftarrow> fclose 0 s; Some (- IO_ERROR, file_out, s) }
     else do {
       let fd = res;
       (res, s) \<leftarrow> elf_load_file fd f s;
       (r, s) \<leftarrow> fclose fd s;
       Some (res, if res < 0 then file_out else f, s)
     }
   }"

text \<open>The data of a program between opening and closing its file.\<close>

definition process_load_binary_file :: "int \<Rightarrow> addr \<Rightarrow> 'a procs_scheme \<Rightarrow> (int \<times> 'a procs_scheme) option" where
  "process_load_binary_file fd p s = do {
     (res, stat) \<leftarrow> fstat fd \<lparr>stat_flags = 0, stat_filesize = 0\<rparr> s;
     if res \<noteq> ALL_OK then Some (res, s)
     else do {
       (program_data_ptr, s) \<leftarrow> kernel_zalloc (stat_filesize stat) s;
       if program_data_ptr = 0 then Some (- NO_MEMORY_ERROR, s)
       else do {
         (r, s) \<leftarrow> fread program_data_ptr (stat_filesize stat) 1 fd s;
         if r \<noteq> 1 then Some (- IO_ERROR, s)
         else do {
           pr \<leftarrow> processes s p;
           Some (res, s\<lparr>processes := (processes s)(p \<mapsto> pr\<lparr>filetype := PROCESS_FILETYPE_BINARY,
             process_ptr := program_data_ptr, process_size := stat_filesize stat\<rparr>)\<rparr>)
         }
       }
     }
   }"

definition process_load_binary :: "addr \<Rightarrow> addr \<Rightarrow> 'a procs_scheme \<Rightarrow> (int \<times> 'a procs_scheme) option" where
  "process_load_binary filename p s = do {
     (fd, s) \<leftarrow> fopen filename (literal_addr s lit_r) s;
     (res, s) \<leftarrow> (if fd = 0 then Some (- IO_ERROR, s) else process_load_binary_file fd p s);
     (r, s) \<leftarrow> fclose fd s;
     Some (res, s)
   }"

definition process_load_elf :: "addr \<Rightarrow> addr \<Rightarrow> 'a procs_scheme \<Rightarrow> (int \<times> 'a procs_scheme) option" where
  "process_load_elf filename p s = do {
     (res, elf_file, s) \<leftarrow> elf_load filename 0 s;
     if res < 0 then Some (res, s)
     else do {
       pr \<leftarrow> processes s p;
       Some (res, s\<lparr>processes := (processes s)(p \<mapsto> pr\<lparr>filetype := PROCESS_FILETYPE_ELF, process_ptr := elf_file\<rparr>)\<rparr>)
     }
   }"

definition process_load_data :: "addr \<Rightarrow> addr \<Rightarrow> 'a procs_scheme \<Rightarrow> (int \<times> 'a procs_scheme) option" where
  "process_load_data filename p s = do {
     (res, s) \<leftarrow> process_load_elf filename p s;
     if res = - INVALID_FORMAT_ERROR then process_load_binary filename p s else Some (res, s)
   }"

text \<open>\<open>strncpy\<close> into an array of bytes that is a field of an object.\<close>

function strncpy_field :: "memory \<Rightarrow> addr \<Rightarrow> int \<Rightarrow> nat \<Rightarrow> byte list \<Rightarrow> byte list" where
  "strncpy_field m src count i dest =
     (if int i < count - 1 \<and> m (src + of_nat i) \<noteq> 0
      then strncpy_field m src count (Suc i) (dest[i := m (src + of_nat i)])
      else dest[i := 0])"
  by pat_completeness auto
termination
  by (relation "measure (\<lambda>(m, src, count, i, dest). nat (count - 1 - int i))") auto

declare strncpy_field.simps [simp del]

text \<open>
  The steps after the data of the program has been loaded. The test of the result of \<open>task_new\<close>
  is for the null pointer, which leaves the result at 0.
\<close>

definition process_load_task :: "addr \<Rightarrow> addr \<Rightarrow> int \<Rightarrow> addr \<Rightarrow> 'a procs_scheme \<Rightarrow> (int \<times> addr \<times> 'a procs_scheme) option" where
  "process_load_task filename p process_slot out s = do {
     (program_stack_ptr, s) \<leftarrow> kernel_zalloc OS_USER_PROGRAM_VIRTUAL_STACK_SIZE s;
     if program_stack_ptr = 0 then Some (- NO_MEMORY_ERROR, out, s)
     else do {
       pr \<leftarrow> processes s p;
       let s = s\<lparr>processes := (processes s)(p \<mapsto> pr\<lparr>
             process_filename := strncpy_field (mem s) filename 108 0 (process_filename pr),
             stack := program_stack_ptr, process_id := word_of_int process_slot\<rparr>)\<rparr>;
       (t, s) \<leftarrow> task_new p s;
       if ERROR_I t = 0 then Some (ERROR_I t, out, s)
       else do {
         pr \<leftarrow> processes s p;
         let s = s\<lparr>processes := (processes s)(p \<mapsto> pr\<lparr>process_task := t\<rparr>)\<rparr>;
         (res, s) \<leftarrow> process_map_memory p s;
         if res < 0 then Some (res, out, s)
         else Some (res, p, s\<lparr>process_table := (process_table s)[nat process_slot := p]\<rparr>)
       }
     }
   }"

text \<open>If the slot is taken, \<open>_process\<close> is read after \<open>out\<close> without ever having been set.\<close>

definition process_load_for_slot ::
    "addr \<Rightarrow> addr \<Rightarrow> int \<Rightarrow> 'a procs_scheme \<Rightarrow> (int \<times> addr \<times> 'a procs_scheme) option" where
  "process_load_for_slot filename out process_slot s =
     (if process_get process_slot s \<noteq> 0 then None
      else do {
        (p, s) \<leftarrow> kernel_zalloc 9364 s;
        if p = 0 then Some (- NO_MEMORY_ERROR, out, s)
        else do {
          (res, s) \<leftarrow> process_load_data filename p (process_init p s);
          (res, out, s) \<leftarrow> (if res < 0 then Some (res, out, s) else process_load_task filename p process_slot out s);
          pr \<leftarrow> processes s p;
          if res < 0 \<and> process_task pr \<noteq> 0
          then do { (r, s) \<leftarrow> task_free (process_task pr) s; Some (res, out, s) }
          else Some (res, out, s)
        }
      })"

definition process_load :: "addr \<Rightarrow> addr \<Rightarrow> 'a procs_scheme \<Rightarrow> (int \<times> addr \<times> 'a procs_scheme) option" where
  "process_load filename out s =
     (let process_slot = process_get_free_slot s
      in if process_slot < 0 then Some (- NO_MEMORY_ERROR, out, s)
         else process_load_for_slot filename out process_slot s)"

definition process_load_switch :: "addr \<Rightarrow> addr \<Rightarrow> 'a procs_scheme \<Rightarrow> (int \<times> addr \<times> 'a procs_scheme) option" where
  "process_load_switch filename out s = do {
     (res, out, s) \<leftarrow> process_load filename out s;
     if res = 0 then Some (res, out, snd (process_switch out s)) else Some (res, out, s)
   }"

end
