(* ===== verification/Keyboard.thy ===== *)
theory Keyboard
  imports Process
begin

text \<open>
  Keyboards, \<^verbatim>\<open>src/src/keyboard/keyboard.c\<close> and \<^verbatim>\<open>classic.c\<close>: the ring buffer of a process, the
  list of keyboards, and the driver with its interrupt handler. The registration of interrupt
  callbacks from \<^verbatim>\<open>idt.c\<close> is here because the driver uses it. A buffer is abstracted to the
  list of pending characters; the locale \<open>fifo\<close> is the contract of a bounded queue, and the
  main result is that what is typed arrives in order.
\<close>

section \<open>Definitions\<close>

definition OS_KEYBOARD_BUFFER_SIZE :: nat where [simp]: "OS_KEYBOARD_BUFFER_SIZE = 1024"
definition TOTAL_INTERRUPTS :: nat where [simp]: "TOTAL_INTERRUPTS = 512"
definition KEYBOARD_CAPS_LOCK_ON :: int where [simp]: "KEYBOARD_CAPS_LOCK_ON = 1"
definition KEYBOARD_CAPS_LOCK_OFF :: int where [simp]: "KEYBOARD_CAPS_LOCK_OFF = 0"

datatype keyboard_ptr = NullKeyboard | ClassicKeyboard

text \<open>The function pointers of the source: which function a pointer holds.\<close>

datatype keyboard_init_function = NoInit | ClassicInit

datatype interrupt_callback = NoCallback | ExceptionCallback | ClockCallback | KeyboardCallback

record keyboard =
  init :: keyboard_init_function
  keyboard_name :: "byte list"
  capslock_state :: int
  keyboard_next :: keyboard_ptr

record io_state = procs +
  keyboards :: "keyboard_ptr \<rightharpoonup> keyboard"
  keyboard_list_head :: keyboard_ptr
  keyboard_list_last :: keyboard_ptr
  interrupt_callbacks :: "interrupt_callback list"

subsection \<open>Buffers\<close>

definition keyboard_get_tail_index :: "process \<Rightarrow> nat" where
  "keyboard_get_tail_index pr = nat (ktail (keyboard pr) mod 1024)"

definition keyboard_backspace :: "addr \<Rightarrow> 'a procs_scheme \<Rightarrow> 'a procs_scheme option" where
  "keyboard_backspace p s = do {
     pr \<leftarrow> processes s p;
     let kb = (keyboard pr)\<lparr>ktail := ktail (keyboard pr) - 1\<rparr>;
     let real_index = keyboard_get_tail_index (pr\<lparr>keyboard := kb\<rparr>);
     Some (s\<lparr>processes := (processes s)(p \<mapsto>
       pr\<lparr>keyboard := kb\<lparr>kbuffer := (kbuffer kb)[real_index := 0]\<rparr>\<rparr>)\<rparr>)
   }"

definition keyboard_push :: "byte \<Rightarrow> 'a procs_scheme \<Rightarrow> 'a procs_scheme option" where
  "keyboard_push c s =
     (let p = process_current s
      in if p = 0 then Some s
         else if c = 0 then Some s
         else do {
           pr \<leftarrow> processes s p;
           let real_index = keyboard_get_tail_index pr;
           let kb = keyboard pr;
           Some (s\<lparr>processes := (processes s)(p \<mapsto>
             pr\<lparr>keyboard := kb\<lparr>kbuffer := (kbuffer kb)[real_index := c], ktail := ktail kb + 1\<rparr>\<rparr>)\<rparr>)
         })"

definition keyboard_pop :: "'a procs_scheme \<Rightarrow> (byte \<times> 'a procs_scheme) option" where
  "keyboard_pop s =
     (if task_current s = 0 then Some (0, s)
      else do {
        tk \<leftarrow> tasks s (task_current s);
        pr \<leftarrow> processes s (task_process tk);
        let kb = keyboard pr;
        let real_index = nat (khead kb mod 1024);
        let c = kbuffer kb ! real_index;
        if c = 0 then Some (0, s)
        else Some (c, s\<lparr>processes := (processes s)(task_process tk \<mapsto>
               pr\<lparr>keyboard := kb\<lparr>kbuffer := (kbuffer kb)[real_index := 0], khead := khead kb + 1\<rparr>\<rparr>)\<rparr>)
      })"

subsection \<open>The list of keyboards and the classic driver\<close>

definition keyboard_set_capslock :: "keyboard_ptr \<Rightarrow> int \<Rightarrow> 'a io_state_scheme \<Rightarrow> 'a io_state_scheme option" where
  "keyboard_set_capslock k state s = do {
     kd \<leftarrow> keyboards s k;
     Some (s\<lparr>keyboards := (keyboards s)(k \<mapsto> kd\<lparr>capslock_state := state\<rparr>)\<rparr>)
   }"

definition keyboard_get_capslock :: "keyboard_ptr \<Rightarrow> 'a io_state_scheme \<Rightarrow> int option" where
  "keyboard_get_capslock k s = map_option capslock_state (keyboards s k)"

definition idt_register_interrupt_callback ::
    "int \<Rightarrow> interrupt_callback \<Rightarrow> 'a io_state_scheme \<Rightarrow> int \<times> 'a io_state_scheme" where
  "idt_register_interrupt_callback interrupt cb s =
     (if interrupt < 0 \<or> int TOTAL_INTERRUPTS \<le> interrupt then (- INVALID_ARGUMENT_ERROR, s)
      else (0, s\<lparr>interrupt_callbacks := (interrupt_callbacks s)[nat interrupt := cb]\<rparr>))"

definition classic_keyboard_init :: "'a io_state_scheme \<Rightarrow> (int \<times> 'a io_state_scheme) option" where
  "classic_keyboard_init s = do {
     let s = snd (idt_register_interrupt_callback 0x21 KeyboardCallback s);
     s \<leftarrow> keyboard_set_capslock ClassicKeyboard KEYBOARD_CAPS_LOCK_OFF s;
     Some (0, outb 0x64 0xAE s)
   }"

definition keyboard_insert :: "keyboard_ptr \<Rightarrow> 'a io_state_scheme \<Rightarrow> (int \<times> 'a io_state_scheme) option" where
  "keyboard_insert k s = do {
     kd \<leftarrow> keyboards s k;
     if init kd = NoInit then Some (- INVALID_ARGUMENT_ERROR, s)
     else do {
       s \<leftarrow> (if keyboard_list_last s \<noteq> NullKeyboard then do {
                 l \<leftarrow> keyboards s (keyboard_list_last s);
                 Some (s\<lparr>keyboards := (keyboards s)(keyboard_list_last s \<mapsto> l\<lparr>keyboard_next := k\<rparr>),
                         keyboard_list_last := k\<rparr>)
               } else Some (s\<lparr>keyboard_list_head := k, keyboard_list_last := k\<rparr>));
       classic_keyboard_init s
     }
   }"

definition classic_init :: keyboard_ptr where "classic_init = ClassicKeyboard"

definition keyboard_init :: "'a io_state_scheme \<Rightarrow> 'a io_state_scheme option" where
  "keyboard_init s = do { (r, s) \<leftarrow> keyboard_insert classic_init s; Some s }"

definition keyboard_scan_set_one :: "byte list" where
  "keyboard_scan_set_one =
    [0x00, 0x1B, 49, 50, 51, 52, 53, 54, 55, 56, 57, 48,
     45, 61, 0x08, 9, 81, 87, 69, 82, 84, 89, 85, 73,
     79, 80, 91, 93, 0x0d, 0x00, 65, 83, 68, 70, 71, 72,
     74, 75, 76, 59, 39, 96, 0x00, 92, 90, 88, 67, 86,
     66, 78, 77, 44, 46, 47, 0x00, 42, 0x00, 0x20, 0x00, 0x00,
     0x00, 0x00, 0x00, 0x00, 0x00, 0x00, 0x00, 0x00, 0x00, 55, 56, 57,
     45, 52, 53, 54, 43, 49, 50, 51, 48, 46]"

text \<open>The bound check lets the index one past the end through; that access is undefined.\<close>

definition classic_keyboard_scancode_to_char :: "byte \<Rightarrow> 'a io_state_scheme \<Rightarrow> byte option" where
  "classic_keyboard_scancode_to_char scancode s =
     (if unat scancode > length keyboard_scan_set_one then Some 0
      else if unat scancode = length keyboard_scan_set_one then None
      else do {
        caps \<leftarrow> keyboard_get_capslock ClassicKeyboard s;
        let c = keyboard_scan_set_one ! unat scancode;
        Some (if 65 \<le> sint c \<and> sint c \<le> 90 \<and> caps = KEYBOARD_CAPS_LOCK_OFF then c + 32 else c)
      })"

definition classic_keyboard_handle_interrupt :: "'a io_state_scheme \<Rightarrow> 'a io_state_scheme option" where
  "classic_keyboard_handle_interrupt s = do {
     let s = kernel_page s;
     let (scancode, s) = insb 0x60 s;
     let (_, s) = insb 0x60 s;
     if scancode AND 0x80 \<noteq> 0 then Some s
     else do {
       s \<leftarrow> (if scancode = 0x3A then do {
                 old_state \<leftarrow> keyboard_get_capslock ClassicKeyboard s;
                 keyboard_set_capslock ClassicKeyboard
                   (if old_state = KEYBOARD_CAPS_LOCK_ON then KEYBOARD_CAPS_LOCK_OFF else KEYBOARD_CAPS_LOCK_ON) s
               } else Some s);
       c \<leftarrow> classic_keyboard_scancode_to_char scancode s;
       s \<leftarrow> (if c \<noteq> 0 then keyboard_push c s else Some s);
       (r, s) \<leftarrow> task_page s;
       Some s
     }
   }"

section \<open>The contract of a bounded queue\<close>

locale fifo =
  fixes inv :: "'b \<Rightarrow> bool" and contents :: "'b \<Rightarrow> byte list" and capacity :: nat
    and push :: "byte \<Rightarrow> 'b \<Rightarrow> 'b" and pop :: "'b \<Rightarrow> byte \<times> 'b"
  assumes push_inv: "inv b \<Longrightarrow> c \<noteq> 0 \<Longrightarrow> length (contents b) < capacity \<Longrightarrow> inv (push c b)"
    and push_contents: "inv b \<Longrightarrow> c \<noteq> 0 \<Longrightarrow> length (contents b) < capacity \<Longrightarrow>
      contents (push c b) = contents b @ [c]"
    and pop_empty: "inv b \<Longrightarrow> contents b = [] \<Longrightarrow> pop b = (0, b)"
    and pop_first: "inv b \<Longrightarrow> contents b = c # cs \<Longrightarrow>
      fst (pop b) = c \<and> inv (snd (pop b)) \<and> contents (snd (pop b)) = cs"
begin

lemma push_all:
  assumes "inv b" "0 \<notin> set cs" "length (contents b) + length cs \<le> capacity"
  shows "inv (fold push cs b) \<and> contents (fold push cs b) = contents b @ cs"
  using assms
proof (induction cs arbitrary: b)
  case (Cons c cs)
  then have "inv (push c b)" "contents (push c b) = contents b @ [c]"
    using push_inv [of b c] push_contents [of b c] by auto
  with Cons show ?case by simp
qed simp

fun pops :: "nat \<Rightarrow> 'b \<Rightarrow> byte list \<times> 'b" where
  "pops 0 b = ([], b)"
| "pops (Suc n) b = (let (c, b) = pop b; (cs, b) = pops n b in (c # cs, b))"

lemma pops_contents:
  assumes "inv b" "n \<le> length (contents b)"
  shows "fst (pops n b) = take n (contents b) \<and> inv (snd (pops n b)) \<and>
    contents (snd (pops n b)) = drop n (contents b)"
  using assms
proof (induction n arbitrary: b)
  case (Suc n)
  then obtain c cs where c: "contents b = c # cs" by (cases "contents b") auto
  note p = pop_first [OF Suc.prems(1) c]
  with Suc.IH [of "snd (pop b)"] Suc.prems c show ?case
    by (simp add: split_beta)
qed simp

end

section \<open>The ring buffer is a bounded queue\<close>

text \<open>The effect of the operations on one buffer, its pending characters and its invariant.\<close>

definition kb_push :: "byte \<Rightarrow> keyboard_buffer \<Rightarrow> keyboard_buffer" where
  "kb_push c b = b\<lparr>kbuffer := (kbuffer b)[nat (ktail b mod 1024) := c], ktail := ktail b + 1\<rparr>"

definition kb_pop :: "keyboard_buffer \<Rightarrow> byte \<times> keyboard_buffer" where
  "kb_pop b = (let i = nat (khead b mod 1024); c = kbuffer b ! i
     in if c = 0 then (0, b) else (c, b\<lparr>kbuffer := (kbuffer b)[i := 0], khead := khead b + 1\<rparr>))"

definition kb_slot :: "keyboard_buffer \<Rightarrow> nat \<Rightarrow> nat" where
  "kb_slot b k = nat ((khead b + int k) mod 1024)"

definition kb_count :: "keyboard_buffer \<Rightarrow> nat" where
  "kb_count b = nat (ktail b - khead b)"

definition kb_contents :: "keyboard_buffer \<Rightarrow> byte list" where
  "kb_contents b = map (\<lambda>k. kbuffer b ! kb_slot b k) [0..<kb_count b]"

definition kb_inv :: "keyboard_buffer \<Rightarrow> bool" where
  "kb_inv b \<longleftrightarrow> length (kbuffer b) = 1024 \<and> khead b \<le> ktail b \<and> ktail b \<le> khead b + 1024 \<and>
     (\<forall>k < 1024. kbuffer b ! kb_slot b k \<noteq> 0 \<longleftrightarrow> k < kb_count b)"

lemma kb_slot_less: "kb_slot b k < 1024"
  by (simp add: kb_slot_def nat_less_iff)

lemma kb_slot_inject:
  assumes "k < 1024" "l < 1024"
  shows "kb_slot b k = kb_slot b l \<longleftrightarrow> k = l"
proof
  assume "kb_slot b k = kb_slot b l"
  then have "(khead b + int k) mod 1024 = (khead b + int l) mod 1024"
    by (simp add: kb_slot_def)
  then have "1024 dvd (khead b + int k) - (khead b + int l)" by (simp add: mod_eq_dvd_iff)
  then have "1024 dvd int k - int l" by simp
  moreover have "\<bar>int k - int l\<bar> < 1024" using assms by linarith
  ultimately show "k = l" using dvd_imp_le_int [of "int k - int l" 1024] by auto
qed simp

lemma kb_push_slot:
  assumes "kb_inv b"
  shows "nat (ktail b mod 1024) = kb_slot b (kb_count b)"
  using assms by (simp add: kb_slot_def kb_count_def kb_inv_def)

lemma kb_push_nth:
  assumes "kb_inv b" "kb_count b < 1024" "k < 1024"
  shows "kbuffer (kb_push c b) ! kb_slot (kb_push c b) k = (if k = kb_count b then c else kbuffer b ! kb_slot b k)"
proof -
  have "kb_slot (kb_push c b) k = kb_slot b k" by (simp add: kb_slot_def kb_push_def)
  moreover have "kbuffer (kb_push c b) = (kbuffer b)[kb_slot b (kb_count b) := c]"
    using kb_push_slot [OF assms(1)] by (simp add: kb_push_def)
  ultimately show ?thesis
    using assms kb_slot_inject [OF assms(3,2), of b] kb_slot_less [of b] by (auto simp: kb_inv_def)
qed

lemma kb_push_count: "kb_inv b \<Longrightarrow> kb_count (kb_push c b) = Suc (kb_count b)"
  unfolding kb_count_def kb_push_def kb_inv_def by (simp, linarith)

lemma kb_push_queue:
  assumes "kb_inv b" "c \<noteq> 0" "kb_count b < 1024"
  shows "kb_inv (kb_push c b)" "kb_contents (kb_push c b) = kb_contents b @ [c]"
proof -
  note nth = kb_push_nth [OF assms(1,3), of _ c] and cnt = kb_push_count [OF assms(1), of c]
  show "kb_inv (kb_push c b)"
    unfolding kb_inv_def cnt using assms nth
    by (auto simp: kb_inv_def kb_push_def kb_count_def less_Suc_eq)
  show "kb_contents (kb_push c b) = kb_contents b @ [c]"
    using nth assms(3) by (simp add: kb_contents_def cnt)
qed

lemma kb_pop_queue:
  assumes "kb_inv b" "0 < kb_count b"
  shows "fst (kb_pop b) = kbuffer b ! kb_slot b 0" "kb_inv (snd (kb_pop b))"
    "kb_contents (snd (kb_pop b)) = tl (kb_contents b)"
proof -
  have ne: "kbuffer b ! kb_slot b 0 \<noteq> 0" using assms by (simp add: kb_inv_def)
  have slot0: "nat (khead b mod 1024) = kb_slot b 0" by (simp add: kb_slot_def)
  show "fst (kb_pop b) = kbuffer b ! kb_slot b 0"
    by (simp add: kb_pop_def Let_def slot0)
  define b' where "b' = b\<lparr>kbuffer := (kbuffer b)[kb_slot b 0 := 0], khead := khead b + 1\<rparr>"
  have b': "snd (kb_pop b) = b'"
    using ne by (simp add: kb_pop_def Let_def slot0 b'_def)
  have slot: "kb_slot b' k = (if k = 1023 then kb_slot b 0 else kb_slot b (Suc k))" if "k < 1024" for k
    by (simp add: kb_slot_def b'_def algebra_simps)
  have cnt: "kb_count b' = kb_count b - 1" by (simp add: kb_count_def b'_def)
  have nth: "kbuffer b' ! kb_slot b' k = (if k = 1023 then 0 else kbuffer b ! kb_slot b (Suc k))" if "k < 1024" for k
    using assms(1) that slot [OF that] kb_slot_inject [of "Suc k" 0 b] kb_slot_less [of b 0]
    by (auto simp: b'_def kb_inv_def)
  have le: "kb_count b \<le> 1024" using assms(1) unfolding kb_count_def kb_inv_def by linarith
  show "kb_inv (snd (kb_pop b))"
    unfolding b' kb_inv_def cnt using nth assms le
    by (auto simp: kb_inv_def b'_def kb_count_def less_Suc_eq split: if_splits)
  have "kb_contents b = map (\<lambda>k. kbuffer b ! kb_slot b k) (0 # map Suc [0..<kb_count b - 1])"
    using assms(2) by (simp add: kb_contents_def map_Suc_upt upt_conv_Cons del: list.map)
  then have "tl (kb_contents b) = map (\<lambda>k. kbuffer b ! kb_slot b (Suc k)) [0..<kb_count b - 1]" by (simp add: comp_def)
  then show "kb_contents (snd (kb_pop b)) = tl (kb_contents b)"
    unfolding b' kb_contents_def [of b'] cnt using nth le by auto
qed

lemma length_kb_contents [simp]: "length (kb_contents b) = kb_count b"
  by (simp add: kb_contents_def)

interpretation kb: fifo kb_inv kb_contents 1024 kb_push kb_pop
proof unfold_locales
  fix b :: keyboard_buffer
  assume "kb_inv b" "kb_contents b = []"
  moreover from this(2) have "kb_count b = 0" by (metis length_kb_contents list.size(3))
  ultimately show "kb_pop b = (0, b)"
    by (auto simp: kb_pop_def kb_inv_def kb_slot_def dest: spec [of _ 0])
next
  fix b :: keyboard_buffer and c cs
  assume b: "kb_inv b" "kb_contents b = c # cs"
  then have "0 < kb_count b" by (metis length_kb_contents length_greater_0_conv list.distinct(1))
  moreover have "kbuffer b ! kb_slot b 0 = c"
    using b(2) \<open>0 < kb_count b\<close> by (simp add: kb_contents_def upt_conv_Cons)
  ultimately show "fst (kb_pop b) = c \<and> kb_inv (snd (kb_pop b)) \<and> kb_contents (snd (kb_pop b)) = cs"
    using kb_pop_queue [OF b(1)] b(2) by simp
qed (simp_all add: kb_push_queue)

section \<open>Properties\<close>

text \<open>
  The process whose buffer the kernel writes to, which need not be that of the running task; and
  the case in which it is.
\<close>

definition has_focus :: "'a procs_scheme \<Rightarrow> addr \<Rightarrow> process \<Rightarrow> bool" where
  "has_focus s p pr \<longleftrightarrow> current_process s = p \<and> p \<noteq> 0 \<and> processes s p = Some pr"

definition typing_into :: "'a procs_scheme \<Rightarrow> addr \<Rightarrow> process \<Rightarrow> bool" where
  "typing_into s p pr \<longleftrightarrow> current_process s = p \<and> p \<noteq> 0 \<and> processes s p = Some pr \<and> current_task s \<noteq> 0 \<and>
     (\<exists>tk. tasks s (current_task s) = Some tk \<and> task_process tk = p)"

lemma keyboard_scan_set_one_length: "length keyboard_scan_set_one = 82"
  by (simp add: keyboard_scan_set_one_def)

lemma typing_into_focus: "typing_into s p pr \<Longrightarrow> has_focus s p pr"
  by (simp add: typing_into_def has_focus_def)

lemma keyboard_push_focus:
  assumes "has_focus s p pr" "c \<noteq> 0"
  shows "keyboard_push c s = Some (s\<lparr>processes := (processes s)(p \<mapsto> pr\<lparr>keyboard := kb_push c (keyboard pr)\<rparr>)\<rparr>)"
  using assms by (auto simp: has_focus_def keyboard_push_def process_current_def kb_push_def keyboard_get_tail_index_def Let_def)

lemma keyboard_pop_task:
  assumes "tasks s (current_task s) = Some tk" "current_task s \<noteq> 0" "processes s (task_process tk) = Some pr"
  shows "keyboard_pop s = Some (fst (kb_pop (keyboard pr)),
    s\<lparr>processes := (processes s)(task_process tk \<mapsto> pr\<lparr>keyboard := snd (kb_pop (keyboard pr))\<rparr>)\<rparr>)"
  using assms by (auto simp: keyboard_pop_def task_current_def kb_pop_def Let_def map_upd_triv)

lemma keyboard_push_step:
  assumes "typing_into s p pr" "c \<noteq> 0"
  defines "pr' \<equiv> pr\<lparr>keyboard := kb_push c (keyboard pr)\<rparr>"
  shows "keyboard_push c s = Some (s\<lparr>processes := (processes s)(p \<mapsto> pr')\<rparr>)"
    "typing_into (s\<lparr>processes := (processes s)(p \<mapsto> pr')\<rparr>) p pr'"
  using assms keyboard_push_focus [OF typing_into_focus [OF assms(1)] assms(2)] by (auto simp: typing_into_def)

lemma keyboard_pop_step:
  assumes "typing_into s p pr"
  defines "pr' \<equiv> pr\<lparr>keyboard := snd (kb_pop (keyboard pr))\<rparr>"
  shows "keyboard_pop s = Some (fst (kb_pop (keyboard pr)), s\<lparr>processes := (processes s)(p \<mapsto> pr')\<rparr>)"
    "typing_into (s\<lparr>processes := (processes s)(p \<mapsto> pr')\<rparr>) p pr'"
  using assms keyboard_pop_task [of s _ pr] by (auto simp: typing_into_def)

text \<open>A sequence of key presses, and a sequence of reads.\<close>

fun keyboard_pushes :: "byte list \<Rightarrow> 'a procs_scheme \<Rightarrow> 'a procs_scheme option" where
  "keyboard_pushes [] s = Some s"
| "keyboard_pushes (c # cs) s = do { s \<leftarrow> keyboard_push c s; keyboard_pushes cs s }"

fun keyboard_pops :: "nat \<Rightarrow> 'a procs_scheme \<Rightarrow> (byte list \<times> 'a procs_scheme) option" where
  "keyboard_pops 0 s = Some ([], s)"
| "keyboard_pops (Suc n) s = do {
     (c, s) \<leftarrow> keyboard_pop s;
     (cs, s) \<leftarrow> keyboard_pops n s;
     Some (c # cs, s)
   }"

lemma keyboard_pushes_fold:
  assumes "typing_into s p pr" "0 \<notin> set cs"
  shows "\<exists>s'. keyboard_pushes cs s = Some s' \<and> typing_into s' p (pr\<lparr>keyboard := fold kb_push cs (keyboard pr)\<rparr>)"
  using assms
proof (induction cs arbitrary: s pr)
  case (Cons c cs)
  from Cons.prems(2) have "c \<noteq> 0" by auto
  note step = keyboard_push_step [OF Cons.prems(1) this]
  from Cons.IH [OF step(2)] Cons.prems(2) step(1) show ?case by auto
qed simp

lemma keyboard_pops_queue:
  assumes "typing_into s p pr"
  shows "\<exists>s'. keyboard_pops n s = Some (fst (kb.pops n (keyboard pr)), s') \<and>
    typing_into s' p (pr\<lparr>keyboard := snd (kb.pops n (keyboard pr))\<rparr>)"
  using assms
proof (induction n arbitrary: s pr)
  case (Suc n)
  note step = keyboard_pop_step [OF Suc.prems]
  from Suc.IH [OF step(2)] step(1) show ?case by (auto simp: split_beta)
qed simp

text \<open>
  C9. The keyboard buffer is a queue: up to 1024 characters pushed for the current process,
  on top of what is pending, are popped by its task in the order in which they were typed,
  after the pending ones, and the buffer is empty afterwards.
\<close>

theorem keyboard_fifo:
  assumes "typing_into s p pr" "kb_inv (keyboard pr)" "0 \<notin> set cs"
    "length (kb_contents (keyboard pr)) + length cs \<le> 1024"
  shows "\<exists>s1 s2 pr2. keyboard_pushes cs s = Some s1 \<and>
    keyboard_pops (length (kb_contents (keyboard pr)) + length cs) s1 =
      Some (kb_contents (keyboard pr) @ cs, s2) \<and>
    processes s2 p = Some pr2 \<and> kb_inv (keyboard pr2) \<and> kb_contents (keyboard pr2) = []"
proof -
  let ?b = "fold kb_push cs (keyboard pr)"
  obtain s1 where s1: "keyboard_pushes cs s = Some s1" "typing_into s1 p (pr\<lparr>keyboard := ?b\<rparr>)"
    using keyboard_pushes_fold [OF assms(1,3)] by blast
  have b: "kb_inv ?b" "kb_contents ?b = kb_contents (keyboard pr) @ cs"
    using kb.push_all [OF assms(2-4)] by auto
  let ?n = "length (kb_contents (keyboard pr)) + length cs"
  have n: "?n = length (kb_contents ?b)" using b(2) by simp
  obtain s2 where s2: "keyboard_pops ?n s1 = Some (fst (kb.pops ?n ?b), s2)"
      "typing_into s2 p (pr\<lparr>keyboard := snd (kb.pops ?n ?b)\<rparr>)"
    using keyboard_pops_queue [OF s1(2), of ?n] by auto
  have "fst (kb.pops ?n ?b) = kb_contents ?b" "kb_inv (snd (kb.pops ?n ?b))" "kb_contents (snd (kb.pops ?n ?b)) = []"
    using kb.pops_contents [OF b(1), of ?n] n by (auto simp del: length_kb_contents)
  with s1(1) s2 b(2) show ?thesis by (auto simp: typing_into_def)
qed

lemma classic_keyboard_interrupt_result:
  fixes s :: "'a io_state_scheme" and scancode :: byte
  assumes "has_focus s p pr" "kb_inv (keyboard pr)" "kb_count (keyboard pr) < 1024"
    "ucast (device s (io_log s) 0x60) = scancode" "unat scancode < 82" "scancode \<noteq> 0x3A"
    "keyboards s ClassicKeyboard = Some kd"
    "c = keyboard_scan_set_one ! unat scancode" "c \<noteq> 0"
    "c' = (if 65 \<le> sint c \<and> sint c \<le> 90 \<and> capslock_state kd = 0 then c + 32 else c)" "c' \<noteq> 0"
    "tasks s (current_task s) = Some tk"
  shows "classic_keyboard_handle_interrupt s = Some (paging_switch (page_directory tk)
    ((kernel_page s)\<lparr>io_log := In8 0x60 # In8 0x60 # io_log s,
       processes := (processes s)(p \<mapsto> pr\<lparr>keyboard := kb_push c' (keyboard pr)\<rparr>)\<rparr>))"
proof -
  define u where "u = (paging_switch (kernel_chunk s) s)\<lparr>io_log := In8 0x60 # In8 0x60 # io_log s\<rparr>"
  have fields: "processes u = processes s" "tasks u = tasks s" "current_task u = current_task s"
      "current_process u = current_process s" "keyboards u = keyboards s" "mem u = mem s"
    by (simp_all add: u_def paging_switch_def paging_load_directory_def)
  have read: "insb 0x60 (kernel_page s) = (scancode, (paging_switch (kernel_chunk s) s)\<lparr>io_log := In8 0x60 # io_log s\<rparr>)"
    using assms(4) by (simp add: insb_def kernel_page_def paging_switch_def paging_load_directory_def)
  have rel: "scancode AND 0x80 = 0"
  proof -
    have "take_bit 7 scancode = scancode"
      using assms(5) by (simp add: take_bit_eq_mod word_unat_eq_iff unat_mod_distrib)
    then have "scancode AND 0x80 = scancode AND (mask 7 AND 0x80)"
      by (metis and.assoc take_bit_eq_mask)
    then show ?thesis by (simp add: mask_eq_exp_minus_1)
  qed
  have ti: "has_focus u p pr" using assms(1) by (simp add: has_focus_def fields)
  let ?pr = "pr\<lparr>keyboard := kb_push c' (keyboard pr)\<rparr>"
  let ?v = "u\<lparr>processes := (processes u)(p \<mapsto> ?pr)\<rparr>"
  have push: "keyboard_push c' u = Some ?v"
    using keyboard_push_focus [OF ti assms(11)] by simp
  have char: "classic_keyboard_scancode_to_char scancode u = Some c'"
    using assms(5,7,8,10) keyboard_scan_set_one_length
    by (simp add: classic_keyboard_scancode_to_char_def keyboard_get_capslock_def fields Let_def)
  have page: "task_page ?v = Some (0, paging_switch (page_directory tk) ?v)"
    using assms(12) fields by (simp add: task_page_def task_switch_def current_task_idem)
  have "classic_keyboard_handle_interrupt s = Some (paging_switch (page_directory tk) ?v)"
    using read rel assms(6,11) char push page
    by (simp add: classic_keyboard_handle_interrupt_def insb_def u_def [symmetric])
  then show ?thesis by (simp add: u_def kernel_page_def fields paging_switch_def paging_load_directory_def)
qed

text \<open>
  A key press is delivered: if the controller reports a make code of the table other than
  caps lock and the character it stands for is not 0, the interrupt handler appends exactly
  that character (a letter in lower case unless caps lock is on) to the buffer of the current
  process, reads the data port twice, and leaves with the address space of the current task.
\<close>

theorem classic_keyboard_interrupt_delivers:
  fixes s :: "'a io_state_scheme" and scancode :: byte
  assumes "typing_into s p pr" "kb_inv (keyboard pr)" "kb_count (keyboard pr) < 1024"
    "ucast (device s (io_log s) 0x60) = scancode" "unat scancode < 82" "scancode \<noteq> 0x3A"
    "keyboards s ClassicKeyboard = Some kd"
    "c = keyboard_scan_set_one ! unat scancode" "c \<noteq> 0"
    "c' = (if 65 \<le> sint c \<and> sint c \<le> 90 \<and> capslock_state kd = 0 then c + 32 else c)" "c' \<noteq> 0"
    "tasks s (current_task s) = Some tk"
  shows "\<exists>s' pr'. classic_keyboard_handle_interrupt s = Some s' \<and> processes s' p = Some pr' \<and>
    kb_inv (keyboard pr') \<and> kb_contents (keyboard pr') = kb_contents (keyboard pr) @ [c'] \<and>
    io_log s' = In8 0x60 # In8 0x60 # io_log s \<and> cr3 s' = load32 (mem s) (page_directory tk)"
  using classic_keyboard_interrupt_result [OF typing_into_focus [OF assms(1)] assms(2-)] kb_push_queue [OF assms(2,11,3)]
  by (simp add: kernel_page_def paging_switch_def paging_load_directory_def)

text \<open>The code right after the table passes the bound check.\<close>

lemma scancode_past_table: "classic_keyboard_scancode_to_char 82 s = None"
  by (simp add: classic_keyboard_scancode_to_char_def keyboard_scan_set_one_length)

text \<open>
  \<open>keyboard_backspace\<close> takes back the last pending character; on an empty buffer it moves the
  tail behind the head instead, and the next character typed is not found by \<open>keyboard_pop\<close>.
\<close>

lemma keyboard_backspace_last:
  assumes "processes s p = Some pr" "kb_inv (keyboard pr)" "c \<noteq> 0" "kb_count (keyboard pr) < 1024"
  shows "\<exists>s' pr'. keyboard_backspace p (s\<lparr>processes := (processes s)(p \<mapsto> pr\<lparr>keyboard := kb_push c (keyboard pr)\<rparr>)\<rparr>) =
      Some s' \<and> processes s' p = Some pr' \<and> keyboard pr' = keyboard pr"
proof -
  let ?i = "kb_slot (keyboard pr) (kb_count (keyboard pr))"
  have "kbuffer (keyboard pr) ! ?i = 0"
    using assms(2,4) by (auto simp: kb_inv_def dest: spec [of _ "kb_count (keyboard pr)"])
  then have "(kbuffer (keyboard pr))[?i := 0] = kbuffer (keyboard pr)"
    by (metis list_update_id)
  then show ?thesis
    using kb_push_slot [OF assms(2)]
    by (auto simp: keyboard_backspace_def keyboard_get_tail_index_def kb_push_def Let_def)
qed

section \<open>Instances\<close>

definition demo_io :: io_state where
  "demo_io = procs.extend (demo_procs\<lparr>device := (\<lambda>_ _. 0x1E), current_task := 0x300,
      tasks := [0x300 \<mapsto> zero_task\<lparr>task_process := 0x2000\<rparr>]\<rparr>)
    \<lparr>keyboards = [ClassicKeyboard \<mapsto> \<lparr>init = ClassicInit, keyboard_name = [], capslock_state = 0, keyboard_next = NullKeyboard\<rparr>],
     keyboard_list_head = ClassicKeyboard, keyboard_list_last = ClassicKeyboard,
     interrupt_callbacks = replicate 512 NoCallback\<rparr>"

lemma demo_io_typing: "typing_into demo_io 0x2000 demo_process"
  by (simp add: typing_into_def demo_io_def procs.defs demo_procs_def zero_task_def)

lemma demo_keyboard_empty: "kb_inv (keyboard demo_process)" "kb_count (keyboard demo_process) = 0"
  by (simp_all add: kb_inv_def kb_count_def demo_process_def kb_slot_def nat_less_iff)

theorem keyboard_fifo_witness:
  "\<exists>s1 s2. keyboard_pushes [104, 105] demo_io = Some s1 \<and> keyboard_pops (Suc (Suc 0)) s1 = Some ([104, 105], s2)"
proof -
  have "kb_contents (keyboard demo_process) = []"
    using demo_keyboard_empty(2) by (simp add: kb_contents_def)
  with keyboard_fifo [OF demo_io_typing demo_keyboard_empty(1), of "[104, 105]"] show ?thesis
    by (auto simp del: keyboard_pushes.simps keyboard_pops.simps)
qed

theorem classic_keyboard_interrupt_delivers_witness:
  "\<exists>s' pr'. classic_keyboard_handle_interrupt demo_io = Some s' \<and> processes s' 0x2000 = Some pr' \<and>
     kb_contents (keyboard pr') = [97]"
proof -
  have "kb_contents (keyboard demo_process) = []"
    using demo_keyboard_empty(2) by (simp add: kb_contents_def)
  moreover have "ucast (device demo_io (io_log demo_io) 0x60) = (0x1E :: byte)"
    "keyboards demo_io ClassicKeyboard = Some \<lparr>init = ClassicInit, keyboard_name = [], capslock_state = 0, keyboard_next = NullKeyboard\<rparr>"
    "tasks demo_io (current_task demo_io) = Some (zero_task\<lparr>task_process := 0x2000\<rparr>)"
    by (simp_all add: demo_io_def procs.defs demo_procs_def)
  ultimately show ?thesis
    using classic_keyboard_interrupt_delivers [OF demo_io_typing demo_keyboard_empty(1), of "0x1E" _ 65 97
        "zero_task\<lparr>task_process := 0x2000\<rparr>"] demo_keyboard_empty(2)
    by (simp add: keyboard_scan_set_one_def) blast
qed

end
