(* ===== verification/Idt.thy ===== *)
theory Idt
  imports Loader Keyboard
begin

text \<open>
  Interrupts: \<^verbatim>\<open>src/src/idt/idt.c\<close> up to the callbacks, with the descriptor records of \<^verbatim>\<open>idt.h\<close>.
  A function pointer is a value of a datatype with one constructor for every function it can hold. The
  handlers that call \<open>task_return\<close> do not come back to their caller; their outcome is the register set
  they hand to it. \<open>task_return\<close> itself loses two of the registers. The assembly entry points are known by their addresses only,
  which are fields of the state.

  The theorems: \<open>idt_init\<close> installs a gate for every interrupt that decodes to its entry point, and the
  timer interrupt preserves the registers of every task.
\<close>

section \<open>Definitions\<close>

definition KERNEL_CODE_SELECTOR :: u16 where [simp]: "KERNEL_CODE_SELECTOR = 0x08"
definition OS_MAX_ISR80H_COMMANDS :: nat where [simp]: "OS_MAX_ISR80H_COMMANDS = 1024"

record idt_desc =
  offset_1 :: u16
  selector :: u16
  zero :: byte
  type_attr :: byte
  offset_2 :: u16

record idtr_desc =
  idtr_limit :: u16
  idtr_base :: u32

datatype isr80h_command = NoCommand | ExitCommand | PrintCommand | GetkeyCommand | PutcharCommand
  | MallocCommand | FreeCommand | ProcessLoadStartCommand | InvokeSystemCommand | GetProgramArgumentsCommand

text \<open>The static objects of the kernel whose address is taken.\<close>

datatype kernel_static = Static_idt_descriptors | Static_gdt_real | Static_tss

text \<open>
  \<open>idt_register\<close> is the register of the processor that \<open>idt_load\<close> sets; \<open>static_addr\<close>,
  \<open>interrupt_pointer_table\<close> and \<open>isr80h_wrapper\<close> are the addresses the linker assigns.
\<close>

record interrupts = io_state +
  idt_descriptors :: "idt_desc list"
  idtr_descriptor :: idtr_desc
  idt_register :: idtr_desc
  isr80h_commands :: "isr80h_command list"
  interrupt_pointer_table :: "addr list"
  isr80h_wrapper :: addr
  static_addr :: "kernel_static \<Rightarrow> addr"

datatype 'b outcome = Returns 'b | EntersUser registers

text \<open>
  The registers of user mode after \<open>task_return\<close>. The base pointer is popped after it has been loaded, so it
  is the stack pointer of the kernel, and the flags are those of the processor with interrupts enabled.
\<close>

definition task_return :: "addr \<Rightarrow> u32 \<Rightarrow> registers \<Rightarrow> registers" where
  "task_return kernel_esp cpu_flags regs = regs\<lparr>ebp := kernel_esp, eflags := cpu_flags OR 0x200\<rparr>"

lemma task_return_keeps_iff:
  "task_return kernel_esp cpu_flags regs = regs \<longleftrightarrow> ebp regs = kernel_esp \<and> eflags regs = cpu_flags OR 0x200"
  by (cases regs) (auto simp: task_return_def)

subsection \<open>The descriptor table\<close>

definition idt_set :: "int \<Rightarrow> addr \<Rightarrow> 'a interrupts_scheme \<Rightarrow> 'a interrupts_scheme option" where
  "idt_set interrupt_number address s =
     (if 0 \<le> interrupt_number \<and> interrupt_number < int TOTAL_INTERRUPTS
      then Some (s\<lparr>idt_descriptors := (idt_descriptors s)[nat interrupt_number :=
        \<lparr>offset_1 = ucast (address AND 0x0000FFFF), selector = KERNEL_CODE_SELECTOR, zero = 0x00,
         type_attr = 0xEE, offset_2 = ucast (drop_bit 16 address)\<rparr>]\<rparr>)
      else None)"

fun idt_set_all :: "nat list \<Rightarrow> 'a interrupts_scheme \<Rightarrow> 'a interrupts_scheme option" where
  "idt_set_all [] s = Some s"
| "idt_set_all (i # is) s = do {
     s \<leftarrow> idt_set (int i) (interrupt_pointer_table s ! i) s;
     idt_set_all is s
   }"

fun idt_register_exceptions :: "nat list \<Rightarrow> 'a interrupts_scheme \<Rightarrow> 'a interrupts_scheme" where
  "idt_register_exceptions [] s = s"
| "idt_register_exceptions (i # is) s =
     idt_register_exceptions is (snd (idt_register_interrupt_callback (int i) ExceptionCallback s))"

definition idt_load :: "idtr_desc \<Rightarrow> 'a interrupts_scheme \<Rightarrow> 'a interrupts_scheme" where
  "idt_load ptr s = s\<lparr>idt_register := ptr\<rparr>"

definition zero_idt_desc :: idt_desc where
  "zero_idt_desc = \<lparr>offset_1 = 0, selector = 0, zero = 0, type_attr = 0, offset_2 = 0\<rparr>"

definition idt_init :: "'a interrupts_scheme \<Rightarrow> 'a interrupts_scheme option" where
  "idt_init s = do {
     let s = s\<lparr>idt_descriptors := replicate TOTAL_INTERRUPTS zero_idt_desc\<rparr>;
     s \<leftarrow> idt_set_all [0..<TOTAL_INTERRUPTS] s;
     let s = s\<lparr>idtr_descriptor := \<lparr>idtr_limit = of_nat (8 * TOTAL_INTERRUPTS - 1),
                                  idtr_base = static_addr s Static_idt_descriptors\<rparr>\<rparr>;
     s \<leftarrow> idt_set 0x80 (isr80h_wrapper s) s;
     let s = idt_register_exceptions [0..<0x20] s;
     let s = snd (idt_register_interrupt_callback 0x20 ClockCallback s);
     Some (idt_load (idtr_descriptor s) s)
   }"

subsection \<open>Interrupts\<close>

definition idt_handle_exception :: "'a interrupts_scheme \<Rightarrow> (registers \<times> 'a interrupts_scheme) option" where
  "idt_handle_exception s = do {
     tk \<leftarrow> tasks s (task_current s);
     (r, s) \<leftarrow> process_terminate (task_process tk) s;
     task_next (outb 0x20 0x20 s)
   }"

definition idt_clock :: "'a interrupts_scheme \<Rightarrow> (registers \<times> 'a interrupts_scheme) option" where
  "idt_clock s = task_next (outb 0x20 0x20 s)"

text \<open>A call through the pointer of a callback.\<close>

definition call_interrupt_callback ::
    "interrupt_callback \<Rightarrow> 'a interrupts_scheme \<Rightarrow> (unit outcome \<times> 'a interrupts_scheme) option" where
  "call_interrupt_callback cb s =
     (case cb of
        NoCallback \<Rightarrow> None
      | ExceptionCallback \<Rightarrow> do { (r, s) \<leftarrow> idt_handle_exception s; Some (EntersUser r, s) }
      | ClockCallback \<Rightarrow> do { (r, s) \<leftarrow> idt_clock s; Some (EntersUser r, s) }
      | KeyboardCallback \<Rightarrow> do { s \<leftarrow> classic_keyboard_handle_interrupt s; Some (Returns (), s) })"

definition interrupt_handler ::
    "int \<Rightarrow> interrupt_frame \<Rightarrow> 'a interrupts_scheme \<Rightarrow> (unit outcome \<times> 'a interrupts_scheme) option" where
  "interrupt_handler interrupt frame s =
     (let s = kernel_page s
      in if interrupt < 0 \<or> int TOTAL_INTERRUPTS \<le> interrupt then None
         else do {
           (res, s) \<leftarrow> (if interrupt_callbacks s ! nat interrupt \<noteq> NoCallback
              then do {
                s \<leftarrow> task_current_save_state frame s;
                call_interrupt_callback (interrupt_callbacks s ! nat interrupt) s
              }
              else Some (Returns (), s));
           case res of
             EntersUser regs \<Rightarrow> Some (EntersUser regs, s)
           | Returns _ \<Rightarrow> do { (r, s) \<leftarrow> task_page s; Some (Returns (), outb 0x20 0x20 s) }
         })"

section \<open>Specification of the descriptor table\<close>

text \<open>What the processor takes from a descriptor: the address of the handler.\<close>

definition gate_address :: "idt_desc \<Rightarrow> addr" where
  "gate_address d = ucast (offset_1 d) OR push_bit 16 (ucast (offset_2 d))"

text \<open>A present 32 bit interrupt gate of the kernel's code segment that user mode may call.\<close>

definition user_gate :: "idt_desc \<Rightarrow> bool" where
  "user_gate d \<longleftrightarrow> selector d = 0x08 \<and> zero d = 0 \<and> type_attr d AND 0x0F = 0x0E \<and>
     drop_bit 5 (type_attr d) AND 3 = 3 \<and> bit (type_attr d) 7"

definition gate_for :: "addr \<Rightarrow> idt_desc" where
  "gate_for address = \<lparr>offset_1 = ucast (address AND 0x0000FFFF), selector = KERNEL_CODE_SELECTOR, zero = 0x00,
     type_attr = 0xEE, offset_2 = ucast (drop_bit 16 address)\<rparr>"

lemma gate_address_for [simp]: "gate_address (gate_for a) = a"
proof (rule bit_word_eqI)
  fix n assume "n < LENGTH(32)"
  moreover have "(a AND 0xFFFF :: u32) = take_bit 16 a"
    by (simp add: take_bit_eq_mask mask_eq_exp_minus_1)
  ultimately show "bit (gate_address (gate_for a)) n = bit a n"
    by (auto simp: gate_address_def gate_for_def bit_simps)
qed

lemma user_gate_for [simp]: "user_gate (gate_for a)"
  by (simp add: user_gate_def gate_for_def bit_iff_odd drop_bit_eq_div)

lemma idt_set_eq:
  "i < 512 \<Longrightarrow> idt_set (int i) a s = Some (s\<lparr>idt_descriptors := (idt_descriptors s)[i := gate_for a]\<rparr>)"
  by (simp add: idt_set_def gate_for_def)

lemma idt_set_128: "idt_set 128 a s = Some (s\<lparr>idt_descriptors := (idt_descriptors s)[128 := gate_for a]\<rparr>)"
  by (simp add: idt_set_def gate_for_def)

lemma idt_set_all_eq:
  assumes "\<forall>i \<in> set xs. i < 512" "length (idt_descriptors s) = 512"
  shows "\<exists>ds. idt_set_all xs s = Some (s\<lparr>idt_descriptors := ds\<rparr>) \<and> length ds = 512 \<and>
    (\<forall>i < 512. ds ! i = (if i \<in> set xs then gate_for (interrupt_pointer_table s ! i) else idt_descriptors s ! i))"
  using assms
proof (induction xs arbitrary: s)
  case (Cons i xs)
  let ?s = "s\<lparr>idt_descriptors := (idt_descriptors s)[i := gate_for (interrupt_pointer_table s ! i)]\<rparr>"
  have i: "i < 512" using Cons.prems(1) by simp
  have "\<forall>i \<in> set xs. i < 512" "length (idt_descriptors ?s) = 512" using Cons.prems by auto
  from Cons.IH [OF this] obtain ds where "idt_set_all xs ?s = Some (?s\<lparr>idt_descriptors := ds\<rparr>)" "length ds = 512"
      "\<forall>i < 512. ds ! i = (if i \<in> set xs then gate_for (interrupt_pointer_table ?s ! i) else idt_descriptors ?s ! i)"
    by blast
  with i Cons.prems(2) show ?case by (intro exI [of _ ds]) (auto simp: idt_set_eq)
next
  case Nil
  have "s\<lparr>idt_descriptors := idt_descriptors s\<rparr> = s" by (cases s) simp
  with Nil show ?case by (intro exI [of _ "idt_descriptors s"]) simp
qed

lemma idt_register_exceptions_eq:
  assumes "\<forall>i \<in> set xs. i < 512" "length (interrupt_callbacks s) = 512"
  shows "\<exists>cs. idt_register_exceptions xs s = s\<lparr>interrupt_callbacks := cs\<rparr> \<and> length cs = 512 \<and>
    (\<forall>i < 512. cs ! i = (if i \<in> set xs then ExceptionCallback else interrupt_callbacks s ! i))"
  using assms
proof (induction xs arbitrary: s)
  case (Cons i xs)
  let ?s = "s\<lparr>interrupt_callbacks := (interrupt_callbacks s)[i := ExceptionCallback]\<rparr>"
  have i: "i < 512" using Cons.prems(1) by simp
  have "\<forall>i \<in> set xs. i < 512" "length (interrupt_callbacks ?s) = 512" using Cons.prems by auto
  from Cons.IH [OF this] obtain cs where "idt_register_exceptions xs ?s = ?s\<lparr>interrupt_callbacks := cs\<rparr>"
      "length cs = 512"
      "\<forall>i < 512. cs ! i = (if i \<in> set xs then ExceptionCallback else interrupt_callbacks ?s ! i)"
    by blast
  with i Cons.prems(2) show ?case
    by (intro exI [of _ cs]) (auto simp: idt_register_interrupt_callback_def)
next
  case Nil
  have "s\<lparr>interrupt_callbacks := interrupt_callbacks s\<rparr> = s" by (cases s) simp
  with Nil show ?case by (intro exI [of _ "interrupt_callbacks s"]) simp
qed

section \<open>Saving and resuming\<close>

text \<open>The registers a frame holds.\<close>

definition frame_registers :: "interrupt_frame \<Rightarrow> registers" where
  "frame_registers f = \<lparr>edi = f_edi f, esi = f_esi f, ebp = f_ebp f, ebx = f_ebx f, edx = f_edx f, ecx = f_ecx f,
     eax = f_eax f, ip = f_ip f, cs_reg = f_cs f, eflags = f_flags f, esp = f_esp f, ss_reg = f_ss f\<rparr>"

lemma task_current_save_state_eq:
  assumes "tasks s (current_task s) = Some tk" "current_task s \<noteq> 0"
  shows "task_current_save_state f s =
    Some (s\<lparr>tasks := (tasks s)(current_task s \<mapsto> tk\<lparr>registers := frame_registers f\<rparr>)\<rparr>)"
  using assms
  by (cases "registers tk")
     (simp add: task_current_save_state_def task_save_state_def task_current_def frame_registers_def)

text \<open>Replacing the registers of a task leaves the list of tasks as it is.\<close>

lemma seg_registers:
  "tk t = Some r \<Longrightarrow> seg (tk(t \<mapsto> r\<lparr>registers := x\<rparr>)) p ts q \<longleftrightarrow> seg tk p ts q"
  by (induction ts arbitrary: p) (auto split: option.splits)

lemma task_list_registers:
  "tasks s t = Some r \<Longrightarrow>
    task_list (s\<lparr>tasks := (tasks s)(t \<mapsto> r\<lparr>registers := x\<rparr>)\<rparr>) ts \<longleftrightarrow> task_list s ts"
  by (simp add: task_list_def seg_registers)

lemma kernel_page_fields [simp]:
  fixes s :: "'a interrupts_scheme"
  shows "tasks (kernel_page s) = tasks s" "current_task (kernel_page s) = current_task s"
    "interrupt_callbacks (kernel_page s) = interrupt_callbacks s" "mem (kernel_page s) = mem s"
    "task_list (kernel_page s) ts = task_list s ts" "processes (kernel_page s) = processes s"
    "current_process (kernel_page s) = current_process s" "isr80h_commands (kernel_page s) = isr80h_commands s"
    "keyboards (kernel_page s) = keyboards s" "kernel_heap (kernel_page s) = kernel_heap s"
    "task_head (kernel_page s) = task_head s" "task_tail (kernel_page s) = task_tail s"
  by (simp_all add: kernel_page_def paging_switch_def paging_load_directory_def task_list_def)

text \<open>One timer interrupt: the frame goes to the task at \<open>i\<close>, and the task after it resumes.\<close>

lemma timer_interrupt_step:
  fixes s :: "'a interrupts_scheme"
  assumes "task_list s ts" "i < length ts" "current_task s = ts ! i" "interrupt_callbacks s ! 0x20 = ClockCallback"
  obtains tk r s' where "tasks s (ts ! i) = Some tk"
    "interrupt_handler 0x20 f s = Some (EntersUser (registers r), s')"
    "tasks s' = (tasks s)(ts ! i \<mapsto> tk\<lparr>registers := frame_registers f\<rparr>)" "tasks s' (ts ! (Suc i mod length ts)) = Some r"
    "task_list s' ts" "current_task s' = ts ! (Suc i mod length ts)" "interrupt_callbacks s' = interrupt_callbacks s"
proof -
  let ?u = "kernel_page s"
  obtain tk where tk: "tasks s (ts ! i) = Some tk" "ts ! i \<noteq> 0"
    using seg_nth [of "tasks s" "task_head s" ts i] assms by (auto simp: task_list_def)
  let ?v = "?u\<lparr>tasks := (tasks s)(ts ! i \<mapsto> tk\<lparr>registers := frame_registers f\<rparr>)\<rparr>"
  have save: "task_current_save_state f ?u = Some ?v"
    using task_current_save_state_eq [of ?u tk] tk assms(3) by simp
  have list: "task_list (outb 0x20 0x20 ?v) ts"
    using assms(1) task_list_registers [of ?u "ts ! i" tk "frame_registers f" ts] tk(1)
    by (simp add: outb_def task_list_def)
  obtain r w where r: "task_next (outb 0x20 0x20 ?v) = Some (registers r, w)"
      "tasks (outb 0x20 0x20 ?v) (ts ! (Suc i mod length ts)) = Some r"
      "current_task w = ts ! (Suc i mod length ts)" "task_list w ts" "tasks w = tasks (outb 0x20 0x20 ?v)"
    by (rule task_next_step [OF list assms(2)]) (use assms(3) in \<open>simp add: outb_def\<close>)
  have "interrupt_callbacks w = interrupt_callbacks s"
    using r(1)
    by (auto simp: task_next_def task_switch_def paging_switch_def paging_load_directory_def outb_def split: bind_splits if_splits)
  moreover have "interrupt_handler 0x20 f s = Some (EntersUser (registers r), w)"
    using save r(1) assms(4) by (simp add: interrupt_handler_def call_interrupt_callback_def idt_clock_def)
  ultimately show ?thesis using that tk(1) r by (simp add: outb_def)
qed

text \<open>
  A run of timer interrupts: each comes with the frame of the interrupted task and finds memory
  as that task has left it.
\<close>

fun timer_run :: "(interrupt_frame \<times> memory) list \<Rightarrow> 'a interrupts_scheme \<Rightarrow> (registers list \<times> 'a interrupts_scheme) option" where
  "timer_run [] s = Some ([], s)"
| "timer_run ((f, m) # fs) s = do {
     (res, s) \<leftarrow> interrupt_handler 0x20 f (s\<lparr>mem := m\<rparr>);
     case res of
       Returns _ \<Rightarrow> None
     | EntersUser r \<Rightarrow> do { (rs, s) \<leftarrow> timer_run fs s; Some (r # rs, s) }
   }"

text \<open>The registers a run enters user mode with at step \<open>k\<close>.\<close>

definition resumed :: "(addr \<rightharpoonup> task) \<Rightarrow> addr list \<Rightarrow> nat \<Rightarrow> (interrupt_frame \<times> memory) list \<Rightarrow> nat \<Rightarrow> registers" where
  "resumed tk ts i fs k =
     (if Suc k < length ts then registers (the (tk (ts ! ((i + Suc k) mod length ts))))
      else frame_registers (fst (fs ! (Suc k - length ts))))"

lemma cyclic_distinct:
  assumes "distinct ts" "i < length ts" "0 < k" "k < length ts"
  shows "ts ! ((i + k) mod length ts) \<noteq> ts ! i"
proof -
  have "(i + k) mod length ts \<noteq> i"
    using assms(2-4) by (cases "i + k < length ts") (auto simp: mod_if)
  moreover have "(i + k) mod length ts < length ts" using assms(4) by (intro mod_less_divisor) linarith
  ultimately show ?thesis using assms(1,2) by (simp add: nth_eq_iff_index_eq)
qed

lemma resumed_step:
  assumes "distinct ts" "i < length ts" "tk' = tk(ts ! i \<mapsto> t\<lparr>registers := frame_registers f\<rparr>)"
    "tk' (ts ! (Suc i mod length ts)) = Some r"
  shows "resumed tk ts i ((f, m) # fs) 0 = registers r"
    "resumed tk ts i ((f, m) # fs) (Suc k) = resumed tk' ts (Suc i mod length ts) fs k"
proof -
  show "resumed tk ts i ((f, m) # fs) 0 = registers r"
  proof (cases "Suc 0 < length ts")
    case True
    with cyclic_distinct [OF assms(1,2), of 1] assms(3,4) show ?thesis by (simp add: resumed_def)
  next
    case False
    then have "length ts = 1" "i = 0" using assms(2) by auto
    with assms(3,4) show ?thesis by (auto simp: resumed_def)
  qed
  have idx: "(Suc i mod length ts + Suc k) mod length ts = (i + Suc (Suc k)) mod length ts"
    using mod_add_left_eq [of "Suc i" "length ts" "Suc k"] by simp
  consider "Suc (Suc k) < length ts" | "Suc (Suc k) = length ts" | "length ts < Suc (Suc k)" by linarith
  then show "resumed tk ts i ((f, m) # fs) (Suc k) = resumed tk' ts (Suc i mod length ts) fs k"
  proof cases
    case 1
    with cyclic_distinct [OF assms(1,2), of "Suc (Suc k)"] show ?thesis
      unfolding resumed_def idx by (simp add: assms(3))
  next
    case 2
    then have "(i + Suc (Suc k)) mod length ts = i" using assms(2) by simp
    with 2 show ?thesis unfolding resumed_def idx by (simp add: assms(3))
  next
    case 3
    then have "Suc (Suc k) - length ts = Suc (Suc k - length ts)" by linarith
    with 3 show ?thesis by (simp add: resumed_def)
  qed
qed

lemma timer_run_resumes:
  fixes s :: "'a interrupts_scheme"
  assumes "task_list s ts" "i < length ts" "current_task s = ts ! i" "interrupt_callbacks s ! 0x20 = ClockCallback"
  shows "\<exists>s'. timer_run fs s = Some (map (resumed (tasks s) ts i fs) [0..<length fs], s') \<and>
    current_task s' = ts ! ((i + length fs) mod length ts)"
  using assms
proof (induction fs arbitrary: s i)
  case (Cons fm fs)
  obtain f m where fm: "fm = (f, m)" by (cases fm)
  let ?s = "s\<lparr>mem := m\<rparr>"
  have list: "task_list ?s ts" using Cons.prems(1) by (simp add: task_list_def)
  have cur: "current_task ?s = ts ! i" "interrupt_callbacks ?s ! 0x20 = ClockCallback"
    using Cons.prems(3,4) by simp_all
  obtain tk r s1 where s1: "tasks ?s (ts ! i) = Some tk"
      "interrupt_handler 0x20 f ?s = Some (EntersUser (registers r), s1)"
      "tasks s1 = (tasks ?s)(ts ! i \<mapsto> tk\<lparr>registers := frame_registers f\<rparr>)" "tasks s1 (ts ! (Suc i mod length ts)) = Some r"
      "task_list s1 ts" "current_task s1 = ts ! (Suc i mod length ts)" "interrupt_callbacks s1 = interrupt_callbacks ?s"
    by (rule timer_interrupt_step [OF list Cons.prems(2) cur, where f = f])
  have less: "Suc i mod length ts < length ts" using Cons.prems(2) by (intro mod_less_divisor) linarith
  obtain s2 where s2: "timer_run fs s1 = Some (map (resumed (tasks s1) ts (Suc i mod length ts) fs) [0..<length fs], s2)"
      "current_task s2 = ts ! ((Suc i mod length ts + length fs) mod length ts)"
    using Cons.IH [OF s1(5) less s1(6)] s1(7) Cons.prems(4) by auto
  have "distinct ts" using Cons.prems(1) by (simp add: task_list_def)
  note step = resumed_step [OF this Cons.prems(2) s1(3,4)]
  have "map (resumed (tasks s) ts i ((f, m) # fs)) [0..<Suc (length fs)] =
      registers r # map (resumed (tasks s1) ts (Suc i mod length ts) fs) [0..<length fs]"
    using step by (simp add: upt_conv_Cons map_Suc_upt [symmetric] del: upt_Suc map_Suc_upt)
  with s1(2) s2 fm show ?case by (simp add: mod_simps)
qed simp

lemma idt_init_result:
  fixes s :: "'a interrupts_scheme"
  assumes "length (interrupt_callbacks s) = 512"
  obtains ds cs where "idt_init s = Some (s\<lparr>idt_descriptors := ds, interrupt_callbacks := cs,
      idtr_descriptor := \<lparr>idtr_limit = 4095, idtr_base = static_addr s Static_idt_descriptors\<rparr>,
      idt_register := \<lparr>idtr_limit = 4095, idtr_base = static_addr s Static_idt_descriptors\<rparr>\<rparr>)"
    "length ds = 512" "length cs = 512"
    "\<forall>i < 512. user_gate (ds ! i) \<and> gate_address (ds ! i) = (if i = 0x80 then isr80h_wrapper s else interrupt_pointer_table s ! i)"
    "\<forall>i < 512. cs ! i = (if i < 0x20 then ExceptionCallback else if i = 0x20 then ClockCallback else interrupt_callbacks s ! i)"
proof -
  let ?s = "s\<lparr>idt_descriptors := replicate 512 zero_idt_desc\<rparr>"
  obtain ds where ds: "idt_set_all [0..<512] ?s = Some (?s\<lparr>idt_descriptors := ds\<rparr>)" "length ds = 512"
      "\<forall>i < 512. ds ! i = gate_for (interrupt_pointer_table s ! i)"
    using idt_set_all_eq [of "[0..<512]" ?s] by auto
  let ?ds = "ds[0x80 := gate_for (isr80h_wrapper s)]"
  let ?u = "s\<lparr>idtr_descriptor := \<lparr>idtr_limit = 4095, idtr_base = static_addr s Static_idt_descriptors\<rparr>, idt_descriptors := ?ds\<rparr>"
  obtain cs where cs: "idt_register_exceptions [0..<0x20] ?u = ?u\<lparr>interrupt_callbacks := cs\<rparr>" "length cs = 512"
      "\<forall>i < 512. cs ! i = (if i < 0x20 then ExceptionCallback else interrupt_callbacks s ! i)"
    using idt_register_exceptions_eq [of "[0..<0x20]" ?u] assms by auto
  have "idt_init s = Some (?u\<lparr>interrupt_callbacks := cs[0x20 := ClockCallback],
      idt_register := \<lparr>idtr_limit = 4095, idtr_base = static_addr s Static_idt_descriptors\<rparr>\<rparr>)"
    using ds(1) cs(1)
    by (simp add: idt_init_def idt_set_128 idt_register_interrupt_callback_def idt_load_def del: upt_Suc)
  then show ?thesis
    using ds(2,3) cs(2,3) by (intro that [where ds = ?ds and cs = "cs[0x20 := ClockCallback]"]) (auto simp: nth_list_update)
qed

section \<open>Properties\<close>

text \<open>
  C35. \<open>idt_init\<close>: the gate of every interrupt decodes to its entry in the pointer table, except
  that 0x80 is the entry of the system calls; all are interrupt gates into the kernel's code
  segment that user mode may call. The exceptions and the timer have their callbacks, those of
  the other interrupts are as before, and the processor is given the whole table.
\<close>

theorem idt_init_gates:
  fixes s :: "'a interrupts_scheme"
  assumes "length (interrupt_callbacks s) = 512"
  shows "\<exists>s'. idt_init s = Some s' \<and> length (idt_descriptors s') = 512 \<and>
    (\<forall>i < 512. user_gate (idt_descriptors s' ! i) \<and>
      gate_address (idt_descriptors s' ! i) = (if i = 0x80 then isr80h_wrapper s else interrupt_pointer_table s ! i)) \<and>
    (\<forall>i < 512. interrupt_callbacks s' ! i =
      (if i < 0x20 then ExceptionCallback else if i = 0x20 then ClockCallback else interrupt_callbacks s ! i)) \<and>
    idt_register s' = \<lparr>idtr_limit = 4095, idtr_base = static_addr s Static_idt_descriptors\<rparr>"
proof -
  obtain ds cs where "idt_init s = Some (s\<lparr>idt_descriptors := ds, interrupt_callbacks := cs,
      idtr_descriptor := \<lparr>idtr_limit = 4095, idtr_base = static_addr s Static_idt_descriptors\<rparr>,
      idt_register := \<lparr>idtr_limit = 4095, idtr_base = static_addr s Static_idt_descriptors\<rparr>\<rparr>)"
    "length ds = 512"
    "\<forall>i < 512. user_gate (ds ! i) \<and> gate_address (ds ! i) = (if i = 0x80 then isr80h_wrapper s else interrupt_pointer_table s ! i)"
    "\<forall>i < 512. cs ! i = (if i < 0x20 then ExceptionCallback else if i = 0x20 then ClockCallback else interrupt_callbacks s ! i)"
    by (rule idt_init_result [OF assms])
  then show ?thesis by simp
qed

text \<open>
  C10. Preemption keeps the registers: over any number of timer interrupts, whatever the tasks do to
  memory in between, \<open>task_return\<close> is given for every task exactly the registers it was last
  interrupted with. From a list of \<open>n\<close> tasks with the one at \<open>i\<close> running, interrupt \<open>k\<close> resumes the task at
  \<open>(i + k + 1) mod n\<close>, with the registers it had at the start the first time and with those of the
  frame of interrupt \<open>k + 1 - n\<close> afterwards.
\<close>

theorem timer_preserves_registers:
  fixes s :: "'a interrupts_scheme"
  assumes "task_list s ts" "i < length ts" "current_task s = ts ! i" "interrupt_callbacks s ! 0x20 = ClockCallback"
  shows "\<exists>rs s'. timer_run fs s = Some (rs, s') \<and> length rs = length fs \<and>
    current_task s' = ts ! ((i + length fs) mod length ts) \<and>
    (\<forall>k < length fs. rs ! k =
      (if Suc k < length ts then registers (the (tasks s (ts ! ((i + Suc k) mod length ts))))
       else frame_registers (fst (fs ! (Suc k - length ts)))))"
  using timer_run_resumes [OF assms, of fs] by (auto simp: resumed_def)

section \<open>Instances\<close>

text \<open>A kernel with three tasks, the second one running, whose interrupts are set up.\<close>

definition demo_interrupts :: interrupts where
  "demo_interrupts = io_state.extend
     (procs.extend demo_tasks
        \<lparr>keyboards = [ClassicKeyboard \<mapsto> \<lparr>init = ClassicInit, keyboard_name = [], capslock_state = 0, keyboard_next = NullKeyboard\<rparr>],
         keyboard_list_head = ClassicKeyboard, keyboard_list_last = ClassicKeyboard,
         interrupt_callbacks = (replicate 512 NoCallback)[0x20 := ClockCallback, 0x21 := KeyboardCallback]\<rparr>)
     \<lparr>idt_descriptors = replicate 512 zero_idt_desc, idtr_descriptor = \<lparr>idtr_limit = 0, idtr_base = 0\<rparr>,
      idt_register = \<lparr>idtr_limit = 0, idtr_base = 0\<rparr>, isr80h_commands = replicate 1024 NoCommand,
      interrupt_pointer_table = map (\<lambda>i. 0x100000 + of_nat (16 * i)) [0..<512], isr80h_wrapper = 0x110000,
      static_addr = (\<lambda>_. 0x120000)\<rparr>"

definition demo_frame :: interrupt_frame where
  "demo_frame = \<lparr>f_edi = 1, f_esi = 2, f_ebp = 3, f_reserved = 0, f_ebx = 4, f_edx = 5, f_ecx = 6, f_eax = 7,
     f_ip = 0x400010, f_cs = 0x1B, f_flags = 0x202, f_esp = 0x3FEFF0, f_ss = 0x23\<rparr>"

lemmas demo_interrupts_defs = demo_interrupts_def io_state.defs procs.defs demo_tasks_def demo_procs_def

theorem idt_init_gates_witness:
  "\<exists>s'. idt_init demo_interrupts = Some s' \<and> gate_address (idt_descriptors s' ! 0x80) = 0x110000 \<and>
     gate_address (idt_descriptors s' ! 0x21) = 0x100210 \<and> interrupt_callbacks s' ! 0x21 = KeyboardCallback"
proof -
  have "length (interrupt_callbacks demo_interrupts) = 512" "isr80h_wrapper demo_interrupts = 0x110000"
    "interrupt_pointer_table demo_interrupts ! 0x21 = 0x100210" "interrupt_callbacks demo_interrupts ! 0x21 = KeyboardCallback"
    by (simp_all add: demo_interrupts_defs)
  with idt_init_gates [of demo_interrupts] show ?thesis by auto
qed

theorem timer_preserves_registers_witness:
  "\<exists>rs s'. timer_run [(demo_frame, \<lambda>_. 0), (demo_frame, \<lambda>_. 1), (demo_frame, \<lambda>_. 0)] demo_interrupts = Some (rs, s') \<and>
     current_task s' = 0x200 \<and> rs ! 2 = frame_registers demo_frame \<and> rs ! 0 = zero_registers"
proof -
  have "task_list demo_interrupts [0x100, 0x200, 0x300]" "current_task demo_interrupts = 0x200"
    "interrupt_callbacks demo_interrupts ! 0x20 = ClockCallback"
    by (simp_all add: demo_interrupts_defs task_list_def zero_task_def)
  note run = timer_preserves_registers [OF this(1) _ _ this(3), of 1
      "[(demo_frame, \<lambda>_. 0), (demo_frame, \<lambda>_. 1), (demo_frame, \<lambda>_. 0)]"]
  have "current_task demo_interrupts = [0x100, 0x200, 0x300] ! 1" by (simp add: demo_interrupts_defs)
  from run [OF _ this] obtain rs s' where
    rs: "timer_run [(demo_frame, \<lambda>_. 0), (demo_frame, \<lambda>_. 1), (demo_frame, \<lambda>_. 0)] demo_interrupts = Some (rs, s')"
      "current_task s' = 0x200" and
    k: "\<And>k. k < 3 \<Longrightarrow> rs ! k = (if Suc k < 3
        then registers (the (tasks demo_interrupts ([0x100, 0x200, 0x300] ! ((1 + Suc k) mod 3))))
        else frame_registers (fst ([(demo_frame, \<lambda>_. 0), (demo_frame, \<lambda>_. 1), (demo_frame, \<lambda>_. 0)] ! (Suc k - 3))))"
    by auto
  have "registers (the (tasks demo_interrupts 0x300)) = zero_registers"
    by (simp add: demo_interrupts_defs zero_task_def)
  with rs k [of 2] k [of 0] show ?thesis by auto
qed

end
