(* ===== verification/UserMemory.thy ===== *)
theory UserMemory
  imports Process
begin

text \<open>
  Reading the memory of a task from the kernel: \<open>task_get_stack_item\<close> and \<open>copy_string_from_task\<close> of
  \<^verbatim>\<open>src/src/task/task.c\<close> on an address space that lies in live memory. The copy goes through a
  page that is mapped into the task for the purpose: the results are that the string arrives in
  the kernel's buffer, and that the heap, the mapping and all memory in use are as before.
\<close>

section \<open>A word of the task\<close>

definition user_word :: "task \<Rightarrow> memory \<Rightarrow> addr \<Rightarrow> u32" where
  "user_word tk m a = load32 (\<lambda>x. m (translate tk m x)) a"

lemma kernel_page_switch [simp]: "kernel_page (paging_switch c s) = kernel_page (s :: 'a procs_scheme)"
  by (simp add: kernel_page_def paging_switch_def paging_load_directory_def)

definition user_word_present :: "task \<Rightarrow> memory \<Rightarrow> addr \<Rightarrow> bool" where
  "user_word_present tk m a \<longleftrightarrow> word_access (load32 m (page_directory tk)) a m"

lemma task_get_stack_item_eq:
  "tasks s t = Some tk \<Longrightarrow> task_get_stack_item t i s =
    (if user_word_present tk (mem s) (esp (registers tk) + word_of_int (4 * i))
     then Some (user_word tk (mem s) (esp (registers tk) + word_of_int (4 * i)), kernel_page s) else None)"
  by (simp add: task_get_stack_item_def task_page_task_def user_word_def user_word_present_def translate_def Let_def)
     (simp add: paging_switch_def paging_load_directory_def)

section \<open>Copying through the page tables\<close>

lemma write_bytes_other_page:
  assumes "page_aligned p" "length bs \<le> 4096" "page_of a \<noteq> page_of p"
  shows "write_bytes p bs m a = m a"
  using assms in_page_iff [OF assms(1), of a] by (intro write_bytes_outside) linarith

lemma strncpy_paged_step:
  fixes p va c :: addr and m :: memory
  assumes al: "page_aligned p" and wf: "wf_chunk c m" and pg: "page_of p \<notin> chunk_pages c m"
    and tmp: "\<And>i. i < 4096 \<Longrightarrow> paging_get_physical_address (load32 m c) (p + of_nat i) m = p + of_nat i"
    and src: "\<And>i. i < length bs \<Longrightarrow>
      m (paging_get_physical_address (load32 m c) (va + of_nat i) m) = bs ! i \<and> bs ! i \<noteq> 0"
    and stop: "int (length bs) < count - 1 \<Longrightarrow>
      m (paging_get_physical_address (load32 m c) (va + of_nat (length bs)) m) = 0"
    and len: "int (length bs) \<le> count - 1" "count \<le> 4096"
    and off: "\<And>i. i \<le> length bs \<Longrightarrow>
      page_of (paging_get_physical_address (load32 m c) (va + of_nat i) m) \<noteq> page_of p"
    and acc: "\<And>i. i \<le> length bs \<Longrightarrow> int i < count - 1 \<Longrightarrow> kernel_access (load32 m c) (va + of_nat i) m"
      "\<And>i. i < 4096 \<Longrightarrow> kernel_access (load32 m c) (p + of_nat i) m"
    and k: "k \<le> length bs"
  shows "strncpy_paged (load32 m c) p va count k (write_bytes p (take k bs) m) = Some (write_bytes p (bs @ [0]) m)"
  using k
proof (induction "length bs - k" arbitrary: k)
  case (0 k)
  have k: "k = length bs" using 0 by simp
  let ?m = "write_bytes p bs m"
  have other: "?m a = m a" if "page_of a \<noteq> page_of p" for a
    using write_bytes_other_page [OF al _ that] len by simp
  have tr: "paging_get_physical_address (load32 m c) v ?m = paging_get_physical_address (load32 m c) v m" for v
    using chunk_cong(2,5) [OF wf, of ?m] other pg by metis
  have ac: "page_grants fl (load32 m c) v ?m = page_grants fl (load32 m c) v m" for fl v
    using grants_cong(1) [OF wf, of ?m] chunk_cong(2) [OF wf, of ?m] other pg by metis
  have "\<not> (int k < count - 1 \<and> ?m (paging_get_physical_address (load32 m c) (va + of_nat k) ?m) \<noteq> 0)"
    using stop other [OF off] k tr by auto
  then show ?case
    using tmp [of "length bs"] acc [of "length bs"] len write_bytes_snoc [of bs p m 0] k tr ac
    by (subst strncpy_paged.simps) (auto simp: Let_def)
next
  case (Suc d k)
  have k: "k < length bs" using Suc.hyps(2) by simp
  let ?m = "write_bytes p (take k bs) m"
  have other: "?m a = m a" if "page_of a \<noteq> page_of p" for a
    using write_bytes_other_page [OF al _ that] len by simp
  have tr: "paging_get_physical_address (load32 m c) v ?m = paging_get_physical_address (load32 m c) v m" for v
    using chunk_cong(2,5) [OF wf, of ?m] other pg by metis
  have ac: "page_grants fl (load32 m c) v ?m = page_grants fl (load32 m c) v m" for fl v
    using grants_cong(1) [OF wf, of ?m] chunk_cong(2) [OF wf, of ?m] other pg by metis
  have b: "?m (paging_get_physical_address (load32 m c) (va + of_nat k) m) = bs ! k" "bs ! k \<noteq> 0"
    using src [OF k] other [OF off] k by auto
  have "?m(p + of_nat k := bs ! k) = write_bytes p (take (Suc k) bs) m"
    using write_bytes_snoc [of "take k bs" p m "bs ! k"] k len by (simp add: take_Suc_conv_app_nth)
  then show ?case
    using Suc.hyps(1) [of "Suc k"] Suc.hyps(2) k b tmp [of k] acc [of k] len tr ac
    by (subst strncpy_paged.simps) (simp add: Let_def)
qed

lemmas strncpy_paged_correct = strncpy_paged_step [where k = 0, simplified]

section \<open>Mapping one page and restoring its entry\<close>

lemma store32_load32 [simp]: "store32 m a (load32 m a) = m"
proof -
  have byte: "ucast (drop_bit k (load32 m a)) = m (a + of_nat (k div 8))" if "k \<in> {0, 8, 16, 24}" for k
    by (rule bit_word_eqI) (use that in \<open>auto simp: load32_def bit_simps less_diff_conv2 dest: bit_imp_le_length\<close>)
  show ?thesis
    using byte [of 0] byte [of 8] byte [of 16] byte [of 24] by (simp add: store32_def fun_upd_idem)
qed

lemma lower_page_of: "page_of (paging_align_to_lower_page v) = page_of v"
  using in_page_iff [OF paging_align_to_lower_page_aligned, of v v] lower_page_rest [of v] by simp

lemma paging_map_translate:
  assumes "wf_chunk c m" "page_aligned p" "f < 4096"
  shows "paging_get_physical_address (load32 (snd (paging_map c p p f m)) c) v (snd (paging_map c p p f m)) =
    (if page_of v = page_of p then v else paging_get_physical_address (load32 m c) v m)"
proof -
  let ?l = "paging_align_to_lower_page v"
  have "?l = p \<longleftrightarrow> page_of v = page_of p"
    using page_of_inject [of ?l p] assms(2) lower_page_of [of v] by simp
  moreover have "(p OR f) AND 0xFFFFF000 = p"
    using assms(2) small_flags_bit [OF assms(3)] by (intro mask_page_or) auto
  ultimately show ?thesis
    using pm.map_lookup [OF assms(1,2,2), of ?l f] assms(2)
    by (cases "page_of v = page_of p") (simp_all add: paging_get_physical_address_def Let_def)
qed

lemma entry_slot_page:
  assumes "page_aligned v" "k < 4"
  shows "page_of (entry_slot m (load32 m c) v + of_nat k) \<in> chunk_pages c m"
  using assms(2) index_bounds [of v] page_of_word_add [OF word_aligned_slot [OF page_aligned_table_of index_bounds(2)]]
  by (simp add: entry_slot_def chunk_pages_def table_pages_def page_of_slot del: of_nat_add of_nat_mult)

lemma store32_entry_outside:
  assumes "page_aligned v" "page_of a \<notin> chunk_pages c m"
  shows "store32 m' (entry_slot m (load32 m c) v) val a = m' a"
  using entry_slot_page [OF assms(1), of 0 m c] entry_slot_page [OF assms(1), of 1 m c]
    entry_slot_page [OF assms(1), of 2 m c] entry_slot_page [OF assms(1), of 3 m c] assms(2)
  by (intro store32_other) auto

lemma entry_slot_cong:
  assumes "wf_chunk c m" "\<And>a. page_of a \<in> chunk_pages c m \<Longrightarrow> m' a = m a"
  shows "entry_slot m' (load32 m c) v = entry_slot m (load32 m c) v"
  using load32_same_page [of "load32 m c" "dir_index v" m' m] assms index_bounds(1) [of v]
  by (simp add: entry_slot_def table_of_def wf_chunk_def wf_dir_def chunk_pages_def)

text \<open>
  Writing an entry, filling the page it maps and putting the old entry back: only that page has
  changed.
\<close>

lemma entry_restored:
  assumes wf: "wf_chunk c m" and p: "page_aligned p" "page_of p \<notin> chunk_pages c m" and n: "length bs \<le> 4096"
  defines "e \<equiv> entry_slot m (load32 m c) p"
  shows "page_of a \<noteq> page_of p \<Longrightarrow> store32 (write_bytes p bs (store32 m e x)) e (load32 m e) a = m a"
    and "i < length bs \<Longrightarrow> store32 (write_bytes p bs (store32 m e x)) e (load32 m e) (p + of_nat i) = bs ! i"
proof -
  have other: "write_bytes p bs m' a = m' a" if "page_of a \<noteq> page_of p" for m' a
    using write_bytes_other_page [OF p(1) n that] .
  show "store32 (write_bytes p bs (store32 m e x)) e (load32 m e) a = m a" if "page_of a \<noteq> page_of p"
  proof -
    have "store32 (write_bytes p bs (store32 m e x)) e (load32 m e) a = store32 m e (load32 m e) a"
      using other [OF that, of "store32 m e x"] by (simp add: store32_def)
    then show ?thesis by simp
  qed
  show "store32 (write_bytes p bs (store32 m e x)) e (load32 m e) (p + of_nat i) = bs ! i" if "i < length bs"
    using store32_entry_outside [OF p(1), of "p + of_nat i" c m] page_of_add [OF p(1), of i] p(2) that n
    by (simp add: e_def write_bytes_inside)
qed

section \<open>Copying a string\<close>

text \<open>The task has the string \<open>bs\<close> at \<open>va\<close>, in pages that are present and in use.\<close>

definition user_string :: "'a procs_scheme \<Rightarrow> task \<Rightarrow> addr \<Rightarrow> byte list \<Rightarrow> bool" where
  "user_string s tk va bs \<longleftrightarrow> 0 \<notin> set bs \<and> (\<forall>i \<le> length bs.
     mem s (translate tk (mem s) (va + of_nat i)) = (bs @ [0]) ! i \<and>
     kernel_access (load32 (mem s) (page_directory tk)) (va + of_nat i) (mem s) \<and>
     \<not> free_page (kernel_heap s) (page_of (translate tk (mem s) (va + of_nat i))) \<and>
     page_of (translate tk (mem s) (va + of_nat i)) \<notin> chunk_pages (page_directory tk) (mem s) \<and>
     \<not> free_page (kernel_heap s) (page_of (va + of_nat i)))"

text \<open>
  A task whose address space lies in live memory and leaves the kernel's directory alone; all its
  tables are present.
\<close>

definition task_space :: "'a procs_scheme \<Rightarrow> task \<Rightarrow> bool" where
  "task_space s tk \<longleftrightarrow> heap_inv (kernel_heap s) \<and> wf_chunk (page_directory tk) (mem s) \<and>
     chunk_pages (page_directory tk) (mem s) \<subseteq> live_pages (kernel_heap s) \<and>
     directory_grants PAGING_IS_PRESENT (page_directory tk) (mem s) \<and>
     word_aligned (kernel_chunk s) \<and> \<not> free_page (kernel_heap s) (page_of (kernel_chunk s)) \<and>
     page_of (kernel_chunk s) \<notin> chunk_pages (page_directory tk) (mem s)"

lemma copy_string_result:
  fixes s :: "'a procs_scheme"
  assumes t: "tasks s t = Some tk" and ok: "task_space s tk" and room: "0 < free_blocks (kernel_heap s)"
    and str: "user_string s tk va bs" and n: "0 < n" "n < 4096"
    and buf: "\<And>i. i < 4096 \<Longrightarrow> page_of (buf + of_nat i) \<notin> heap_pages (kernel_heap s)"
  obtains m where "copy_string_from_task t va buf n s = Some (0, (kernel_page s)\<lparr>mem := m\<rparr>)"
    "cstring m buf (take (nat (n - 1)) bs)"
    "\<And>a. \<not> free_page (kernel_heap s) (page_of a) \<Longrightarrow> n \<le> int (unat (a - buf)) \<Longrightarrow> m a = mem s a"
proof -
  let ?c = "page_directory tk" and ?h = "kernel_heap s" and ?bs = "take (nat (n - 1)) bs"
  have heap: "heap_inv ?h" and wf: "wf_chunk ?c (mem s)" and live: "chunk_pages ?c (mem s) \<subseteq> live_pages ?h"
    and kc: "word_aligned (kernel_chunk s)" "\<not> free_page ?h (page_of (kernel_chunk s))"
      "page_of (kernel_chunk s) \<notin> chunk_pages ?c (mem s)"
    and dg: "directory_grants 1 ?c (mem s)"
    using ok by (auto simp: task_space_def)
  define k where "k = nat n"
  have k: "n = int k" "0 < k" "k < 4096" using n by (auto simp: k_def)
  have sz: "0 < (of_nat k :: u32)" "unat (of_nat k :: u32) = k"
    using k by (auto simp: word_less_nat_alt unat_of_nat take_bit_nat_eq_self)
  obtain p s1 where z: "kernel_zalloc (of_nat k) s = Some (p, s1)" "p \<noteq> 0" "page_aligned p" "grows s s1"
      "free_page ?h (page_of p)"
    by (rule kernel_zalloc_grows [OF heap sz(1)]) (use sz(2) k room in auto)
  obtain m1 h1 where s1: "s1 = s\<lparr>mem := m1, kernel_heap := h1\<rparr>" using kernel_zalloc_shape [OF z(1)] by blast
  have "heap_malloc ?h (of_nat k) = Some (p, kernel_heap s1)"
    using z(1) by (auto simp: kernel_zalloc_def kernel_malloc_def split: bind_splits if_splits)
  then have hm: "heap_malloc ?h (of_nat k) = Some (p, h1)" by (simp add: s1)
  have free: "heap_free h1 p = ?h"
    by (rule heap_malloc_free_restores [OF heap sz(1) _ hm z(2)]) (use sz(2) k in simp)
  have m1: "m1 a = mem s a" if "\<not> free_page ?h (page_of a)" for a
    using z(4) that by (simp add: grows_def s1)
  have pg: "page_of p \<notin> chunk_pages ?c (mem s)" using z(5) live by (auto simp: free_page_def)
  have same: "m1 a = mem s a" if "page_of a \<in> chunk_pages ?c (mem s)" for a
    using live that by (intro m1) (auto simp: free_page_def)
  note cong = chunk_cong [OF wf, of m1, OF same]
  let ?d = "load32 m1 ?c" and ?m2 = "snd (paging_map ?c p p 7 m1)"
  define e where "e = entry_slot m1 ?d p"
  have m2: "?m2 = store32 m1 e (p OR 7)"
    using paging_map_aligned [OF z(3,3), of ?c 7 m1] by (simp add: e_def)
  note frame = paging_map_frame [OF cong(1), where v = p and p = p and flags = 7]
  have wf2: "wf_chunk ?c ?m2" by (rule pm.map_inv [OF cong(1)])
  have d2: "load32 ?m2 ?c = ?d" "chunk_pages ?c ?m2 = chunk_pages ?c (mem s)"
    using frame(2,3) cong(3,4) by (simp_all add: chunk_pages_def)
  have tr: "paging_get_physical_address ?d v ?m2 = (if page_of v = page_of p then v else translate tk (mem s) v)" for v
    using paging_map_translate [OF cong(1) z(3), of 7 v] cong(5) [of v] d2(1) by (simp add: translate_def)
  note gr = paging_map_grants [OF cong(1) z(3,3), of 1 7]
  have acc: "kernel_access ?d v ?m2 \<longleftrightarrow> page_of v = page_of p \<or> kernel_access (load32 (mem s) ?c) v (mem s)" for v
  proof -
    have "directory_grants 1 ?c m1" using grants_cong(2) [OF wf, of m1 1] same dg by metis
    then have "load32 m1 (slot ?d (dir_index v)) AND 1 = 1" using index_bounds(1) by (simp only: directory_grants_def)
    then show ?thesis using gr(2) [of v] grants_cong(1) [OF wf, of m1 1 v] same d2(1) by simp
  qed
  have m2_other: "?m2 a = mem s a" if "\<not> free_page ?h (page_of a)" "page_of a \<notin> chunk_pages ?c (mem s)" for a
    using frame(1) [of a] that m1 cong(3) by (simp add: chunk_pages_def)
  have char: "page_of (va + of_nat i) \<noteq> page_of p" "page_of (translate tk (mem s) (va + of_nat i)) \<noteq> page_of p"
      "?m2 (translate tk (mem s) (va + of_nat i)) = (bs @ [0]) ! i" if "i \<le> length bs" for i
    using str that z(5) m2_other by (auto simp: user_string_def)
  have len: "length ?bs \<le> length bs" "length ?bs \<le> k - 1" "length ?bs < 4096" using k by auto
  have nth: "(bs @ [0]) ! i = ?bs ! i" "?bs ! i \<noteq> 0" if "i < length ?bs" for i
    using str that by (auto simp: user_string_def nth_append in_set_conv_nth)
  define X where "X = ?bs @ [0]"
  define m3 where "m3 = write_bytes p X ?m2"
  have copy: "strncpy_paged ?d p va n 0 ?m2 = Some m3"
    unfolding m3_def X_def d2(1) [symmetric]
  proof (rule strncpy_paged_correct [OF z(3) wf2])
    show "page_of p \<notin> chunk_pages ?c ?m2" using pg d2(2) by simp
    show "paging_get_physical_address (load32 ?m2 ?c) (p + of_nat i) ?m2 = p + of_nat i" if "i < 4096" for i
      using tr [of "p + of_nat i"] page_of_add [OF z(3) that] d2(1) by simp
    show "?m2 (paging_get_physical_address (load32 ?m2 ?c) (va + of_nat i) ?m2) = ?bs ! i \<and> ?bs ! i \<noteq> 0"
      if "i < length ?bs" for i
      using tr [of "va + of_nat i"] char [of i] nth [OF that] that len(1) d2(1) by simp
    show "?m2 (paging_get_physical_address (load32 ?m2 ?c) (va + of_nat (length ?bs)) ?m2) = 0"
      if "int (length ?bs) < n - 1"
    proof -
      have "length ?bs = length bs" using that k by simp
      then show ?thesis using tr [of "va + of_nat (length bs)"] char [of "length bs"] d2(1) by simp
    qed
    show "page_of (paging_get_physical_address (load32 ?m2 ?c) (va + of_nat i) ?m2) \<noteq> page_of p"
      if "i \<le> length ?bs" for i
      using tr [of "va + of_nat i"] char [of i] that len(1) d2(1) by simp
    show "page_grants 1 (load32 ?m2 ?c) (va + of_nat i) ?m2" if "i \<le> length ?bs" "int i < n - 1" for i
      using acc [of "va + of_nat i"] str that len(1) d2(1) by (simp add: user_string_def)
    show "page_grants 1 (load32 ?m2 ?c) (p + of_nat i) ?m2" if "i < 4096" for i
      using acc [of "p + of_nat i"] page_of_add [OF z(3) that] d2(1) by simp
  qed (use len(2) k in auto)
  define m4 where "m4 = store32 m3 e (load32 m1 e)"
  have X_end: "X ! length ?bs = 0" by (simp only: X_def nth_append_length)
  have X: "length X = Suc (length ?bs)" "length X \<le> 4096" using len(3) by (auto simp: X_def)
  have m4: "m4 a = m1 a" if "page_of a \<noteq> page_of p" for a
    using entry_restored(1) [OF cong(1) z(3) _ X(2) that, of "p OR 7"] pg cong(4)
    by (simp add: m4_def m3_def m2 e_def)
  have m4_page: "m4 (p + of_nat i) = X ! i" if "i < length X" for i
    using entry_restored(2) [OF cong(1) z(3) _ X(2) that, of "p OR 7"] pg cong(4)
    by (simp add: m4_def m3_def m2 e_def)
  have far: "\<not> unat (buf - p) < 4096"
    using in_page_iff [OF z(3), of buf] buf [of 0] z(5) by (auto simp: free_page_def)
  have str4: "strncpy_bytes m4 p n = ?bs"
  proof (rule strncpy_bytes_eqI)
    show "m4 (p + of_nat i) = ?bs ! i" if "i < length ?bs" for i
    proof -
      have "i < length X" using that X(1) by linarith
      from m4_page [OF this] that show ?thesis by (simp add: X_def nth_append)
    qed
    show "0 \<notin> set ?bs" using str by (auto simp: user_string_def dest: in_set_takeD)
    show "m4 (p + of_nat (length ?bs)) = 0" using m4_page [of "length ?bs"] X(1) X_end by (simp only: lessI)
  qed (use len(2) k in auto)
  define m5 where "m5 = write_bytes buf X m4"
  have copy5: "strncpy buf p n m4 = m5"
    using strncpy_correct [of buf p m4 n] str4 far len(3) n by (simp add: m5_def X_def)
  have kchunk: "load32 m3 (kernel_chunk s) = load32 (mem s) (kernel_chunk s)"
  proof -
    have b: "m3 (kernel_chunk s + of_nat j) = mem s (kernel_chunk s + of_nat j)" if "j < 4" for j
    proof -
      have "page_of (kernel_chunk s + of_nat j) = page_of (kernel_chunk s)" using page_of_word_add [OF kc(1) that] .
      moreover have "page_of (kernel_chunk s) \<noteq> page_of p" using kc(2) z(5) by auto
      ultimately show ?thesis
        using kc(2,3) write_bytes_other_page [OF z(3) X(2), of "kernel_chunk s + of_nat j" ?m2]
          m2_other [of "kernel_chunk s + of_nat j"] by (simp add: m3_def)
    qed
    show ?thesis using b [of 0] b [of 1] b [of 2] b [of 3] by (intro load32_cong) simp_all
  qed
  have e3: "entry_slot m3 ?d p = e"
  proof -
    have "m3 a = ?m2 a" if "page_of a \<in> chunk_pages ?c ?m2" for a
      using write_bytes_other_page [OF z(3) X(2), of a] that pg d2(2) by (metis m3_def)
    from entry_slot_cong [OF wf2 this, of p] have "entry_slot m3 ?d p = entry_slot ?m2 ?d p" by (simp add: d2(1))
    also have "\<dots> = e"
      using table_of_store_entry [of m1 ?d "dir_index p" p "p OR 7"] cong(1) index_bounds(1) [of p]
      by (simp add: m2 e_def entry_slot_def wf_chunk_def)
    finally show ?thesis .
  qed
  have old: "paging_get ?d p m1 = load32 m1 e" using paging_get_aligned [OF z(3)] by (simp add: e_def)
  have set4: "paging_set_physical_address ?d p (load32 m1 e) m3 = (0, m4)"
    using paging_set_aligned [OF z(3), of ?d "load32 m1 e" m3] e3 by (simp add: m4_def)
  have "copy_string_from_task t va buf n s = Some (0, (kernel_page s)\<lparr>mem := m5\<rparr>)"
    using z(1,2) n(2) k(1) t copy copy5 old set4 free kchunk d2(1)
    by (simp add: copy_string_from_task_def s1 kernel_page_def paging_switch_def paging_load_directory_def
        kernel_free_def Let_def)
  moreover have "cstring m5 buf ?bs"
  proof (rule cstringI)
    show "m5 (buf + of_nat i) = ?bs ! i" if "i < length ?bs" for i
    proof -
      have "i < length X" using that X(1) by linarith
      from write_bytes_inside [OF this, of buf m4] X(2) that show ?thesis by (simp add: m5_def X_def nth_append)
    qed
    show "0 \<notin> set ?bs" using str by (auto simp: user_string_def dest: in_set_takeD)
    have "length ?bs < length X" using X(1) by linarith
    moreover have "length X \<le> 2 ^ 32" using X(2) by simp
    ultimately show "m5 (buf + of_nat (length ?bs)) = 0"
      using write_bytes_inside [of "length ?bs" X buf m4] by (simp only: m5_def X_end)
  qed
  moreover have "m5 a = mem s a" if "\<not> free_page ?h (page_of a)" "n \<le> int (unat (a - buf))" for a
  proof -
    have "page_of a \<noteq> page_of p" using that(1) z(5) by auto
    moreover have "length X \<le> unat (a - buf)" using that(2) X(1) len(2) k by linarith
    ultimately show ?thesis using m4 m1 [OF that(1)] by (simp add: m5_def write_bytes_outside)
  qed
  ultimately show ?thesis by (rule that)
qed

section \<open>Properties\<close>

text \<open>
  C15. \<open>copy_string_from_task\<close> for a string of the task in pages that are present and in use, with
  one free page: it returns 0; the kernel's buffer holds the string, cut after \<open>n - 1\<close> characters, with a
  terminator; the heap is as before, every byte in use outside the buffer too (so that the
  mapping that was made for the copy is undone), and the kernel's directory is loaded.
\<close>

theorem copy_string_from_task_delivers:
  fixes s :: "'a procs_scheme"
  assumes "tasks s t = Some tk" "task_space s tk" "0 < free_blocks (kernel_heap s)"
    "user_string s tk va bs" "0 < n" "n < 4096"
    "\<And>i. i < 4096 \<Longrightarrow> page_of (buf + of_nat i) \<notin> heap_pages (kernel_heap s)"
  shows "\<exists>s'. copy_string_from_task t va buf n s = Some (0, s') \<and>
    cstring (mem s') buf (take (nat (n - 1)) bs) \<and>
    (\<forall>a. free_page (kernel_heap s) (page_of a) \<or> unat (a - buf) < nat n \<or> mem s' a = mem s a) \<and>
    kernel_heap s' = kernel_heap s \<and> cr3 s' = load32 (mem s) (kernel_chunk s)"
proof -
  obtain m where m: "copy_string_from_task t va buf n s = Some (0, (kernel_page s)\<lparr>mem := m\<rparr>)"
    "cstring m buf (take (nat (n - 1)) bs)"
    "\<And>a. \<not> free_page (kernel_heap s) (page_of a) \<Longrightarrow> n \<le> int (unat (a - buf)) \<Longrightarrow> m a = mem s a"
    by (rule copy_string_result [OF assms(1-7), rule_format]) (assumption | blast)+
  have "free_page (kernel_heap s) (page_of a) \<or> unat (a - buf) < nat n \<or> m a = mem s a" for a
    using m(3) [of a] by linarith
  with m(1,2) show ?thesis
    by (simp add: kernel_page_def paging_switch_def paging_load_directory_def)
qed

section \<open>Instances\<close>

text \<open>
  A new address space serves every task whose kernel data lies outside the heap: whatever
  memory outside the heap holds, the space is well formed and maps each address to itself.
\<close>

lemma new_task_space:
  fixes s :: "'a procs_scheme"
  assumes "heap_inv (kernel_heap s)" "1026 < free_blocks (kernel_heap s)"
    "word_aligned (kernel_chunk s)" "page_of (kernel_chunk s) \<notin> heap_pages (kernel_heap s)"
  obtains chunk m h where "paging_new_4gb 5 s = Some (chunk, s\<lparr>mem := m, kernel_heap := h\<rparr>)"
    "0 < free_blocks h" "heap_pages h = heap_pages (kernel_heap s)"
    "\<And>u tk. kernel_heap u = h \<Longrightarrow> kernel_chunk u = kernel_chunk s \<Longrightarrow> page_directory tk = chunk \<Longrightarrow>
      (\<And>a. page_of a \<in> heap_pages (kernel_heap s) \<Longrightarrow> mem u a = m a) \<Longrightarrow>
      task_space (u :: 'a procs_scheme) tk \<and>
      (\<forall>v. translate tk (mem u) v = v \<and> kernel_access (load32 (mem u) chunk) v (mem u)) \<and>
      chunk_pages chunk (mem u) \<subseteq> heap_pages (kernel_heap s)"
proof -
  obtain chunk d tbl s' where new: "paging_new_4gb 5 s = Some (chunk, s')"
      and fresh: "fresh_chunk (ucast (5 :: byte)) s chunk d tbl s'"
    by (rule paging_new_4gb_result [OF assms(1) less_imp_le [OF assms(2)]])
  obtain m h where s': "s' = s\<lparr>mem := m, kernel_heap := h\<rparr>" using paging_new_4gb_shape [OF new] by blast
  have hp: "heap_pages h = heap_pages (kernel_heap s)" using paging_new_4gb_heap_pages [OF new] by (simp add: s')
  have al: "allocs h = insert (chunk, 1) (insert (d, 1) ((\<lambda>k. (tbl k, 1)) ` {0..<1024} \<union> allocs (kernel_heap s)))"
    and ld: "load32 m chunk = d" and hi: "heap_inv h"
    and fb: "free_blocks (kernel_heap s) = free_blocks h + 1026"
    using fresh by (auto simp: fresh_chunk_def s')
  have live: "chunk_pages chunk m \<subseteq> live_pages h"
    using fresh_chunk_pages(2) [OF fresh] by (simp add: s')
  have heap: "chunk_pages chunk m \<subseteq> heap_pages (kernel_heap s)"
    using al fresh_chunk_table_of [OF fresh] hp
    by (auto simp: chunk_pages_def table_pages_def ld s' intro!: allocs_heap_pages [OF hi, of _ 1, unfolded hp])
  show ?thesis
  proof (rule that [where chunk = chunk and m = m and h = h])
    show "paging_new_4gb 5 s = Some (chunk, s\<lparr>mem := m, kernel_heap := h\<rparr>)" using new s' by simp
    show "0 < free_blocks h" using fb assms(2) by simp
    show "heap_pages h = heap_pages (kernel_heap s)" by (rule hp)
    fix u :: "'a procs_scheme" and tk :: task
    assume u: "kernel_heap u = h" "kernel_chunk u = kernel_chunk s" "page_directory tk = chunk"
      and same: "\<And>a. page_of a \<in> heap_pages (kernel_heap s) \<Longrightarrow> mem u a = m a"
    have wf: "wf_chunk chunk m" using fresh_chunk_wf [OF fresh] by (simp add: s')
    have "mem u a = m a" if "page_of a \<in> chunk_pages chunk m" for a using same heap that by blast
    note cong = chunk_cong [OF wf this]
    have "paging_get_physical_address (load32 (mem u) chunk) v (mem u) = v" for v
      using cong(5) [of v] fresh_chunk_translate [OF fresh, of v] by (simp add: ld s')
    moreover have "space_grants 1 chunk (mem u)"
      using fresh_chunk_grants [OF fresh, of 1] grants_cong(3) [OF wf, of "mem u" 1] same heap by (auto simp: s')
    ultimately show "task_space u tk \<and>
        (\<forall>v. translate tk (mem u) v = v \<and> kernel_access (load32 (mem u) chunk) v (mem u)) \<and>
        chunk_pages chunk (mem u) \<subseteq> heap_pages (kernel_heap s)"
      using u hi cong(1,4) live heap assms(3,4) hp
      by (auto simp: task_space_def translate_def free_page_def space_grants_def)
  qed
qed

theorem copy_string_from_task_delivers_witness:
  "\<exists>chunk s tk s'. paging_new_4gb 5 demo_procs = Some (chunk, s) \<and> page_directory tk = chunk \<and>
     copy_string_from_task 0x300 0x2000 0x5FF000 16
       (s\<lparr>tasks := [0x300 \<mapsto> tk], mem := (mem s)(0x2000 := 0x68, 0x2001 := 0x69, 0x2002 := 0)\<rparr>) = Some (0, s') \<and>
     cstring (mem s') 0x5FF000 [0x68, 0x69]"
proof -
  have hp: "heap_pages (kernel_heap demo_procs) = {4096..<29696}"
    by (simp add: heap_pages_def demo_procs_def page_of_def total_def)
  have outside: "page_of (0x2000 + of_nat i) \<notin> {4096..<29696}" "page_of (0x5FF000 + of_nat i) \<notin> {4096..<29696}"
    if "i < 4096" for i
    using page_of_add [of "0x2000" i] page_of_add [of "0x5FF000" i] that
    by (simp_all add: page_aligned_def page_of_def)
  obtain chunk m h where new: "paging_new_4gb 5 demo_procs = Some (chunk, demo_procs\<lparr>mem := m, kernel_heap := h\<rparr>)"
    "0 < free_blocks h" "heap_pages h = heap_pages (kernel_heap demo_procs)"
    "\<And>u tk. kernel_heap u = h \<Longrightarrow> kernel_chunk u = kernel_chunk demo_procs \<Longrightarrow> page_directory tk = chunk \<Longrightarrow>
      (\<And>a. page_of a \<in> heap_pages (kernel_heap demo_procs) \<Longrightarrow> mem u a = m a) \<Longrightarrow>
      task_space (u :: procs) tk \<and>
      (\<forall>v. translate tk (mem u) v = v \<and> kernel_access (load32 (mem u) chunk) v (mem u)) \<and>
      chunk_pages chunk (mem u) \<subseteq> heap_pages (kernel_heap demo_procs)"
  proof (rule new_task_space [of demo_procs])
    show "heap_inv (kernel_heap demo_procs)"
      by (rule heap_inv_fresh [of _ 25600]) (simp_all add: demo_procs_def page_aligned_def)
  qed (simp_all add: hp, simp_all add: demo_procs_def free_blocks_def word_aligned_def page_of_def)
  define tk where "tk = zero_task\<lparr>page_directory := chunk\<rparr>"
  define u where "u = demo_procs\<lparr>kernel_heap := h, tasks := [0x300 \<mapsto> tk],
    mem := m(0x2000 := 0x68, 0x2001 := 0x69, 0x2002 := 0)\<rparr>"
  have mu: "mem u a = m a" if "page_of a \<in> heap_pages (kernel_heap demo_procs)" for a
    using that by (auto simp: u_def hp page_of_def)
  have sp: "task_space u tk" "\<And>v. translate tk (mem u) v = v" "chunk_pages chunk (mem u) \<subseteq> {4096..<29696}"
    "\<And>v. kernel_access (load32 (mem u) (page_directory tk)) v (mem u)"
    using new(4) [of u tk, OF _ _ _ mu] by (auto simp: u_def tk_def hp)
  have "mem u (0x2000 + of_nat i) = ([0x68, 0x69] @ [0]) ! i \<and> page_of (0x2000 + of_nat i :: addr) < 4096"
    if "i \<le> length [0x68, 0x69 :: byte]" for i
    using that by (auto simp: u_def le_Suc_eq page_of_def)
  moreover have kh: "kernel_heap u = h" "page_directory tk = chunk" by (simp_all add: u_def tk_def)
  moreover have "\<not> free_page h q" "q \<notin> chunk_pages chunk (mem u)" if "q < 4096" for q
    using that sp(3) new(3) hp by (auto simp: free_page_def)
  ultimately have "user_string u tk 0x2000 [0x68, 0x69]"
    unfolding user_string_def sp(2) by (simp add: sp(4) [unfolded kh(2) PAGING_IS_PRESENT_def])
  from copy_string_from_task_delivers [OF _ sp(1) _ this, of "0x300" 16 "0x5FF000"]
  obtain s' where "copy_string_from_task 0x300 0x2000 0x5FF000 16 u = Some (0, s')"
      "cstring (mem s') 0x5FF000 (take 15 [0x68, 0x69])"
    using outside(2) new(2,3) by (auto simp: u_def hp)
  then show ?thesis
    using new(1) by (intro exI [of _ chunk] exI [of _ "demo_procs\<lparr>mem := m, kernel_heap := h\<rparr>"]
        exI [where x = tk] exI [where x = s'])
      (simp add: u_def tk_def)
qed

end
