(* ===== verification/Isr80h.thy ===== *)
theory Isr80h
  imports Idt UserMemory
begin

text \<open>
  System calls: the commands of \<^verbatim>\<open>src/src/isr80h/\<close> and their dispatcher, the second half of
  \<^verbatim>\<open>src/src/idt/idt.c\<close>. A command takes its arguments from the stack of the current task. The
  commands that end in \<open>task_return\<close> or \<open>task_next\<close> do not return a value to their caller but
  enter user mode.
\<close>

section \<open>Definitions\<close>

subsection \<open>Commands\<close>

definition isr80h_command0_sum :: "'a interrupts_scheme \<Rightarrow> (u32 outcome \<times> 'a interrupts_scheme) option" where
  "isr80h_command0_sum s = do {
     (v2, s) \<leftarrow> task_get_stack_item (task_current s) 1 s;
     (v1, s) \<leftarrow> task_get_stack_item (task_current s) 0 s;
     Some (Returns (v1 + v2), s)
   }"

definition isr80h_command0_exit :: "'a interrupts_scheme \<Rightarrow> (u32 outcome \<times> 'a interrupts_scheme) option" where
  "isr80h_command0_exit s = do {
     tk \<leftarrow> tasks s (task_current s);
     (r, s) \<leftarrow> process_terminate (task_process tk) s;
     (regs, s) \<leftarrow> task_next s;
     Some (EntersUser regs, s)
   }"

definition isr80h_command1_print :: "'a interrupts_scheme \<Rightarrow> (u32 outcome \<times> 'a interrupts_scheme) option" where
  "isr80h_command1_print s = do {
     (user_space_massage_buffer, s) \<leftarrow> task_get_stack_item (task_current s) 0 s;
     let buffer = local_addr s Local_print_buffer;
     (res, s) \<leftarrow> copy_string_from_task (task_current s) user_space_massage_buffer buffer 1024 s;
     s \<leftarrow> print buffer s;
     Some (Returns 0, s)
   }"

definition isr80h_command2_getkey :: "'a interrupts_scheme \<Rightarrow> (u32 outcome \<times> 'a interrupts_scheme) option" where
  "isr80h_command2_getkey s = do {
     (c, s) \<leftarrow> keyboard_pop s;
     Some (Returns (scast c), s)
   }"

definition isr80h_command3_putchar :: "'a interrupts_scheme \<Rightarrow> (u32 outcome \<times> 'a interrupts_scheme) option" where
  "isr80h_command3_putchar s = do {
     (c, s) \<leftarrow> task_get_stack_item (task_current s) 0 s;
     Some (Returns 0, terminal_writechar (ucast c) 15 s)
   }"

definition isr80h_command4_malloc :: "'a interrupts_scheme \<Rightarrow> (u32 outcome \<times> 'a interrupts_scheme) option" where
  "isr80h_command4_malloc s = do {
     (sz, s) \<leftarrow> task_get_stack_item (task_current s) 0 s;
     tk \<leftarrow> tasks s (task_current s);
     (ptr, s) \<leftarrow> process_malloc (task_process tk) sz s;
     Some (Returns ptr, s)
   }"

definition isr80h_command5_free :: "'a interrupts_scheme \<Rightarrow> (u32 outcome \<times> 'a interrupts_scheme) option" where
  "isr80h_command5_free s = do {
     (ptr_to_free, s) \<leftarrow> task_get_stack_item (task_current s) 0 s;
     tk \<leftarrow> tasks s (task_current s);
     s \<leftarrow> process_free (task_process tk) ptr_to_free s;
     Some (Returns 0, s)
   }"

text \<open>Switching to the task of a process and entering user mode, the end of two commands.\<close>

definition isr80h_enter_process :: "addr \<Rightarrow> 'a interrupts_scheme \<Rightarrow> (u32 outcome \<times> 'a interrupts_scheme) option" where
  "isr80h_enter_process p s = do {
     pr \<leftarrow> processes s p;
     (r, s) \<leftarrow> task_switch (process_task pr) s;
     tk \<leftarrow> tasks s (process_task pr);
     Some (EntersUser (registers tk), s)
   }"

text \<open>
  A name that does not fit behind the drive prefix overflows the array \<open>path\<close>, which is
  undefined.
\<close>

definition isr80h_command6_process_load_start ::
    "'a interrupts_scheme \<Rightarrow> (u32 outcome \<times> 'a interrupts_scheme) option" where
  "isr80h_command6_process_load_start s = do {
     (filename_user_ptr, s) \<leftarrow> task_get_stack_item (task_current s) 0 s;
     let filename = local_addr s Local_filename;
     (res, s) \<leftarrow> copy_string_from_task (task_current s) filename_user_ptr filename (int (unat OS_MAX_PATH)) s;
     if res < 0 then Some (Returns 0, s)
     else do {
       let path = local_addr s Local_path;
       m \<leftarrow> strcpy path (literal_addr s lit_drive) (mem s);
       n \<leftarrow> strlen m filename;
       if 3 + unat n > unat OS_MAX_PATH then None
       else do {
         m \<leftarrow> strcpy (path + 3) filename m;
         (res, proc, s) \<leftarrow> process_load_switch path 0 (s\<lparr>mem := m\<rparr>);
         if res < 0 then Some (Returns 0, s) else isr80h_enter_process proc s
       }
     }
   }"

text \<open>The bytes \<open>strncpy\<close> writes for a name are its characters up to the bound and a terminator.\<close>

definition isr80h_command7_invoke_system_command ::
    "'a interrupts_scheme \<Rightarrow> (u32 outcome \<times> 'a interrupts_scheme) option" where
  "isr80h_command7_invoke_system_command s = do {
     (arg, s) \<leftarrow> task_get_stack_item (task_current s) 0 s;
     arguments \<leftarrow> task_virtual_address_to_physical (task_current s) arg s;
     n \<leftarrow> (if arguments = 0 then Some 0 else strlen (mem s) arguments);
     if n = 0 then Some (Returns (word_of_int (- INVALID_ARGUMENT_ERROR)), s)
     else do {
       let path = local_addr s Local_path;
       m \<leftarrow> strcpy path (literal_addr s lit_drive) (mem s);
       if 3 + strnlen_terminator m arguments (int (unat OS_MAX_PATH) - 1) 0 + 1 > int (unat OS_MAX_PATH) then None
       else do {
         let s = s\<lparr>mem := strncpy (path + 3) arguments (int (unat OS_MAX_PATH)) m\<rparr>;
         (res, proc, s) \<leftarrow> process_load_switch path 0 s;
         if res < 0 then Some (Returns (word_of_int res), s)
         else do {
           (res, s) \<leftarrow> process_inject_arguments proc arguments s;
           if res < 0 then Some (Returns (word_of_int res), s) else isr80h_enter_process proc s
         }
       }
     }
   }"

text \<open>
  Command 8 stores two words where the program says, with no check of the address. In the machine that place may
  be a structure of the kernel. The objects of the heap are records beside memory here, and so are the static
  variables of the kernel below the heap, so such a store is outside the model: \<open>isr80h_command8_get_program_arguments\<close>
  has no result when the eight bytes meet an object or lie outside the heap. The heap pages that hold bytes
  (page tables, buffers, the memory of programs) are part of memory, and stores to them are described as they happen.
\<close>

definition object_at :: "nat \<Rightarrow> (addr \<rightharpoonup> 'b) \<Rightarrow> addr \<Rightarrow> bool" where
  "object_at n store a \<longleftrightarrow> list_ex (\<lambda>k. store (a - of_nat k) \<noteq> None) [0..<n]"

definition kernel_object_at :: "'a interrupts_scheme \<Rightarrow> addr \<Rightarrow> bool" where
  "kernel_object_at s a \<longleftrightarrow>
     object_at 64 (tasks s) a \<or> object_at 9364 (processes s) a \<or> object_at 132 (elf_files s) a \<or>
     object_at 8 (streams s) a \<or> object_at 8 (path_roots s) a \<or> object_at 8 (path_parts s) a \<or>
     object_at 92 (fat_privates s) a \<or> object_at 16 (fat_directories s) a \<or> object_at 8 (fat_items s) a \<or>
     object_at 8 (fat_descriptors s) a \<or> object_at 16 (fd_objects s) a"

definition plain_heap_byte :: "'a interrupts_scheme \<Rightarrow> addr \<Rightarrow> bool" where
  "plain_heap_byte s a \<longleftrightarrow> HEAP_ADDRESS \<le> a \<and> a < HEAP_ADDRESS + of_nat HEAP_SIZE_BYTES \<and> \<not> kernel_object_at s a"

definition isr80h_command8_get_program_arguments ::
    "'a interrupts_scheme \<Rightarrow> (u32 outcome \<times> 'a interrupts_scheme) option" where
  "isr80h_command8_get_program_arguments s = do {
     tk \<leftarrow> tasks s (task_current s);
     (arg, s) \<leftarrow> task_get_stack_item (task_current s) 0 s;
     arguments \<leftarrow> task_virtual_address_to_physical (task_current s) arg s;
     (ac, av) \<leftarrow> process_get_arguments (task_process tk) s;
     if list_ex (\<lambda>k. \<not> plain_heap_byte s (arguments + of_nat k)) [0..<8] then None else
     Some (Returns 0, s\<lparr>mem := store32 (store32 (mem s) arguments (word_of_int ac)) (arguments + 4) av\<rparr>)
   }"

subsection \<open>Registration and dispatch\<close>

definition isr80h_register_command ::
    "int \<Rightarrow> isr80h_command \<Rightarrow> 'a interrupts_scheme \<Rightarrow> 'a interrupts_scheme option" where
  "isr80h_register_command command command_func s =
     (if command < 0 \<or> int OS_MAX_ISR80H_COMMANDS \<le> command then panic s
      else if isr80h_commands s ! nat command \<noteq> NoCommand then panic s
      else Some (s\<lparr>isr80h_commands := (isr80h_commands s)[nat command := command_func]\<rparr>))"

text \<open>A call through the pointer of a command.\<close>

definition call_isr80h_command ::
    "isr80h_command \<Rightarrow> 'a interrupts_scheme \<Rightarrow> (u32 outcome \<times> 'a interrupts_scheme) option" where
  "call_isr80h_command f s =
     (case f of
        NoCommand \<Rightarrow> None
      | ExitCommand \<Rightarrow> isr80h_command0_exit s
      | PrintCommand \<Rightarrow> isr80h_command1_print s
      | GetkeyCommand \<Rightarrow> isr80h_command2_getkey s
      | PutcharCommand \<Rightarrow> isr80h_command3_putchar s
      | MallocCommand \<Rightarrow> isr80h_command4_malloc s
      | FreeCommand \<Rightarrow> isr80h_command5_free s
      | ProcessLoadStartCommand \<Rightarrow> isr80h_command6_process_load_start s
      | InvokeSystemCommand \<Rightarrow> isr80h_command7_invoke_system_command s
      | GetProgramArgumentsCommand \<Rightarrow> isr80h_command8_get_program_arguments s)"

definition isr80h_handle_command :: "int \<Rightarrow> 'a interrupts_scheme \<Rightarrow> (u32 outcome \<times> 'a interrupts_scheme) option" where
  "isr80h_handle_command command s =
     (if command < 0 \<or> int OS_MAX_ISR80H_COMMANDS \<le> command then Some (Returns 0, s)
      else
        let command_func = isr80h_commands s ! nat command
        in if command_func = NoCommand then Some (Returns 0, s) else call_isr80h_command command_func s)"

definition isr80h_handler ::
    "int \<Rightarrow> interrupt_frame \<Rightarrow> 'a interrupts_scheme \<Rightarrow> (u32 outcome \<times> 'a interrupts_scheme) option" where
  "isr80h_handler command frame s = do {
     let s = kernel_page s;
     s \<leftarrow> task_current_save_state frame s;
     (res, s) \<leftarrow> isr80h_handle_command command s;
     case res of
       EntersUser regs \<Rightarrow> Some (EntersUser regs, s)
     | Returns v \<Rightarrow> do { (r, s) \<leftarrow> task_page s; Some (Returns v, s) }
   }"

datatype SystemCommands = SYSTEM_COMMAND0_EXIT | SYSTEM_COMMAND1_PRINT | SYSTEM_COMMAND2_GETKEY
  | SYSTEM_COMMAND3_PUTCHAR | SYSTEM_COMMAND4_MALLOC | SYSTEM_COMMAND5_FREE
  | SYSTEM_COMMAND6_PROCESS_LOAD_START | SYSTEM_COMMAND7_INVOKE_SYSTEM_COMMAND
  | SYSTEM_COMMAND8_GET_PROGRAM_ARGUMENTS

text \<open>The number of an enumerator.\<close>

fun command_number :: "SystemCommands \<Rightarrow> int" where
  "command_number SYSTEM_COMMAND0_EXIT = 0"
| "command_number SYSTEM_COMMAND1_PRINT = 1"
| "command_number SYSTEM_COMMAND2_GETKEY = 2"
| "command_number SYSTEM_COMMAND3_PUTCHAR = 3"
| "command_number SYSTEM_COMMAND4_MALLOC = 4"
| "command_number SYSTEM_COMMAND5_FREE = 5"
| "command_number SYSTEM_COMMAND6_PROCESS_LOAD_START = 6"
| "command_number SYSTEM_COMMAND7_INVOKE_SYSTEM_COMMAND = 7"
| "command_number SYSTEM_COMMAND8_GET_PROGRAM_ARGUMENTS = 8"

definition isr80h_register_commands :: "'a interrupts_scheme \<Rightarrow> 'a interrupts_scheme option" where
  "isr80h_register_commands s = do {
     s \<leftarrow> isr80h_register_command (command_number SYSTEM_COMMAND0_EXIT) ExitCommand s;
     s \<leftarrow> isr80h_register_command (command_number SYSTEM_COMMAND1_PRINT) PrintCommand s;
     s \<leftarrow> isr80h_register_command (command_number SYSTEM_COMMAND2_GETKEY) GetkeyCommand s;
     s \<leftarrow> isr80h_register_command (command_number SYSTEM_COMMAND3_PUTCHAR) PutcharCommand s;
     s \<leftarrow> isr80h_register_command (command_number SYSTEM_COMMAND4_MALLOC) MallocCommand s;
     s \<leftarrow> isr80h_register_command (command_number SYSTEM_COMMAND5_FREE) FreeCommand s;
     s \<leftarrow> isr80h_register_command (command_number SYSTEM_COMMAND6_PROCESS_LOAD_START) ProcessLoadStartCommand s;
     s \<leftarrow> isr80h_register_command (command_number SYSTEM_COMMAND7_INVOKE_SYSTEM_COMMAND) InvokeSystemCommand s;
     isr80h_register_command (command_number SYSTEM_COMMAND8_GET_PROGRAM_ARGUMENTS) GetProgramArgumentsCommand s
   }"

section \<open>Dispatch\<close>

text \<open>Which function every command number names.\<close>

definition system_call :: "int \<Rightarrow> 'a interrupts_scheme \<Rightarrow> (u32 outcome \<times> 'a interrupts_scheme) option" where
  "system_call c s =
     (if c = 0 then isr80h_command0_exit s
      else if c = 1 then isr80h_command1_print s
      else if c = 2 then isr80h_command2_getkey s
      else if c = 3 then isr80h_command3_putchar s
      else if c = 4 then isr80h_command4_malloc s
      else if c = 5 then isr80h_command5_free s
      else if c = 6 then isr80h_command6_process_load_start s
      else if c = 7 then isr80h_command7_invoke_system_command s
      else if c = 8 then isr80h_command8_get_program_arguments s
      else Some (Returns 0, s))"

definition system_commands :: "isr80h_command list" where
  "system_commands = [ExitCommand, PrintCommand, GetkeyCommand, PutcharCommand, MallocCommand, FreeCommand,
     ProcessLoadStartCommand, InvokeSystemCommand, GetProgramArgumentsCommand] @ replicate 1015 NoCommand"

lemma isr80h_register_commands_eq:
  assumes "isr80h_commands s = replicate 1024 NoCommand"
  shows "isr80h_register_commands s = Some (s\<lparr>isr80h_commands := system_commands\<rparr>)"
proof -
  have "replicate 1024 NoCommand = replicate 9 NoCommand @ replicate 1015 NoCommand"
    using replicate_add [of 9 1015 NoCommand] by simp
  then show ?thesis
    using assms
    by (simp add: isr80h_register_commands_def isr80h_register_command_def system_commands_def
        numeral_eq_Suc nth_append)
qed

lemma isr80h_handle_command_eq:
  assumes "isr80h_commands s = system_commands"
  shows "isr80h_handle_command c s = system_call c s"
proof -
  consider "c < 0" | "9 \<le> c" | "c \<in> {0, 1, 2, 3, 4, 5, 6, 7, 8}" by fastforce
  then show ?thesis
  proof cases
    case 2
    then have "nat c \<ge> 9" by simp
    then show ?thesis
      using 2 assms by (simp add: isr80h_handle_command_def system_call_def system_commands_def nth_append)
  next
    case 3
    then show ?thesis
      using assms
      by (auto simp: isr80h_handle_command_def system_call_def system_commands_def call_isr80h_command_def)
  qed (simp add: isr80h_handle_command_def system_call_def)
qed

section \<open>The way into the kernel and back\<close>

lemma translate_registers [simp]: "translate (tk\<lparr>registers := r\<rparr>) = translate tk"
  by (simp add: translate_def fun_eq_iff)

lemma user_word_registers [simp]: "user_word (tk\<lparr>registers := r\<rparr>) = user_word tk"
  by (simp add: user_word_def fun_eq_iff)

lemma task_page_eq:
  "tasks s (current_task s) = Some tk \<Longrightarrow> task_page s = Some (0, paging_switch (page_directory tk) s)"
  by (simp add: task_page_def task_switch_def current_task_idem)

text \<open>A command that returns a value leaves it in the task that has called it.\<close>

lemma isr80h_handler_returns:
  fixes s :: "'a interrupts_scheme"
  assumes t: "tasks s (current_task s) = Some tk" "current_task s \<noteq> 0"
    and call: "isr80h_handle_command c ((kernel_page s)\<lparr>tasks := (tasks s)(current_task s \<mapsto> tk\<lparr>registers := frame_registers f\<rparr>)\<rparr>) =
      Some (Returns v, s1)"
    and s1: "tasks s1 (current_task s1) = Some tk1"
  shows "isr80h_handler c f s = Some (Returns v, paging_switch (page_directory tk1) s1)"
  using call task_current_save_state_eq [of "kernel_page s" tk f] t task_page_eq [OF s1]
  by (simp add: isr80h_handler_def)

text \<open>The same for an interrupt whose callback returns.\<close>

lemma interrupt_handler_returns:
  fixes s :: "'a interrupts_scheme"
  assumes t: "tasks s (current_task s) = Some tk" "current_task s \<noteq> 0"
    and i: "i < 512" "interrupt_callbacks s ! i = cb" "cb \<noteq> NoCallback"
    and call: "call_interrupt_callback cb ((kernel_page s)\<lparr>tasks := (tasks s)(current_task s \<mapsto> tk\<lparr>registers := frame_registers f\<rparr>)\<rparr>) =
      Some (Returns (), s1)"
    and s1: "tasks s1 (current_task s1) = Some tk1"
  shows "interrupt_handler (int i) f s = Some (Returns (), outb 0x20 0x20 (paging_switch (page_directory tk1) s1))"
  using call task_current_save_state_eq [of "kernel_page s" tk f] t i task_page_eq [OF s1]
  by (simp add: interrupt_handler_def)

text \<open>The calls of \<open>getkey\<close> of a task, with the frames that it enters the kernel with.\<close>

fun getkey_calls :: "interrupt_frame list \<Rightarrow> 'a interrupts_scheme \<Rightarrow> (u32 list \<times> 'a interrupts_scheme) option" where
  "getkey_calls [] s = Some ([], s)"
| "getkey_calls (f # fs) s = do {
     (r, s) \<leftarrow> isr80h_handler 2 f s;
     case r of
       EntersUser regs \<Rightarrow> None
     | Returns v \<Rightarrow> do { (vs, s) \<leftarrow> getkey_calls fs s; Some (v # vs, s) }
   }"

lemma getkey_call:
  fixes s :: "'a interrupts_scheme"
  assumes t: "tasks s (current_task s) = Some tk" "current_task s \<noteq> 0" "processes s (task_process tk) = Some pr"
    and cmd: "isr80h_commands s = system_commands"
  obtains s' where "isr80h_handler 2 f s = Some (Returns (scast (fst (kb_pop (keyboard pr)))), s')"
    "tasks s' (current_task s') = Some (tk\<lparr>registers := frame_registers f\<rparr>)" "current_task s' \<noteq> 0"
    "processes s' = (processes s)(task_process tk \<mapsto> pr\<lparr>keyboard := snd (kb_pop (keyboard pr))\<rparr>)"
    "isr80h_commands s' = system_commands"
proof -
  let ?tk = "tk\<lparr>registers := frame_registers f\<rparr>"
  let ?w = "(kernel_page s)\<lparr>tasks := (tasks s)(current_task s \<mapsto> ?tk)\<rparr>"
  let ?x = "?w\<lparr>processes := (processes ?w)(task_process tk \<mapsto> pr\<lparr>keyboard := snd (kb_pop (keyboard pr))\<rparr>)\<rparr>"
  have k: "processes (kernel_page s) = processes s" "current_task (kernel_page s) = current_task s"
    "isr80h_commands (kernel_page s) = system_commands"
    using cmd by (simp_all add: kernel_page_def paging_switch_def paging_load_directory_def)
  have "keyboard_pop ?w = Some (fst (kb_pop (keyboard pr)), ?x)"
    using keyboard_pop_task [of ?w ?tk pr] t k by simp
  then have call: "isr80h_handle_command 2 ?w = Some (Returns (scast (fst (kb_pop (keyboard pr)))), ?x)"
    using k(3) by (simp add: isr80h_handle_command_eq system_call_def isr80h_command2_getkey_def)
  show ?thesis
    by (rule that [OF isr80h_handler_returns [OF t(1,2) call]])
       (use t k cmd in \<open>simp_all add: paging_switch_def paging_load_directory_def\<close>)
qed

lemma getkey_calls_contents:
  fixes s :: "'a interrupts_scheme"
  assumes "tasks s (current_task s) = Some tk" "current_task s \<noteq> 0" "processes s (task_process tk) = Some pr"
    "isr80h_commands s = system_commands" "kb_inv (keyboard pr)" "length fs = length (kb_contents (keyboard pr))"
  shows "\<exists>s'. getkey_calls fs s = Some (map scast (kb_contents (keyboard pr)), s')"
  using assms
proof (induction fs arbitrary: s tk pr)
  case (Cons f fs)
  obtain c cs where c: "kb_contents (keyboard pr) = c # cs"
    using Cons.prems(6) by (cases "kb_contents (keyboard pr)") (auto simp del: length_kb_contents)
  note p = kb.pop_first [OF Cons.prems(5) c]
  obtain s1 where s1: "isr80h_handler 2 f s = Some (Returns (scast (fst (kb_pop (keyboard pr)))), s1)"
    "tasks s1 (current_task s1) = Some (tk\<lparr>registers := frame_registers f\<rparr>)" "current_task s1 \<noteq> 0"
    "processes s1 = (processes s)(task_process tk \<mapsto> pr\<lparr>keyboard := snd (kb_pop (keyboard pr))\<rparr>)"
    "isr80h_commands s1 = system_commands"
    by (rule getkey_call [OF Cons.prems(1-4), of f])
  have "\<exists>s'. getkey_calls fs s1 = Some (map scast cs, s')"
    using Cons.IH [OF s1(2,3) _ s1(5), of "pr\<lparr>keyboard := snd (kb_pop (keyboard pr))\<rparr>"] s1(4) p Cons.prems(6) c
    by (simp del: length_kb_contents)
  then show ?case using s1(1) p c by auto
qed (simp del: length_kb_contents)

text \<open>The keyboard interrupt, through the dispatcher of interrupts and the driver.\<close>

lemma keyboard_interrupt_result:
  fixes s :: "'a interrupts_scheme" and scancode :: byte
  assumes "has_focus s p pr" "kb_inv (keyboard pr)" "kb_count (keyboard pr) < 1024"
    "ucast (device s (io_log s) 0x60) = scancode" "unat scancode < 82" "scancode \<noteq> 0x3A"
    "keyboards s ClassicKeyboard = Some kd" "d = keyboard_scan_set_one ! unat scancode" "d \<noteq> 0"
    "c = (if 65 \<le> sint d \<and> sint d \<le> 90 \<and> capslock_state kd = 0 then d + 32 else d)" "c \<noteq> 0"
    "tasks s (current_task s) = Some tk" "current_task s \<noteq> 0"
    "interrupt_callbacks s ! 0x21 = KeyboardCallback" "isr80h_commands s = system_commands"
  obtains s1 where "interrupt_handler 0x21 f s = Some (Returns (), s1)" "cr3 s1 = load32 (mem s) (page_directory tk)"
    "tasks s1 = (tasks s)(current_task s \<mapsto> tk\<lparr>registers := frame_registers f\<rparr>)"
    "processes s1 = (processes s)(p \<mapsto> pr\<lparr>keyboard := kb_push c (keyboard pr)\<rparr>)" "current_task s1 = current_task s"
    "isr80h_commands s1 = system_commands"
proof -
  let ?tk = "tk\<lparr>registers := frame_registers f\<rparr>" and ?pr = "pr\<lparr>keyboard := kb_push c (keyboard pr)\<rparr>"
  let ?u = "(kernel_page s)\<lparr>tasks := (tasks s)(current_task s \<mapsto> ?tk)\<rparr>"
  have foc: "has_focus ?u p pr"
    using assms(1) by (simp add: has_focus_def kernel_page_def paging_switch_def paging_load_directory_def)
  define v where "v = paging_switch (page_directory ?tk) ((kernel_page ?u)\<lparr>io_log := In8 0x60 # In8 0x60 # io_log ?u,
      processes := (processes ?u)(p \<mapsto> ?pr)\<rparr>)"
  have "classic_keyboard_handle_interrupt ?u = Some v"
    unfolding v_def
    by (rule classic_keyboard_interrupt_result [OF foc assms(2,3), where scancode = scancode and kd = kd and c = d and c' = c])
       (use assms in \<open>simp_all add: kernel_page_def paging_switch_def paging_load_directory_def\<close>)
  then have call: "call_interrupt_callback KeyboardCallback ?u = Some (Returns (), v)"
    by (simp add: call_interrupt_callback_def)
  have v: "tasks v = (tasks s)(current_task s \<mapsto> ?tk)" "current_task v = current_task s" "mem v = mem s"
      "processes v = (processes s)(p \<mapsto> ?pr)" "isr80h_commands v = system_commands"
    using assms(15) by (simp_all add: v_def kernel_page_def paging_switch_def paging_load_directory_def)
  have irq: "interrupt_handler 0x21 f s = Some (Returns (), outb 0x20 0x20 (paging_switch (page_directory ?tk) v))"
    using interrupt_handler_returns [OF assms(12,13) _ assms(14) _ call, of ?tk] v by simp
  show ?thesis
    by (rule that [OF irq]) (use v in \<open>simp_all add: outb_def paging_switch_def paging_load_directory_def\<close>)
qed

section \<open>Properties\<close>

text \<open>
  C34. After \<open>isr80h_register_commands\<close> on an empty table the dispatcher is equivalent to the case
  distinction \<open>system_call\<close>: numbers 0 to 8 call their command, and every other number, negative
  or beyond the table, returns 0 without an effect. Registering a second time panics.
\<close>

theorem isr80h_handle_command_dispatches:
  fixes s :: "'a interrupts_scheme"
  assumes "isr80h_commands s = replicate 1024 NoCommand"
  shows "\<exists>s'. isr80h_register_commands s = Some s' \<and> isr80h_register_commands s' = None \<and>
    (\<forall>c u. isr80h_commands u = isr80h_commands s' \<longrightarrow>
      isr80h_handle_command c (u :: 'a interrupts_scheme) = system_call c u)"
proof -
  have "isr80h_register_commands (s\<lparr>isr80h_commands := system_commands\<rparr>) = None"
    by (simp add: isr80h_register_commands_def isr80h_register_command_def system_commands_def panic_def)
  then show ?thesis
    using isr80h_register_commands_eq [OF assms]
    by (simp add: isr80h_handle_command_eq)
qed

text \<open>
  C13. From the keyboard to the program. The keyboard interrupt for the scan code of a character,
  whichever task it interrupts, adds the character behind those that are pending in the buffer of
  the current process and goes back to the task. If the task belongs to that process, its next
  calls of \<open>getkey\<close> return the pending characters, oldest first, and then the typed one, which is
  the first if none was pending. If the task belongs to another process the key is not for it:
  with an empty buffer of its own, \<open>getkey\<close> returns 0. (\<open>kernel_main\<close> starts two programs; the second
  is the current process while the first one runs.)
\<close>

theorem key_press_reaches_program:
  fixes s :: "'a interrupts_scheme" and scancode :: byte
  assumes "has_focus s p pr" "kb_inv (keyboard pr)" "kb_count (keyboard pr) < 1024"
    "ucast (device s (io_log s) 0x60) = scancode" "unat scancode < 82" "scancode \<noteq> 0x3A"
    "keyboards s ClassicKeyboard = Some kd" "d = keyboard_scan_set_one ! unat scancode" "d \<noteq> 0"
    "c = (if 65 \<le> sint d \<and> sint d \<le> 90 \<and> capslock_state kd = 0 then d + 32 else d)" "c \<noteq> 0"
    "tasks s (current_task s) = Some tk" "current_task s \<noteq> 0"
    "interrupt_callbacks s ! 0x21 = KeyboardCallback" "isr80h_commands s = system_commands"
  shows "\<exists>s1 pr1. interrupt_handler 0x21 f s = Some (Returns (), s1) \<and> cr3 s1 = load32 (mem s) (page_directory tk) \<and>
    processes s1 = (processes s)(p \<mapsto> pr1) \<and> kb_contents (keyboard pr1) = kb_contents (keyboard pr) @ [c] \<and>
    (\<forall>fs. task_process tk = p \<longrightarrow> length fs = Suc (length (kb_contents (keyboard pr))) \<longrightarrow>
       (\<exists>s2. getkey_calls fs s1 = Some (map scast (kb_contents (keyboard pr) @ [c]), s2))) \<and>
    (\<forall>f' q. task_process tk \<noteq> p \<longrightarrow> processes s (task_process tk) = Some q \<longrightarrow> kb_inv (keyboard q) \<longrightarrow>
       kb_contents (keyboard q) = [] \<longrightarrow> (\<exists>s2. getkey_calls [f'] s1 = Some ([0], s2)))"
proof -
  let ?b = "kb_push c (keyboard pr)" and ?tk = "tk\<lparr>registers := frame_registers f\<rparr>"
  obtain s1 where s1: "interrupt_handler 0x21 f s = Some (Returns (), s1)"
    "cr3 s1 = load32 (mem s) (page_directory tk)" "tasks s1 = (tasks s)(current_task s \<mapsto> ?tk)"
    "processes s1 = (processes s)(p \<mapsto> pr\<lparr>keyboard := ?b\<rparr>)" "current_task s1 = current_task s" "isr80h_commands s1 = system_commands"
    by (rule keyboard_interrupt_result [OF assms])
  have b: "kb_inv ?b" "kb_contents ?b = kb_contents (keyboard pr) @ [c]"
    using kb_push_queue [OF assms(2,11,3)] by auto
  have t: "tasks s1 (current_task s1) = Some ?tk" "current_task s1 \<noteq> 0" using s1(3,5) assms(13) by simp_all
  have "\<exists>s2. getkey_calls fs s1 = Some (map scast (kb_contents (keyboard pr) @ [c]), s2)"
    if "task_process tk = p" "length fs = Suc (length (kb_contents (keyboard pr)))" for fs
    using getkey_calls_contents [OF t _ s1(6), of "pr\<lparr>keyboard := ?b\<rparr>" fs] s1(4) b that by simp
  moreover have "\<exists>s2. getkey_calls [f'] s1 = Some ([0], s2)"
    if q: "task_process tk \<noteq> p" "processes s (task_process tk) = Some q" "kb_inv (keyboard q)" "kb_contents (keyboard q) = []" for f' q
  proof -
    obtain s2 where "isr80h_handler 2 f' s1 = Some (Returns (scast (fst (kb_pop (keyboard q)))), s2)"
      by (rule getkey_call [OF t _ s1(6), of q f']) (use s1(4) q(1,2) in auto)
    then show ?thesis using kb.pop_empty [OF q(3,4)] by simp
  qed
  ultimately show ?thesis using s1(1,2,4) b(2) by (intro exI [of _ s1] exI [of _ "pr\<lparr>keyboard := ?b\<rparr>"]) simp
qed

text \<open>The memory that \<open>print\<close> writes to for \<open>n\<close> characters: its buffer, and cells of the screen.\<close>

definition print_area :: "'a interrupts_scheme \<Rightarrow> nat \<Rightarrow> addr \<Rightarrow> bool" where
  "print_area s n a \<longleftrightarrow> unat (a - local_addr s Local_print_buffer) < 1024 \<or>
     2 * cursor s \<le> unat (a - video_memory s) \<and> unat (a - video_memory s) < 2 * (cursor s + n + 1)"

text \<open>
  C14. The system call \<open>print\<close> shows a string of the calling program: for fewer than 1024 printable
  characters at the address on top of its stack, both present in its own page tables, the call
  returns 0, the characters stand in consecutive cells from the cursor on (followed by a cell
  for the terminator, which \<open>print\<close> also writes), and the task keeps the registers it has
  called with. The heap is as before, and so is every byte in use outside the buffer and the
  cells; if these are not part of the page tables of the task, every address translates as before.
\<close>

theorem print_system_call_shows:
  fixes s :: "'a interrupts_scheme"
  assumes "tasks s (current_task s) = Some tk" "current_task s \<noteq> 0" "isr80h_commands s = system_commands"
    "task_space s tk" "0 < free_blocks (kernel_heap s)" "stack_ok s"
    "user_word_present tk (mem s) (f_esp f)" "user_string s tk (user_word tk (mem s) (f_esp f)) bs" "length bs < 1024" "\<forall>b \<in> set bs. printable b"
    "unat (terminal_col s) < 80" "cursor s + length bs + 1 < 80 * 65536"
    "\<forall>i \<le> length bs. 2 * (cursor s + length bs + 1) \<le> unat (local_addr s Local_print_buffer + of_nat i - video_memory s)"
  shows "\<exists>s'. isr80h_handler 1 f s = Some (Returns 0, s') \<and> cursor s' = cursor s + length bs + 1 \<and>
    (\<forall>i < length bs. cell s' (cursor s + i) = terminal_make_char (bs ! i) 15) \<and>
    tasks s' (current_task s') = Some (tk\<lparr>registers := frame_registers f\<rparr>) \<and> kernel_heap s' = kernel_heap s \<and>
    (\<forall>a. free_page (kernel_heap s) (page_of a) \<or> print_area s (length bs) a \<or> mem s' a = mem s a) \<and>
    ((\<forall>a. page_of a \<in> chunk_pages (page_directory tk) (mem s) \<longrightarrow> \<not> print_area s (length bs) a) \<longrightarrow>
       (\<forall>v. translate tk (mem s') v = translate tk (mem s) v))"
proof -
  let ?tk = "tk\<lparr>registers := frame_registers f\<rparr>" and ?buf = "local_addr s Local_print_buffer"
  let ?u = "(kernel_page s)\<lparr>tasks := (tasks s)(current_task s \<mapsto> ?tk)\<rparr>"
  let ?va = "user_word tk (mem s) (f_esp f)"
  have u: "task_space (kernel_page ?u) ?tk" "user_string (kernel_page ?u) ?tk ?va bs"
    using assms(4,8) by (simp_all add: task_space_def user_string_def directory_grants_def)
      (simp_all add: kernel_page_def paging_switch_def paging_load_directory_def)
  have item: "task_get_stack_item (current_task s) 0 ?u = Some (?va, kernel_page ?u)"
    using task_get_stack_item_eq [of ?u "current_task s" ?tk 0] assms(7)
    by (simp add: frame_registers_def user_word_present_def)
  have fields: "kernel_heap (kernel_page ?u) = kernel_heap s" "current_task (kernel_page ?u) = current_task s"
      "tasks (kernel_page ?u) = (tasks s)(current_task s \<mapsto> ?tk)" "local_addr (kernel_page ?u) = local_addr s"
      "local_addr ?u = local_addr s"
    by (simp_all add: kernel_page_def paging_switch_def paging_load_directory_def)
  have buf: "page_of (?buf + of_nat i) \<notin> heap_pages (kernel_heap (kernel_page ?u))" if "i < 4096" for i
    using assms(6) that by (simp add: stack_ok_def)
  have pre: "tasks (kernel_page ?u) (current_task s) = Some ?tk" "0 < free_blocks (kernel_heap (kernel_page ?u))"
      "(0 :: int) < 1024" "(1024 :: int) < 4096" "mem (kernel_page ?u) = mem s"
    using fields assms(5) by simp_all
  obtain m where c: "copy_string_from_task (current_task s) ?va ?buf 1024 (kernel_page ?u) =
        Some (0, (kernel_page (kernel_page ?u))\<lparr>mem := m\<rparr>)" "cstring m ?buf (take (nat (1024 - 1)) bs)"
      "\<And>a. \<not> free_page (kernel_heap (kernel_page ?u)) (page_of a) \<Longrightarrow> 1024 \<le> int (unat (a - ?buf)) \<Longrightarrow>
        m a = mem (kernel_page ?u) a"
    by (rule copy_string_result [OF pre(1) u(1) pre(2) u(2) pre(3,4) buf], assumption, rule that, assumption+)
  have str: "cstring m ?buf bs" using c(2) assms(9) by simp
  have m: "m a = mem s a" if "\<not> free_page (kernel_heap s) (page_of a)" "1024 \<le> unat (a - ?buf)" for a
    using c(3) [of a] that unfolding fields(1) pre(5) by linarith
  define w where "w = (kernel_page (kernel_page ?u))\<lparr>mem := m\<rparr>"
  have w: "mem w = m" "terminal_col w = terminal_col s" "terminal_row w = terminal_row s" "video_memory w = video_memory s"
      "tasks w = (tasks s)(current_task s \<mapsto> ?tk)" "current_task w = current_task s"
      "kernel_heap w = kernel_heap s"
    by (simp_all add: w_def kernel_page_def paging_switch_def paging_load_directory_def)
  have cur: "cursor w = cursor s" using w by (simp add: cursor_def)
  obtain x where x: "print ?buf w = Some x" "cursor x = cursor s + length bs + 1"
      "\<forall>i < length bs. cell x (cursor s + i) = terminal_make_char (bs ! i) 15"
      "\<forall>a. unat (a - video_memory s) < 2 * cursor s \<or> 2 * (cursor s + length bs + 1) \<le> unat (a - video_memory s) \<longrightarrow>
         mem x a = m a"
    using print_cstring [of w ?buf bs] str assms(10-13) w cur by auto
  obtain m' row col where "x = w\<lparr>mem := m', terminal_row := row, terminal_col := col\<rparr>"
    using terminal_frame_shape [OF print_frame [OF x(1)]] by blast
  then have fr: "tasks x = (tasks s)(current_task s \<mapsto> ?tk)" "current_task x = current_task s" "kernel_heap x = kernel_heap s"
    using w by simp_all
  have keep: "mem x a = mem s a" if "\<not> free_page (kernel_heap s) (page_of a)" "\<not> print_area s (length bs) a" for a
    using m [OF that(1)] spec [OF x(4), of a] that(2) unfolding print_area_def by (metis not_less)
  have map: "translate tk (mem x) v = translate tk (mem s) v"
    if apart: "\<forall>a. page_of a \<in> chunk_pages (page_directory tk) (mem s) \<longrightarrow> \<not> print_area s (length bs) a" for v
    unfolding translate_def
  proof (rule chunk_cong(5))
    show "wf_chunk (page_directory tk) (mem s)" using assms(4) by (simp add: task_space_def)
    show "mem x a = mem s a" if "page_of a \<in> chunk_pages (page_directory tk) (mem s)" for a
      using keep [of a] assms(4) that apart by (auto simp: task_space_def free_page_def)
  qed
  have "isr80h_handle_command 1 ?u = Some (Returns 0, x)"
    using item c(1) x(1) assms(3) fields
    by (simp add: isr80h_handle_command_eq system_call_def isr80h_command1_print_def task_current_def w_def Let_def)
  then have "isr80h_handler 1 f s = Some (Returns 0, paging_switch (page_directory ?tk) x)"
    by (intro isr80h_handler_returns [OF assms(1,2)]) (use fr in simp_all)
  then show ?thesis
    using x(2,3) fr keep map
    by (simp add: paging_switch_def paging_load_directory_def cursor_def cell_def) blast
qed

section \<open>Instances\<close>

theorem isr80h_handle_command_dispatches_witness:
  "\<exists>s'. isr80h_register_commands demo_interrupts = Some s' \<and> isr80h_handle_command 77 s' = Some (Returns 0, s') \<and>
     isr80h_handle_command 2 s' = isr80h_command2_getkey s'"
proof -
  have "isr80h_commands demo_interrupts = replicate 1024 NoCommand" by (simp add: demo_interrupts_defs)
  from isr80h_handle_command_dispatches [OF this] show ?thesis by (auto simp: system_call_def)
qed

text \<open>The demonstration kernel while the process at \<^verbatim>\<open>0x2000\<close> runs and the key \<open>A\<close> is down.\<close>

definition demo_typing :: interrupts where
  "demo_typing = demo_interrupts\<lparr>device := (\<lambda>_ _. 0x1E), tasks := [0x300 \<mapsto> zero_task\<lparr>task_process := 0x2000\<rparr>],
     current_task := 0x300, isr80h_commands := system_commands\<rparr>"

theorem key_press_reaches_program_witness:
  "\<exists>s1 s2. interrupt_handler 0x21 demo_frame demo_typing = Some (Returns (), s1) \<and>
     getkey_calls [demo_frame] s1 = Some ([0x61], s2)"
proof -
  have "has_focus demo_typing 0x2000 demo_process"
    by (simp add: has_focus_def demo_typing_def demo_interrupts_defs zero_task_def)
  note reach = key_press_reaches_program [OF this demo_keyboard_empty(1), where scancode = "0x1E" and d = 65 and c = 97
      and kd = "\<lparr>init = ClassicInit, keyboard_name = [], capslock_state = 0, keyboard_next = NullKeyboard\<rparr>"
      and tk = "zero_task\<lparr>task_process := 0x2000\<rparr>" and f = demo_frame]
  have "kb_contents (keyboard demo_process) = []"
    using demo_keyboard_empty(2) by (simp add: kb_contents_def)
  moreover have "ucast (device demo_typing (io_log demo_typing) 0x60) = (0x1E :: byte)"
    "keyboards demo_typing ClassicKeyboard = Some \<lparr>init = ClassicInit, keyboard_name = [], capslock_state = 0, keyboard_next = NullKeyboard\<rparr>"
    "tasks demo_typing (current_task demo_typing) = Some (zero_task\<lparr>task_process := 0x2000\<rparr>)" "current_task demo_typing \<noteq> 0"
    "interrupt_callbacks demo_typing ! 0x21 = KeyboardCallback" "isr80h_commands demo_typing = system_commands"
    by (simp_all add: demo_typing_def demo_interrupts_defs)
  moreover have "(scast (97 :: byte) :: u32) = 0x61" by simp
  ultimately show ?thesis
    using reach demo_keyboard_empty(2)
    by (simp add: keyboard_scan_set_one_def del: getkey_calls.simps) (metis length_Cons list.size(3) One_nat_def)
qed

theorem print_system_call_shows_witness:
  "\<exists>(s :: interrupts) s'. isr80h_handler 1 demo_frame s = Some (Returns 0, s') \<and> cursor s' = 3 \<and>
     cell s' 0 = terminal_make_char 0x68 15 \<and> cell s' 1 = terminal_make_char 0x69 15"
proof -
  have hp: "heap_pages (kernel_heap demo_interrupts) = {4096..<29696}"
    by (simp add: heap_pages_def demo_interrupts_defs page_of_def total_def)
  have ok: "heap_inv (kernel_heap demo_interrupts)" "1026 < free_blocks (kernel_heap demo_interrupts)"
    "word_aligned (kernel_chunk demo_interrupts)" "page_of (kernel_chunk demo_interrupts) \<notin> heap_pages (kernel_heap demo_interrupts)"
    by (rule heap_inv_fresh [of _ 25600])
       (simp_all add: hp, simp_all add: demo_interrupts_defs page_aligned_def free_blocks_def word_aligned_def page_of_def)
  obtain chunk h m where "paging_new_4gb 5 demo_interrupts = Some (chunk, demo_interrupts\<lparr>mem := m, kernel_heap := h\<rparr>)"
    and new: "0 < free_blocks h" "heap_pages h = heap_pages (kernel_heap demo_interrupts)"
    "\<And>u tk. kernel_heap u = h \<Longrightarrow> kernel_chunk u = kernel_chunk demo_interrupts \<Longrightarrow> page_directory tk = chunk \<Longrightarrow>
      (\<And>a. page_of a \<in> heap_pages (kernel_heap demo_interrupts) \<Longrightarrow> mem u a = m a) \<Longrightarrow>
      task_space (u :: interrupts) tk \<and>
      (\<forall>v. translate tk (mem u) v = v \<and> kernel_access (load32 (mem u) chunk) v (mem u)) \<and>
      chunk_pages chunk (mem u) \<subseteq> heap_pages (kernel_heap demo_interrupts)"
    by (rule new_task_space [OF ok], rule that) (assumption | blast)+
  define tk where "tk = zero_task\<lparr>page_directory := chunk\<rparr>"
  define user :: memory where "user = (\<lambda>_. 0)(0x3FEFF1 := 0x20, 0x2000 := 0x68, 0x2001 := 0x69)"
  define u where "u = demo_interrupts\<lparr>mem := (\<lambda>a. if page_of a \<in> {4096..<29696} then m a else user a), kernel_heap := h,
    tasks := [0x300 \<mapsto> tk], current_task := 0x300, isr80h_commands := system_commands\<rparr>"
  have mu: "mem u a = m a" if "page_of a \<in> heap_pages (kernel_heap demo_interrupts)" for a
    using that by (simp add: u_def hp)
  have sp: "task_space u tk" "\<And>v. translate tk (mem u) v = v" "chunk_pages chunk (mem u) \<subseteq> {4096..<29696}"
    "\<And>v. page_grants 1 (load32 (mem u) chunk) v (mem u)"
    using new(3) [of u tk, OF _ _ _ mu] by (auto simp: u_def tk_def hp)
  have user: "mem u a = user a" if "page_of a < 4096" for a using that by (simp add: u_def)
  have word: "user_word tk (mem u) (f_esp demo_frame) = 0x2000"
    using user [of "0x3FEFF0"] user [of "0x3FEFF1"] user [of "0x3FEFF2"] user [of "0x3FEFF3"]
    by (simp add: user_word_def sp(2) demo_frame_def load32_def user_def page_of_def)
  have "mem u (0x2000 + of_nat i) = ([0x68, 0x69] @ [0]) ! i \<and> page_of (0x2000 + of_nat i :: addr) < 4096"
    if "i \<le> length [0x68, 0x69 :: byte]" for i
    using that user [of "0x2000"] user [of "0x2001"] user [of "0x2002"]
    by (auto simp: le_Suc_eq page_of_def user_def)
  moreover have kh: "kernel_heap u = h" "page_directory tk = chunk" by (simp_all add: u_def tk_def)
  moreover have "\<not> free_page h q" "q \<notin> chunk_pages chunk (mem u)" if "q < 4096" for q
    using that sp(3) new(2) hp by (auto simp: free_page_def)
  ultimately have str: "user_string u tk 0x2000 [0x68, 0x69]"
    unfolding user_string_def sp(2) by (simp add: sp(4))
  have pres: "user_word_present tk (mem u) (f_esp demo_frame)"
    by (simp add: user_word_present_def word_access_def list_all_iff kh sp(4))
  have "page_of (0x5FF000 + of_nat i :: addr) = 0x5FF" if "i < 4096" for i
    using page_of_add [of "0x5FF000" i] that by (simp add: page_aligned_def page_of_def)
  then have stack: "stack_ok u"
    using new(2) hp by (simp add: stack_ok_def kh) (simp add: u_def demo_interrupts_defs)
  have cur: "cursor u = 0" "unat (terminal_col u) < 80" "video_memory u = 0xB8000" "local_addr u = (\<lambda>_. 0x5FF000)"
    "tasks u (current_task u) = Some tk" "current_task u \<noteq> 0" "isr80h_commands u = system_commands"
    by (simp_all add: u_def cursor_def demo_interrupts_defs)
  have "\<exists>s'. isr80h_handler 1 demo_frame u = Some (Returns 0, s') \<and> cursor s' = cursor u + length [0x68, 0x69 :: byte] + 1 \<and>
    (\<forall>i < length [0x68, 0x69 :: byte]. cell s' (cursor u + i) = terminal_make_char ([0x68, 0x69] ! i) 15) \<and>
    tasks s' (current_task s') = Some (tk\<lparr>registers := frame_registers demo_frame\<rparr>) \<and> kernel_heap s' = kernel_heap u \<and>
    (\<forall>a. free_page (kernel_heap u) (page_of a) \<or> print_area u (length [0x68, 0x69 :: byte]) a \<or> mem s' a = mem u a) \<and>
    ((\<forall>a. page_of a \<in> chunk_pages (page_directory tk) (mem u) \<longrightarrow> \<not> print_area u (length [0x68, 0x69 :: byte]) a) \<longrightarrow>
       (\<forall>v. translate tk (mem s') v = translate tk (mem u) v))"
  proof (rule print_system_call_shows [OF cur(5-7) sp(1) _ stack pres])
    show "user_string u tk (user_word tk (mem u) (f_esp demo_frame)) [0x68, 0x69]" using str word by simp
    show "\<forall>i \<le> length [0x68, 0x69 :: byte]. 2 * (cursor u + length [0x68, 0x69 :: byte] + 1)
        \<le> unat (local_addr u Local_print_buffer + of_nat i - video_memory u)"
      by (auto simp: cur le_Suc_eq)
  qed (use new(1) kh cur in \<open>simp_all add: printable_def\<close>)
  then obtain s' where "isr80h_handler 1 demo_frame u = Some (Returns 0, s')" "cursor s' = 3"
      "\<And>i. i < 2 \<Longrightarrow> cell s' i = terminal_make_char ([0x68, 0x69] ! i) 15"
    by (auto simp: cur)
  from this(1,2) this(3) [of 0] this(3) [of 1] show ?thesis by (intro exI [of _ u] exI [of _ s']) simp
qed

end
