(* ===== verification/Gdt.thy ===== *)
theory Gdt
  imports Memory
begin

text \<open>
  Segment descriptors, \<^verbatim>\<open>src/src/gdt/gdt.c\<close> and \<^verbatim>\<open>gdt.h\<close>. The structured table is a list of
  records, the table the processor reads is an array of packed eight byte entries in memory. The
  specification \<open>decode_entry\<close> reads an entry back the way the processor does (base and
  limit in pieces, the granularity bit scaling the limit to pages), and encoding followed by
  decoding is the identity for every descriptor the encoder accepts.
\<close>

section \<open>Definitions\<close>

record gdt_structured =
  base :: u32
  limit :: u32
  type :: byte

text \<open>A panic does not return, which is the outcome \<open>None\<close>.\<close>

definition encodeGdtEntry :: "addr \<Rightarrow> gdt_structured \<Rightarrow> memory \<Rightarrow> memory option" where
  "encodeGdtEntry target source m =
     (if 65536 < limit source \<and> limit source AND 0xFFF \<noteq> 0xFFF then None
      else
        let m = m(target + 6 := 0x40);
            (source, m) =
              (if 65536 < limit source
               then (source\<lparr>limit := drop_bit 12 (limit source)\<rparr>, m(target + 6 := 0xC0))
               else (source, m));
            m = m(target := ucast (limit source AND 0xFF));
            m = m(target + 1 := ucast (drop_bit 8 (limit source) AND 0xFF));
            m = m(target + 6 := m (target + 6) OR ucast (drop_bit 16 (limit source) AND 0x0F));
            m = m(target + 2 := ucast (base source AND 0xFF));
            m = m(target + 3 := ucast (drop_bit 8 (base source) AND 0xFF));
            m = m(target + 4 := ucast (drop_bit 16 (base source) AND 0xFF));
            m = m(target + 7 := ucast (drop_bit 24 (base source) AND 0xFF))
        in Some (m(target + 5 := type source)))"

fun gdt_structured_to_gdt :: "addr \<Rightarrow> gdt_structured list \<Rightarrow> memory \<Rightarrow> memory option" where
  "gdt_structured_to_gdt gdt [] m = Some m"
| "gdt_structured_to_gdt gdt (e # es) m = do {
     m \<leftarrow> encodeGdtEntry gdt e m;
     gdt_structured_to_gdt (gdt + 8) es m
   }"

text \<open>The table of \<^verbatim>\<open>kernel.c\<close>; the argument is the address of the task state segment.\<close>

definition gdt_structured_table :: "addr \<Rightarrow> gdt_structured list" where
  "gdt_structured_table tss =
     [\<lparr>base = 0, limit = 0, type = 0\<rparr>,
      \<lparr>base = 0, limit = 0xFFFFFFFF, type = 0x9A\<rparr>,
      \<lparr>base = 0, limit = 0xFFFFFFFF, type = 0x92\<rparr>,
      \<lparr>base = 0, limit = 0xFFFFFFFF, type = 0xF8\<rparr>,
      \<lparr>base = 0, limit = 0xFFFFFFFF, type = 0xF2\<rparr>,
      \<lparr>base = tss, limit = 100, type = 0xE9\<rparr>]"

section \<open>Specification\<close>

definition encodable :: "gdt_structured \<Rightarrow> bool" where
  "encodable e \<longleftrightarrow> limit e \<le> 65536 \<or> limit e AND 0xFFF = 0xFFF"

definition decode_limit :: "byte \<Rightarrow> byte \<Rightarrow> byte \<Rightarrow> u32" where
  "decode_limit b0 b1 b6 =
     (let l = ucast b0 OR push_bit 8 (ucast b1) OR push_bit 16 (ucast (b6 AND 0x0F))
      in if bit b6 7 then push_bit 12 l OR 0xFFF else l)"

definition decode_entry :: "memory \<Rightarrow> addr \<Rightarrow> gdt_structured" where
  "decode_entry m a =
     \<lparr>base = ucast (m (a + 2)) OR push_bit 8 (ucast (m (a + 3))) OR push_bit 16 (ucast (m (a + 4)))
               OR push_bit 24 (ucast (m (a + 7))),
      limit = decode_limit (m a) (m (a + 1)) (m (a + 6)),
      type = m (a + 5)\<rparr>"

section \<open>Encoding and decoding one entry\<close>

text \<open>A 32 bit value put together from its four bytes.\<close>

lemma bytes_of_u32:
  "(ucast (ucast x :: byte) :: u32) OR push_bit 8 (ucast (ucast (drop_bit 8 x) :: byte))
     OR push_bit 16 (ucast (ucast (drop_bit 16 x) :: byte))
     OR push_bit 24 (ucast (ucast (drop_bit 24 x) :: byte)) = x"
  using load32_store32 [of "\<lambda>_. 0" 0 x] by (simp add: load32_def store32_def)

lemma limit_pieces:
  "(ucast (ucast l :: byte) :: u32) OR push_bit 8 (ucast (ucast (drop_bit 8 l) :: byte))
     OR push_bit 16 (ucast (ucast (take_bit 4 (drop_bit 16 (l :: u32))) :: byte)) = take_bit 20 l"
proof (rule bit_word_eqI)
  fix n assume "n < LENGTH(32)"
  then have "n < 8 \<or> 8 \<le> n \<and> n < 16 \<or> 16 \<le> n \<and> n < 20 \<or> 20 \<le> n \<and> n < 24 \<or> 24 \<le> n \<and> n < 32"
    by auto
  then show "bit ((ucast (ucast l :: byte) :: u32) OR push_bit 8 (ucast (ucast (drop_bit 8 l) :: byte))
     OR push_bit 16 (ucast (ucast (take_bit 4 (drop_bit 16 l)) :: byte))) n = bit (take_bit 20 l) n"
    by (elim disjE conjE) (simp_all add: bit_simps less_diff_conv2)
qed

lemma flags_byte:
  assumes "b = take_bit 4 b"
  shows "(0x40 OR b :: byte) AND 0x0F = b" "(0xC0 OR b :: byte) AND 0x0F = b"
    "\<not> bit (0x40 OR b :: byte) 7" "bit (0xC0 OR b :: byte) 7"
proof -
  have "take_bit 4 (0x40 :: byte) = 0" "take_bit 4 (0xC0 :: byte) = 0"
    by (simp_all add: take_bit_eq_mod)
  then show "(0x40 OR b :: byte) AND 0x0F = b" "(0xC0 OR b :: byte) AND 0x0F = b"
    using assms by (simp_all add: and_mask_take_bit take_bit_or)
  have "\<not> bit b 7" by (subst assms) (simp add: bit_take_bit_iff)
  then show "\<not> bit (0x40 OR b :: byte) 7" "bit (0xC0 OR b :: byte) 7"
    by (simp_all add: bit_or_iff)
qed

lemma limit_rebuild:
  assumes "take_bit 12 (l :: u32) = 0xFFF"
  shows "push_bit 12 (take_bit 20 (drop_bit 12 l)) OR 0xFFF = l"
proof -
  have "push_bit 12 (take_bit 20 (drop_bit 12 l)) OR take_bit 12 l = l"
    by (rule bit_word_eqI) (auto simp: bit_simps)
  then show ?thesis using assms by simp
qed

lemma encodeGdtEntry_decode:
  assumes "encodable e"
  obtains m' where "encodeGdtEntry target e m = Some m'" "decode_entry m' target = e"
    "\<And>a. 8 \<le> unat (a - target) \<Longrightarrow> m' a = m a"
proof -
  let ?l = "if 65536 < limit e then drop_bit 12 (limit e) else limit e"
  let ?f = "if 65536 < limit e then 0xC0 else 0x40 :: byte"
  let ?x = "ucast (take_bit 4 (drop_bit 16 ?l)) :: byte"
  define m' where "m' = m(target + 6 := ?f OR ?x, target := ucast ?l,
    target + 1 := ucast (drop_bit 8 ?l), target + 2 := ucast (base e), target + 3 := ucast (drop_bit 8 (base e)),
    target + 4 := ucast (drop_bit 16 (base e)), target + 7 := ucast (drop_bit 24 (base e)),
    target + 5 := type e)"
  have tb: "ucast (take_bit 8 (x :: u32)) = (ucast x :: byte)" for x
    by (rule bit_word_eqI) (simp add: bit_simps)
  have enc: "encodeGdtEntry target e m = Some m'"
    using assms
    by (auto simp: encodeGdtEntry_def encodable_def m'_def and_mask_take_bit tb fun_eq_iff)
  have rd: "m' target = ucast ?l" "m' (target + 1) = ucast (drop_bit 8 ?l)" "m' (target + 6) = ?f OR ?x"
    "m' (target + 2) = ucast (base e)" "m' (target + 3) = ucast (drop_bit 8 (base e))"
    "m' (target + 4) = ucast (drop_bit 16 (base e))" "m' (target + 7) = ucast (drop_bit 24 (base e))"
    "m' (target + 5) = type e"
    by (simp_all add: m'_def)
  have x4: "?x = take_bit 4 ?x"
    by (rule bit_word_eqI) (auto simp: bit_simps)
  have "decode_limit (ucast ?l) (ucast (drop_bit 8 ?l)) (?f OR ?x) = limit e"
  proof (cases "65536 < limit e")
    case True
    then have "take_bit 12 (limit e) = 0xFFF"
      using assms by (auto simp: encodable_def and_mask_take_bit simp flip: not_less)
    with True show ?thesis
      using flags_byte [OF x4] limit_pieces [of "drop_bit 12 (limit e)"] limit_rebuild
      by (simp add: decode_limit_def Let_def)
  next
    case False
    then have "take_bit 20 (limit e) = limit e"
      by (simp add: take_bit_eq_mod word_unat_eq_iff unat_mod_distrib word_less_nat_alt)
    with False show ?thesis
      using flags_byte [OF x4] limit_pieces [of "limit e"] by (simp add: decode_limit_def Let_def)
  qed
  then have "decode_entry m' target = e"
    by (simp add: decode_entry_def rd bytes_of_u32)
  moreover have "m' a = m a" if "8 \<le> unat (a - target)" for a
  proof -
    have "a \<noteq> target + of_nat k" if "k < 8" for k
      using \<open>8 \<le> unat (a - target)\<close> that by (auto simp: unat_of_nat take_bit_nat_eq_self)
    from this [of 0] this [of 1] this [of 2] this [of 3] this [of 4] this [of 5] this [of 6] this [of 7]
    show ?thesis by (simp add: m'_def)
  qed
  ultimately show ?thesis using enc that by blast
qed

lemma decode_entry_cong:
  assumes "\<And>k. k < 8 \<Longrightarrow> m' (a + of_nat k) = m (a + of_nat k)"
  shows "decode_entry m' a = decode_entry m a"
  using assms [of 0] assms [of 1] assms [of 2] assms [of 3] assms [of 4] assms [of 5] assms [of 6] assms [of 7]
  by (simp add: decode_entry_def)

section \<open>Properties\<close>

lemma unat_minus8: "unat ((x :: u32) - 8) = (if unat x < 8 then unat x + 4294967288 else unat x - 8)"
proof (cases "unat x < 8")
  case True
  then have "unat (x + 4294967288) = unat x + 4294967288"
    using unat_add_of_nat [of x 4294967288] by simp
  moreover have "x - 8 = x + 4294967288"
  proof -
    have "(- 8 :: u32) = 4294967288" by simp
    then show ?thesis by (metis diff_conv_add_uminus)
  qed
  ultimately have "unat (x - 8) = unat x + 4294967288" by metis
  then show ?thesis unfolding if_P [OF True] .
next
  case False
  then show ?thesis by (simp add: unat_sub word_le_nat_alt)
qed

lemma gdt_structured_to_gdt_result:
  assumes "8 * length es \<le> 2 ^ 32"
  shows "if \<forall>e \<in> set es. encodable e
    then \<exists>m'. gdt_structured_to_gdt gdt es m = Some m' \<and>
      map (\<lambda>i. decode_entry m' (gdt + of_nat (8 * i))) [0..<length es] = es \<and>
      (\<forall>a. 8 * length es \<le> unat (a - gdt) \<longrightarrow> m' a = m a)
    else gdt_structured_to_gdt gdt es m = None"
  using assms
proof (induction es arbitrary: gdt m)
  case (Cons e es)
  show ?case
  proof (cases "encodable e")
    case False
    then show ?thesis
      by (auto simp: encodeGdtEntry_def encodable_def simp flip: not_less)
  next
    case True
    then obtain m1 where m1: "encodeGdtEntry gdt e m = Some m1" "decode_entry m1 gdt = e"
        "\<And>a. 8 \<le> unat (a - gdt) \<Longrightarrow> m1 a = m a"
      using encodeGdtEntry_decode [of e gdt m] by blast
    note IH = Cons.IH [of "gdt + 8" m1]
    show ?thesis
    proof (cases "\<forall>e \<in> set es. encodable e")
      case False
      then show ?thesis using IH Cons.prems m1(1) by auto
    next
      case all: True
      then obtain m' where m': "gdt_structured_to_gdt (gdt + 8) es m1 = Some m'"
          "map (\<lambda>i. decode_entry m' (gdt + 8 + of_nat (8 * i))) [0..<length es] = es"
          "\<And>a. 8 * length es \<le> unat (a - (gdt + 8)) \<Longrightarrow> m' a = m1 a"
        using IH Cons.prems by auto
      have far: "8 * length es \<le> unat (a - (gdt + 8))"
        if "unat (a - gdt) < 8 \<or> 8 * Suc (length es) \<le> unat (a - gdt)" for a
        using that Cons.prems unat_minus8 [of "a - gdt"] by (auto simp: algebra_simps)
      have "decode_entry m' gdt = decode_entry m1 gdt"
        by (rule decode_entry_cong, rule m'(3), rule far)
           (simp add: unat_of_nat take_bit_nat_eq_self)
      moreover have "m' a = m a" if "8 * Suc (length es) \<le> unat (a - gdt)" for a
        using that m'(3) [OF far] m1(3) by auto
      moreover have "[0..<length (e # es)] = 0 # map Suc [0..<length es]"
        by (simp add: map_Suc_upt upt_conv_Cons del: upt_Suc)
      ultimately show ?thesis
        using all True m1(1,2) m'(1,2)
        by (auto intro!: exI [of _ m'] simp: comp_def add.assoc simp del: upt_Suc)
    qed
  qed
qed simp

text \<open>
  C37. \<open>gdt_structured_to_gdt\<close> panics exactly when some entry has a limit above 65536 that is
  not of the form \<open>...FFF\<close>; otherwise the table in memory decodes to the structured table,
  entry by entry, and no byte outside the table changes.
\<close>

theorem gdt_structured_to_gdt_decodes:
  assumes "8 * length es \<le> 2 ^ 32"
  shows "if \<forall>e \<in> set es. encodable e
    then \<exists>m'. gdt_structured_to_gdt gdt es m = Some m' \<and>
      map (\<lambda>i. decode_entry m' (gdt + of_nat (8 * i))) [0..<length es] = es \<and>
      (\<forall>a. 8 * length es \<le> unat (a - gdt) \<longrightarrow> m' a = m a)
    else gdt_structured_to_gdt gdt es m = None"
  by (rule gdt_structured_to_gdt_result [OF assms])

theorem gdt_structured_to_gdt_decodes_witness:
  "\<exists>m'. gdt_structured_to_gdt 0x500000 (gdt_structured_table 0x600100) (\<lambda>_. 0) = Some m' \<and>
     decode_entry m' 0x500028 = \<lparr>base = 0x600100, limit = 100, type = 0xE9\<rparr>"
proof -
  have "\<forall>e \<in> set (gdt_structured_table 0x600100). encodable e"
    by (simp add: gdt_structured_table_def encodable_def)
  with gdt_structured_to_gdt_decodes [of "gdt_structured_table 0x600100" "0x500000" "\<lambda>_. 0"]
  obtain m' where m': "gdt_structured_to_gdt 0x500000 (gdt_structured_table 0x600100) (\<lambda>_. 0) = Some m'"
    "map (\<lambda>i. decode_entry m' (0x500000 + of_nat (8 * i))) [0..<length (gdt_structured_table 0x600100)]
       = gdt_structured_table 0x600100"
    by (auto simp: gdt_structured_table_def simp del: gdt_structured_to_gdt.simps upt_Suc)
  from arg_cong [OF m'(2), of last] have "decode_entry m' 0x500028 = \<lparr>base = 0x600100, limit = 100, type = 0xE9\<rparr>"
    by (simp add: gdt_structured_table_def)
  with m'(1) show ?thesis by blast
qed

end
