(* ===== verification/Kernel.thy ===== *)
theory Kernel
  imports Isr80h Gdt
begin

text \<open>
  The start of the kernel: \<open>kernel_main\<close> of \<^verbatim>\<open>src/src/kernel.c\<close> with the task state segment of
  \<^verbatim>\<open>src/src/task/tss.h\<close>. The registers of the processor that \<open>gdt_load\<close> and \<open>tss_load\<close> set are fields
  of the state. \<open>kernel_main\<close> ends by entering the first task; a panic or the endless loop
  after it is the outcome \<open>None\<close>.
\<close>

section \<open>Definitions\<close>

definition KERNEL_DATA_SELECTOR :: u32 where [simp]: "KERNEL_DATA_SELECTOR = 0x10"
definition TOTAL_GDT_SEGMENTS :: nat where [simp]: "TOTAL_GDT_SEGMENTS = 6"

record tss =
  tss_link :: u32
  tss_esp0 :: u32
  tss_ss0 :: u32
  tss_esp1 :: u32
  tss_esp2 :: u32
  tss_ss2 :: u32
  tss_sr3 :: u32
  tss_eip :: u32
  tss_eflags :: u32
  tss_eax :: u32
  tss_ecx :: u32
  tss_edx :: u32
  tss_ebx :: u32
  tss_esp :: u32
  tss_ebp :: u32
  tss_esi :: u32
  tss_edi :: u32
  tss_es :: u32
  tss_cs :: u32
  tss_ss :: u32
  tss_ds :: u32
  tss_fs :: u32
  tss_gs :: u32
  tss_ldtr :: u32
  tss_iopb :: u32

record kernel = interrupts +
  tss :: tss
  gdt_register :: "addr \<times> u16"
  task_register :: u16

definition zero_tss :: tss where
  "zero_tss = \<lparr>tss_link = 0, tss_esp0 = 0, tss_ss0 = 0, tss_esp1 = 0, tss_esp2 = 0, tss_ss2 = 0, tss_sr3 = 0,
     tss_eip = 0, tss_eflags = 0, tss_eax = 0, tss_ecx = 0, tss_edx = 0, tss_ebx = 0, tss_esp = 0,
     tss_ebp = 0, tss_esi = 0, tss_edi = 0, tss_es = 0, tss_cs = 0, tss_ss = 0, tss_ds = 0, tss_fs = 0,
     tss_gs = 0, tss_ldtr = 0, tss_iopb = 0\<rparr>"

definition gdt_load :: "addr \<Rightarrow> u16 \<Rightarrow> 'a kernel_scheme \<Rightarrow> 'a kernel_scheme" where
  "gdt_load gdt sz s = s\<lparr>gdt_register := (gdt, sz)\<rparr>"

definition tss_load :: "u16 \<Rightarrow> 'a kernel_scheme \<Rightarrow> 'a kernel_scheme" where
  "tss_load tss_segment s = s\<lparr>task_register := tss_segment\<rparr>"

text \<open>The string constants of \<open>kernel_main\<close> and of \<open>kernel_heap_init\<close>.\<close>

definition lit_blank_elf :: "byte list" where
  "lit_blank_elf = [0x30, 0x3A, 0x2F, 0x62, 0x6C, 0x61, 0x6E, 0x6B, 0x2E, 0x65, 0x6C, 0x66]"
definition lit_testing :: "byte list" where
  "lit_testing = [0x54, 0x65, 0x73, 0x74, 0x69, 0x6E, 0x67, 0x21]"
definition lit_abc :: "byte list" where "lit_abc = [0x41, 0x62, 0x63, 0x21]"
definition lit_heap_failure :: "byte list" where
  "lit_heap_failure = [0x46, 0x61, 0x69, 0x6C, 0x65, 0x64, 0x20, 0x74, 0x6F, 0x20, 0x63, 0x72, 0x65, 0x61, 0x74, 0x65,
     0x20, 0x68, 0x65, 0x61, 0x70, 0x0A]"

text \<open>Loading \<^verbatim>\<open>blank.elf\<close> and giving it its argument, which \<open>kernel_main\<close> does twice.\<close>

definition kernel_load_blank :: "byte list \<Rightarrow> addr \<Rightarrow> 'a kernel_scheme \<Rightarrow> (addr \<times> 'a kernel_scheme) option" where
  "kernel_load_blank text proc s = do {
     (res, proc, s) \<leftarrow> process_load_switch (literal_addr s lit_blank_elf) proc s;
     if res \<noteq> ALL_OK then panic s
     else do {
       let argument = local_addr s Local_argument;
       m \<leftarrow> strcpy argument (literal_addr s text) (mem s);
       let s = s\<lparr>mem := store32 m (argument + 512) 0\<rparr>;
       (r, s) \<leftarrow> process_inject_arguments proc argument s;
       Some (proc, s)
     }
   }"

text \<open>The steps up to the first program: everything that is set up once.\<close>

definition kernel_setup_tables :: "'a kernel_scheme \<Rightarrow> 'a kernel_scheme option" where
  "kernel_setup_tables s = do {
     let s = terminal_initalize s;
     let gdt = static_addr s Static_gdt_real;
     m \<leftarrow> gdt_structured_to_gdt gdt (gdt_structured_table (static_addr s Static_tss)) (memset gdt 0 48 (mem s));
     let s = gdt_load gdt (of_nat (8 * TOTAL_GDT_SEGMENTS)) (s\<lparr>mem := m\<rparr>);
     s \<leftarrow> kernel_heap_init (literal_addr s lit_heap_failure) s;
     s \<leftarrow> fs_init s;
     s \<leftarrow> disk_search_and_init s;
     idt_init s
   }"

definition kernel_setup :: "'a kernel_scheme \<Rightarrow> 'a kernel_scheme option" where
  "kernel_setup s = do {
     s \<leftarrow> kernel_setup_tables s;
     let s = s\<lparr>tss := zero_tss\<lparr>tss_esp0 := 0x600000, tss_ss0 := KERNEL_DATA_SELECTOR\<rparr>\<rparr>;
     let s = tss_load 0x28 s;
     (chunk, s) \<leftarrow> paging_new_4gb (0x02 OR 0x01 OR 0x04) s;
     let s = s\<lparr>kernel_chunk := chunk\<rparr>;
     let s = enable_paging (paging_switch (kernel_chunk s) s);
     s \<leftarrow> isr80h_register_commands s;
     keyboard_init s
   }"

definition kernel_main :: "'a kernel_scheme \<Rightarrow> (registers \<times> 'a kernel_scheme) option" where
  "kernel_main s = do {
     s \<leftarrow> kernel_setup s;
     (proc, s) \<leftarrow> kernel_load_blank lit_testing 0 s;
     (proc, s) \<leftarrow> kernel_load_blank lit_abc proc s;
     task_run_first_ever_task s
   }"

end
