(* ===== verification/KernelStart.thy ===== *)
theory KernelStart
  imports Kernel
begin

text \<open>
  What \<open>kernel_setup\<close>, the part of \<open>kernel_main\<close> before the first program, sets up: each component is
  initialised over what the ones before it have left, and none of them undoes the work of another.
\<close>

section \<open>Steps\<close>

lemma terminal_putchar_shape:
  "terminal_putchar x y c color s = s\<lparr>mem := mem (terminal_putchar x y c color s)\<rparr>"
  by (simp add: terminal_putchar_def Let_def)

lemma fold_mem_shape:
  assumes "\<And>x s. f x s = (s :: 'a terminal_scheme)\<lparr>mem := mem (f x s)\<rparr>"
  shows "fold f xs s = s\<lparr>mem := mem (fold f xs s)\<rparr>"
proof (induction xs arbitrary: s)
  case (Cons x xs)
  have "fold f xs (f x s) = (f x s)\<lparr>mem := mem (fold f xs (f x s))\<rparr>" by (rule Cons.IH)
  also have "\<dots> = s\<lparr>mem := mem (fold f xs (f x s))\<rparr>" by (subst (1) assms [of x s]) simp
  finally show ?case by simp
qed simp

lemma terminal_initalize_shape:
  obtains m where "terminal_initalize s = s\<lparr>video_memory := 0xB8000, terminal_row := 0, terminal_col := 0, mem := m\<rparr>"
proof -
  have row: "fold (\<lambda>col. terminal_putchar (of_nat col) (of_nat row) 0x20 0) cols t =
      t\<lparr>mem := mem (fold (\<lambda>col. terminal_putchar (of_nat col) (of_nat row) 0x20 0) cols t)\<rparr>" for row cols and t :: "'a terminal_scheme"
    by (rule fold_mem_shape) (rule terminal_putchar_shape)
  let ?t = "s\<lparr>video_memory := 0xB8000, terminal_row := 0, terminal_col := 0\<rparr>"
  have "terminal_initalize s = ?t\<lparr>mem := mem (terminal_initalize s)\<rparr>"
    unfolding terminal_initalize_def Let_def by (rule fold_mem_shape) (rule row)
  then show ?thesis using that by simp
qed

lemma keyboard_init_result:
  fixes s :: "'a io_state_scheme"
  assumes "keyboards s ClassicKeyboard = Some kd" "init kd \<noteq> NoInit" "keyboard_list_last s = NullKeyboard"
  obtains log where "keyboard_init s = Some (s\<lparr>keyboards := (keyboards s)(ClassicKeyboard \<mapsto> kd\<lparr>capslock_state := 0\<rparr>),
    keyboard_list_head := ClassicKeyboard, keyboard_list_last := ClassicKeyboard,
    interrupt_callbacks := (interrupt_callbacks s)[0x21 := KeyboardCallback], io_log := log\<rparr>)"
  using assms
  by (intro that [of "io_log (outb 0x64 0xAE s)"])
     (simp add: keyboard_init_def keyboard_insert_def classic_init_def classic_keyboard_init_def
      idt_register_interrupt_callback_def keyboard_set_capslock_def outb_def)

lemma gdt_structured_table_encodable: "\<forall>e \<in> set (gdt_structured_table p). encodable e"
  by (simp add: gdt_structured_table_def encodable_def)

lemma root_size_blocks: "blocks_for (root_size img) \<le> 512"
proof -
  have "vol_entries img < 65536" by (rule vol_entries_less)
  then show ?thesis by (simp add: blocks_for_def root_size(1))
qed

text \<open>The set-up of the tables: what memory, the heap and the file system are like after it.\<close>

definition empty_heap :: heap where
  "empty_heap = \<lparr>table = \<lparr>entries = replicate 25600 0\<rparr>, start_address = 0x01000000\<rparr>"

lemma empty_heap:
  "heap_inv empty_heap" "heap_pages empty_heap = {4096..<29696}" "free_tail (entries (table empty_heap)) = 25600"
  "live_pages empty_heap = {}"
proof -
  show "heap_inv empty_heap" by (rule heap_inv_fresh [of _ 25600]) (simp_all add: empty_heap_def page_aligned_def)
  show "heap_pages empty_heap = {4096..<29696}" by (simp add: heap_pages_def empty_heap_def page_of_def total_def)
  show "free_tail (entries (table empty_heap)) = 25600" by (simp add: empty_heap_def free_tail_def is_free_def heap_get_entry_type_def)
  show "live_pages empty_heap = {}" using runs_from_replicate_free [of 0 25600 "[]"] by (simp add: live_pages_def allocs_def empty_heap_def)
qed

definition gdt_bytes :: "'a kernel_scheme \<Rightarrow> addr set" where
  "gdt_bytes s = (\<lambda>k. static_addr s Static_gdt_real + of_nat k) ` {..<48}"

definition image_apart :: "'a kernel_scheme \<Rightarrow> bool" where
  "image_apart s \<longleftrightarrow> (\<forall>v i. i < 4096 \<longrightarrow> page_of (local_addr s v + of_nat i) \<notin> {4096..<29696}) \<and>
     (\<forall>a \<in> gdt_bytes s. page_of a \<notin> {4096..<29696} \<and> off_stack s a)"

definition gdt_in_memory :: "'a kernel_scheme \<Rightarrow> memory \<Rightarrow> bool" where
  "gdt_in_memory s m \<longleftrightarrow> map (\<lambda>i. decode_entry m (static_addr s Static_gdt_real + of_nat (8 * i))) [0..<6] =
     gdt_structured_table (static_addr s Static_tss)"

lemma gdt_in_memory_cong:
  assumes "gdt_in_memory s m" "\<And>a. a \<in> gdt_bytes s \<Longrightarrow> m' a = m a"
  shows "gdt_in_memory s m'"
proof -
  have "decode_entry m' (static_addr s Static_gdt_real + of_nat (8 * i)) =
      decode_entry m (static_addr s Static_gdt_real + of_nat (8 * i))" if "i < 6" for i
  proof (rule decode_entry_cong)
    fix k :: nat assume "k < 8"
    then have "8 * i + k < 48" using that by simp
    then have "static_addr s Static_gdt_real + of_nat (8 * i + k) \<in> gdt_bytes s"
      unfolding gdt_bytes_def by (intro imageI) simp
    then show "m' (static_addr s Static_gdt_real + of_nat (8 * i) + of_nat k) =
        m (static_addr s Static_gdt_real + of_nat (8 * i) + of_nat k)"
      using assms(2) by (simp add: add.assoc)
  qed
  then have "map (\<lambda>i. decode_entry m' (static_addr s Static_gdt_real + of_nat (8 * i))) [0..<6] =
      map (\<lambda>i. decode_entry m (static_addr s Static_gdt_real + of_nat (8 * i))) [0..<6]"
    by (intro map_cong) auto
  then show ?thesis using assms(1) unfolding gdt_in_memory_def by (simp only:)
qed

text \<open>The fields that the set-up of the tables does not touch.\<close>

definition same_statics :: "'a kernel_scheme \<Rightarrow> 'a kernel_scheme \<Rightarrow> bool" where
  "same_statics s t \<longleftrightarrow> isr80h_commands t = isr80h_commands s \<and> keyboards t = keyboards s \<and>
     keyboard_list_last t = keyboard_list_last s \<and> static_addr t = static_addr s \<and> local_addr t = local_addr s"

lemma kernel_setup_tables_result:
  fixes s :: "'a kernel_scheme"
  assumes "ata_drive img (device s)" "fat_image img n" "image_apart s" "length (interrupt_callbacks s) = 512"
  obtains t where "kernel_setup_tables s = Some t" "fat_mounted img n t" "1026 \<le> free_blocks (kernel_heap t)"
    "heap_pages (kernel_heap t) = {4096..<29696}" "filesystems t = Fat16Filesystem # replicate 19 NullFilesystem"
    "file_descriptors t = replicate 512 0" "gdt_in_memory s (mem t)" "gdt_register t = (static_addr s Static_gdt_real, 48)"
    "\<forall>i < 512. user_gate (idt_descriptors t ! i) \<and>
       gate_address (idt_descriptors t ! i) = (if i = 0x80 then isr80h_wrapper s else interrupt_pointer_table s ! i)"
    "\<forall>i < 512. interrupt_callbacks t ! i =
       (if i < 0x20 then ExceptionCallback else if i = 0x20 then ClockCallback else interrupt_callbacks s ! i)"
    "length (interrupt_callbacks t) = 512"
    "idt_register t = \<lparr>idtr_limit = 4095, idtr_base = static_addr s Static_idt_descriptors\<rparr>" "same_statics s t"
proof -
  obtain m0 where t0: "terminal_initalize s = s\<lparr>video_memory := 0xB8000, terminal_row := 0, terminal_col := 0, mem := m0\<rparr>"
    by (rule terminal_initalize_shape)
  let ?gdt = "static_addr s Static_gdt_real" and ?es = "gdt_structured_table (static_addr s Static_tss)"
  have es: "length ?es = 6" by (simp add: gdt_structured_table_def)
  obtain m where m: "gdt_structured_to_gdt ?gdt ?es (memset ?gdt 0 48 m0) = Some m" "gdt_in_memory s m"
    using gdt_structured_to_gdt_result [of ?es ?gdt "memset ?gdt 0 48 m0"] gdt_structured_table_encodable [of "static_addr s Static_tss"] es
    by (auto simp: gdt_in_memory_def)
  let ?a = "s\<lparr>video_memory := 0xB8000, terminal_row := 0, terminal_col := 0, mem := m, gdt_register := (?gdt, 48), kernel_heap := empty_heap\<rparr>"
  obtain b where b: "fs_init ?a = Some b" "b = ?a\<lparr>file_descriptors := replicate 512 0,
      filesystems := Fat16Filesystem # replicate 19 NullFilesystem, fat16_name := fat16_name b\<rparr>"
    using fs_init_result [of ?a] by auto
  have tr: "tail_room b = 25600" using empty_heap(3) by (subst b(2)) (simp add: tail_room_def)
  have st: "stack_ok b" using assms(3) by (subst b(2)) (simp add: stack_ok_def image_apart_def empty_heap(2))
  obtain c where c: "disk_search_and_init b = Some c" "fat_mounted img n c"
    "tail_room b \<le> tail_room c + 5 + blocks_for (root_size img)" "fat_resolve_frame b c"
  proof (rule disk_search_and_init_result [of img b "replicate 19 NullFilesystem" n])
    show "ata_drive img (device b)" "filesystems b = Fat16Filesystem # replicate 19 NullFilesystem"
      using assms(1) by (subst b(2), simp)+
    show "heap_inv (kernel_heap b)" using empty_heap(1) by (subst b(2)) simp
    show "5 + blocks_for (root_size img) \<le> tail_room b" using root_size_blocks [of img] tr by simp
  qed (use st assms(2) in auto)
  obtain log mc h sts dk privs dirs where c': "c = b\<lparr>io_log := log, mem := mc, kernel_heap := h, streams := sts, disk := dk,
      fat_privates := privs, fat_directories := dirs\<rparr>" and hp: "heap_pages (kernel_heap c) = heap_pages (kernel_heap b)"
    and mem: "\<And>x. steady b x \<Longrightarrow> mem c x = mem b x"
    using c(4) unfolding fat_resolve_frame_def by blast
  have hpb: "heap_pages (kernel_heap b) = {4096..<29696}" by (subst b(2)) (simp add: empty_heap(2))
  have lb: "local_addr b = local_addr s" "mem b = m" by (subst b(2), simp)+
  have "mem c x = m x" if "x \<in> gdt_bytes s" for x
    using mem [of x] that assms(3) lb hpb by (auto simp: steady_def image_apart_def off_stack_def)
  then have g: "gdt_in_memory s (mem c)" by (rule gdt_in_memory_cong [OF m(2)])
  have fc: "interrupt_callbacks c = interrupt_callbacks s" "static_addr c = static_addr s" "isr80h_wrapper c = isr80h_wrapper s"
    "interrupt_pointer_table c = interrupt_pointer_table s" "gdt_register c = (?gdt, 48)" "same_statics s c"
    "filesystems c = Fat16Filesystem # replicate 19 NullFilesystem" "file_descriptors c = replicate 512 0"
    unfolding c' same_statics_def by (subst b(2), simp)+
  have ic: "length (interrupt_callbacks c) = 512" using fc(1) assms(4) by simp
  obtain ds cs where d: "idt_init c = Some (c\<lparr>idt_descriptors := ds, interrupt_callbacks := cs,
      idtr_descriptor := \<lparr>idtr_limit = 4095, idtr_base = static_addr c Static_idt_descriptors\<rparr>,
      idt_register := \<lparr>idtr_limit = 4095, idtr_base = static_addr c Static_idt_descriptors\<rparr>\<rparr>)"
    "length cs = 512"
    "\<forall>i < 512. user_gate (ds ! i) \<and> gate_address (ds ! i) = (if i = 0x80 then isr80h_wrapper c else interrupt_pointer_table c ! i)"
    "\<forall>i < 512. cs ! i = (if i < 0x20 then ExceptionCallback else if i = 0x20 then ClockCallback else interrupt_callbacks c ! i)"
    by (rule idt_init_result [OF ic])
  let ?t = "c\<lparr>idt_descriptors := ds, interrupt_callbacks := cs,
      idtr_descriptor := \<lparr>idtr_limit = 4095, idtr_base = static_addr c Static_idt_descriptors\<rparr>,
      idt_register := \<lparr>idtr_limit = 4095, idtr_base = static_addr c Static_idt_descriptors\<rparr>\<rparr>"
  have "kernel_setup_tables s = Some ?t"
    using t0 m(1) b(1) c(1) d(1)
    by (simp add: kernel_setup_tables_def gdt_load_def kernel_heap_init_eq flip: empty_heap_def)
  moreover have "fat_mounted img n ?t"
    by (rule fat_mounted_grows [OF c(2)]) (use c(2) in \<open>simp_all add: fat_mounted_def fat_volume_def\<close>)
  moreover have "1026 \<le> free_blocks (kernel_heap ?t)"
    using c(3) tr root_size_blocks [of img] tail_room_free_blocks [of c] by simp
  ultimately show ?thesis
    using d fc g hp hpb by (intro that [of ?t]) (simp_all add: same_statics_def)
qed

section \<open>Properties\<close>

text \<open>
  C8. The start of the kernel: on a drive with a FAT16 volume, with the kernel's stack and tables outside
  the heap, \<open>kernel_setup\<close> succeeds. Then the volume is mounted over a well formed heap and no file is
  open; paging is on, and the directory the processor has been given is the kernel's own, which maps every address to
  itself, present, writable and open to user mode; the descriptor table in memory decodes to the structured one and the
  task register and the stack of the kernel are set; every gate leads to its entry point, with the
  exceptions, the clock and the keyboard handled by their callbacks; and every system call number reaches
  its command.
\<close>

theorem kernel_setup_starts:
  fixes s :: "'a kernel_scheme"
  assumes "ata_drive img (device s)" "fat_image img n" "image_apart s" "length (interrupt_callbacks s) = 512"
    "isr80h_commands s = replicate 1024 NoCommand" "keyboards s ClassicKeyboard = Some kd" "init kd \<noteq> NoInit"
    "keyboard_list_last s = NullKeyboard"
  shows "\<exists>s'. kernel_setup s = Some s' \<and> fat_mounted img n s' \<and> heap_inv (kernel_heap s') \<and> file_descriptors s' = replicate 512 0 \<and>
    paging_enabled s' \<and> cr3 s' = load32 (mem s') (kernel_chunk s') \<and> current_directory s' = cr3 s' \<and>
    (\<forall>v. paging_get_physical_address (cr3 s') v (mem s') = v \<and> page_grants 7 (cr3 s') v (mem s')) \<and>
    gdt_in_memory s (mem s') \<and> gdt_register s' = (static_addr s Static_gdt_real, 48) \<and>
    task_register s' = 0x28 \<and> tss_esp0 (tss s') = 0x600000 \<and> tss_ss0 (tss s') = 0x10 \<and>
    (\<forall>i < 512. user_gate (idt_descriptors s' ! i) \<and>
      gate_address (idt_descriptors s' ! i) = (if i = 0x80 then isr80h_wrapper s else interrupt_pointer_table s ! i) \<and>
      interrupt_callbacks s' ! i = (if i < 0x20 then ExceptionCallback else if i = 0x20 then ClockCallback
        else if i = 0x21 then KeyboardCallback else interrupt_callbacks s ! i)) \<and>
    idt_register s' = \<lparr>idtr_limit = 4095, idtr_base = static_addr s Static_idt_descriptors\<rparr> \<and>
    (\<forall>c. isr80h_handle_command c s' = system_call c s') \<and> keyboard_list_head s' = ClassicKeyboard"
proof -
  obtain t where t: "kernel_setup_tables s = Some t" "fat_mounted img n t" "1026 \<le> free_blocks (kernel_heap t)"
    "heap_pages (kernel_heap t) = {4096..<29696}" 
    "file_descriptors t = replicate 512 0" "gdt_in_memory s (mem t)" "gdt_register t = (static_addr s Static_gdt_real, 48)"
    "\<forall>i < 512. user_gate (idt_descriptors t ! i) \<and>
       gate_address (idt_descriptors t ! i) = (if i = 0x80 then isr80h_wrapper s else interrupt_pointer_table s ! i)"
    "\<forall>i < 512. interrupt_callbacks t ! i =
       (if i < 0x20 then ExceptionCallback else if i = 0x20 then ClockCallback else interrupt_callbacks s ! i)"
    "length (interrupt_callbacks t) = 512"
    "idt_register t = \<lparr>idtr_limit = 4095, idtr_base = static_addr s Static_idt_descriptors\<rparr>" "same_statics s t"
    by (rule kernel_setup_tables_result [OF assms(1-4)])
  have hi: "heap_inv (kernel_heap t)" using t(2) by (simp add: fat_mounted_def fat_volume_def)
  let ?u = "tss_load 0x28 (t\<lparr>tss := zero_tss\<lparr>tss_esp0 := 0x600000, tss_ss0 := KERNEL_DATA_SELECTOR\<rparr>\<rparr>)"
  have room: "heap_inv (kernel_heap ?u)" "1026 \<le> free_blocks (kernel_heap ?u)" using hi t(3) by (simp_all add: tss_load_def)
  obtain chunk d tbl v where new: "paging_new_4gb (0x02 OR 0x01 OR 0x04) ?u = Some (chunk, v)"
      and fresh: "fresh_chunk (ucast (0x02 OR 0x01 OR 0x04 :: byte)) ?u chunk d tbl v"
    by (rule paging_new_4gb_result [OF room])
  obtain m h where v: "v = ?u\<lparr>mem := m, kernel_heap := h\<rparr>" using paging_new_4gb_shape [OF new] by blast
  have hp: "heap_pages h = {4096..<29696}" using paging_new_4gb_heap_pages [OF new] t(4) by (simp add: v tss_load_def)
  have d: "load32 m chunk = d" "heap_inv h" "allocs (kernel_heap t) \<subseteq> allocs h"
    "\<And>a. page_of a \<in> live_pages (kernel_heap t) \<or> page_of a \<notin> live_pages h \<Longrightarrow> m a = mem t a"
    using fresh by (auto simp: fresh_chunk_def v tss_load_def)
  have space: "paging_get_physical_address d x m = x" "page_grants 7 d x m" for x
    using fresh_chunk_translate [OF fresh] fresh_chunk_grants [OF fresh, of 7] d(1) by (simp_all add: v space_grants_def)
  have "m a = mem t a" if "a \<in> gdt_bytes s" for a
    using that assms(3) live_pages_heap_pages [OF d(2), of "page_of a"] hp by (intro d(4)) (auto simp: image_apart_def)
  then have g: "gdt_in_memory s m" by (rule gdt_in_memory_cong [OF t(6)])
  let ?w = "enable_paging (paging_switch chunk (v\<lparr>kernel_chunk := chunk\<rparr>))\<lparr>isr80h_commands := system_commands\<rparr>"
  have cmds: "isr80h_register_commands (enable_paging (paging_switch chunk (v\<lparr>kernel_chunk := chunk\<rparr>))) = Some ?w"
    by (rule isr80h_register_commands_eq)
       (use t(12) assms(5) in \<open>simp add: v tss_load_def enable_paging_def paging_switch_def paging_load_directory_def same_statics_def\<close>)
  have kb: "keyboards ?w ClassicKeyboard = Some kd" "keyboard_list_last ?w = NullKeyboard"
    using t(12) assms(6,8)
    by (simp_all add: v tss_load_def enable_paging_def paging_switch_def paging_load_directory_def same_statics_def)
  obtain log where k: "keyboard_init ?w = Some (?w\<lparr>keyboards := (keyboards ?w)(ClassicKeyboard \<mapsto> kd\<lparr>capslock_state := 0\<rparr>),
      keyboard_list_head := ClassicKeyboard, keyboard_list_last := ClassicKeyboard,
      interrupt_callbacks := (interrupt_callbacks ?w)[0x21 := KeyboardCallback], io_log := log\<rparr>)"
    by (rule keyboard_init_result [OF kb(1) assms(7) kb(2)])
  let ?s = "?w\<lparr>keyboards := (keyboards ?w)(ClassicKeyboard \<mapsto> kd\<lparr>capslock_state := 0\<rparr>),
      keyboard_list_head := ClassicKeyboard, keyboard_list_last := ClassicKeyboard,
      interrupt_callbacks := (interrupt_callbacks ?w)[0x21 := KeyboardCallback], io_log := log\<rparr>"
  have ready: "kernel_setup s = Some ?s"
    using t(1) new cmds k by (simp add: kernel_setup_def)
  note defs = v tss_load_def enable_paging_def paging_switch_def paging_load_directory_def
  have "fat_mounted img n ?s"
    by (rule fat_mounted_grows [OF t(2)])
       (use d(2-4) hp t(4) live_pages_mono [OF d(3)] in \<open>simp_all add: defs\<close>)
  moreover have "isr80h_handle_command c ?s = system_call c ?s" for c
    by (rule isr80h_handle_command_eq) simp
  moreover have "interrupt_callbacks ?s ! i = (if i < 0x20 then ExceptionCallback else if i = 0x20 then ClockCallback
        else if i = 0x21 then KeyboardCallback else interrupt_callbacks s ! i)" if "i < 512" for i
    using t(9,10) that by (auto simp: defs nth_list_update)
  ultimately show ?thesis
    using ready d(1,2) space g t(5,7,8,11) by (intro exI [of _ ?s]) (simp add: defs zero_tss_def)
qed

section \<open>An example\<close>

definition demo_start :: kernel where
  "demo_start = interrupts.extend (demo_interrupts\<lparr>device := demo_drive demo_volume, local_addr := (\<lambda>_. 0x5FF000),
       keyboard_list_head := NullKeyboard, keyboard_list_last := NullKeyboard\<rparr>)
     \<lparr>tss = zero_tss, gdt_register = (0, 0), task_register = 0\<rparr>"

lemma demo_start_apart: "image_apart demo_start"
proof -
  have f: "local_addr demo_start v = 0x5FF000" "static_addr demo_start x = 0x120000" for v x
    by (simp_all add: demo_start_def interrupts.defs demo_interrupts_defs)
  have stack: "page_of (0x5FF000 + of_nat i :: addr) = 0x5FF" if "i < 4096" for i
    using page_of_add [of "0x5FF000" i] that by (simp add: page_aligned_def page_of_def)
  have gdt: "page_of (0x120000 + of_nat k :: addr) = 0x120" "32 \<le> unat (0x120000 + of_nat k - 0x5FF000 :: addr)" if "k < 48" for k
  proof -
    show "page_of (0x120000 + of_nat k :: addr) = 0x120"
      using page_of_add [of "0x120000" k] that by (simp add: page_aligned_def page_of_def)
    have "0x120000 + of_nat k - 0x5FF000 = (of_nat (0xFFB21000 + k) :: addr)" by simp
    then show "32 \<le> unat (0x120000 + of_nat k - 0x5FF000 :: addr)"
      using that by (simp only: unat_of_nat) (simp add: take_bit_nat_eq_self)
  qed
  show ?thesis using stack gdt by (auto simp: image_apart_def gdt_bytes_def f off_stack_def)
qed

theorem kernel_setup_starts_witness:
  "\<exists>s'. kernel_setup demo_start = Some s' \<and> fat_mounted demo_volume 1 s' \<and>
     paging_get_physical_address (cr3 s') 0xB8123 (mem s') = 0xB8123 \<and>
     gate_address (idt_descriptors s' ! 0x21) = 0x100210 \<and> interrupt_callbacks s' ! 0x21 = KeyboardCallback \<and>
     decode_entry (mem s') 0x120028 = \<lparr>base = 0x120000, limit = 100, type = 0xE9\<rparr>"
proof -
  have f: "device demo_start = demo_drive demo_volume" "length (interrupt_callbacks demo_start) = 512"
    "isr80h_commands demo_start = replicate 1024 NoCommand" "keyboard_list_last demo_start = NullKeyboard"
    "keyboards demo_start ClassicKeyboard = Some \<lparr>init = ClassicInit, keyboard_name = [], capslock_state = 0, keyboard_next = NullKeyboard\<rparr>"
    "interrupt_pointer_table demo_start ! 0x21 = 0x100210" "static_addr demo_start x = 0x120000" for x
    by (simp_all add: demo_start_def interrupts.defs demo_interrupts_defs)
  have dev: "ata_drive demo_volume (device demo_start)" using ata_drive_demo f(1) by simp
  have "decode_entry m 0x120028 = \<lparr>base = 0x120000, limit = 100, type = 0xE9\<rparr>" if "gdt_in_memory demo_start m" for m
    using arg_cong [OF that [unfolded gdt_in_memory_def], of last] by (simp add: f(7) gdt_structured_table_def upt_rec)
  then show ?thesis
    using kernel_setup_starts [OF dev fat_image_demo demo_start_apart f(2,3,5) _ f(4)] f(6) by auto
qed

end
