(* ===== verification/UserLib.thy ===== *)
theory UserLib
  imports Strings
begin

text \<open>
  The user standard library, \<^verbatim>\<open>src/programs/stdlib/src/\<close>, and the shell. A program sees its own memory
  and the system calls of \<^verbatim>\<open>os.asm\<close>. A call that answers takes its answer from the state: \<open>keys\<close> are the
  characters \<open>os_getkey\<close> still has to return, \<open>blocks\<close> the pointers of \<open>os_malloc\<close>, \<open>answers\<close> the results of
  \<open>os_system\<close>; a call without an answer left waits forever, which is the outcome \<open>None\<close>. What is shown
  and invoked is recorded in \<open>calls\<close>. The routines of \<^verbatim>\<open>string.c\<close> and \<^verbatim>\<open>memory.c\<close> that the kernel has too
  are the ones of the theories \<open>Strings\<close> and \<open>Memory\<close> on the memory of the program. The \<open>main\<close> of a program
  is a parameter of \<open>c_start\<close>.

  The theorems: \<open>strtok\<close> takes a string apart into its words, \<open>itoa\<close> writes the decimal notation of every
  number, and a line is read as it was edited. What a turn of the shell does with its line is in the theory
  \<open>UserShell\<close>.
\<close>

section \<open>Definitions\<close>

datatype user_call = Putchar byte | Print "byte list" | System addr | Free addr | LoadStart addr | Exit

datatype user_local = Local_scommand | Local_run_buff | Local_shell_buff | Local_arguments

record user =
  umem :: memory
  backup_string :: addr
  itoa_text :: addr
  keys :: "byte list"
  blocks :: "addr list"
  answers :: "int list"
  program_arguments :: "int \<times> addr"
  calls :: "user_call list"
  user_addr :: "user_local \<Rightarrow> addr"
  text_addr :: "byte list \<Rightarrow> addr"

subsection \<open>System calls\<close>

definition os_getkey :: "user \<Rightarrow> (int \<times> user) option" where
  "os_getkey s = (case keys s of [] \<Rightarrow> None | k # ks \<Rightarrow> Some (sint k, s\<lparr>keys := ks\<rparr>))"

definition os_putchar :: "byte \<Rightarrow> user \<Rightarrow> user" where
  "os_putchar c s = s\<lparr>calls := calls s @ [Putchar c]\<rparr>"

text \<open>\<open>print\<close> shows the string at an address; the length counts the terminator.\<close>

definition user_print :: "addr \<Rightarrow> user \<Rightarrow> user option" where
  "user_print p s = do {
     n \<leftarrow> strlen (umem s) p;
     Some (s\<lparr>calls := calls s @ [Print (mem_bytes (umem s) p (unat (n - 1)))]\<rparr>)
   }"

text \<open>The kernel clears what it allocates.\<close>

definition os_malloc :: "nat \<Rightarrow> user \<Rightarrow> (addr \<times> user) option" where
  "os_malloc n s = (case blocks s of [] \<Rightarrow> None
     | p # ps \<Rightarrow> Some (p, s\<lparr>blocks := ps,
         umem := (if p = 0 then umem s else write_bytes p (replicate n 0) (umem s))\<rparr>))"

definition os_system :: "addr \<Rightarrow> user \<Rightarrow> (int \<times> user) option" where
  "os_system a s = (case answers s of [] \<Rightarrow> None
     | r # rs \<Rightarrow> Some (r, s\<lparr>answers := rs, calls := calls s @ [System a]\<rparr>))"

definition os_free :: "addr \<Rightarrow> user \<Rightarrow> user" where
  "os_free ptr s = s\<lparr>calls := calls s @ [Free ptr]\<rparr>"

definition os_process_load_start :: "addr \<Rightarrow> user \<Rightarrow> user" where
  "os_process_load_start filename s = s\<lparr>calls := calls s @ [LoadStart filename]\<rparr>"

definition os_exit :: "user \<Rightarrow> user" where
  "os_exit s = s\<lparr>calls := calls s @ [Exit]\<rparr>"

text \<open>The kernel fills the structure with the number of arguments and their array.\<close>

definition os_process_get_arguments :: "addr \<Rightarrow> user \<Rightarrow> user" where
  "os_process_get_arguments arguments s = (case program_arguments s of (n, av) \<Rightarrow>
     s\<lparr>umem := store32 (store32 (umem s) arguments (word_of_int n)) (arguments + 4) av\<rparr>)"

subsection \<open>\<open>memory.c\<close> and \<open>string.c\<close>\<close>

text \<open>
  These routines are a copy of those of the kernel and run on the memory of the program. The pointer some of
  them return is their first argument.
\<close>

definition user_memset :: "addr \<Rightarrow> int \<Rightarrow> u32 \<Rightarrow> user \<Rightarrow> user" where
  "user_memset ptr c sz s = s\<lparr>umem := memset ptr c sz (umem s)\<rparr>"

definition user_memcmp :: "addr \<Rightarrow> addr \<Rightarrow> u32 \<Rightarrow> user \<Rightarrow> int" where
  "user_memcmp s1 s2 sz s = memcmp (umem s) s1 s2 sz"

definition user_memcpy :: "addr \<Rightarrow> addr \<Rightarrow> u32 \<Rightarrow> user \<Rightarrow> user" where
  "user_memcpy dest src len s = s\<lparr>umem := memcpy dest src len (umem s)\<rparr>"

definition user_strlen :: "addr \<Rightarrow> user \<Rightarrow> u32 option" where
  "user_strlen str s = strlen (umem s) str"

definition user_strnlen :: "addr \<Rightarrow> u32 \<Rightarrow> user \<Rightarrow> u32" where
  "user_strnlen str mx s = strnlen (umem s) str mx"

definition user_strcpy :: "addr \<Rightarrow> addr \<Rightarrow> user \<Rightarrow> user option" where
  "user_strcpy dest src s = do { m \<leftarrow> strcpy dest src (umem s); Some (s\<lparr>umem := m\<rparr>) }"

definition user_strncpy :: "addr \<Rightarrow> addr \<Rightarrow> int \<Rightarrow> user \<Rightarrow> user" where
  [simp]: "user_strncpy dest src count s = s\<lparr>umem := strncpy dest src count (umem s)\<rparr>"

definition user_strnlen_terminator :: "addr \<Rightarrow> int \<Rightarrow> byte \<Rightarrow> user \<Rightarrow> int" where
  "user_strnlen_terminator str mx terminator s = strnlen_terminator (umem s) str mx terminator"

definition user_istrncmp :: "addr \<Rightarrow> addr \<Rightarrow> u32 \<Rightarrow> user \<Rightarrow> int" where
  "user_istrncmp str1 str2 n s = istrncmp (umem s) str1 str2 n"

definition user_strncmp :: "addr \<Rightarrow> addr \<Rightarrow> u32 \<Rightarrow> user \<Rightarrow> int" where
  "user_strncmp str1 str2 n s = strncmp (umem s) str1 str2 n"

subsection \<open>\<open>string.c\<close>: tokens\<close>

partial_function (option) is_delim :: "memory \<Rightarrow> byte \<Rightarrow> addr \<Rightarrow> bool option" where
  "is_delim m c delim =
     (if m delim \<noteq> 0 then if c = m delim then Some True else is_delim m c (delim + 1) else Some False)"

text \<open>The first loop stops at a character that is no delimiter, the second one at the end of the token.\<close>

partial_function (option) strtok_skip :: "memory \<Rightarrow> addr \<Rightarrow> addr \<Rightarrow> addr option" where
  "strtok_skip m p delim = do {
     b \<leftarrow> is_delim m (m p) delim;
     if b then strtok_skip m (p + 1) delim else Some p
   }"

partial_function (option) strtok_scan :: "addr \<Rightarrow> addr \<Rightarrow> user \<Rightarrow> user option" where
  "strtok_scan p delim s =
     (if umem s p = 0 then Some (s\<lparr>backup_string := p\<rparr>)
      else do {
        b \<leftarrow> is_delim (umem s) (umem s p) delim;
        if b then Some (s\<lparr>umem := (umem s)(p := 0), backup_string := p + 1\<rparr>)
        else strtok_scan (p + 1) delim s
      })"

definition strtok :: "addr \<Rightarrow> addr \<Rightarrow> user \<Rightarrow> (addr \<times> user) option" where
  "strtok srcString delim s =
     (let srcString = (if srcString = 0 then backup_string s else srcString)
      in if srcString = 0 then Some (0, s)
         else do {
           ret \<leftarrow> strtok_skip (umem s) srcString delim;
           if umem s ret = 0 then Some (0, s)
           else do { s \<leftarrow> strtok_scan ret delim s; Some (ret, s) }
         })"

subsection \<open>\<open>stdlib.c\<close> and \<open>stdio.c\<close>\<close>

text \<open>The loop of \<open>itoa\<close>; there is no value if it would write before the array.\<close>

function itoa_loop :: "int \<Rightarrow> int \<Rightarrow> user \<Rightarrow> (int \<times> user) option" where
  "itoa_loop i loc s =
     (if i = 0 then Some (loc, s)
      else if loc \<le> 0 then None
      else itoa_loop (i sdiv 10) (loc - 1)
             (s\<lparr>umem := (umem s)(itoa_text s + word_of_int (loc - 1) := word_of_int (48 - i smod 10))\<rparr>))"
  by pat_completeness auto
termination
  by (relation "measure (\<lambda>(i, loc, s). nat loc)") auto

declare itoa_loop.simps [simp del]

definition itoa :: "int \<Rightarrow> user \<Rightarrow> (addr \<times> user) option" where
  "itoa i s = do {
     let t = itoa_text s;
     let s = s\<lparr>umem := (umem s)(t + 11 := 0)\<rparr>;
     let neg = (i < 0);
     (loc, s) \<leftarrow> itoa_loop (if i < 0 then i else - i) 11 s;
     let (loc, s) = (if loc = 11 then (loc - 1, s\<lparr>umem := (umem s)(t + word_of_int (loc - 1) := 0x30)\<rparr>) else (loc, s));
     (loc, s) \<leftarrow> (if neg then
         (if loc \<le> 0 then None else Some (loc - 1, s\<lparr>umem := (umem s)(t + word_of_int (loc - 1) := 0x2D)\<rparr>))
       else Some (loc, s));
     Some (t + word_of_int loc, s)
   }"

definition malloc :: "nat \<Rightarrow> user \<Rightarrow> (addr \<times> user) option" where
  "malloc sz s = os_malloc sz s"

definition free :: "addr \<Rightarrow> user \<Rightarrow> user" where
  "free ptr s = os_free ptr s"

definition putchar :: "int \<Rightarrow> user \<Rightarrow> int \<times> user" where
  "putchar c s = (0, os_putchar (word_of_int c) s)"

text \<open>The arguments of \<open>printf\<close> are a list of words; there is no value if it runs out of them.\<close>

partial_function (option) printf :: "addr \<Rightarrow> u32 list \<Rightarrow> user \<Rightarrow> user option" where
  "printf p args s =
     (if umem s p = 0 then Some s
      else if umem s p \<noteq> 0x25 then printf (p + 1) args (os_putchar (umem s p) s)
      else
        let p = p + 1; c = umem s p
        in if c = 0x69 then
             (case args of [] \<Rightarrow> None
              | a # rest \<Rightarrow> do { (t, s) \<leftarrow> itoa (sint a) s; s \<leftarrow> user_print t s; printf (p + 1) rest s })
           else if c = 0x73 then
             (case args of [] \<Rightarrow> None
              | a # rest \<Rightarrow> do { s \<leftarrow> user_print a s; printf (p + 1) rest s })
           else printf (p + 1) args (os_putchar c s))"

subsection \<open>\<open>os.c\<close>\<close>

partial_function (option) os_getkey_block :: "user \<Rightarrow> (int \<times> user) option" where
  "os_getkey_block s = do {
     (val, s) \<leftarrow> os_getkey s;
     if val = 0 then os_getkey_block s else Some (val, s)
   }"

text \<open>One more key for every turn; the index of the loop goes back by one at a backspace.\<close>

partial_function (option) os_terminal_readline_loop ::
    "addr \<Rightarrow> int \<Rightarrow> bool \<Rightarrow> int \<Rightarrow> user \<Rightarrow> (int \<times> user) option" where
  "os_terminal_readline_loop out mx output_while_typing index s =
     (if index < mx - 1 then do {
        (val, s) \<leftarrow> os_getkey_block s;
        let key = (word_of_int val :: byte);
        if key = 13 then Some (index, s)
        else
          let s = (if output_while_typing then os_putchar key s else s)
          in if key = 0x08 \<and> index \<ge> 1
             then os_terminal_readline_loop out mx output_while_typing (index - 2 + 1)
                    (s\<lparr>umem := (umem s)(out + word_of_int (index - 1) := 0)\<rparr>)
             else os_terminal_readline_loop out mx output_while_typing (index + 1)
                    (s\<lparr>umem := (umem s)(out + word_of_int index := key)\<rparr>)
      }
      else Some (index, s))"

definition os_terminal_readline :: "addr \<Rightarrow> int \<Rightarrow> bool \<Rightarrow> user \<Rightarrow> user option" where
  "os_terminal_readline out mx output_while_typing s = do {
     (index, s) \<leftarrow> os_terminal_readline_loop out mx output_while_typing 0 s;
     Some (s\<lparr>umem := (umem s)(out + word_of_int index := 0)\<rparr>)
   }"

text \<open>A \<open>command_argument\<close> is 512 bytes of text and the pointer to the next one.\<close>

definition set_argument :: "addr \<Rightarrow> addr \<Rightarrow> user \<Rightarrow> user" where
  "set_argument a token s =
     (let s = user_strncpy a token 512 s in s\<lparr>umem := store32 (umem s) (a + 512) 0\<rparr>)"

partial_function (option) os_parse_loop :: "addr \<Rightarrow> addr \<Rightarrow> addr \<Rightarrow> user \<Rightarrow> user option" where
  "os_parse_loop current token blank s =
     (if token = 0 then Some s
      else do {
        (new_command, s) \<leftarrow> os_malloc 516 s;
        if new_command = 0 then Some s
        else do {
          let s = set_argument new_command token s;
          let s = s\<lparr>umem := store32 (umem s) (current + 512) new_command\<rparr>;
          (token, s) \<leftarrow> strtok 0 blank s;
          os_parse_loop new_command token blank s
        }
      })"

definition lit_blank :: "byte list" where "lit_blank = [0x20]"

definition os_parse_command :: "addr \<Rightarrow> int \<Rightarrow> user \<Rightarrow> (addr \<times> user) option" where
  "os_parse_command command mx s =
     (if mx \<ge> 1025 then Some (0, s)
      else do {
        let scommand = user_addr s Local_scommand;
        let blank = text_addr s lit_blank;
        let s = user_strncpy scommand command 1025 s;
        (token, s) \<leftarrow> strtok scommand blank s;
        if token = 0 then Some (0, s)
        else do {
          (root_command, s) \<leftarrow> os_malloc 516 s;
          if root_command = 0 then Some (0, s)
          else do {
            let s = set_argument root_command token s;
            (token, s) \<leftarrow> strtok 0 blank s;
            s \<leftarrow> os_parse_loop root_command token blank s;
            Some (root_command, s)
          }
        }
      })"

definition os_system_run :: "addr \<Rightarrow> user \<Rightarrow> (int \<times> user) option" where
  "os_system_run command s = do {
     let buff = user_addr s Local_run_buff;
     let s = user_strncpy buff command 1024 s;
     (root_command_argument, s) \<leftarrow> os_parse_command buff 1024 s;
     if root_command_argument = 0 then Some (-1, s) else os_system root_command_argument s
   }"

subsection \<open>Start of a program\<close>

text \<open>The \<open>main\<close> of the program is a parameter; what it returns is not used.\<close>

definition c_start :: "(int \<Rightarrow> addr \<Rightarrow> user \<Rightarrow> (int \<times> user) option) \<Rightarrow> user \<Rightarrow> user option" where
  "c_start main s = do {
     let arguments = user_addr s Local_arguments;
     let s = os_process_get_arguments arguments s;
     (res, s) \<leftarrow> main (sint (load32 (umem s) arguments)) (load32 (umem s) (arguments + 4)) s;
     Some s
   }"

definition program_start :: "(int \<Rightarrow> addr \<Rightarrow> user \<Rightarrow> (int \<times> user) option) \<Rightarrow> user \<Rightarrow> user option" where
  "program_start main s = do { s \<leftarrow> c_start main s; Some (os_exit s) }"

text \<open>\<^verbatim>\<open>blank.c\<close> never returns; this is its state after \<open>n\<close> turns of its loop.\<close>

fun blank_turns :: "nat \<Rightarrow> addr \<Rightarrow> user \<Rightarrow> user option" where
  "blank_turns 0 argv s = Some s"
| "blank_turns (Suc n) argv s = do {
     s \<leftarrow> blank_turns n argv s;
     user_print (load32 (umem s) argv) s
   }"

subsection \<open>The shell\<close>

definition lit_banner :: "byte list" where
  "lit_banner = [0x4F, 0x53, 0x20, 0x76, 0x31, 0x2E, 0x30, 0x2E, 0x30, 0x0A]"
definition lit_prompt :: "byte list" where "lit_prompt = [0x3E, 0x20]"
definition lit_newline :: "byte list" where "lit_newline = [0x0A]"

text \<open>One turn of the endless loop of the shell.\<close>

definition shell_turn :: "user \<Rightarrow> user option" where
  "shell_turn s = do {
     s \<leftarrow> user_print (text_addr s lit_prompt) s;
     let buff = user_addr s Local_shell_buff;
     s \<leftarrow> os_terminal_readline buff 1024 True s;
     s \<leftarrow> user_print (text_addr s lit_newline) s;
     (r, s) \<leftarrow> os_system_run buff s;
     user_print (text_addr s lit_newline) s
   }"

text \<open>The shell never returns; this is its state after \<open>n\<close> turns.\<close>

fun shell_turns :: "nat \<Rightarrow> user \<Rightarrow> user option" where
  "shell_turns 0 s = user_print (text_addr s lit_banner) s"
| "shell_turns (Suc n) s = do { s \<leftarrow> shell_turns n s; shell_turn s }"

section \<open>Tokens\<close>

text \<open>The words of a text: what stands between delimiters.\<close>

function tokens :: "byte set \<Rightarrow> byte list \<Rightarrow> byte list list" where
  "tokens D bs =
     (let r = dropWhile (\<lambda>b. b \<in> D) bs
      in if r = [] then [] else takeWhile (\<lambda>b. b \<notin> D) r # tokens D (tl (dropWhile (\<lambda>b. b \<notin> D) r)))"
  by pat_completeness auto
termination
proof (relation "measure (\<lambda>(D, bs). length bs)")
  fix D :: "byte set" and bs r
  assume "r = dropWhile (\<lambda>b. b \<in> D) bs" "r \<noteq> []"
  then have "length (dropWhile (\<lambda>b. b \<notin> D) r) \<le> length r" "length r \<le> length bs" "0 < length r"
    by (auto simp: length_dropWhile_le)
  then have "length (dropWhile (\<lambda>b. b \<notin> D) r) - 1 < length bs" by linarith
  then show "((D, tl (dropWhile (\<lambda>b. b \<notin> D) r)), D, bs) \<in> measure (\<lambda>(D, bs). length bs)"
    by simp
qed simp

declare tokens.simps [simp del]

lemma tokens_Nil [simp]: "tokens D [] = []"
  by (simp add: tokens.simps)

lemma is_delim_cstring: "cstring m delim ds \<Longrightarrow> is_delim m c delim = Some (c \<in> set ds)"
proof (induction ds arbitrary: delim)
  case Nil
  then show ?case by (subst is_delim.simps) simp
next
  case (Cons d ds)
  then show ?case by (subst is_delim.simps) auto
qed

lemma cstring_suffix: "cstring m p bs \<Longrightarrow> n \<le> length bs \<Longrightarrow> cstring m (p + of_nat n) (drop n bs)"
proof (induction n arbitrary: p bs)
  case (Suc n)
  then obtain b cs where "bs = b # cs" by (cases bs) auto
  with Suc show ?case by (simp add: add.assoc [symmetric])
qed simp

lemma strtok_skip_cstring:
  assumes "cstring m delim ds" "cstring m p bs"
  shows "strtok_skip m p delim = Some (p + of_nat (length (takeWhile (\<lambda>b. b \<in> set ds) bs)))"
  using assms(2)
proof (induction bs arbitrary: p)
  case Nil
  then show ?case
    using is_delim_cstring [OF assms(1), of 0] cstring_no_zero [OF assms(1)] by (subst strtok_skip.simps) simp
next
  case (Cons b bs)
  then show ?case
    using is_delim_cstring [OF assms(1), of b] by (subst strtok_skip.simps) (auto simp: algebra_simps)
qed

lemma strtok_scan_cstring:
  assumes "cstring (umem s) delim ds" "cstring (umem s) p bs"
  defines "k \<equiv> length (takeWhile (\<lambda>b. b \<notin> set ds) bs)"
  shows "strtok_scan p delim s = Some
    (if k = length bs then s\<lparr>backup_string := p + of_nat k\<rparr>
     else s\<lparr>umem := (umem s)(p + of_nat k := 0), backup_string := p + of_nat k + 1\<rparr>)"
  using assms(2) unfolding k_def
proof (induction bs arbitrary: p)
  case Nil
  then show ?case by (subst strtok_scan.simps) simp
next
  case (Cons b bs)
  then show ?case
    using is_delim_cstring [OF assms(1), of b] by (subst strtok_scan.simps) (auto simp: algebra_simps)
qed

text \<open>One call of \<open>strtok\<close> on the rest \<open>bs\<close> of a text.\<close>

lemma strtok_step:
  assumes d: "cstring (umem s) delim ds" and p: "cstring (umem s) p bs" "p \<noteq> 0" "unat p + length bs < 2 ^ 32"
    and x: "x = p \<or> x = 0 \<and> backup_string s = p"
    and off: "\<And>a. unat p \<le> unat a \<Longrightarrow> unat a < unat p + length bs \<Longrightarrow> length ds < unat (a - delim)"
  defines "D \<equiv> set ds"
  defines "r \<equiv> dropWhile (\<lambda>b. b \<in> D) bs" and "q \<equiv> p + of_nat (length (takeWhile (\<lambda>b. b \<in> D) bs))"
  obtains (finished) "tokens D bs = []" "strtok x delim s = Some (0, s)"
  | (token) w bs' s' where "tokens D bs = w # tokens D bs'" "strtok x delim s = Some (q, s')" "q \<noteq> 0"
      "cstring (umem s') q w" "cstring (umem s') (backup_string s') bs'" "cstring (umem s') delim ds"
      "unat p \<le> unat q" "unat q + length w \<le> unat (backup_string s')"
      "bs' = [] \<or> unat q + length w < unat (backup_string s')"
      "unat (backup_string s') + length bs' \<le> unat p + length bs" "length bs' < length bs"
      "\<And>a. unat a < unat p \<or> unat p + length bs \<le> unat a \<Longrightarrow> umem s' a = umem s a"
      "\<exists>m b. s' = s\<lparr>umem := m, backup_string := b\<rparr>"
proof -
  let ?n = "length (takeWhile (\<lambda>b. b \<in> D) bs)" and ?w = "takeWhile (\<lambda>b. b \<notin> D) r"
  have n: "?n \<le> length bs" "length bs = ?n + length r"
    using takeWhile_dropWhile_id [of "\<lambda>b. b \<in> D" bs] unfolding r_def by (metis length_append le_add1, metis length_append)
  have r: "r = drop ?n bs" unfolding r_def by (simp add: dropWhile_eq_drop)
  have cr: "cstring (umem s) q r" using cstring_suffix [OF p(1) n(1)] r by (simp add: q_def)
  have skip: "strtok_skip (umem s) p delim = Some q" using strtok_skip_cstring [OF d p(1)] by (simp add: q_def D_def)
  have uq: "unat q = unat p + ?n" using unat_add_of_nat [of p ?n] n(2) p(3) by (simp add: q_def)
  have call: "strtok x delim s = (if umem s q = 0 then Some (0, s) else do { s \<leftarrow> strtok_scan q delim s; Some (q, s) })"
    using x p(2) skip by (auto simp: strtok_def Let_def)
  show ?thesis
  proof (cases "r = []")
    case True
    then have "umem s q = 0" using cr by simp
    then show ?thesis using call True by (intro finished) (simp_all add: tokens.simps [of D bs] flip: r_def)
  next
    case False
    then obtain b rs where b: "r = b # rs" by (cases r) auto
    have "b \<notin> D" using hd_dropWhile [of "\<lambda>b. b \<in> D" bs] False b unfolding r_def by simp
    define k where "k = length ?w"
    define bs' where "bs' = tl (dropWhile (\<lambda>b. b \<notin> D) r)"
    have w: "?w = take k r" "dropWhile (\<lambda>b. b \<notin> D) r = drop k r" "k \<le> length r"
      unfolding k_def by (metis takeWhile_eq_take, simp add: dropWhile_eq_drop, rule length_takeWhile_le)
    have bs': "bs' = drop (Suc k) r" by (simp add: bs'_def w(2) drop_Suc tl_drop)
    have tok: "tokens D bs = ?w # tokens D bs'"
      using False by (simp add: tokens.simps [of D bs] bs'_def flip: r_def)
    have "umem s q \<noteq> 0" using cr b by simp
    have scan: "strtok_scan q delim s = Some (if k = length r then s\<lparr>backup_string := q + of_nat k\<rparr>
        else s\<lparr>umem := (umem s)(q + of_nat k := 0), backup_string := q + of_nat k + 1\<rparr>)"
      using strtok_scan_cstring [OF d cr] by (simp add: k_def D_def)
    have uk: "unat (q + of_nat i) = unat p + ?n + i" if "i \<le> length r" for i
      using unat_add_of_nat [of q i] that uq n(2) p(3) by simp
    have q0: "q \<noteq> 0"
    proof
      assume "q = 0"
      then have "unat p = 0" using uq by simp
      then show False using p(2) by (simp add: unat_eq_zero)
    qed
    show ?thesis
    proof (cases "k = length r")
      case True
      define s' where "s' = s\<lparr>backup_string := q + of_nat k\<rparr>"
      have same: "umem s' = umem s" by (simp add: s'_def)
      show ?thesis
      proof (rule token [OF tok, of s'])
        show "strtok x delim s = Some (q, s')"
          using call scan True \<open>umem s q \<noteq> 0\<close> by (simp add: s'_def)
        have "?w = r" using w(1) True by (simp only: take_all_iff)
        with cr show "cstring (umem s') q ?w" by (simp only: same)
        show "cstring (umem s') (backup_string s') bs'"
          using cstring_end [OF cr] True bs' by (simp add: s'_def)
        show "unat q + length ?w \<le> unat (backup_string s')"
          using uk [of k] uq True by (simp add: s'_def k_def)
        show "unat (backup_string s') + length bs' \<le> unat p + length bs"
          using uk [of k] True n(2) bs' by (simp add: s'_def)
        show "length bs' < length bs" using bs' True n(2) b by simp
        show "\<exists>m b. s' = s\<lparr>umem := m, backup_string := b\<rparr>"
          by (intro exI [of _ "umem s"] exI [of _ "q + of_nat k"]) (simp add: s'_def)
      qed (use q0 uq d bs' True in \<open>simp_all add: s'_def\<close>)
    next
      case False
      then have less: "k < length r" using w(3) by simp
      let ?e = "q + of_nat k"
      define s' where "s' = s\<lparr>umem := (umem s)(?e := 0), backup_string := ?e + 1\<rparr>"
      have u1: "?e + 1 = q + of_nat (Suc k)" by simp
      show ?thesis
      proof (rule token [OF tok, of s'])
        show "strtok x delim s = Some (q, s')"
          using call scan False \<open>umem s q \<noteq> 0\<close> by (simp add: s'_def)
        show "cstring (umem s') q ?w"
        proof (rule cstringI)
          fix i assume "i < length ?w"
          then have i: "i < k" by (simp add: k_def)
          then have "unat (q + of_nat i) \<noteq> unat ?e" using uk [of i] uk [of k] less by simp
          then have "q + of_nat i \<noteq> ?e" by metis
          then show "umem s' (q + of_nat i) = ?w ! i"
            using cstring_nth [OF cr, of i] i less w(1) by (simp add: s'_def)
        next
          show "0 \<notin> set ?w" using cstring_no_zero [OF cr] by (auto dest: set_takeWhileD)
        qed (simp add: s'_def k_def)
        have "cstring (umem s) (?e + 1) bs'"
          using cstring_suffix [OF cr, of "Suc k"] less bs' by (simp only: u1)
        moreover have "length bs' < unat (?e - (?e + 1))"
          using unat_minus_1_u32 bs' n(2) p(3) by simp
        ultimately show "cstring (umem s') (backup_string s') bs'"
          using cstring_upd_outside [of "umem s" "?e + 1" bs' ?e 0] by (simp add: s'_def)
        have "length ds < unat (?e - delim)"
          using uk [of k] less n(2) by (intro off) simp_all
        then show "cstring (umem s') delim ds"
          using cstring_upd_outside [OF d, of ?e 0] by (simp add: s'_def)
        show "unat q + length ?w \<le> unat (backup_string s')" "bs' = [] \<or> unat q + length ?w < unat (backup_string s')"
          using uk [of "Suc k"] uq less by (simp_all add: s'_def k_def ac_simps)
        show "unat (backup_string s') + length bs' \<le> unat p + length bs"
          using uk [of "Suc k"] less n(2) bs' by (simp add: s'_def ac_simps)
        show "length bs' < length bs" using bs' less n(2) by simp
        show "umem s' a = umem s a" if "unat a < unat p \<or> unat p + length bs \<le> unat a" for a
          using that uk [of k] less n(2) by (auto simp: s'_def)
        show "\<exists>m b. s' = s\<lparr>umem := m, backup_string := b\<rparr>" by (auto simp: s'_def)
      qed (use q0 uq in simp_all)
    qed
  qed
qed

text \<open>All the calls that take a string apart, as \<open>os_parse_command\<close> makes them.\<close>

partial_function (option) strtok_words :: "addr \<Rightarrow> addr \<Rightarrow> user \<Rightarrow> (addr list \<times> user) option" where
  "strtok_words p delim s = do {
     (token, s) \<leftarrow> strtok p delim s;
     if token = 0 then Some ([], s)
     else do { (ts, s) \<leftarrow> strtok_words 0 delim s; Some (token # ts, s) }
   }"

lemma cstring_keep:
  assumes "cstring m p bs" "unat p + length bs < 2 ^ 32"
    and "\<And>a. unat p \<le> unat a \<Longrightarrow> unat a \<le> unat p + length bs \<Longrightarrow> m' a = m a"
  shows "cstring m' p bs"
proof (rule cstringI)
  have u: "unat (p + of_nat i) = unat p + i" if "i \<le> length bs" for i
    using unat_add_of_nat [of p i] that assms(2) by simp
  show "m' (p + of_nat i) = bs ! i" if "i < length bs" for i
    using cstring_nth [OF assms(1) that] assms(3) [of "p + of_nat i"] u [of i] that by simp
  show "m' (p + of_nat (length bs)) = 0"
    using cstring_end [OF assms(1)] assms(3) [of "p + of_nat (length bs)"] u [of "length bs"] by simp
  show "0 \<notin> set bs" by (rule cstring_no_zero [OF assms(1)])
qed

lemma strtok_words_tokens:
  assumes "cstring (umem s) delim ds" "cstring (umem s) p bs" "p \<noteq> 0" "unat p + length bs < 2 ^ 32"
    and "x = p \<or> x = 0 \<and> backup_string s = p"
    and "\<And>a. unat p \<le> unat a \<Longrightarrow> unat a < unat p + length bs \<Longrightarrow> length ds < unat (a - delim)"
  shows "\<exists>ts s'. strtok_words x delim s = Some (ts, s')
    \<and> list_all2 (cstring (umem s')) ts (tokens (set ds) bs)
    \<and> (\<forall>a. unat a < unat p \<or> unat p + length bs \<le> unat a \<longrightarrow> umem s' a = umem s a)"
  using assms
proof (induction "length bs" arbitrary: bs p x s rule: less_induct)
  case less
  show ?case
  proof (cases rule: strtok_step [OF less.prems(1-5), consumes 0, case_names off finished token])
    case (off a)
    then show ?case by (rule less.prems(6))
  next
    case finished
    then show ?thesis by (subst strtok_words.simps) simp
  next
    case (token w bs' s1)
    define q where "q = p + of_nat (length (takeWhile (\<lambda>b. b \<in> set ds) bs))"
    note tok = token [folded q_def]
    let ?p = "backup_string s1"
    have "unat q \<noteq> 0" using tok(3) by (simp add: unat_eq_zero)
    then have p': "?p \<noteq> 0" using tok(8) by auto
    obtain ts s' where rec: "strtok_words 0 delim s1 = Some (ts, s')"
      "list_all2 (cstring (umem s')) ts (tokens (set ds) bs')"
      "\<forall>a. unat a < unat ?p \<or> unat ?p + length bs' \<le> unat a \<longrightarrow> umem s' a = umem s1 a"
      using less.hyps [OF tok(11) tok(6,5) p', of 0] less.prems(4,6) tok(7,8,10) by fastforce
    have "cstring (umem s') q w"
      using tok(8-10) less.prems(4) rec(3) by (intro cstring_keep [OF tok(4)]) auto
    then show ?thesis
      using tok rec by (subst strtok_words.simps) auto
  qed
qed

section \<open>Decimal notation\<close>

fun decimal_digits :: "nat \<Rightarrow> byte list" where
  "decimal_digits n = (if n = 0 then [] else decimal_digits (n div 10) @ [0x30 + of_nat (n mod 10)])"

declare decimal_digits.simps [simp del]

lemma decimal_digits_0 [simp]: "decimal_digits 0 = []"
  by (simp add: decimal_digits.simps)

definition decimal :: "int \<Rightarrow> byte list" where
  "decimal i = (if i < 0 then [0x2D] else []) @ (if i = 0 then [0x30] else decimal_digits (nat \<bar>i\<bar>))"

text \<open>The number a notation stands for.\<close>

definition read_digits :: "byte list \<Rightarrow> int" where
  "read_digits bs = foldl (\<lambda>v b. 10 * v + (uint b - 48)) 0 bs"

definition read_decimal :: "byte list \<Rightarrow> int" where
  "read_decimal bs = (if bs \<noteq> [] \<and> hd bs = 0x2D then - read_digits (tl bs) else read_digits bs)"

lemma digit_byte: "d < 10 \<Longrightarrow> uint (0x30 + of_nat d :: byte) = 48 + int d"
proof -
  assume "d < 10"
  then have "uint (of_nat (48 + d) :: byte) = 48 + int d"
    by (simp only: unsigned_of_nat) (simp add: take_bit_nat_eq_self)
  then show ?thesis by simp
qed

lemma read_decimal_digits: "read_digits (decimal_digits n) = int n"
proof (induction n rule: decimal_digits.induct)
  case (1 n)
  show ?case
  proof (cases "n = 0")
    case False
    then show ?thesis
      using "1.IH" digit_byte [of "n mod 10"]
      by (subst decimal_digits.simps) (simp add: read_digits_def zdiv_int zmod_int)
  qed (simp add: read_digits_def)
qed

lemma decimal_digits_range: "b \<in> set (decimal_digits n) \<Longrightarrow> 48 \<le> uint b \<and> uint b \<le> 57"
proof (induction n rule: decimal_digits.induct)
  case (1 n)
  show ?case
  proof (cases "n = 0")
    case False
    then have "decimal_digits n = decimal_digits (n div 10) @ [0x30 + of_nat (n mod 10)]"
      by (subst decimal_digits.simps) simp
    then show ?thesis using "1.IH" [OF False] "1.prems" digit_byte [of "n mod 10"] by auto
  qed (use "1.prems" in simp)
qed

lemma decimal_digits_nonempty: "n \<noteq> 0 \<Longrightarrow> decimal_digits n \<noteq> []"
  by (subst decimal_digits.simps) simp

lemma read_decimal_correct: "read_decimal (decimal i) = i"
proof (cases "i = 0")
  case True
  then show ?thesis by (simp add: decimal_def read_decimal_def read_digits_def)
next
  case False
  have "hd (decimal_digits n) \<noteq> 0x2D" if "n \<noteq> 0" for n
    using decimal_digits_range [OF hd_in_set [OF decimal_digits_nonempty [OF that]]] by auto
  with False show ?thesis
    using decimal_digits_nonempty [of "nat i"]
    by (auto simp: decimal_def read_decimal_def read_decimal_digits)
qed

lemma length_decimal_digits: "n < 10 ^ k \<Longrightarrow> length (decimal_digits n) \<le> k"
proof (induction k arbitrary: n)
  case (Suc k)
  then have "n div 10 < 10 ^ k" by (simp add: less_mult_imp_div_less mult.commute)
  from Suc.IH [OF this] show ?case by (subst decimal_digits.simps) simp
qed simp

section \<open>itoa\<close>

lemma sdiv_10: "int n sdiv 10 = int (n div 10)" "int n smod 10 = int (n mod 10)"
  by (simp_all add: signed_divide_int_def signed_modulo_int_def zdiv_int zmod_int sgn_if)

lemma itoa_loop_digits:
  assumes "length (decimal_digits n) \<le> l" "cstring (umem s) (itoa_text s + of_nat l) bs" "length bs < 12"
    "l + length bs \<le> 11"
  shows "\<exists>m. itoa_loop (- int n) (int l) s = Some (int l - int (length (decimal_digits n)), s\<lparr>umem := m\<rparr>)
    \<and> cstring m (itoa_text s + of_nat (l - length (decimal_digits n))) (decimal_digits n @ bs)
    \<and> (\<forall>a. l \<le> unat (a - itoa_text s) \<longrightarrow> m a = umem s a)"
  using assms
proof (induction n arbitrary: l s bs rule: decimal_digits.induct)
  case (1 n)
  show ?case
  proof (cases "n = 0")
    case True
    then show ?thesis using "1.prems" by (subst itoa_loop.simps) (auto intro!: exI [of _ "umem s"])
  next
    case False
    define c :: byte where "c = 0x30 + of_nat (n mod 10)"
    have digits: "decimal_digits n = decimal_digits (n div 10) @ [c]"
      using False by (subst decimal_digits.simps) (simp add: c_def)
    then obtain k where l: "l = Suc k" using "1.prems"(1) by (cases l) auto
    define s1 where "s1 = s\<lparr>umem := (umem s)(itoa_text s + of_nat k := c)\<rparr>"
    have c: "c \<noteq> 0" "word_of_int (48 + int (n mod 10)) = c"
      using digit_byte [of "n mod 10"] by (auto simp: c_def)
    have next1: "itoa_text s + of_nat k + 1 = itoa_text s + of_nat l" by (simp add: l)
    have "length bs < unat (itoa_text s + of_nat k - (itoa_text s + of_nat k + 1))"
      using unat_minus_1_u32 "1.prems"(3) by simp
    then have "cstring (umem s1) (itoa_text s1 + of_nat k) (c # bs)"
      using "1.prems"(2) c cstring_upd_outside [of "umem s" "itoa_text s + of_nat k + 1" bs "itoa_text s + of_nat k" c]
      by (simp add: s1_def next1)
    from "1.IH" [OF False _ this] obtain m where m:
      "itoa_loop (- int (n div 10)) (int k) s1 = Some (int k - int (length (decimal_digits (n div 10))), s1\<lparr>umem := m\<rparr>)"
      "cstring m (itoa_text s + of_nat (k - length (decimal_digits (n div 10)))) (decimal_digits (n div 10) @ c # bs)"
      "\<forall>a. k \<le> unat (a - itoa_text s) \<longrightarrow> m a = umem s1 a"
      using "1.prems" digits l by (auto simp: s1_def)
    have "itoa_loop (- int n) (int l) s = itoa_loop (- int (n div 10)) (int k) s1"
      using False c by (subst itoa_loop.simps) (simp add: sdiv_10 l s1_def)
    moreover have "m a = umem s a" if "l \<le> unat (a - itoa_text s)" for a
    proof -
      have "unat (of_nat k :: addr) = k" using "1.prems"(4) l by (simp add: unat_of_nat take_bit_nat_eq_self)
      then have "a \<noteq> itoa_text s + of_nat k" using that l by auto
      then show ?thesis using m(3) that l by (simp add: s1_def)
    qed
    ultimately show ?thesis using m(1,2) digits l by (intro exI [of _ m]) (simp add: s1_def)
  qed
qed

lemma itoa_decimal:
  assumes "- (2 ^ 31) \<le> i" "i < 2 ^ 31"
  shows "\<exists>p m. itoa i s = Some (p, s\<lparr>umem := m\<rparr>) \<and> cstring m p (decimal i)
    \<and> unat (p - itoa_text s) + length (decimal i) = 11
    \<and> (\<forall>a. 12 \<le> unat (a - itoa_text s) \<longrightarrow> m a = umem s a)"
proof -
  let ?t = "itoa_text s"
  define n where "n = nat \<bar>i\<bar>"
  define s1 where "s1 = s\<lparr>umem := (umem s)(?t + 11 := 0)\<rparr>"
  let ?l = "length (decimal_digits n)"
  have "n < 10 ^ 10" using assms by (simp add: n_def)
  then have len: "?l \<le> 10" by (rule length_decimal_digits)
  have "cstring (umem s1) (?t + of_nat 11) []" by (simp add: s1_def)
  with len obtain m where m: "itoa_loop (- int n) 11 s1 = Some (11 - int ?l, s1\<lparr>umem := m\<rparr>)"
    "cstring m (?t + of_nat (11 - ?l)) (decimal_digits n)" "\<forall>a. 11 \<le> unat (a - ?t) \<longrightarrow> m a = umem s1 a"
    using itoa_loop_digits [of n 11 s1 "[]"] by (auto simp: s1_def)
  have arg: "(if i < 0 then i else - i) = - int n" by (simp add: n_def)
  have keep: "m a = umem s a" if "12 \<le> unat (a - ?t)" for a
  proof -
    have "a \<noteq> ?t + 11" using that by auto
    then show ?thesis using m(3) that by (simp add: s1_def)
  qed
  have pos: "?l \<noteq> 0" if "i \<noteq> 0" using decimal_digits_nonempty [of n] that by (simp add: n_def)
  have loc: "word_of_int (11 - int ?l) = (of_nat (11 - ?l) :: addr)" "word_of_int (10 - int ?l) = (of_nat (10 - ?l) :: addr)"
    using len by (simp_all add: of_nat_diff)
  have upos: "unat (of_nat (11 - ?l) :: addr) = 11 - ?l" "unat (of_nat (10 - ?l) :: addr) = 10 - ?l"
    by (simp_all only: unat_of_nat) (simp_all add: take_bit_nat_eq_self)
  consider "i = 0" | "0 < i" | "i < 0" by linarith
  then show ?thesis
  proof cases
    case 1
    then have "itoa i s = Some (?t + 10, s1\<lparr>umem := m(?t + 10 := 0x30)\<rparr>)"
      using m(1) arg by (simp add: itoa_def s1_def n_def Let_def)
    moreover have "m (?t + 11) = 0" "m (11 + ?t) = 0" using m(2) 1 by (simp_all add: n_def add.commute)
    moreover have "a \<noteq> ?t + 10" if "12 \<le> unat (a - ?t)" for a using that by auto
    ultimately show ?thesis
      using keep 1 by (intro exI [of _ "?t + 10"] exI [of _ "m(?t + 10 := 0x30)"]) (simp add: s1_def decimal_def)
  next
    case 2
    then have "itoa i s = Some (?t + of_nat (11 - ?l), s1\<lparr>umem := m\<rparr>)"
      using m(1) arg pos loc by (simp add: itoa_def s1_def n_def Let_def)
    then show ?thesis
      using m(2) keep 2 len upos by (intro exI [of _ "?t + of_nat (11 - ?l)"] exI [of _ m]) (simp add: s1_def decimal_def n_def)
  next
    case 3
    let ?p = "?t + of_nat (10 - ?l)"
    have "itoa_loop i 11 s1 = Some (11 - int ?l, s1\<lparr>umem := m\<rparr>)" using m(1) arg 3 by simp
    then have "itoa i s = Some (?p, s1\<lparr>umem := m(?p := 0x2D)\<rparr>)"
      using pos loc(2) 3 len unfolding itoa_def by (simp add: Let_def flip: s1_def)
    moreover have "11 - ?l = Suc (10 - ?l)" using len by simp
    then have p1: "?p + 1 = ?t + of_nat (11 - ?l)" by simp
    have "?l < unat (?p - (?p + 1))" using len unat_minus_1_u32 by simp
    with m(2) have "cstring (m(?p := 0x2D)) (?p + 1) (decimal_digits n)"
      unfolding p1 [symmetric] by (rule cstring_upd_outside)
    then have "cstring (m(?p := 0x2D)) ?p (0x2D # decimal_digits n)" by simp
    moreover have "decimal i = 0x2D # decimal_digits n" using 3 by (simp add: decimal_def n_def)
    moreover have up: "unat (?p - ?t) = 10 - ?l" by (simp only: add_diff_cancel_left' upos)
    moreover have "a \<noteq> ?p" if "12 \<le> unat (a - ?t)" for a using that up by auto
    ultimately show ?thesis
      using keep 3 len by (intro exI [of _ ?p] exI [of _ "m(?p := 0x2D)"]) (simp add: s1_def)
  qed
qed

section \<open>Reading a line\<close>

text \<open>
  The line editor: the line so far and the keys still to come, to the line and the keys left. There is no
  value if the keys run out.
\<close>

fun edit_line :: "nat \<Rightarrow> byte list \<Rightarrow> byte list \<Rightarrow> (byte list \<times> byte list) option" where
  "edit_line n line [] = (if n \<le> length line then Some (line, []) else None)"
| "edit_line n line (k # ks) =
     (if n \<le> length line then Some (line, k # ks)
      else if k = 0 then edit_line n line ks
      else if k = 13 then Some (line, ks)
      else if k = 0x08 \<and> line \<noteq> [] then edit_line n (butlast line) ks
      else edit_line n (line @ [k]) ks)"

lemma edit_line_length: "edit_line n line ks = Some (l, ks') \<Longrightarrow> length line \<le> n \<Longrightarrow> length l \<le> n"
  by (induction n line ks rule: edit_line.induct) (auto split: if_splits)

lemma edit_line_returns: "13 \<in> set ks \<Longrightarrow> \<exists>l ks'. edit_line n line ks = Some (l, ks')"
  by (induction n line ks rule: edit_line.induct) auto

lemma os_getkey_block_simps:
  "keys s = [] \<Longrightarrow> os_getkey_block s = None"
  "keys s = 0 # ks \<Longrightarrow> os_getkey_block s = os_getkey_block (s\<lparr>keys := ks\<rparr>)"
  "keys s = k # ks \<Longrightarrow> k \<noteq> 0 \<Longrightarrow> os_getkey_block s = Some (sint k, s\<lparr>keys := ks\<rparr>)"
proof -
  have "sint k = 0 \<longleftrightarrow> k = 0" by (metis signed_0 signed_word_eqI)
  then show "keys s = k # ks \<Longrightarrow> k \<noteq> 0 \<Longrightarrow> os_getkey_block s = Some (sint k, s\<lparr>keys := ks\<rparr>)"
    by (subst os_getkey_block.simps) (simp add: os_getkey_def)
qed (subst os_getkey_block.simps, simp add: os_getkey_def)+

lemma readline_skip_zero:
  "keys s = 0 # ks \<Longrightarrow> index < mx - 1 \<Longrightarrow>
     os_terminal_readline_loop out mx e index s = os_terminal_readline_loop out mx e index (s\<lparr>keys := ks\<rparr>)"
  by (subst (1 2) os_terminal_readline_loop.simps) (simp add: os_getkey_block_simps(2))

definition line_stored :: "memory \<Rightarrow> addr \<Rightarrow> byte list \<Rightarrow> bool" where
  "line_stored m p line \<longleftrightarrow> 0 \<notin> set line \<and> (\<forall>i < length line. m (p + of_nat i) = line ! i)"

lemma line_stored_upd:
  assumes "line_stored m p line" "length line \<le> n" "n < 2 ^ 32"
  shows "line_stored (m(p + of_nat n := b)) p line"
proof -
  have "p + of_nat i \<noteq> p + (of_nat n :: addr)" if "i < length line" for i
    using that assms(2,3) by (auto simp: word_of_nat_eq_iff take_bit_nat_eq_self)
  then show ?thesis using assms(1) by (simp add: line_stored_def)
qed

lemma readline_key:
  assumes "keys s = k # ks" "k \<noteq> 0" "k \<noteq> 13" "index < mx - 1"
  shows "os_terminal_readline_loop out mx e index s =
    (if k = 0x08 \<and> 1 \<le> index
     then os_terminal_readline_loop out mx e (index - 1)
       (s\<lparr>umem := (umem s)(out + word_of_int (index - 1) := 0), keys := ks,
          calls := calls s @ (if e then [Putchar k] else [])\<rparr>)
     else os_terminal_readline_loop out mx e (index + 1)
       (s\<lparr>umem := (umem s)(out + word_of_int index := k), keys := ks,
          calls := calls s @ (if e then [Putchar k] else [])\<rparr>))"
  using assms by (subst os_terminal_readline_loop.simps, cases s)
    (simp add: os_getkey_block_simps(3) os_putchar_def Let_def)

text \<open>The characters of the keys read that were put on the screen.\<close>

definition shown_keys :: "byte list \<Rightarrow> byte list \<Rightarrow> byte list" where
  "shown_keys ks ks' = filter (\<lambda>k. k \<noteq> 0 \<and> k \<noteq> 13) (take (length ks - length ks') ks)"

definition shown_calls :: "bool \<Rightarrow> byte list \<Rightarrow> byte list \<Rightarrow> user_call list" where
  "shown_calls show_them ks ks' = (if show_them then map Putchar (shown_keys ks ks') else [])"

lemma edit_line_keys: "edit_line n line ks = Some (l, ks') \<Longrightarrow> length ks' \<le> length ks"
  by (induction n line ks rule: edit_line.induct) (auto split: if_splits)

lemma shown_calls_Cons:
  "length ks' \<le> length ks \<Longrightarrow> shown_calls e (k # ks) ks' =
     (if e \<and> k \<noteq> 0 \<and> k \<noteq> 13 then [Putchar k] else []) @ shown_calls e ks ks'"
  by (simp add: shown_calls_def shown_keys_def Suc_diff_le)

lemma line_stored_snoc:
  assumes "line_stored m p line" "b \<noteq> 0" "length line < 2 ^ 32"
  shows "line_stored (m(p + of_nat (length line) := b)) p (line @ [b])"
  using line_stored_upd [OF assms(1) order_refl assms(3), of b] assms(2)
  by (auto simp: line_stored_def nth_append less_Suc_eq)

lemma line_stored_butlast:
  assumes "line_stored m p line" "length line = Suc k" "k < 2 ^ 32"
  shows "line_stored (m(p + of_nat k := b)) p (butlast line)"
proof (rule line_stored_upd)
  show "line_stored m p (butlast line)"
    using assms(1) by (auto simp: line_stored_def nth_butlast dest: in_set_butlastD)
qed (use assms(2,3) in simp_all)

lemma line_stored_cstring:
  assumes "line_stored m p line" "length line < 2 ^ 32"
  shows "cstring (m(p + of_nat (length line) := 0)) p line"
  using line_stored_upd [OF assms(1) order_refl assms(2), of 0]
  by (intro cstringI) (auto simp: line_stored_def)

lemma readline_loop_edits:
  assumes "index = int (length line)" "line_stored (umem s) out line" "length line \<le> n" "n < 2 ^ 31"
  shows "case edit_line n line (keys s) of
      None \<Rightarrow> os_terminal_readline_loop out (int n + 1) e index s = None
    | Some (l, ks) \<Rightarrow> \<exists>m. os_terminal_readline_loop out (int n + 1) e index s
        = Some (int (length l), s\<lparr>umem := m, keys := ks, calls := calls s @ shown_calls e (keys s) ks\<rparr>)
      \<and> line_stored m out l \<and> (\<forall>a. n \<le> unat (a - out) \<longrightarrow> m a = umem s a)"
  using assms
proof (induction "keys s" arbitrary: line index s)
  case Nil
  note Nil(1) [symmetric, simp]
  show ?case
    using Nil.prems by (subst os_terminal_readline_loop.simps, subst (2) os_terminal_readline_loop.simps)
      (auto simp: shown_calls_def shown_keys_def os_getkey_block_simps intro!: exI [of _ "umem s"])
next
  case (Cons k ks0)
  note Cons.hyps(2) [symmetric, simp]
  have carry: ?case
    if "edit_line n line (keys s) = edit_line n line1 ks0" "line_stored m1 out line1" "length line1 \<le> n"
      "\<And>a. n \<le> unat (a - out) \<Longrightarrow> m1 a = umem s a"
      "os_terminal_readline_loop out (int n + 1) e index s = os_terminal_readline_loop out (int n + 1) e (int (length line1))
         (s\<lparr>umem := m1, keys := ks0, calls := calls s @ (if e \<and> k \<noteq> 0 \<and> k \<noteq> 13 then [Putchar k] else [])\<rparr>)"
    for line1 m1
  proof -
    define pre where "pre = (if e \<and> k \<noteq> 0 \<and> k \<noteq> 13 then [Putchar k] else [])"
    define s1 where "s1 = s\<lparr>umem := m1, keys := ks0, calls := calls s @ pre\<rparr>"
    have "case edit_line n line1 (keys s1) of
        None \<Rightarrow> os_terminal_readline_loop out (int n + 1) e (int (length line1)) s1 = None
      | Some (l, ks) \<Rightarrow> \<exists>m. os_terminal_readline_loop out (int n + 1) e (int (length line1)) s1
          = Some (int (length l), s1\<lparr>umem := m, keys := ks, calls := calls s1 @ shown_calls e (keys s1) ks\<rparr>)
        \<and> line_stored m out l \<and> (\<forall>a. n \<le> unat (a - out) \<longrightarrow> m a = umem s1 a)"
      by (rule Cons.hyps(1)) (use that(2,3) Cons.prems(4) in \<open>simp_all add: s1_def\<close>)
    moreover have "shown_calls e (keys s) ks = pre @ shown_calls e ks0 ks" if "length ks \<le> length ks0" for ks
      using shown_calls_Cons [OF that, of e k] by (simp add: pre_def)
    ultimately show ?thesis
      using that(1,4) edit_line_keys [of n line1 ks0] unfolding that(5) [folded pre_def, folded s1_def]
      by (auto split: option.splits simp: s1_def)
  qed
  consider "n \<le> length line" | "length line < n" "k = 0" | "length line < n" "k = 13"
    | "length line < n" "k = 0x08" "line \<noteq> []"
    | "length line < n" "k \<noteq> 0" "k \<noteq> 13" "\<not> (k = 0x08 \<and> line \<noteq> [])" by fastforce
  then show ?case
  proof cases
    case 1
    then show ?thesis
      using Cons.prems by (subst os_terminal_readline_loop.simps, subst (2) os_terminal_readline_loop.simps)
        (auto simp: shown_calls_def shown_keys_def intro!: exI [of _ "umem s"])
  next
    case 2
    then show ?thesis
      using Cons.prems readline_skip_zero [of s ks0 index "int n + 1" out e] by (intro carry [of line "umem s"]) auto
  next
    case 3
    then show ?thesis
      using Cons.prems by (subst os_terminal_readline_loop.simps, subst (2) os_terminal_readline_loop.simps)
        (auto simp: os_getkey_block_simps shown_calls_def shown_keys_def intro!: exI [of _ "umem s"])
  next
    case 4
    then obtain j where j: "length line = Suc j" by (cases line) auto
    have far: "a \<noteq> out + of_nat j" if "n \<le> unat (a - out)" for a
      using that 4(1) j Cons.prems(4) by (auto simp: unat_of_nat take_bit_nat_eq_self)
    show ?thesis
    proof (rule carry [of "butlast line" "(umem s)(out + of_nat j := 0)"])
      show "line_stored ((umem s)(out + of_nat j := 0)) out (butlast line)"
        using line_stored_butlast [OF Cons.prems(2) j] 4(1) j Cons.prems(4) by simp
    qed (use 4 j far Cons.prems in \<open>auto simp: readline_key [OF Cons.hyps(2) [symmetric]]\<close>)
  next
    case 5
    let ?m = "(umem s)(out + of_nat (length line) := k)"
    have far: "a \<noteq> out + of_nat (length line)" if "n \<le> unat (a - out)" for a
      using that 5(1) Cons.prems(4) by (auto simp: unat_of_nat take_bit_nat_eq_self)
    show ?thesis
    proof (rule carry [of "line @ [k]" ?m])
      show "line_stored ?m out (line @ [k])"
        using line_stored_snoc [OF Cons.prems(2)] 5 Cons.prems(4) by simp
    qed (use 5 far Cons.prems in \<open>auto simp: readline_key [OF Cons.hyps(2) [symmetric]] add.commute\<close>)
  qed
qed

text \<open>\<open>os_terminal_readline\<close> does what the line editor does, and it returns when the editor does.\<close>

lemma readline_edits:
  assumes "1 \<le> mx" "mx \<le> 2 ^ 31"
  shows "case edit_line (nat (mx - 1)) [] (keys s) of
      None \<Rightarrow> os_terminal_readline out mx e s = None
    | Some (l, ks) \<Rightarrow> \<exists>m. os_terminal_readline out mx e s
        = Some (s\<lparr>umem := m, keys := ks, calls := calls s @ shown_calls e (keys s) ks\<rparr>)
      \<and> cstring m out l \<and> int (length l) < mx \<and> (\<forall>a. nat mx \<le> unat (a - out) \<longrightarrow> m a = umem s a)"
proof -
  define n where "n = nat (mx - 1)"
  have n: "mx = int n + 1" "n < 2 ^ 31" using assms by (simp_all add: n_def)
  have "line_stored (umem s) out []" by (simp add: line_stored_def)
  note loop = readline_loop_edits [OF _ this _ n(2), of 0 e, simplified]
  show ?thesis
  proof (cases "edit_line n [] (keys s)")
    case None
    then show ?thesis using loop by (simp add: n os_terminal_readline_def)
  next
    case (Some r)
    obtain l ks where r: "r = (l, ks)" by force
    with Some loop obtain m where m: "os_terminal_readline_loop out (int n + 1) e 0 s
        = Some (int (length l), s\<lparr>umem := m, keys := ks, calls := calls s @ shown_calls e (keys s) ks\<rparr>)"
      "line_stored m out l" "\<forall>a. n \<le> unat (a - out) \<longrightarrow> m a = umem s a" by auto
    have l: "length l \<le> n" using edit_line_length [of n "[]"] Some r by simp
    then have "cstring (m(out + of_nat (length l) := 0)) out l" using line_stored_cstring [OF m(2)] n(2) by simp
    moreover have "a \<noteq> out + of_nat (length l)" if "Suc n \<le> unat (a - out)" for a
      using that l n(2) by (auto simp: unat_of_nat take_bit_nat_eq_self)
    moreover have "nat mx = Suc n" using n(1) by simp
    ultimately show ?thesis
      using m l Some r by (intro option.case_eq_if [THEN iffD2]) (auto simp: n(1) os_terminal_readline_def
        intro!: exI [of _ "m(out + of_nat (length l) := 0)"])
  qed
qed

section \<open>The theorems\<close>

lemma unat_diff_outside:
  assumes "unat d + n < 2 ^ 32" "unat a < unat d \<or> unat d + n < unat a"
  shows "n < unat (a - d :: addr)"
  using assms by (cases "d \<le> a") (auto simp: unat_sub_if_size word_le_nat_alt word_size)

text \<open>
  C20. \<open>strtok\<close> is equivalent to taking the list of words: called with a string and then with 0 until it
  answers 0, it returns, and its answers point to the words of the string between the delimiters, in
  order, each terminated; no byte outside the string changes.
\<close>

theorem strtok_splits_string:
  assumes "cstring (umem s) delim ds" "cstring (umem s) str bs" "str \<noteq> 0"
    and "unat str + length bs < 2 ^ 32" "unat delim + length ds < 2 ^ 32"
    and "unat delim + length ds < unat str \<or> unat str + length bs \<le> unat delim"
  shows "\<exists>ts s'. strtok_words str delim s = Some (ts, s')
    \<and> list_all2 (cstring (umem s')) ts (tokens (set ds) bs)
    \<and> (\<forall>a. unat a < unat str \<or> unat str + length bs \<le> unat a \<longrightarrow> umem s' a = umem s a)"
  by (rule strtok_words_tokens [OF assms(1-4)], simp, rule unat_diff_outside) (use assms(5,6) in auto)

definition demo_user :: user where
  "demo_user = \<lparr>
     umem = write_bytes 0x1000 [0x20, 0x6C, 0x73, 0x20, 0x20, 0x2D, 0x61, 0] (write_bytes 0x2000 [0x20, 0] (\<lambda>_. 7)),
     backup_string = 0, itoa_text = 0x3000, keys = [0x61, 0x62, 0, 0x08, 0x63, 13, 0x64], blocks = [], answers = [],
     program_arguments = (0, 0), calls = [], user_addr = (\<lambda>_. 0x5000), text_addr = (\<lambda>_. 0x2000)\<rparr>"

lemma strtok_splits_string_witness:
  "\<exists>p q s'. strtok_words 0x1000 0x2000 demo_user = Some ([p, q], s')
    \<and> cstring (umem s') p [0x6C, 0x73] \<and> cstring (umem s') q [0x2D, 0x61]"
proof -
  have "cstring (umem demo_user) 0x2000 [0x20]"
    "cstring (umem demo_user) 0x1000 [0x20, 0x6C, 0x73, 0x20, 0x20, 0x2D, 0x61]"
    by (simp_all add: demo_user_def write_bytes_def)
  moreover have "tokens (set [0x20]) [0x20, 0x6C, 0x73, 0x20, 0x20, 0x2D, 0x61] = [[0x6C, 0x73], [0x2D, 0x61]]"
    by (simp add: tokens.simps)
  ultimately show ?thesis
    using strtok_splits_string [where s = demo_user and delim = "0x2000" and ds = "[0x20]" and str = "0x1000"
        and bs = "[0x20, 0x6C, 0x73, 0x20, 0x20, 0x2D, 0x61]"]
    by (auto simp: list_all2_Cons2)
qed

text \<open>
  C36. Round trip of \<open>itoa\<close>: for every number that fits in an \<open>int\<close>, the smallest one included, it
  returns a terminated string inside its array of 12 bytes that reads as the number; this is the decimal
  notation without leading zeros, and no byte outside the array changes.
\<close>

theorem itoa_reads_back:
  assumes "- (2 ^ 31) \<le> i" "i < 2 ^ 31"
  shows "\<exists>p m bs. itoa i s = Some (p, s\<lparr>umem := m\<rparr>) \<and> cstring m p bs \<and> read_decimal bs = i \<and> bs = decimal i
    \<and> unat (p - itoa_text s) + length bs = 11 \<and> (\<forall>a. 12 \<le> unat (a - itoa_text s) \<longrightarrow> m a = umem s a)"
  using itoa_decimal [OF assms, where s = s] read_decimal_correct [of i] by blast

lemma itoa_reads_back_witness:
  "\<exists>p m. itoa (- 2147483648) demo_user = Some (p, demo_user\<lparr>umem := m\<rparr>)
    \<and> cstring m p [0x2D, 0x32, 0x31, 0x34, 0x37, 0x34, 0x38, 0x33, 0x36, 0x34, 0x38]"
proof -
  have "decimal (- 2147483648) = [0x2D, 0x32, 0x31, 0x34, 0x37, 0x34, 0x38, 0x33, 0x36, 0x34, 0x38]"
    by (simp add: decimal_def decimal_digits.simps)
  then show ?thesis using itoa_reads_back [where i = "- 2147483648" and s = demo_user] by auto
qed

text \<open>
  C21. \<open>os_terminal_readline\<close> terminates when the return key is among the keys to come, with at most
  \<open>mx - 1\<close> characters, the line the editor gives, as a terminated string in the array; it leaves the keys
  after the return key, shows the typed characters if asked to, and writes only to the array.
\<close>

theorem os_terminal_readline_returns:
  assumes "1 \<le> mx" "mx \<le> 2 ^ 31" "13 \<in> set (keys s)"
  shows "\<exists>l ks m. edit_line (nat (mx - 1)) [] (keys s) = Some (l, ks)
    \<and> os_terminal_readline out mx e s
      = Some (s\<lparr>umem := m, keys := ks, calls := calls s @ shown_calls e (keys s) ks\<rparr>)
    \<and> cstring m out l \<and> int (length l) < mx \<and> (\<forall>a. nat mx \<le> unat (a - out) \<longrightarrow> m a = umem s a)"
  using readline_edits [OF assms(1,2), where s = s and out = out and e = e] edit_line_returns [OF assms(3), where n = "nat (mx - 1)" and line = "[]"]
  by auto

lemma os_terminal_readline_returns_witness:
  "\<exists>m. os_terminal_readline 0x4000 16 True demo_user
      = Some (demo_user\<lparr>umem := m, keys := [0x64], calls := map Putchar [0x61, 0x62, 0x08, 0x63]\<rparr>)
    \<and> cstring m 0x4000 [0x61, 0x63]"
proof -
  have "13 \<in> set (keys demo_user)" by (simp add: demo_user_def)
  from os_terminal_readline_returns [where mx = 16 and out = "0x4000" and e = True, OF _ _ this] show ?thesis
    by (auto simp: demo_user_def shown_calls_def shown_keys_def)
qed

end
