(* ===== verification/UserShell.thy ===== *)
theory UserShell
  imports UserLib
begin

text \<open>
  A command on its way through the shell: the line read from the keys is copied, taken apart into words, and
  stored as a linked list of \<open>command_argument\<close> blocks, which is what the system call receives. The lemmas follow
  \<open>os_parse_command\<close> and \<open>os_system_run\<close> through memory, where the arrays, literals and blocks stand apart.
\<close>

section \<open>Separate places in memory\<close>

definition bytes_from :: "addr \<Rightarrow> nat \<Rightarrow> addr set" where
  "bytes_from a n = {x. unat a \<le> unat x \<and> unat x < unat a + n}"

text \<open>Places that begin at a non-zero address, end below the top of memory and share no byte.\<close>

fun separate :: "(addr \<times> nat) list \<Rightarrow> bool" where
  "separate [] \<longleftrightarrow> True"
| "separate ((a, n) # rs) \<longleftrightarrow> a \<noteq> 0 \<and> unat a + n < 2 ^ 32
     \<and> (\<forall>(b, k) \<in> set rs. unat a + n \<le> unat b \<or> unat b + k \<le> unat a) \<and> separate rs"

lemma bytes_from_far: "x \<notin> bytes_from d n \<Longrightarrow> 0 < n \<Longrightarrow> unat d + n < 2 ^ 32 \<Longrightarrow> n \<le> unat (x - d)"
proof -
  assume "x \<notin> bytes_from d n" "0 < n" "unat d + n < 2 ^ 32"
  then have "n - 1 < unat (x - d)" by (intro unat_diff_outside) (auto simp: bytes_from_def)
  then show ?thesis by linarith
qed

lemma store32_keeps:
  assumes "x \<notin> bytes_from d 4" "unat d + 4 < 2 ^ 32"
  shows "store32 m d v x = m x"
proof (rule store32_other)
  have "unat (d + of_nat k) = unat d + k" if "k < 4" for k
    using unat_add_of_nat [of d k] that assms(2) by simp
  from this [of 0] this [of 1] this [of 2] this [of 3]
  show "x \<noteq> d" "x \<noteq> d + 1" "x \<noteq> d + 2" "x \<noteq> d + 3"
    using assms(1) by (auto simp: bytes_from_def)
qed

lemma load32_keep:
  assumes "\<And>x. x \<in> bytes_from d 4 \<Longrightarrow> m' x = m x" "unat d + 4 < 2 ^ 32"
  shows "load32 m' d = load32 m d"
proof (rule load32_cong)
  have "m' (d + of_nat k) = m (d + of_nat k)" if "k < 4" for k
    using unat_add_of_nat [of d k] that assms by (simp add: bytes_from_def)
  from this [of 0] this [of 1] this [of 2] this [of 3]
  show "m' d = m d" "m' (d + 1) = m (d + 1)" "m' (d + 2) = m (d + 2)" "m' (d + 3) = m (d + 3)" by simp_all
qed

lemma cstring_kept:
  assumes "cstring m p bs" "unat p + length bs < 2 ^ 32" "\<And>x. x \<in> bytes_from p (Suc (length bs)) \<Longrightarrow> m' x = m x"
  shows "cstring m' p bs"
  using assms(3) by (intro cstring_keep [OF assms(1,2)]) (simp add: bytes_from_def)

text \<open>Copying a string to another place.\<close>

lemma strncpy_bytes_cstring:
  assumes "cstring m p w"
  shows "strncpy_bytes m p count = take (nat (count - 1)) w"
proof (cases "int (length w) \<le> count - 1")
  case True
  then have "length w \<le> nat (count - 1)" by linarith
  then show ?thesis
    using strncpy_bytes_eqI [of w m p count] cstring_nth [OF assms] cstring_no_zero [OF assms]
      cstring_end [OF assms] True by simp
next
  case False
  then have n: "nat (count - 1) \<le> length w" by linarith
  then have "mem_bytes m p (nat (count - 1)) = take (nat (count - 1)) w"
    using cstring_nth [OF assms] by (intro mem_bytes_eqI) simp_all
  moreover have "takeWhile (\<lambda>b. b \<noteq> 0) (take (nat (count - 1)) w) = take (nat (count - 1)) w"
    using cstring_no_zero [OF assms] by (auto simp: takeWhile_eq_all_conv dest: in_set_takeD)
  ultimately show ?thesis by (simp add: strncpy_bytes_def)
qed

lemma strncpy_copies:
  assumes "cstring m src w" "unat src + length w < 2 ^ 32" "0 < count" "count \<le> 2 ^ 31" "unat dest + nat count < 2 ^ 32"
    and "unat dest + nat count \<le> unat src \<or> unat src + length w < unat dest"
  shows "cstring (strncpy dest src count m) dest (take (nat (count - 1)) w)"
    "\<And>x. x \<notin> bytes_from dest (nat count) \<Longrightarrow> strncpy dest src count m x = m x"
proof -
  let ?w = "take (nat (count - 1)) w"
  have copy: "strncpy dest src count m = write_bytes dest (?w @ [0]) m"
  proof (subst strncpy_correct)
    have "length w < unat (dest - src)" using assms(2,3,6) by (intro unat_diff_outside) linarith+
    then show "dest = src \<or> length (strncpy_bytes m src count) < unat (dest - src)"
      by (auto simp: strncpy_bytes_cstring [OF assms(1)])
  qed (use assms(4) in \<open>simp_all add: strncpy_bytes_cstring [OF assms(1)]\<close>)
  have len: "length (?w @ [0]) \<le> nat count" using assms(3) by simp
  have small: "length (?w @ [0]) \<le> 2 ^ 32"
    by (rule order.trans [OF len]) (use assms(4) in \<open>simp add: nat_le_iff\<close>)
  show "cstring (strncpy dest src count m) dest ?w"
    unfolding copy
  proof (rule cstringI)
    show "write_bytes dest (?w @ [0]) m (dest + of_nat i) = ?w ! i" if "i < length ?w" for i
      using write_bytes_inside [OF _ small, of i dest m] that by (simp add: nth_append less_Suc_eq)
    show "write_bytes dest (?w @ [0]) m (dest + of_nat (length ?w)) = 0"
      using write_bytes_inside [OF _ small, of "length ?w" dest m] by (simp del: length_take add: nth_append)
    show "0 \<notin> set ?w" using cstring_no_zero [OF assms(1)] by (auto dest: in_set_takeD)
  qed
  show "strncpy dest src count m x = m x" if "x \<notin> bytes_from dest (nat count)" for x
    using bytes_from_far [OF that] assms(3,5) len unfolding copy by (intro write_bytes_outside) linarith
qed

section \<open>The list of arguments\<close>

text \<open>A list of words as \<open>command_argument\<close> blocks; the pointer after the last word is 0.\<close>

fun argument_list :: "memory \<Rightarrow> addr \<Rightarrow> byte list list \<Rightarrow> bool" where
  "argument_list m p [] \<longleftrightarrow> p = 0"
| "argument_list m p (w # ws) \<longleftrightarrow> p \<noteq> 0 \<and> cstring m p w \<and> argument_list m (load32 m (p + 512)) ws"

lemma new_argument:
  assumes "blocks s = new # ps" "new \<noteq> 0" "unat new + 516 < 2 ^ 32"
    and "cstring (umem s) q w" "unat q + length w < 2 ^ 32"
    and "unat new + 516 \<le> unat q \<or> unat q + length w < unat new"
  obtains m0 m where "os_malloc 516 s = Some (new, s\<lparr>blocks := ps, umem := m0\<rparr>)"
    "set_argument new q (s\<lparr>blocks := ps, umem := m0\<rparr>) = s\<lparr>blocks := ps, umem := m\<rparr>"
    "cstring m new (take 511 w)" "load32 m (new + 512) = 0"
    "\<And>x. x \<notin> bytes_from new 516 \<Longrightarrow> m x = umem s x"
proof -
  define m0 where "m0 = write_bytes new (replicate 516 0) (umem s)"
  define m1 where "m1 = strncpy new q 512 m0"
  have m0: "m0 x = umem s x" if "x \<notin> bytes_from new 516" for x
    using bytes_from_far [OF that _ assms(3)] by (simp add: m0_def write_bytes_outside)
  have "cstring m0 q w"
    using assms(3,6) by (intro cstring_kept [OF assms(4,5)] m0) (auto simp: bytes_from_def)
  note copy = strncpy_copies [OF this assms(5), of 512 new]
  have m1: "cstring m1 new (take 511 w)" "\<And>x. x \<notin> bytes_from new 512 \<Longrightarrow> m1 x = m0 x"
    using copy assms(3,6) by (auto simp: m1_def)
  have u: "unat (new + 512) = unat new + 512" using unat_add_of_nat [of new 512] assms(3) by simp
  let ?m = "store32 m1 (new + 512) 0"
  have m: "?m x = m1 x" if "x \<notin> bytes_from (new + 512) 4" for x
    using store32_keeps [OF that] u assms(3) by simp
  show ?thesis
  proof (rule that)
    show "os_malloc 516 s = Some (new, s\<lparr>blocks := ps, umem := m0\<rparr>)"
      using assms(1,2) by (simp add: os_malloc_def m0_def)
    show "set_argument new q (s\<lparr>blocks := ps, umem := m0\<rparr>) = s\<lparr>blocks := ps, umem := ?m\<rparr>"
      by (simp add: set_argument_def m1_def)
    have l: "length (take 511 w) \<le> 511" by simp
    then show "cstring ?m new (take 511 w)"
      using assms(3) u by (intro cstring_kept [OF m1(1)] m) (auto simp: bytes_from_def simp del: length_take)
    show "load32 ?m (new + 512) = 0" by simp
    show "?m x = umem s x" if "x \<notin> bytes_from new 516" for x
      using that m [of x] m1(2) [of x] m0 [of x] u by (auto simp: bytes_from_def)
  qed
qed

text \<open>\<open>os_parse_loop\<close> with the call of \<open>strtok\<close> before its test, as the code makes it in both places.\<close>

definition parse_rest :: "addr \<Rightarrow> addr \<Rightarrow> user \<Rightarrow> user option" where
  "parse_rest current blank s = do { (token, s) \<leftarrow> strtok 0 blank s; os_parse_loop current token blank s }"

definition blocks_area :: "addr list \<Rightarrow> addr set" where
  "blocks_area ps = (\<Union>p \<in> set ps. bytes_from p 516)"

abbreviation block_places :: "addr list \<Rightarrow> (addr \<times> nat) list" where
  "block_places \<equiv> map (\<lambda>p. (p, 516))"

lemma parse_rest_words:
  assumes "separate ((buf, n) # (blank, Suc (length ds)) # (current, 516) # block_places ps)"
    and "blocks s = ps @ qs" "length (tokens (set ds) bs) = length ps"
    and "cstring (umem s) blank ds" "cstring (umem s) (backup_string s) bs"
    and "unat buf \<le> unat (backup_string s)" "unat (backup_string s) + length bs < unat buf + n"
    and "load32 (umem s) (current + 512) = 0"
  shows "\<exists>m b. parse_rest current blank s = Some (s\<lparr>umem := m, backup_string := b, blocks := qs\<rparr>)
    \<and> argument_list m (load32 m (current + 512)) (map (take 511) (tokens (set ds) bs))
    \<and> (\<forall>x. x \<notin> bytes_from buf n \<union> bytes_from (current + 512) 4 \<union> blocks_area ps \<longrightarrow> m x = umem s x)"
  using assms
proof (induction ps arbitrary: bs s current)
  case Nil
  have p: "backup_string s \<noteq> 0" "unat (backup_string s) + length bs < 2 ^ 32"
    using Nil.prems(1,6,7) by (auto simp: unat_eq_zero)
  have x: "(0 :: addr) = backup_string s \<or> (0 :: addr) = 0 \<and> backup_string s = backup_string s" by simp
  show ?case
  proof (cases rule: strtok_step [OF Nil.prems(4,5) p x, consumes 0, case_names off finished token])
    case (off a)
    then show ?case using Nil.prems(1,6,7) by (intro unat_diff_outside) auto
  next
    case finished
    then show ?thesis
      using Nil.prems(2,8) by (intro exI [of _ "umem s"] exI [of _ "backup_string s"])
        (simp add: parse_rest_def os_parse_loop.simps)
  qed (use Nil.prems(3) in simp_all)
next
  case (Cons new ps)
  let ?p = "backup_string s"
  have p: "?p \<noteq> 0" "unat ?p + length bs < 2 ^ 32"
    using Cons.prems(1,6,7) by (auto simp: unat_eq_zero)
  have x: "(0 :: addr) = ?p \<or> (0 :: addr) = 0 \<and> ?p = ?p" by simp
  show ?case
  proof (cases rule: strtok_step [OF Cons.prems(4,5) p x, consumes 0, case_names off finished token])
    case (off a)
    then show ?case using Cons.prems(1,6,7) by (intro unat_diff_outside) auto
  next
    case finished
    then show ?thesis using Cons.prems(3) by simp
  next
    case (token w bs' s1)
    define q where "q = ?p + of_nat (length (takeWhile (\<lambda>b. b \<in> set ds) bs))"
    note tok = token [folded q_def]
    from tok(13) obtain m1 b1 where s1: "s1 = s\<lparr>umem := m1, backup_string := b1\<rparr>" by blast
    obtain m0 m2 where new: "os_malloc 516 s1 = Some (new, s1\<lparr>blocks := ps @ qs, umem := m0\<rparr>)"
      "set_argument new q (s1\<lparr>blocks := ps @ qs, umem := m0\<rparr>) = s1\<lparr>blocks := ps @ qs, umem := m2\<rparr>"
      "cstring m2 new (take 511 w)" "load32 m2 (new + 512) = 0" "\<And>x. x \<notin> bytes_from new 516 \<Longrightarrow> m2 x = m1 x"
    proof (rule new_argument [of s1 new "ps @ qs" q w])
      show "cstring (umem s1) q w" by (rule tok(4))
    qed (use Cons.prems(1,2,6,7) tok(7,8,10) in \<open>auto simp: s1\<close>)
    define m3 where "m3 = store32 m2 (current + 512) new"
    define s3 where "s3 = s\<lparr>umem := m3, backup_string := b1, blocks := ps @ qs\<rparr>"
    have sep: "unat current + 516 < 2 ^ 32" "unat new + 516 < 2 ^ 32" "unat blank + Suc (length ds) < 2 ^ 32"
      "unat current + 516 \<le> unat new \<or> unat new + 516 \<le> unat current"
      "unat blank + Suc (length ds) \<le> unat current \<or> unat current + 516 \<le> unat blank"
      "unat blank + Suc (length ds) \<le> unat new \<or> unat new + 516 \<le> unat blank"
      "unat buf + n \<le> unat current \<or> unat current + 516 \<le> unat buf"
      "unat buf + n \<le> unat new \<or> unat new + 516 \<le> unat buf"
      "\<And>p. p \<in> set ps \<Longrightarrow> unat current + 516 \<le> unat p \<or> unat p + 516 \<le> unat current"
      "\<And>p. p \<in> set ps \<Longrightarrow> unat new + 516 \<le> unat p \<or> unat p + 516 \<le> unat new"
      using Cons.prems(1) by simp_all
    have u: "unat (current + 512) = unat current + 512" "unat (new + 512) = unat new + 512"
      using unat_add_of_nat [of current 512] unat_add_of_nat [of new 512] sep(1,2) by simp_all
    have m3: "m3 x = m2 x" if "x \<notin> bytes_from (current + 512) 4" for x
      using store32_keeps [OF that] u sep(1) by (simp add: m3_def)
    have keep: "m3 x = m1 x" if "x \<notin> bytes_from (current + 512) 4" "x \<notin> bytes_from new 516" for x
      using m3 [OF that(1)] new(5) [OF that(2)] by simp
    have word: "cstring m3 new (take 511 w)"
      using sep(2,4) u by (intro cstring_kept [OF new(3)] m3) (auto simp: bytes_from_def)
    have "\<exists>m b. parse_rest new blank s3 = Some (s3\<lparr>umem := m, backup_string := b, blocks := qs\<rparr>)
      \<and> argument_list m (load32 m (new + 512)) (map (take 511) (tokens (set ds) bs'))
      \<and> (\<forall>x. x \<notin> bytes_from buf n \<union> bytes_from (new + 512) 4 \<union> blocks_area ps \<longrightarrow> m x = umem s3 x)"
    proof (rule Cons.IH)
      show "separate ((buf, n) # (blank, Suc (length ds)) # (new, 516) # block_places ps)"
        using Cons.prems(1) by simp
      show "length (tokens (set ds) bs') = length ps" using Cons.prems(3) tok(1) by simp
      have "cstring m3 blank ds"
      proof (rule cstring_kept [of m1])
        show "m3 x = m1 x" if "x \<in> bytes_from blank (Suc (length ds))" for x
          using that sep(3,5,6) u by (intro keep) (auto simp: bytes_from_def)
      qed (use tok(6) sep(3) in \<open>simp_all add: s1\<close>)
      then show "cstring (umem s3) blank ds" by (simp add: s3_def)
      have "cstring m3 b1 bs'"
      proof (rule cstring_kept [of m1])
        have "unat buf \<le> unat b1" "unat b1 + Suc (length bs') \<le> unat buf + n"
          using tok(7,8,10) Cons.prems(6,7) by (simp_all add: s1)
        then have in_buf: "unat buf \<le> unat x" "unat x < unat buf + n" if "x \<in> bytes_from b1 (Suc (length bs'))" for x
          using that by (simp_all add: bytes_from_def)
        show "m3 x = m1 x" if "x \<in> bytes_from b1 (Suc (length bs'))" for x
          using in_buf [OF that] sep(7,8) u by (intro keep) (auto simp: bytes_from_def)
      qed (use tok(5,10) p(2) in \<open>simp_all add: s1\<close>)
      then show "cstring (umem s3) (backup_string s3) bs'" by (simp add: s3_def)
      have "load32 m3 (new + 512) = load32 m2 (new + 512)"
        using sep(2,4) u by (intro load32_keep m3) (auto simp: bytes_from_def)
      then show "load32 (umem s3) (new + 512) = 0" using new(4) by (simp add: s3_def)
    qed (use tok(7,8,10) Cons.prems(6,7) in \<open>simp_all add: s3_def s1\<close>)
    then obtain m b where rec: "parse_rest new blank s3 = Some (s3\<lparr>umem := m, backup_string := b, blocks := qs\<rparr>)"
      "argument_list m (load32 m (new + 512)) (map (take 511) (tokens (set ds) bs'))"
      "\<And>x. x \<notin> bytes_from buf n \<Longrightarrow> x \<notin> bytes_from (new + 512) 4 \<Longrightarrow> x \<notin> blocks_area ps \<Longrightarrow> m x = m3 x"
      by (auto simp: s3_def)
    have "parse_rest current blank s = parse_rest new blank s3"
      using tok(2,3) new(1,2) Cons.prems(1)
      by (cases s) (simp add: parse_rest_def os_parse_loop.simps [of current q] s3_def m3_def s1)
    moreover have "load32 m (current + 512) = new"
    proof -
      have "load32 m (current + 512) = load32 m3 (current + 512)"
      proof (intro load32_keep rec(3))
        fix x assume "x \<in> bytes_from (current + 512) 4"
        then have x: "unat current \<le> unat x" "unat x < unat current + 516" using u by (simp_all add: bytes_from_def)
        show "x \<notin> bytes_from buf n" "x \<notin> bytes_from (new + 512) 4"
          using x sep(4,7) u by (auto simp: bytes_from_def)
        show "x \<notin> blocks_area ps"
          using x sep(9) by (fastforce simp: bytes_from_def blocks_area_def)
      qed (use u sep(1) in simp)
      then show ?thesis by (simp add: m3_def)
    qed
    moreover have "cstring m new (take 511 w)"
    proof (intro cstring_kept [OF word] rec(3))
      fix x assume "x \<in> bytes_from new (Suc (length (take 511 w)))"
      then have x: "unat new \<le> unat x" "unat x < unat new + 512" by (auto simp: bytes_from_def)
      show "x \<notin> bytes_from buf n" "x \<notin> bytes_from (new + 512) 4"
        using x sep(8) u by (auto simp: bytes_from_def)
      show "x \<notin> blocks_area ps"
        using x sep(10) by (fastforce simp: bytes_from_def blocks_area_def)
    qed (use sep(2) in simp)
    moreover have "m x = umem s x"
      if "x \<notin> bytes_from buf n \<union> bytes_from (current + 512) 4 \<union> blocks_area (new # ps)" for x
      using that rec(3) [of x] keep [of x] tok(12) [of x] Cons.prems(6,7) u
      by (auto simp: bytes_from_def blocks_area_def s1)
    ultimately show ?thesis
      using rec(1,2) tok(1) Cons.prems(1) by (auto simp: s3_def)
  qed
qed

lemma os_parse_command_words:
  assumes "separate ((user_addr s Local_scommand, 1025) # (command, k) # (text_addr s lit_blank, 2) # block_places ps)"
    and "blocks s = ps @ qs" "length (tokens {0x20} line) = length ps"
    and "cstring (umem s) (text_addr s lit_blank) lit_blank" "cstring (umem s) command line" "length line < k" "k \<le> 1024"
  shows "\<exists>m b root. os_parse_command command 1024 s = Some (root, s\<lparr>umem := m, backup_string := b, blocks := qs\<rparr>)
    \<and> argument_list m root (map (take 511) (tokens {0x20} line))
    \<and> (\<forall>x. x \<notin> bytes_from (user_addr s Local_scommand) 1025 \<union> blocks_area ps \<longrightarrow> m x = umem s x)"
proof -
  let ?buf = "user_addr s Local_scommand" and ?blank = "text_addr s lit_blank"
  have sep: "?buf \<noteq> 0" "unat ?buf + 1025 < 2 ^ 32" "unat command + k < 2 ^ 32" "unat ?blank + 2 < 2 ^ 32"
    "unat ?buf + 1025 \<le> unat command \<or> unat command + k \<le> unat ?buf"
    "unat ?buf + 1025 \<le> unat ?blank \<or> unat ?blank + 2 \<le> unat ?buf"
    using assms(1) by simp_all
  define m0 where "m0 = strncpy ?buf command 1025 (umem s)"
  define s0 where "s0 = s\<lparr>umem := m0\<rparr>"
  have copy: "cstring m0 ?buf line" "\<And>x. x \<notin> bytes_from ?buf 1025 \<Longrightarrow> m0 x = umem s x"
    using strncpy_copies [OF assms(5), of 1025 ?buf] assms(6,7) sep(2,3,5) by (auto simp: m0_def)
  have "cstring m0 ?blank lit_blank"
    by (rule cstring_kept [OF assms(4) _ copy(2)]) (use sep(4,6) in \<open>auto simp: bytes_from_def lit_blank_def\<close>)
  then have b: "cstring (umem s0) ?blank [0x20]" by (simp add: s0_def lit_blank_def)
  have p: "cstring (umem s0) ?buf line" "unat ?buf + length line < 2 ^ 32"
    using copy(1) assms(6,7) sep(2) by (simp_all add: s0_def)
  show ?thesis
  proof (cases rule: strtok_step [OF b p(1) sep(1) p(2) disjI1 [OF refl], consumes 0, case_names off finished token])
    case (off a)
    then show ?case using sep assms(6,7) by (intro unat_diff_outside) auto
  next
    case finished
    then show ?thesis
      using assms(2,3) copy(2) by (intro exI [of _ m0] exI [of _ "backup_string s"] exI [of _ 0])
        (simp add: os_parse_command_def s0_def m0_def)
  next
    case (token w bs' s1)
    define q where "q = ?buf + of_nat (length (takeWhile (\<lambda>b. b \<in> set [0x20]) line))"
    note tok = token [folded q_def, unfolded list.set]
    from tok(13) obtain m1 b1 where s1: "s1 = s0\<lparr>umem := m1, backup_string := b1\<rparr>" by blast
    from tok(1) assms(3) obtain root ps' where ps: "ps = root # ps'" by (cases ps) auto
    have sep': "root \<noteq> 0" "unat root + 516 < 2 ^ 32" "unat ?buf + 1025 \<le> unat root \<or> unat root + 516 \<le> unat ?buf"
      "unat ?blank + 2 \<le> unat root \<or> unat root + 516 \<le> unat ?blank"
      "\<And>p. p \<in> set ps' \<Longrightarrow> unat root + 516 \<le> unat p \<or> unat p + 516 \<le> unat root"
      using assms(1) by (simp_all add: ps)
    obtain m2 m3 where new: "os_malloc 516 s1 = Some (root, s1\<lparr>blocks := ps' @ qs, umem := m2\<rparr>)"
      "set_argument root q (s1\<lparr>blocks := ps' @ qs, umem := m2\<rparr>) = s1\<lparr>blocks := ps' @ qs, umem := m3\<rparr>"
      "cstring m3 root (take 511 w)" "load32 m3 (root + 512) = 0" "\<And>x. x \<notin> bytes_from root 516 \<Longrightarrow> m3 x = m1 x"
    proof (rule new_argument [of s1 root "ps' @ qs" q w])
      show "cstring (umem s1) q w" by (rule tok(4))
    qed (use sep' assms(2,6,7) sep(2) tok(7,8,10) in \<open>auto simp: s1 s0_def ps\<close>)
    define s3 where "s3 = s\<lparr>umem := m3, backup_string := b1, blocks := ps' @ qs\<rparr>"
    have "\<exists>m b. parse_rest root ?blank s3 = Some (s3\<lparr>umem := m, backup_string := b, blocks := qs\<rparr>)
      \<and> argument_list m (load32 m (root + 512)) (map (take 511) (tokens (set [0x20]) bs'))
      \<and> (\<forall>x. x \<notin> bytes_from ?buf 1025 \<union> bytes_from (root + 512) 4 \<union> blocks_area ps' \<longrightarrow> m x = umem s3 x)"
    proof (rule parse_rest_words)
      show "separate ((?buf, 1025) # (?blank, Suc (length [0x20 :: byte])) # (root, 516) # block_places ps')"
        using assms(1) by (simp add: ps numeral_2_eq_2)
      show "length (tokens (set [0x20]) bs') = length ps'" using assms(3) tok(1) by (simp add: ps)
      have "cstring m3 ?blank [0x20]"
        by (rule cstring_kept [OF tok(6) _ new(5) [THEN trans]]) (use sep(4) sep'(4) in \<open>auto simp: bytes_from_def s1\<close>)
      then show "cstring (umem s3) ?blank [0x20]" by (simp add: s3_def)
      have "unat ?buf \<le> unat b1" "unat b1 + Suc (length bs') \<le> unat ?buf + 1025"
        using tok(7,8,10) assms(6,7) by (simp_all add: s1)
      then have "x \<notin> bytes_from root 516" if "x \<in> bytes_from b1 (Suc (length bs'))" for x
        using that sep'(3) by (auto simp: bytes_from_def)
      then have "cstring m3 b1 bs'"
        using tok(5,10) p(2) by (intro cstring_kept [of m1 b1 bs' m3] new(5)) (simp_all add: s1)
      then show "cstring (umem s3) (backup_string s3) bs'" by (simp add: s3_def)
    qed (use tok(7,8,10) assms(6,7) new(4) in \<open>simp_all add: s3_def s1\<close>)
    then obtain m b where rec: "parse_rest root ?blank s3 = Some (s3\<lparr>umem := m, backup_string := b, blocks := qs\<rparr>)"
      "argument_list m (load32 m (root + 512)) (map (take 511) (tokens {0x20} bs'))"
      "\<And>x. x \<notin> bytes_from ?buf 1025 \<Longrightarrow> x \<notin> bytes_from (root + 512) 4 \<Longrightarrow> x \<notin> blocks_area ps' \<Longrightarrow> m x = m3 x"
      by (auto simp: s3_def)
    have u: "unat (root + 512) = unat root + 512" using unat_add_of_nat [of root 512] sep'(2) by simp
    from rec(1) obtain t2 s2 where two: "strtok 0 ?blank s3 = Some (t2, s2)"
      "os_parse_loop root t2 ?blank s2 = Some (s3\<lparr>umem := m, backup_string := b, blocks := qs\<rparr>)"
      by (auto simp: parse_rest_def Option.bind_eq_Some_conv)
    have "os_parse_command command 1024 s = Some (root, s\<lparr>umem := m, backup_string := b, blocks := qs\<rparr>)"
      using tok(2,3) new(1,2) sep'(1) two
      by (cases s) (simp add: os_parse_command_def Let_def s3_def s1 s0_def m0_def)
    moreover have "cstring m root (take 511 w)"
    proof (intro cstring_kept [OF new(3)] rec(3))
      fix x assume "x \<in> bytes_from root (Suc (length (take 511 w)))"
      then have x: "unat root \<le> unat x" "unat x < unat root + 512" by (auto simp: bytes_from_def)
      show "x \<notin> bytes_from ?buf 1025" "x \<notin> bytes_from (root + 512) 4"
        using x sep'(3) u by (auto simp: bytes_from_def)
      show "x \<notin> blocks_area ps'"
        using x sep'(5) by (fastforce simp: bytes_from_def blocks_area_def)
    qed (use sep'(2) in simp)
    moreover have "m x = umem s x" if "x \<notin> bytes_from ?buf 1025 \<union> blocks_area ps" for x
      using that rec(3) [of x] new(5) [of x] tok(12) [of x] copy(2) [of x] assms(6,7) u
      by (auto simp: bytes_from_def blocks_area_def s1 s0_def ps)
    ultimately show ?thesis using rec(2) tok(1) sep'(1) by auto
  qed
qed

lemma os_system_run_words:
  assumes "separate ((command, k) # (user_addr s Local_scommand, 1025) # (user_addr s Local_run_buff, 1024)
      # (text_addr s lit_blank, 2) # block_places ps)"
    and "blocks s = ps @ qs" "length (tokens {0x20} line) = length ps" "answers s = r # rs"
    and "cstring (umem s) (text_addr s lit_blank) lit_blank" "cstring (umem s) command line" "length line < k" "k \<le> 1024"
  shows "\<exists>m b root. os_system_run command s = Some (if tokens {0x20} line = [] then - 1 else r,
      s\<lparr>umem := m, backup_string := b, blocks := qs, answers := (if tokens {0x20} line = [] then r # rs else rs),
        calls := calls s @ (if tokens {0x20} line = [] then [] else [System root])\<rparr>)
    \<and> argument_list m root (map (take 511) (tokens {0x20} line))
    \<and> (\<forall>x. x \<notin> bytes_from (user_addr s Local_scommand) 1025 \<union> bytes_from (user_addr s Local_run_buff) 1024
        \<union> blocks_area ps \<longrightarrow> m x = umem s x)"
proof -
  let ?buf = "user_addr s Local_run_buff" and ?blank = "text_addr s lit_blank"
  define m0 where "m0 = strncpy ?buf command 1024 (umem s)"
  define s0 where "s0 = s\<lparr>umem := m0\<rparr>"
  have sep: "unat ?buf + 1024 < 2 ^ 32" "unat command + k < 2 ^ 32" "unat ?blank + 2 < 2 ^ 32"
    "unat command + k \<le> unat ?buf \<or> unat ?buf + 1024 \<le> unat command"
    "unat ?buf + 1024 \<le> unat ?blank \<or> unat ?blank + 2 \<le> unat ?buf"
    using assms(1) by simp_all
  have copy: "cstring m0 ?buf line" "\<And>x. x \<notin> bytes_from ?buf 1024 \<Longrightarrow> m0 x = umem s x"
    using strncpy_copies [OF assms(6), of 1024 ?buf] assms(7,8) sep(1,2,4) by (auto simp: m0_def)
  have b: "cstring m0 ?blank lit_blank"
    by (rule cstring_kept [OF assms(5) _ copy(2)]) (use sep(3,5) in \<open>auto simp: bytes_from_def lit_blank_def\<close>)
  have "\<exists>m b root. os_parse_command ?buf 1024 s0 = Some (root, s0\<lparr>umem := m, backup_string := b, blocks := qs\<rparr>)
    \<and> argument_list m root (map (take 511) (tokens {0x20} line))
    \<and> (\<forall>x. x \<notin> bytes_from (user_addr s0 Local_scommand) 1025 \<union> blocks_area ps \<longrightarrow> m x = umem s0 x)"
    by (rule os_parse_command_words [where k = 1024]) (use assms b copy(1) in \<open>simp_all add: s0_def\<close>)
  then obtain m b root where run: "os_parse_command ?buf 1024 s0 = Some (root, s0\<lparr>umem := m, backup_string := b, blocks := qs\<rparr>)"
    "argument_list m root (map (take 511) (tokens {0x20} line))"
    "\<And>x. x \<notin> bytes_from (user_addr s Local_scommand) 1025 \<union> blocks_area ps \<Longrightarrow> m x = m0 x"
    by (auto simp: s0_def)
  have root: "root = 0 \<longleftrightarrow> tokens {0x20} line = []"
    using run(2) by (cases "tokens {0x20} line") auto
  have "os_system_run command s = Some (if tokens {0x20} line = [] then - 1 else r,
      s\<lparr>umem := m, backup_string := b, blocks := qs, answers := (if tokens {0x20} line = [] then r # rs else rs),
        calls := calls s @ (if tokens {0x20} line = [] then [] else [System root])\<rparr>)"
    using run(1) root assms(4) by (cases s) (simp add: os_system_run_def Let_def os_system_def s0_def m0_def)
  moreover have "m x = umem s x"
    if "x \<notin> bytes_from (user_addr s Local_scommand) 1025 \<union> bytes_from ?buf 1024 \<union> blocks_area ps" for x
    using that run(3) [of x] copy(2) [of x] by simp
  ultimately show ?thesis using run(2) by blast
qed

section \<open>A turn of the shell\<close>

lemma user_print_cstring:
  assumes "cstring (umem s) p bs" "length bs < 2 ^ 32"
  shows "user_print p s = Some (s\<lparr>calls := calls s @ [Print bs]\<rparr>)"
proof -
  have "unat (of_nat (length bs) :: u32) = length bs" using assms(2) by (simp add: unat_of_nat take_bit_nat_eq_self)
  moreover have "mem_bytes (umem s) p (length bs) = bs" using cstring_nth [OF assms(1)] by (intro mem_bytes_eqI) simp_all
  ultimately show ?thesis using strlen_cstring [OF assms(1)] by (simp add: user_print_def)
qed

text \<open>The literals, the three arrays and the blocks the kernel will give stand apart in the memory of the shell.\<close>

definition shell_memory :: "user \<Rightarrow> addr list \<Rightarrow> bool" where
  "shell_memory s ps \<longleftrightarrow>
     separate ((text_addr s lit_prompt, 3) # (text_addr s lit_newline, 2) # (user_addr s Local_shell_buff, 1024)
       # (user_addr s Local_scommand, 1025) # (user_addr s Local_run_buff, 1024) # (text_addr s lit_blank, 2)
       # block_places ps)
     \<and> (\<forall>t \<in> {lit_prompt, lit_newline, lit_blank}. cstring (umem s) (text_addr s t) t)"

lemma literal_kept:
  assumes "cstring m (text_addr s t) t" "unat (text_addr s t) + n < 2 ^ 32" "Suc (length t) \<le> n"
    and "\<And>x. x \<in> bytes_from (text_addr s t) n \<Longrightarrow> m' x = m x"
  shows "cstring m' (text_addr s t) t"
  by (rule cstring_kept [OF assms(1)]) (use assms(2,3) in \<open>auto simp: bytes_from_def intro!: assms(4)\<close>)

text \<open>What a turn may change: the arrays and the blocks it uses.\<close>

definition shell_area :: "user \<Rightarrow> addr list \<Rightarrow> addr set" where
  "shell_area s ps = bytes_from (user_addr s Local_shell_buff) 1024 \<union> bytes_from (user_addr s Local_scommand) 1025
     \<union> bytes_from (user_addr s Local_run_buff) 1024 \<union> blocks_area ps"

lemma separate_away:
  assumes "separate ((a, n) # rs)" "(b, k) \<in> set rs" "x \<in> bytes_from a n"
  shows "x \<notin> bytes_from b k"
proof -
  have "unat a + n \<le> unat b \<or> unat b + k \<le> unat a" using assms(1,2) by auto
  then show ?thesis using assms(3) by (auto simp: bytes_from_def)
qed

lemma separate_tail: "separate (r # rs) \<Longrightarrow> separate rs"
  by (cases r) simp

lemma separate_fits: "separate rs \<Longrightarrow> (a, n) \<in> set rs \<Longrightarrow> unat a + n < 2 ^ 32"
  by (induction rs rule: separate.induct) auto

lemma newline_away:
  assumes "shell_memory s ps" "x \<in> bytes_from (text_addr s lit_newline) 2"
  shows "x \<notin> shell_area s ps"
proof -
  note sep = separate_tail [OF assms(1) [unfolded shell_memory_def, THEN conjunct1]]
  have "x \<notin> bytes_from b k"
    if "(b, k) \<in> {(user_addr s Local_shell_buff, 1024), (user_addr s Local_scommand, 1025), (user_addr s Local_run_buff, 1024)}
      \<union> set (block_places ps)" for b k
    using separate_away [OF sep _ assms(2), of b k] that by auto
  then show ?thesis by (auto simp: shell_area_def blocks_area_def)
qed

text \<open>
  C7. A turn of the shell with a line to come returns: it shows the prompt, reads the line as it was edited,
  and, unless the line is blank, calls the system once, with a linked list whose entries are the words of
  the line in order, each cut to 511 characters; one block is taken for every word, and the keys after
  the line are left. No byte outside the three arrays of the shell and those blocks changes.
\<close>

theorem shell_turn_runs_words:
  assumes "edit_line 1023 [] (keys s) = Some (line, ks)" "shell_memory s ps"
    and "blocks s = ps @ qs" "length (tokens {0x20} line) = length ps" "answers s = r # rs"
  shows "\<exists>s' root. shell_turn s = Some s' \<and> argument_list (umem s') root (map (take 511) (tokens {0x20} line))
    \<and> calls s' = calls s @ [Print lit_prompt] @ shown_calls True (keys s) ks @ [Print lit_newline]
        @ (if tokens {0x20} line = [] then [] else [System root]) @ [Print lit_newline]
    \<and> keys s' = ks \<and> blocks s' = qs \<and> answers s' = (if tokens {0x20} line = [] then r # rs else rs)
    \<and> (\<forall>x. x \<notin> shell_area s ps \<longrightarrow> umem s' x = umem s x)"
proof -
  let ?buf = "user_addr s Local_shell_buff"
  have lits: "cstring (umem s) (text_addr s t) t" if "t \<in> {lit_prompt, lit_newline, lit_blank}" for t
    using assms(2) [unfolded shell_memory_def, THEN conjunct2] that by blast
  have all: "separate ((text_addr s lit_prompt, 3) # (text_addr s lit_newline, 2) # (?buf, 1024)
       # (user_addr s Local_scommand, 1025) # (user_addr s Local_run_buff, 1024) # (text_addr s lit_blank, 2)
       # block_places ps)"
    using assms(2) by (simp only: shell_memory_def)
  note sep = separate_tail [OF separate_tail [OF all]]
  have fits: "unat ?buf + 1024 < 2 ^ 32" "unat (text_addr s lit_newline) + 2 < 2 ^ 32" "unat (text_addr s lit_blank) + 2 < 2 ^ 32"
    by (rule separate_fits [OF all], simp)+
  have blank_away: "x \<notin> bytes_from ?buf 1024" if "x \<in> bytes_from (text_addr s lit_blank) 2" for x
    using separate_away [OF sep, of "text_addr s lit_blank" 2 x] that by auto
  have short: "length t < 2 ^ 32" if "t \<in> {lit_prompt, lit_newline}" for t
    using that by (auto simp: lit_prompt_def lit_newline_def)
  define s1 where "s1 = s\<lparr>calls := calls s @ [Print lit_prompt]\<rparr>"
  have print1: "user_print (text_addr s lit_prompt) s = Some s1"
    unfolding s1_def by (rule user_print_cstring) (use lits short in simp_all)
  obtain m1 where line: "os_terminal_readline ?buf 1024 True s1
      = Some (s1\<lparr>umem := m1, keys := ks, calls := calls s1 @ shown_calls True (keys s) ks\<rparr>)"
      "cstring m1 ?buf line" "length line < 1024" "\<And>x. 1024 \<le> unat (x - ?buf) \<Longrightarrow> m1 x = umem s x"
    using readline_edits [where mx = 1024 and s = s1 and out = ?buf and e = True] assms(1) by (auto simp: s1_def)
  have m1: "m1 x = umem s x" if "x \<notin> bytes_from ?buf 1024" for x
    using bytes_from_far [OF that _ fits(1)] line(4) by simp
  define s2 where "s2 = s1\<lparr>umem := m1, keys := ks, calls := calls s1 @ shown_calls True (keys s) ks @ [Print lit_newline]\<rparr>"
  have nl1: "cstring m1 (text_addr s lit_newline) lit_newline"
    by (rule literal_kept [OF lits fits(2)])
      (use newline_away [OF assms(2)] in \<open>auto simp: lit_newline_def shell_area_def intro!: m1\<close>)
  have print2: "user_print (text_addr s lit_newline)
      (s1\<lparr>umem := m1, keys := ks, calls := calls s1 @ shown_calls True (keys s) ks\<rparr>) = Some s2"
    using user_print_cstring [of "s1\<lparr>umem := m1, keys := ks, calls := calls s1 @ shown_calls True (keys s) ks\<rparr>"] nl1 short
    by (simp add: s2_def)
  have blank1: "cstring m1 (text_addr s lit_blank) lit_blank"
    by (rule literal_kept [OF lits fits(3)])
      (use blank_away in \<open>auto simp: lit_blank_def intro!: m1\<close>)
  obtain m b root where run: "os_system_run ?buf s2 = Some (if tokens {0x20} line = [] then - 1 else r,
      s2\<lparr>umem := m, backup_string := b, blocks := qs, answers := (if tokens {0x20} line = [] then r # rs else rs),
        calls := calls s2 @ (if tokens {0x20} line = [] then [] else [System root])\<rparr>)"
    "argument_list m root (map (take 511) (tokens {0x20} line))"
    "\<And>x. x \<notin> shell_area s ps \<Longrightarrow> m x = m1 x"
    using os_system_run_words [where s = s2 and command = ?buf and k = 1024 and line = line and ps = ps and qs = qs
      and r = r and rs = rs] sep assms(3-5) blank1 line(2,3)
    by (auto simp: s2_def s1_def shell_area_def)
  have frame: "m x = umem s x" if "x \<notin> shell_area s ps" for x
    using run(3) [OF that] m1 [of x] that by (simp add: shell_area_def)
  have nl2: "cstring m (text_addr s lit_newline) lit_newline"
    by (rule literal_kept [OF lits fits(2)])
      (use newline_away [OF assms(2)] in \<open>auto simp: lit_newline_def intro!: frame\<close>)
  define s3 where "s3 = s2\<lparr>umem := m, backup_string := b, blocks := qs,
      answers := (if tokens {0x20} line = [] then r # rs else rs),
      calls := calls s2 @ (if tokens {0x20} line = [] then [] else [System root])\<rparr>"
  have "user_print (text_addr s lit_newline) s3 = Some (s3\<lparr>calls := calls s3 @ [Print lit_newline]\<rparr>)"
    by (rule user_print_cstring) (use nl2 short in \<open>simp_all add: s3_def\<close>)
  then have "shell_turn s = Some (s3\<lparr>calls := calls s3 @ [Print lit_newline]\<rparr>)"
    using print1 line(1) print2 run(1) [folded s3_def] unfolding shell_turn_def
    by (simp add: s1_def Let_def) (simp add: s3_def s2_def s1_def)
  moreover have "calls s3 = calls s @ [Print lit_prompt] @ shown_calls True (keys s) ks @ [Print lit_newline]
      @ (if tokens {0x20} line = [] then [] else [System root])"
    by (simp add: s3_def s2_def s1_def)
  moreover have "keys s3 = ks" "blocks s3 = qs" "umem s3 = m" "answers s3 = (if tokens {0x20} line = [] then r # rs else rs)"
    by (simp_all add: s3_def s2_def)
  ultimately show ?thesis
    using run(2) frame by (intro exI [of _ "s3\<lparr>calls := calls s3 @ [Print lit_newline]\<rparr>"] exI [of _ root]) simp
qed

definition demo_shell :: user where
  "demo_shell = \<lparr>
     umem = write_bytes 0x1000 [0x3E, 0x20, 0, 0x0A, 0, 0x20, 0] (\<lambda>_. 7),
     backup_string = 0, itoa_text = 0x9000, keys = [0x6C, 0x73, 0x78, 0x08, 0x20, 0x2D, 0x61, 13, 0x64],
     blocks = [0x6000, 0x7000, 0x8000], answers = [0], program_arguments = (0, 0), calls = [],
     user_addr = (\<lambda>l. case l of Local_scommand \<Rightarrow> 0x2000 | Local_run_buff \<Rightarrow> 0x3000 | Local_shell_buff \<Rightarrow> 0x4000
       | Local_arguments \<Rightarrow> 0x5000),
     text_addr = (\<lambda>t. if t = lit_prompt then 0x1000 else if t = lit_newline then 0x1003 else 0x1005)\<rparr>"

lemma shell_turn_runs_words_witness:
  "\<exists>s' root. shell_turn demo_shell = Some s' \<and> argument_list (umem s') root [[0x6C, 0x73], [0x2D, 0x61]]
    \<and> calls s' = [Print lit_prompt] @ map Putchar [0x6C, 0x73, 0x78, 0x08, 0x20, 0x2D, 0x61]
        @ [Print lit_newline, System root, Print lit_newline]
    \<and> keys s' = [0x64] \<and> blocks s' = [0x8000]"
proof -
  have "edit_line 1023 [] (keys demo_shell) = Some ([0x6C, 0x73, 0x20, 0x2D, 0x61], [0x64])"
    by (simp add: demo_shell_def)
  moreover have "shell_memory demo_shell [0x6000, 0x7000]"
    by (simp add: shell_memory_def demo_shell_def lit_prompt_def lit_newline_def lit_blank_def write_bytes_def)
  moreover have "tokens {0x20} [0x6C, 0x73, 0x20, 0x2D, 0x61] = [[0x6C, 0x73], [0x2D, 0x61]]"
    by (simp add: tokens.simps)
  moreover have "shown_calls True (keys demo_shell) [0x64] = map Putchar [0x6C, 0x73, 0x78, 0x08, 0x20, 0x2D, 0x61]"
    by (simp add: demo_shell_def shown_calls_def shown_keys_def)
  moreover have "blocks demo_shell = [0x6000, 0x7000] @ [0x8000]" "answers demo_shell = [0]" "calls demo_shell = []"
    by (simp_all add: demo_shell_def)
  ultimately show ?thesis
    using shell_turn_runs_words [where s = demo_shell and line = "[0x6C, 0x73, 0x20, 0x2D, 0x61]" and ks = "[0x64]"
        and ps = "[0x6000, 0x7000]" and qs = "[0x8000]" and r = 0 and rs = "[]"]
    by fastforce
qed

end
