(* ===== verification/Loading.thy ===== *)
theory Loading
  imports Loader UserMemory
begin

text \<open>
  From a file to a program: \<open>elf_load\<close> on a mounted volume delivers the contents of the file and what
  \<open>elf_process_loaded\<close> makes of it, and the loop of \<open>process_map_elf\<close> lays the segments over the address
  space in the order of the program headers.
\<close>

section \<open>Reading an ELF file\<close>

text \<open>The size of a file in its directory entry.\<close>

definition entry_size :: "byte list \<Rightarrow> u32" where
  "entry_size bs = load32 (\<lambda>a. bs ! unat a) 28"

lemma filesize_entry:
  assumes "mem_bytes m item 32 = bs"
  shows "filesize m item = entry_size bs"
proof -
  have b: "m (item + of_nat i) = bs ! i" if "i < 32" for i using that by (simp flip: assms)
  show ?thesis
    using b [of 28] b [of 29] b [of 30] b [of 31] by (simp add: filesize_def entry_size_def load32_def add.assoc)
qed

lemma procs_update [simp]:
  fixes s :: "'a procs_scheme"
  shows "fat_mounted img n (s\<lparr>elf_files := es\<rparr>) = fat_mounted img n s"
    "fd_open bs i (s\<lparr>elf_files := es\<rparr>) = fd_open bs i s"
    "fd_ptr (s\<lparr>elf_files := es\<rparr>) i = fd_ptr s i"
    "fd_allocs (s\<lparr>elf_files := es\<rparr>) i = fd_allocs s i"
    "fat_mounted img n (s\<lparr>processes := ps\<rparr>) = fat_mounted img n s"
    "path_to c path (s\<lparr>processes := ps\<rparr>) = path_to c path s"
    "tail_room (s\<lparr>elf_files := es\<rparr>) = tail_room s"
    "tail_room (s\<lparr>processes := ps\<rparr>) = tail_room s"
  by (simp_all add: fat_mounted_def fat_volume_def fat_root_def stack_ok_def stream_position_def fd_open_def open_file_def
      file_item_def item_of_def fd_ptr_def file_ptr_def fd_allocs_def file_allocs_def item_allocs_def path_to_def path_ok_def
      tail_room_def split: option.splits)

lemma fstat_result:
  fixes s :: "'a files_scheme"
  assumes "fd_open bs i s" "i < 511" "length (file_descriptors s) = 512"
  shows "\<exists>flags. fstat (int i + 1) st s = Some (0, \<lparr>stat_flags = flags, stat_filesize = entry_size bs\<rparr>)"
proof -
  obtain p d f where p: "file_get_descriptor (int i + 1) s = p" "p \<noteq> 0"
    "fd_objects s p = Some \<lparr>fd_index = int i + 1, fd_filesystem = Fat16Filesystem, fd_private = d, fd_disk = TheDisk\<rparr>"
    "fat_descriptors s d = Some \<lparr>descriptor_item = f, pos = 0\<rparr>" "file_item bs f s"
    by (rule fd_openD [OF assms])
  then show ?thesis
    using filesize_entry [of "mem s" _ bs]
    by (auto simp: fstat_def fs_call_stat_def fat16_stat_def file_item_def)
qed

lemma fd_open_keeps:
  fixes s :: "'a files_scheme"
  assumes "fd_open bs i s" "fat_keeps s s'" "fat_items s' = fat_items s" "fat_descriptors s' = fat_descriptors s"
    "heap_inv (kernel_heap s)"
  shows "fd_open bs i s'" "fd_ptr s' i = fd_ptr s i" "fd_allocs s' i = fd_allocs s i"
proof -
  note f = fat_keeps_files [OF assms(2)]
  have fa: "file_allocs s' d = file_allocs s d" for d
    using assms(3,4) by (simp add: file_allocs_def item_allocs_def item_of_def split: option.splits)
  show "fd_open bs i s'"
    using assms(1) f fa open_file_keeps [OF _ assms(2-5)] assms(2) by (auto simp: fd_open_def fat_keeps_def)
  show "fd_ptr s' i = fd_ptr s i"
    using assms(3,4) f by (simp add: fd_ptr_def file_ptr_def item_of_def split: option.splits)
  show "fd_allocs s' i = fd_allocs s i"
    using f fa by (simp add: fd_allocs_def split: option.split)
qed

lemma fat_mounted_heap: "fat_mounted img n s \<Longrightarrow> heap_inv (kernel_heap s)"
  by (simp add: fat_mounted_def fat_volume_def)

text \<open>Loading a file changes nothing of the tasks and processes.\<close>

definition procs_frame :: "'a procs_scheme \<Rightarrow> 'a procs_scheme \<Rightarrow> bool" where
  "procs_frame s s' \<longleftrightarrow> tasks s' = tasks s \<and> processes s' = processes s \<and> current_task s' = current_task s \<and>
     task_head s' = task_head s \<and> task_tail s' = task_tail s \<and> current_process s' = current_process s \<and>
     process_table s' = process_table s \<and> kernel_chunk s' = kernel_chunk s \<and> literal_addr s' = literal_addr s \<and>
     cr3 s' = cr3 s"

lemma procs_frame_trans: "procs_frame s t \<Longrightarrow> procs_frame t u \<Longrightarrow> procs_frame s u"
  by (simp add: procs_frame_def)

lemma file_frame_procs:
  fixes s :: "'a procs_scheme"
  assumes "file_frame s s'"
  shows "procs_frame s s'" "elf_files s' = elf_files s"
  using assms by (auto simp: file_frame_def procs_frame_def)

text \<open>Reading leaves an open file open, as long as the copy of its directory entry stays.\<close>

lemma fd_open_stream:
  fixes s :: "'a files_scheme"
  assumes "fd_open bs i s" "i < 511" "length (file_descriptors s) = 512" "stream_frame s s'" "heap_inv (kernel_heap s)"
    "\<And>a. page_of a = page_of (fd_ptr s i) \<Longrightarrow> mem s' a = mem s a"
  shows "fd_open bs i s'" "fd_allocs s' i = fd_allocs s i"
proof -
  obtain log m sts where s': "s' = s\<lparr>io_log := log, mem := m, streams := sts\<rparr>" using assms(4) by (auto simp: stream_frame_def)
  obtain p d f where p: "file_descriptors s ! i = p" "file_get_descriptor (int i + 1) s = p" "open_file bs d s"
    "fd_objects s p = Some \<lparr>fd_index = int i + 1, fd_filesystem = Fat16Filesystem, fd_private = d, fd_disk = TheDisk\<rparr>"
    "fat_descriptors s d = Some \<lparr>descriptor_item = f, pos = 0\<rparr>" "file_item bs f s" "fd_ptr s i = item_of s f"
    "(p, 1) \<in> allocs (kernel_heap s)" "(p, 1) \<notin> file_allocs s d" "p \<noteq> 0"
    by (rule fd_openD [OF assms(1-3)]) (use assms(2) in \<open>auto simp: file_get_descriptor_def\<close>)
  obtain c where c: "fat_items s f = Some \<lparr>item_ptr = c, item_type = FAT_ITEM_TYPE_FILE\<rparr>" "(c, 1) \<in> allocs (kernel_heap s)"
      "mem_bytes (mem s) c 32 = bs"
    using p(6) by (auto simp: file_item_def)
  have "page_aligned c" using allocs_range(1) [OF assms(5) c(2)] .
  moreover have "m a = mem s a" if "page_of a = page_of c" for a
    using assms(6) [of a] that p(7) c(1) by (simp add: s' item_of_def)
  ultimately have "mem_bytes m c 32 = mem_bytes (mem s) c 32"
    by (intro mem_bytes_eqI) (simp_all add: page_of_add)
  moreover have fa: "file_allocs s' d = file_allocs s d" for d
    by (simp add: file_allocs_def item_allocs_def item_of_def s' split: option.splits)
  ultimately show "fd_open bs i s'"
    using assms(1) c p by (auto simp: fd_open_def open_file_def file_item_def item_of_def s')
  show "fd_allocs s' i = fd_allocs s i" using fa by (simp add: fd_allocs_def s' split: option.split)
qed

lemma fd_ptr_live:
  fixes s :: "'a files_scheme"
  assumes "fd_open bs i s" "i < 511" "length (file_descriptors s) = 512"
  shows "page_of (fd_ptr s i) \<in> live_pages (kernel_heap s)"
proof -
  obtain f where "file_item bs f s" "fd_ptr s i = item_of s f"
    by (rule fd_openD [OF assms])
  then show ?thesis using live_pagesI [of "item_of s f" "kernel_heap s"] by (auto simp: file_item_def item_of_def)
qed

lemma fd_allocs_live:
  fixes s :: "'a files_scheme"
  assumes "fd_open bs i s" "i < 511" "length (file_descriptors s) = 512"
  shows "fd_allocs s i \<subseteq> allocs (kernel_heap s)"
  using assms(1) by (auto simp: fd_open_def fd_allocs_def open_file_def file_allocs_def item_allocs_def file_item_def item_of_def)

lemma elf_load_result:
  fixes s :: "'a procs_scheme"
  assumes vol: "fat_mounted img n s" "plain_root img n" "path_to c filename s" "heap_pages (kernel_heap s) \<subseteq> {..<2 ^ 19}"
    and mode: "mem s (literal_addr s lit_r) = 0x72" "\<not> free_page (kernel_heap s) (page_of (literal_addr s lit_r))"
    and fds: "length (file_descriptors s) = 512" "first_free (\<lambda>p. p = 0) 0 (file_descriptors s) = Some i" "i < 511"
    and ent: "matches img n c \<noteq> []" "bs = root_entry img (last (matches img n c))" "bs ! 20 = 0" "bs ! 21 = 0"
      "0 < entry_size bs" "unat (entry_size bs) < 2 ^ 31" "fat_readable img (entry_cluster bs) 0 (unat (entry_size bs))"
    and room: "6 + 2 * length (matches img n c) + blocks_for (entry_size bs) \<le> tail_room s"
  obtains f buf res ef s' where "elf_load filename out s = Some (res, if res < 0 then out else f, s')"
    "elf_process_loaded (mem s') (zero_elf_file\<lparr>elf_mem := buf\<rparr>) = (res, ef)"
    "elf_files s' = (elf_files s)(f \<mapsto> ef)" "procs_frame s s'" "f \<noteq> 0" "buf \<noteq> 0" "page_aligned buf"
    "\<And>k. k < unat (entry_size bs) \<Longrightarrow> mem s' (buf + of_nat k) = driver_content img (entry_cluster bs) k"
    "heap_inv (kernel_heap s')" "heap_pages (kernel_heap s') = heap_pages (kernel_heap s)"
    "insert (f, 1) (insert (buf, blocks_for (entry_size bs)) (allocs (kernel_heap s))) \<subseteq> allocs (kernel_heap s')"
    "free_page (kernel_heap s) (page_of f)"
    "\<And>k. k < 4096 * blocks_for (entry_size bs) \<Longrightarrow> free_page (kernel_heap s) (page_of (buf + of_nat k))"
    "tail_room s \<le> tail_room s' + (6 + 2 * length (matches img n c) + blocks_for (entry_size bs))"
    "\<And>a. page_of a \<in> live_pages (kernel_heap s) \<Longrightarrow> mem s' a = mem s a"
    "file_descriptors s' = file_descriptors s"
proof -
  let ?sz = "entry_size bs" and ?m = "length (matches img n c)"
  have hi: "heap_inv (kernel_heap s)" using vol(1) by (simp add: fat_mounted_def fat_volume_def)
  have fb: "6 + 2 * ?m + blocks_for ?sz \<le> free_blocks (kernel_heap s)" using room tail_room_free_blocks [of s] by simp
  obtain f s1 where z1: "kernel_zalloc 132 s = Some (f, s1)" "f \<noteq> 0" "grows s s1"
      "allocs (kernel_heap s1) = insert (f, 1) (allocs (kernel_heap s))"
      "free_blocks (kernel_heap s) = Suc (free_blocks (kernel_heap s1))" "free_page (kernel_heap s) (page_of f)"
    by (rule kernel_zalloc_grows [OF hi, of 132]) (use fb in auto)
  obtain m1 h1 where s1: "s1 = s\<lparr>mem := m1, kernel_heap := h1\<rparr>" using kernel_zalloc_shape [OF z1(1)] by blast
  note g1 = z1(3) [unfolded grows_def]
  have v1: "fat_mounted img n s1"
    by (rule fat_mounted_grows [OF vol(1)]) (use g1 in \<open>auto simp: s1 free_page_def\<close>)
  have p1: "path_to c filename s1" using vol(3) path_ok_grows [OF _ z1(3)] by (auto simp: path_to_def)
  have md1: "mem s1 (literal_addr s1 lit_r) = 0x72" "\<not> free_page (kernel_heap s1) (page_of (literal_addr s1 lit_r))"
    using mode g1 by (auto simp: s1 free_page_def)
  obtain r2 s2 where s2: "fopen filename (literal_addr s1 lit_r) s1 = Some (r2, s2)" "fat_mounted img n s2"
    "allocs (kernel_heap s1) \<subseteq> allocs (kernel_heap s2)" "fs_private (disk s2) = fs_private (disk s1)"
    "file_frame s1 s2" "tail_keeps (kernel_heap s1) (kernel_heap s2)" "heap_pages (kernel_heap s2) = heap_pages (kernel_heap s1)"
    "free_blocks (kernel_heap s1) \<le> free_blocks (kernel_heap s2) + 5 + 2 * length (matches img n c)"
    "\<And>a. page_of a \<in> live_pages (kernel_heap s1) \<Longrightarrow> mem s2 a = mem s1 a"
    "opened img n c s1 r2 s2"
    by (rule fopen_result [OF v1 vol(2) p1 _ _ md1]) (use fb z1(5) g1 vol(4) in auto)
  have ff1: "first_free (\<lambda>p. p = 0) 0 (file_descriptors s1) = Some i" using fds(2) by (simp add: s1)
  obtain dp where o2: "r2 = int i + 1" "fd_open bs i s2" "fd_allocs s2 i \<inter> allocs (kernel_heap s1) = {}"
      "file_descriptors s2 = (file_descriptors s)[i := dp]"
    using opened_some [OF s2(10) ent(1) ff1] ent(2) by (auto simp: s1)
  have len2: "length (file_descriptors s2) = 512" using o2(4) fds(1) by simp
  note hi2 = fat_mounted_heap [OF s2(2)]
  have room2: "tail_room s \<le> tail_room s2 + (6 + 2 * ?m)"
    using g1 s2(6,8) z1(5) by (simp add: tail_keeps_def tail_room_def)
  have sz: "unat ?sz \<le> 2 ^ 32 - 4096" "blocks_for ?sz \<le> tail_room s2" using ent(6) room room2 by auto
  obtain buf s3 where z3: "kernel_zalloc ?sz s2 = Some (buf, s3)" "buf \<noteq> 0" "page_aligned buf" "fat_keeps s2 s3"
    "allocs (kernel_heap s3) = insert (buf, blocks_for ?sz) (allocs (kernel_heap s2))"
    "tail_room s2 \<le> tail_room s3 + blocks_for ?sz"
    "\<And>i. i < 4096 * blocks_for ?sz \<Longrightarrow> page_of (buf + of_nat i) = page_of buf + i div 4096 \<and>
      free_page (kernel_heap s2) (page_of (buf + of_nat i)) \<and> page_of (buf + of_nat i) \<in> live_pages (kernel_heap s3)"
    "\<exists>m h. s3 = s2\<lparr>mem := m, kernel_heap := h\<rparr>"
    by (rule zalloc_tail_fat_keeps [OF hi2 ent(5) sz]) (rule that, assumption+)
  obtain m3 h3 where s3: "s3 = s2\<lparr>mem := m3, kernel_heap := h3\<rparr>" using z3(8) by blast
  have blk: "unat ?sz \<le> 4096 * blocks_for ?sz"
    using div_mult_mod_eq [of "unat ?sz + 4095" 4096] mod_less_divisor [of 4096 "unat ?sz + 4095"]
    by (simp add: blocks_for_def)
  have k3: "fat_items s3 = fat_items s2" "fat_descriptors s3 = fat_descriptors s2" "file_descriptors s3 = file_descriptors s2"
    "disk s3 = disk s2" "elf_files s3 = elf_files s2" by (simp_all add: s3)
  note o3 = fd_open_keeps [OF o2(2) z3(4) k3(1,2) hi2]
  have v3: "fat_mounted img n s3" by (rule fat_mounted_keeps [OF s2(2) z3(4)])
  note hi3 = fat_mounted_heap [OF v3]
  have len3: "length (file_descriptors s3) = 512" using len2 k3 by simp
  define s4 where "s4 = s3\<lparr>elf_files := (elf_files s3)(f \<mapsto> zero_elf_file\<lparr>elf_mem := buf\<rparr>)\<rparr>"
  have own: "page_of (fs_private (disk s2)) \<in> live_pages (kernel_heap s2)" "page_of (fd_ptr s2 i) \<in> live_pages (kernel_heap s2)"
    using s2(2) fd_ptr_live [OF o2(2) fds(3) len2] by (simp_all add: fat_mounted_def fat_volume_def)
  have new: "page_of (buf + of_nat j) \<notin> live_pages (kernel_heap s2)" "page_of (buf + of_nat j) \<in> live_pages (kernel_heap s3)"
    if "j < unat ?sz" for j
    using z3(7) [of j] that blk by (auto simp: free_page_def)
  have buf: "page_of (buf + of_nat j) \<in> live_pages (kernel_heap s4) \<and>
      page_of (buf + of_nat j) \<noteq> page_of (fs_private (disk s4)) \<and> page_of (buf + of_nat j) \<noteq> page_of (fd_ptr s4 i)"
    if "j < unat ?sz" for j
  proof -
    have "page_of (buf + of_nat j) \<noteq> page_of (fs_private (disk s2))" "page_of (buf + of_nat j) \<noteq> page_of (fd_ptr s2 i)"
      using new(1) [OF that] own by auto
    moreover have "fd_ptr s4 i = fd_ptr s2 i" using o3(2) by (simp add: s4_def)
    ultimately show ?thesis using new(2) [OF that] k3(4) by (simp add: s4_def)
  qed
  have v4: "fat_mounted img n s4" "fd_open bs i s4" "length (file_descriptors s4) = 512"
    using v3 o3(1) len3 by (simp_all add: s4_def)
  obtain s5 where s5: "fread buf ?sz 1 (int i + 1) s4 = Some (1, s5)" "stream_frame s4 s5"
    "\<And>k. k < unat ?sz \<Longrightarrow> mem s5 (buf + of_nat k) = driver_content img (entry_cluster bs) k"
    "\<And>a. page_of a \<in> heap_pages (kernel_heap s4) \<Longrightarrow> unat ?sz \<le> unat (a - buf) \<Longrightarrow> mem s5 a = mem s4 a"
    by (rule fread_result [OF v4(1,2) fds(3) v4(3) ent(3-7) buf]) simp_all
  have keep5: "mem s5 a = mem s2 a" if "page_of a \<in> live_pages (kernel_heap s2)" for a
  proof -
    have "page_of a \<in> heap_pages (kernel_heap s2)" using live_pages_heap_pages [OF hi2] that by blast
    then have "page_of a \<in> heap_pages (kernel_heap s4)" using z3(4) by (simp add: fat_keeps_def s4_def)
    moreover have "unat ?sz \<le> unat (a - buf)"
    proof (rule ccontr)
      assume "\<not> ?thesis"
      then have "page_of (buf + of_nat (unat (a - buf))) \<notin> live_pages (kernel_heap s2)" by (intro new(1)) simp
      then show False using that by simp
    qed
    ultimately show ?thesis using s5(4) fat_keeps_mem [OF z3(4) that] by (simp add: s4_def)
  qed
  have f5: "kernel_heap s5 = kernel_heap s3" "file_descriptors s5 = file_descriptors s3"
    "elf_files s5 = (elf_files s)(f \<mapsto> zero_elf_file\<lparr>elf_mem := buf\<rparr>)"
    using s5(2) k3(5) file_frame_procs(2) [OF s2(5)] by (auto simp: stream_frame_def s4_def s1)
  have fd4: "fd_ptr s4 i = fd_ptr s2 i" using o3(2) by (simp add: s4_def)
  have fd5: "mem s5 a = mem s4 a" if "page_of a = page_of (fd_ptr s4 i)" for a
    using keep5 [of a] fat_keeps_mem [OF z3(4), of a] own(2) that fd4 by (simp add: s4_def)
  have hi4: "heap_inv (kernel_heap s4)" using hi3 by (simp add: s4_def)
  note o5 = fd_open_stream [OF v4(2) fds(3) v4(3) s5(2) hi4 fd5]
  obtain res ef where ef: "elf_process_loaded (mem s5) (zero_elf_file\<lparr>elf_mem := buf\<rparr>) = (res, ef)" by force
  define s6 where "s6 = s5\<lparr>elf_files := (elf_files s5)(f \<mapsto> ef)\<rparr>"
  have o6: "heap_inv (kernel_heap s6)" "fd_open bs i s6" "length (file_descriptors s6) = 512"
    using o5(1) f5 hi3 len3 by (simp_all add: s6_def)
  obtain s7 p7 d7 where s7: "fclose (int i + 1) s6 = Some (0, s7)" "heap_inv (kernel_heap s7)"
    "file_descriptors s7 = (file_descriptors s6)[i := 0]"
    "allocs (kernel_heap s7) = allocs (kernel_heap s6) - insert (p7, 1) (file_allocs s6 d7)"
    "fd_allocs s6 i = insert (p7, 1) (file_allocs s6 d7)"
    "file_frame s6 s7" "mem s7 = mem s6" "tail_room s6 \<le> tail_room s7" "heap_pages (kernel_heap s7) = heap_pages (kernel_heap s6)"
    by (rule fclose_result [OF o6(1,2) fds(3) o6(3)]) (rule that, assumption+)
  obtain flags where fl: "fstat (int i + 1) \<lparr>stat_flags = 0, stat_filesize = 0\<rparr> s2
      = Some (0, \<lparr>stat_flags = flags, stat_filesize = ?sz\<rparr>)"
    using fstat_result [OF o2(2) fds(3) len2] by blast
  have "elf_load_file (int i + 1) f s2 = Some (res, s6)"
    using fl z1(2) z3(1) s5(1) ef f5(3) by (simp add: elf_load_file_def Let_def s6_def flip: s4_def)
  then have run: "elf_load filename out s = Some (res, if res < 0 then out else f, s7)"
    using z1(1) s2(1) o2(1) s7(1) by (simp add: elf_load_def s1)
  have "fd_allocs s6 i = fd_allocs s2 i" using o5(2) o3(3) by (simp add: s6_def s4_def)
  then have al7: "allocs (kernel_heap s7) = insert (buf, blocks_for ?sz) (allocs (kernel_heap s2)) - fd_allocs s2 i"
    using s7(4,5) f5(1) z3(5) by (simp add: s6_def)
  have "(buf, blocks_for ?sz) \<notin> fd_allocs s2 i"
  proof
    assume "(buf, blocks_for ?sz) \<in> fd_allocs s2 i"
    then have "(buf, blocks_for ?sz) \<in> allocs (kernel_heap s2)" using fd_allocs_live [OF o2(2) fds(3) len2] by blast
    moreover have "page_of buf \<notin> live_pages (kernel_heap s2)" using new(1) [of 0] ent(5) by (simp add: word_less_nat_alt)
    ultimately show False using blocks_for_pos [OF ent(5)] by (force simp: live_pages_def)
  qed
  then have al: "insert (f, 1) (insert (buf, blocks_for ?sz) (allocs (kernel_heap s))) \<subseteq> allocs (kernel_heap s7)"
    using al7 z1(4) s2(3) o2(3) by auto
  have lv: "live_pages (kernel_heap s) \<subseteq> live_pages (kernel_heap s1)" "live_pages (kernel_heap s1) \<subseteq> live_pages (kernel_heap s2)"
    using g1 live_pages_mono [OF s2(3)] by simp_all
  have keep: "mem s7 a = mem s a" if "page_of a \<in> live_pages (kernel_heap s)" for a
  proof -
    have l: "page_of a \<in> live_pages (kernel_heap s1)" "page_of a \<in> live_pages (kernel_heap s2)" using that lv by auto
    have "mem s1 a = mem s a" using that g1 by (simp add: free_page_def)
    then show ?thesis using keep5 [OF l(2)] s2(9) [OF l(1)] s7(7) by (simp add: s6_def)
  qed
  have pf: "procs_frame s s7"
  proof -
    have "procs_frame s s1" "procs_frame s2 s4" "procs_frame s4 s6"
      using s5(2) by (auto simp: procs_frame_def s1 s3 s4_def s6_def stream_frame_def)
    then show ?thesis using file_frame_procs(1) [OF s2(5)] file_frame_procs(1) [OF s7(6)] by (blast intro: procs_frame_trans)
  qed
  have "file_descriptors s ! i = 0" using first_free_Some [OF fds(2)] by simp
  then have fd7: "file_descriptors s7 = file_descriptors s"
    using s7(3) f5(2) k3(3) o2(4) list_update_id [of "file_descriptors s" i] by (simp add: s6_def)
  have free: "free_page (kernel_heap s) (page_of (buf + of_nat k))" if "k < 4096 * blocks_for ?sz" for k
    using z3(7) [OF that] lv s2(7) g1 by (auto simp: free_page_def)
  show ?thesis
  proof (rule that [OF run])
    show "tail_room s \<le> tail_room s7 + (6 + 2 * ?m + blocks_for ?sz)"
      using room2 z3(6) s7(8) f5(1) by (simp add: s6_def tail_room_def)
    show "heap_pages (kernel_heap s7) = heap_pages (kernel_heap s)"
      using s7(9) f5(1) z3(4) s2(7) g1 by (simp add: s6_def fat_keeps_def)
    show "elf_files s7 = (elf_files s)(f \<mapsto> ef)" using file_frame_procs(2) [OF s7(6)] f5(3) by (simp add: s6_def)
    show "insert (f, 1) (insert (buf, blocks_for ?sz) (allocs (kernel_heap s))) \<subseteq> allocs (kernel_heap s7)" by (rule al)
  qed (use ef s7(2,7) s5(3) pf keep fd7 free z1(2,6) z3(2,3) in \<open>simp_all add: s6_def\<close>)
qed

section \<open>Mapping the segments\<close>

lemma paging_align_address_aligned [simp]: "page_aligned (paging_align_address a)"
proof -
  have lower: "page_aligned (a - a mod 4096)"
    using paging_align_to_lower_page_aligned [of a] by (simp add: paging_align_to_lower_page_def)
  show ?thesis
  proof (cases "a mod 4096 = 0")
    case True
    then show ?thesis using lower by (simp add: paging_align_address_def)
  next
    case False
    have "page_aligned ((a - a mod 4096) - (- 4096))" by (rule page_aligned_sub [OF lower]) (simp add: page_aligned_def)
    then show ?thesis using False by (simp add: paging_align_address_def algebra_simps)
  qed
qed

text \<open>
  A mapped range: where it starts in the address space, where it starts and where it ends in physical
  memory. Ranges are laid over a translation in order, a later one on top.
\<close>

type_synonym range = "addr \<times> addr \<times> addr"

definition over :: "range \<Rightarrow> (addr \<Rightarrow> addr) \<Rightarrow> addr \<Rightarrow> addr" where
  "over r tr w = (case r of (va, pa, e) \<Rightarrow> if unat (w - va) < unat (e - pa) then pa + (w - va) else tr w)"

definition overlay :: "range list \<Rightarrow> (addr \<Rightarrow> addr) \<Rightarrow> addr \<Rightarrow> addr" where
  "overlay rs tr = foldl (\<lambda>tr r. over r tr) tr rs"

lemma overlay_simps [simp]: "overlay [] tr = tr" "overlay (r # rs) tr = overlay rs (over r tr)"
  "overlay (rs @ [r]) tr = over r (overlay rs tr)"
  by (simp_all add: overlay_def)

text \<open>The range of a program header, and the headers that can be mapped.\<close>

definition segment :: "memory \<Rightarrow> elf_file \<Rightarrow> addr \<Rightarrow> range" where
  "segment m f phdr = (paging_align_to_lower_page (p_vaddr m phdr),
     paging_align_to_lower_page (elf_phdr_phys_address m f phdr),
     paging_align_address (elf_phdr_phys_address m f phdr + p_memsz m phdr))"

definition mappable :: "range \<Rightarrow> bool" where
  "mappable r = (case r of (va, pa, e) \<Rightarrow> pa \<le> e)"

definition segments :: "memory \<Rightarrow> elf_file \<Rightarrow> addr \<Rightarrow> nat list \<Rightarrow> range list" where
  "segments m f phdrs is = map (\<lambda>i. segment m f (phdrs + of_nat (32 * i))) is"

lemma segment_cong:
  assumes "\<And>k. k < 32 \<Longrightarrow> m' (phdr + of_nat k) = m (phdr + of_nat k)"
  shows "segment m' f phdr = segment m f phdr"
proof -
  have "load32 m' (phdr + of_nat k) = load32 m (phdr + of_nat k)" if "k + 3 < 32" for k
    using assms [of k] assms [of "k + 1"] assms [of "k + 2"] assms [of "k + 3"] that
    by (simp add: load32_def ac_simps)
  from this [of 4] this [of 8] this [of 20] show ?thesis
    by (simp add: segment_def elf_phdr_phys_address_def p_vaddr_def p_offset_def p_memsz_def)
qed

lemma process_map_elf_loop_result:
  assumes "wf_chunk c m" "\<And>i k. i \<in> set is \<Longrightarrow> k < 32 \<Longrightarrow> page_of (phdrs + of_nat (32 * i) + of_nat k) \<notin> chunk_pages c m"
  shows "\<exists>m'. process_map_elf_loop c f phdrs is 0 m
      = (if list_all mappable (segments m f phdrs is) then 0 else - INVALID_ARGUMENT_ERROR, m')
    \<and> wf_chunk c m' \<and> chunk_pages c m' = chunk_pages c m
    \<and> (\<forall>a. page_of a \<notin> chunk_pages c m \<longrightarrow> m' a = m a)
    \<and> (\<forall>w. paging_get_physical_address (load32 m' c) w m' =
         overlay (takeWhile mappable (segments m f phdrs is)) (\<lambda>w. paging_get_physical_address (load32 m c) w m) w)"
  using assms
proof (induction "is" arbitrary: m)
  case Nil
  then show ?case by (simp add: segments_def)
next
  case (Cons i "is")
  let ?phdr = "phdrs + of_nat (32 * i)"
  define flags :: u32 where "flags = (if p_flags m ?phdr AND PF_W \<noteq> 0 then (PAGING_IS_PRESENT OR PAGING_ACCESS_FROM_ALL) OR PAGING_IS_WRITEABLE
    else PAGING_IS_PRESENT OR PAGING_ACCESS_FROM_ALL)"
  obtain va pa e where seg: "segment m f ?phdr = (va, pa, e)" by (cases "segment m f ?phdr")
  have al: "page_aligned va" "page_aligned pa" "page_aligned e" using seg by (auto simp: segment_def)
  have "flags < 4096" by (simp add: flags_def)
  note res = paging_map_to_result [OF Cons.prems(1) this, of va pa e]
  note fr = paging_map_to_frame [OF Cons.prems(1), where v = va and p = pa and e = e and flags = flags]
  have step: "process_map_elf_loop c f phdrs (i # is) 0 m =
      (let (res, m) = paging_map_to c va pa e flags m in if res < 0 then (res, m) else process_map_elf_loop c f phdrs is res m)"
    using seg by (simp add: segment_def flags_def Let_def)
  show ?case
  proof (cases "pa \<le> e")
    case False
    then show ?thesis
      using Cons.prems(1) res al seg step by (simp add: segments_def mappable_def)
  next
    case True
    with res al obtain m1 where m1: "paging_map_to c va pa e flags m = (0, m1)" "wf_chunk c m1"
      "\<And>w. paging_get_physical_address (load32 m1 c) w m1 =
        (if unat (w - va) < unat (e - pa) then pa + (w - va) else paging_get_physical_address (load32 m c) w m)" by auto
    have out: "m1 a = m a" if "page_of a \<notin> chunk_pages c m" for a
      using fr(1) [where a = a] that m1(1) by (simp add: chunk_pages_def)
    have cp: "chunk_pages c m1 = chunk_pages c m" using fr(3) m1(1) by simp
    have same: "segments m1 f phdrs is = segments m f phdrs is"
      using Cons.prems(2) out by (auto simp: segments_def intro!: segment_cong)
    have "over (va, pa, e) (\<lambda>w. paging_get_physical_address (load32 m c) w m) = (\<lambda>w. paging_get_physical_address (load32 m1 c) w m1)"
      using m1(3) by (auto simp: over_def fun_eq_iff)
    moreover have "segments m f phdrs (i # is) = (va, pa, e) # segments m f phdrs is" using seg by (simp add: segments_def)
    moreover have "mappable (va, pa, e)" using True by (simp add: mappable_def)
    ultimately show ?thesis
      using Cons.IH [OF m1(2)] Cons.prems(2) cp out same step m1(1) by auto
  qed
qed

end
