(* ===== verification/ProcessLoad.thy ===== *)
theory ProcessLoad
  imports Loading
begin

text \<open>
  Creating a process from an ELF file: what \<open>process_load\<close> of \<^verbatim>\<open>src/src/task/process.c\<close> achieves when the
  file of the given path is a program on the mounted volume. The program is described by the
  contents of the file alone, as an image at address 0.
\<close>

section \<open>Programs as files\<close>

definition file_image :: "(nat \<Rightarrow> byte) \<Rightarrow> memory" where
  "file_image ct = (\<lambda>a. ct (unat a))"

text \<open>The contents of a file in memory.\<close>

definition holds :: "(nat \<Rightarrow> byte) \<Rightarrow> nat \<Rightarrow> addr \<Rightarrow> memory \<Rightarrow> bool" where
  "holds ct sz buf m \<longleftrightarrow> (\<forall>k < sz. m (buf + of_nat k) = ct k)"

definition program_header :: "(nat \<Rightarrow> byte) \<Rightarrow> nat \<Rightarrow> addr" where
  "program_header ct i = e_phoff (file_image ct) 0 + of_nat (32 * i)"

definition program_headers :: "(nat \<Rightarrow> byte) \<Rightarrow> nat" where
  "program_headers ct = unat (e_phnum (file_image ct) 0)"

text \<open>
  A program: an ELF image with its headers inside the file and with segments that stay below
  2 GB from the start of the file.
\<close>

definition program :: "(nat \<Rightarrow> byte) \<Rightarrow> nat \<Rightarrow> bool" where
  "program ct sz \<longleftrightarrow> valid_image (file_image ct) 0 \<and> 52 \<le> sz \<and> sz < 2 ^ 31 \<and>
     unat (e_phoff (file_image ct) 0) + 32 * program_headers ct \<le> sz \<and>
     (\<forall>i < program_headers ct. unat (p_offset (file_image ct) (program_header ct i)) +
        unat (p_memsz (file_image ct) (program_header ct i)) < 2 ^ 31 - 4096)"

text \<open>The segments of a program that is loaded at \<open>buf\<close>.\<close>

definition program_segments :: "(nat \<Rightarrow> byte) \<Rightarrow> addr \<Rightarrow> range list" where
  "program_segments ct buf = segments (file_image ct) (zero_elf_file\<lparr>elf_mem := buf\<rparr>)
     (e_phoff (file_image ct) 0) [0..<program_headers ct]"

lemma holds_byte: "holds ct sz buf m \<Longrightarrow> unat a < sz \<Longrightarrow> m (buf + a) = file_image ct a"
  by (force simp: holds_def file_image_def dest: spec [of _ "unat a"])

lemma holds_load32:
  assumes "holds ct sz buf m" "unat a + 4 \<le> sz" "sz < 2 ^ 31"
  shows "load32 m (buf + a) = load32 (file_image ct) a"
proof -
  have "m (buf + (a + of_nat j)) = file_image ct (a + of_nat j)" if "j < 4" for j
    using unat_add_of_nat [of a j] that assms by (intro holds_byte) auto
  from this [of 0] this [of 1] this [of 2] this [of 3] show ?thesis
    by (simp add: load32_def add.assoc)
qed

lemma holds_header:
  assumes "holds ct sz buf m" "program ct sz"
  shows "valid_image m buf" "e_phoff m buf = e_phoff (file_image ct) 0" "unat (e_phnum m buf) = program_headers ct"
    "elf_pheader m buf = buf + e_phoff (file_image ct) 0" "e_entry m buf = e_entry (file_image ct) 0"
proof -
  have sz: "52 \<le> sz" "sz < 2 ^ 31" "valid_image (file_image ct) 0" using assms(2) by (simp_all add: program_def)
  have b: "m (buf + a) = file_image ct a" if "unat a < 52" for a using holds_byte [OF assms(1)] that sz by simp
  have w: "load32 m (buf + a) = load32 (file_image ct) a" if "unat a + 4 \<le> 52" for a
    using holds_load32 [OF assms(1)] that sz by simp
  show e: "e_phoff m buf = e_phoff (file_image ct) 0" "e_entry m buf = e_entry (file_image ct) 0"
    using w [of 28] w [of 24] by (simp_all add: e_phoff_def e_entry_def)
  have "mem_bytes m buf 4 = mem_bytes (file_image ct) 0 4"
    using b [of 0] b [of 1] b [of 2] b [of 3] by (simp add: mem_bytes_def upt_rec)
  then show v: "valid_image m buf"
    using sz(3) b [of 4] b [of 5] w [of 28] by (simp add: valid_image_def)
  then show "elf_pheader m buf = buf + e_phoff (file_image ct) 0"
    using e by (simp add: elf_pheader_def valid_image_def e_phoff_def)
  show "unat (e_phnum m buf) = program_headers ct"
    using b [of 44] b [of 45] by (simp add: program_headers_def e_phnum_def load16_def add.assoc)
qed

lemma program_header_inside:
  assumes "program ct sz" "i < program_headers ct" "k < 32"
  shows "unat (program_header ct i + of_nat k) = unat (e_phoff (file_image ct) 0) + 32 * i + k"
    "unat (program_header ct i + of_nat k) < sz"
proof -
  have le: "unat (e_phoff (file_image ct) 0) + 32 * program_headers ct \<le> sz" "sz < 2 ^ 31"
    using assms(1) by (simp_all add: program_def)
  have "32 * i + 32 \<le> 32 * program_headers ct" using assms(2) by simp
  then have fit: "unat (e_phoff (file_image ct) 0) + (32 * i + k) < sz" using le assms(3) by linarith
  have "program_header ct i + of_nat k = e_phoff (file_image ct) 0 + of_nat (32 * i + k)"
    by (simp add: program_header_def)
  then show "unat (program_header ct i + of_nat k) = unat (e_phoff (file_image ct) 0) + 32 * i + k"
    using unat_add_of_nat [of "e_phoff (file_image ct) 0" "32 * i + k"] fit le by (simp del: of_nat_add of_nat_mult)
  then show "unat (program_header ct i + of_nat k) < sz" using fit by linarith
qed

lemma holds_segments:
  assumes "holds ct sz buf m" "program ct sz" "elf_mem f = buf"
  shows "segments m f (buf + e_phoff (file_image ct) 0) [0..<program_headers ct] = program_segments ct buf"
proof -
  have "segment m f (buf + program_header ct i) = segment (file_image ct) (zero_elf_file\<lparr>elf_mem := buf\<rparr>) (program_header ct i)"
    if "i < program_headers ct" for i
  proof -
    have "load32 m (buf + (program_header ct i + of_nat k)) = load32 (file_image ct) (program_header ct i + of_nat k)"
      if "k < 28" for k
    proof (rule holds_load32 [OF assms(1)])
      show "unat (program_header ct i + of_nat k) + 4 \<le> sz"
        using program_header_inside [OF assms(2) \<open>i < program_headers ct\<close>, of k]
          program_header_inside [OF assms(2) \<open>i < program_headers ct\<close>, of "k + 3"] that by simp
    qed (use assms(2) in \<open>simp add: program_def\<close>)
    from this [of 4] this [of 8] this [of 20] show ?thesis
      by (simp add: segment_def elf_phdr_phys_address_def elf_memory_def p_vaddr_def p_offset_def p_memsz_def
          assms(3) add.assoc)
  qed
  then show ?thesis
    by (simp add: program_segments_def segments_def program_header_def add.assoc)
qed

lemma align_address_le:
  assumes "unat a < 2 ^ 32 - 4096"
  shows "a \<le> paging_align_address a"
proof (cases "a mod 4096 = 0")
  case False
  let ?r = "4096 - unat a mod 4096"
  have "unat a mod 4096 = unat (a mod 4096)" "unat a mod 4096 \<le> 4096" by (simp_all add: unat_mod_distrib less_imp_le)
  then have "of_nat ?r = 4096 - a mod 4096" by (simp add: of_nat_diff)
  then have "paging_align_address a = a + of_nat ?r" using False by (simp add: paging_align_address_def)
  moreover have "unat (a + of_nat ?r) = unat a + ?r"
    using assms by (intro unat_add_of_nat) simp
  ultimately show ?thesis by (simp add: word_le_nat_alt)
qed (simp add: paging_align_address_def)

lemma lower_page_le: "paging_align_to_lower_page a \<le> a"
proof -
  have "a mod 4096 \<le> a" by (simp add: word_le_nat_alt unat_mod_distrib)
  then show ?thesis by (simp add: paging_align_to_lower_page_def word_le_nat_alt unat_sub)
qed

text \<open>A program that is loaded in the lower half of memory can be mapped.\<close>

lemma program_mappable:
  assumes "program ct sz" "unat buf < 2 ^ 31"
  shows "list_all mappable (program_segments ct buf)"
proof -
  have "mappable (segment (file_image ct) (zero_elf_file\<lparr>elf_mem := buf\<rparr>) (program_header ct i))"
    if "i < program_headers ct" for i
  proof -
    let ?o = "p_offset (file_image ct) (program_header ct i)" and ?n = "p_memsz (file_image ct) (program_header ct i)"
    have "unat ?o + unat ?n < 2 ^ 31 - 4096" using assms(1) that by (simp add: program_def)
    then have o: "unat (buf + ?o) = unat buf + unat ?o" "unat (buf + ?o + ?n) = unat buf + unat ?o + unat ?n"
      using assms(2) unat_add_of_nat [of buf "unat ?o"] unat_add_of_nat [of "buf + ?o" "unat ?n"] by auto
    have "paging_align_to_lower_page (buf + ?o) \<le> buf + ?o" by (rule lower_page_le)
    also have "buf + ?o \<le> buf + ?o + ?n" using o by (simp add: word_le_nat_alt)
    also have "\<dots> \<le> paging_align_address (buf + ?o + ?n)"
      by (rule align_address_le) (use o assms(2) \<open>unat ?o + unat ?n < _\<close> in simp)
    finally show ?thesis
      by (simp add: mappable_def segment_def elf_phdr_phys_address_def elf_memory_def)
  qed
  then show ?thesis
    by (simp add: program_segments_def segments_def list_all_iff program_header_def)
qed

section \<open>The loader on a program\<close>

lemma elf_process_pheaders_loop_mem:
  "\<exists>f'. elf_process_pheaders_loop m header is 0 f = (0, f') \<and> elf_mem f' = elf_mem f"
proof (induction "is" arbitrary: f)
  case (Cons i "is")
  let ?r = "elf_process_pheader m (elf_program_header m header i) f"
  have "fst ?r = 0" "elf_mem (snd ?r) = elf_mem f"
    by (simp_all add: elf_process_pheader_def elf_process_phdr_pt_load_def Let_def)
  then show ?case using Cons.IH [of "snd ?r"] by (simp add: case_prod_beta Let_def)
qed simp

lemma elf_process_loaded_program:
  assumes "valid_image m (elf_mem f)"
  shows "\<exists>f'. elf_process_loaded m f = (0, f') \<and> elf_mem f' = elf_mem f"
proof -
  have "elf_validate_loaded m (elf_mem f) = 0" using assms by (simp add: elf_validate_loaded_iff)
  then show ?thesis
    using elf_process_pheaders_loop_mem [of m "elf_mem f" "[0..<unat (e_phnum m (elf_mem f))]" f]
    by (simp add: elf_process_loaded_def elf_process_pheaders_def elf_header_def)
qed

section \<open>The address space of a program\<close>

text \<open>The segments of a loaded file.\<close>

definition file_segments :: "memory \<Rightarrow> elf_file \<Rightarrow> range list" where
  "file_segments m f = segments m f (elf_pheader m (elf_mem f)) [0..<unat (e_phnum m (elf_mem f))]"

text \<open>The program headers lie outside a set of pages.\<close>

definition headers_outside :: "nat set \<Rightarrow> memory \<Rightarrow> elf_file \<Rightarrow> bool" where
  "headers_outside P m f \<longleftrightarrow>
     (\<forall>k < 32 * unat (e_phnum m (elf_mem f)). page_of (elf_pheader m (elf_mem f) + of_nat k) \<notin> P)"

lemma process_map_elf_result:
  fixes s :: "'a procs_scheme"
  assumes "processes s p = Some pr" "elf_files s (process_ptr pr) = Some f" "tasks s (process_task pr) = Some tk"
    "wf_chunk (page_directory tk) (mem s)" "headers_outside (chunk_pages (page_directory tk) (mem s)) (mem s) f"
  obtains m where "process_map_elf p s = Some (if list_all mappable (file_segments (mem s) f)
      then 0 else - INVALID_ARGUMENT_ERROR, s\<lparr>mem := m\<rparr>)"
    "wf_chunk (page_directory tk) m" "chunk_pages (page_directory tk) m = chunk_pages (page_directory tk) (mem s)"
    "\<And>a. page_of a \<notin> chunk_pages (page_directory tk) (mem s) \<Longrightarrow> m a = mem s a"
    "translate tk m = overlay (takeWhile mappable (file_segments (mem s) f)) (translate tk (mem s))"
proof -
  let ?n = "unat (e_phnum (mem s) (elf_mem f))" and ?phdrs = "elf_pheader (mem s) (elf_mem f)"
  have "page_of (?phdrs + of_nat (32 * i) + of_nat k) \<notin> chunk_pages (page_directory tk) (mem s)"
    if "i \<in> set [0..<?n]" "k < 32" for i k
  proof -
    have "i < ?n" using that by simp
    then have "32 * i + k < 32 * ?n" using that(2) by linarith
    with assms(5) have "page_of (?phdrs + of_nat (32 * i + k)) \<notin> chunk_pages (page_directory tk) (mem s)"
      unfolding headers_outside_def by blast
    then show ?thesis by (simp add: add.assoc)
  qed
  from process_map_elf_loop_result [OF assms(4) this, where f = f] obtain m where
    m: "process_map_elf_loop (page_directory tk) f ?phdrs [0..<?n] 0 (mem s)
      = (if list_all mappable (file_segments (mem s) f) then 0 else - INVALID_ARGUMENT_ERROR, m)"
    "wf_chunk (page_directory tk) m" "chunk_pages (page_directory tk) m = chunk_pages (page_directory tk) (mem s)"
    "\<And>a. page_of a \<notin> chunk_pages (page_directory tk) (mem s) \<Longrightarrow> m a = mem s a"
    "translate tk m = overlay (takeWhile mappable (file_segments (mem s) f)) (translate tk (mem s))"
    unfolding file_segments_def translate_def fun_eq_iff by blast
  have "process_map_elf p s = Some (if list_all mappable (file_segments (mem s) f)
      then 0 else - INVALID_ARGUMENT_ERROR, s\<lparr>mem := m\<rparr>)"
    using assms(1-3) m(1) by (simp add: process_map_elf_def elf_header_def Let_def)
  then show ?thesis using m(2-5) by (rule that)
qed

text \<open>Where the stack of a program is mapped, and what it is mapped to.\<close>

definition stack_range :: "addr \<Rightarrow> range" where
  "stack_range st = (OS_USER_PROGRAM_VIRTUAL_STACK_ADDRESS_END, st, st + OS_USER_PROGRAM_VIRTUAL_STACK_SIZE)"

lemma process_map_memory_program:
  fixes s :: "'a procs_scheme"
  assumes pr: "processes s p = Some pr" "elf_files s (process_ptr pr) = Some f" "tasks s (process_task pr) = Some tk"
    "filetype pr = 0"
    and wf: "wf_chunk (page_directory tk) (mem s)"
    and prog: "program ct sz" "holds ct sz (elf_mem f) (mem s)" "unat (elf_mem f) < 2 ^ 31"
      "\<And>k. k < sz \<Longrightarrow> page_of (elf_mem f + of_nat k) \<notin> chunk_pages (page_directory tk) (mem s)"
    and st: "page_aligned (stack pr)" "unat (stack pr) < 2 ^ 31"
  obtains m where "process_map_memory p s = Some (0, s\<lparr>mem := m\<rparr>)" "wf_chunk (page_directory tk) m"
    "chunk_pages (page_directory tk) m = chunk_pages (page_directory tk) (mem s)"
    "\<And>a. page_of a \<notin> chunk_pages (page_directory tk) (mem s) \<Longrightarrow> m a = mem s a"
    "translate tk m = overlay (program_segments ct (elf_mem f) @ [stack_range (stack pr)]) (translate tk (mem s))"
proof -
  let ?c = "page_directory tk"
  note h = holds_header [OF prog(2,1)]
  have inside: "headers_outside (chunk_pages ?c (mem s)) (mem s) f"
    unfolding headers_outside_def
  proof (intro allI impI)
    fix k assume k: "k < 32 * unat (e_phnum (mem s) (elf_mem f))"
    have "unat (program_header ct (k div 32) + of_nat (k mod 32)) < sz"
      using k h(3) by (intro program_header_inside(2) [OF prog(1)]) auto
    then have "page_of (elf_mem f + (program_header ct (k div 32) + of_nat (k mod 32))) \<notin> chunk_pages ?c (mem s)"
      using prog(4) [of "unat (program_header ct (k div 32) + of_nat (k mod 32))"] by simp
    moreover have "program_header ct (k div 32) + of_nat (k mod 32) = e_phoff (file_image ct) 0 + of_nat k"
    proof -
      have "(of_nat (32 * (k div 32)) + of_nat (k mod 32) :: u32) = of_nat (32 * (k div 32) + k mod 32)"
        by (simp only: of_nat_add)
      then show ?thesis by (simp add: program_header_def add.assoc del: of_nat_mult)
    qed
    ultimately show "page_of (elf_pheader (mem s) (elf_mem f) + of_nat k) \<notin> chunk_pages ?c (mem s)"
      using h(4) by (simp add: add.assoc)
  qed
  have seg: "file_segments (mem s) f = program_segments ct (elf_mem f)"
    using holds_segments [OF prog(2,1) refl] h(3,4) by (simp add: file_segments_def)
  note mp = program_mappable [OF prog(1,3)]
  have tw: "takeWhile mappable (program_segments ct (elf_mem f)) = program_segments ct (elf_mem f)"
    using mp by (simp add: takeWhile_eq_all_conv list_all_iff)
  obtain m1 where m1: "process_map_elf p s = Some (0, s\<lparr>mem := m1\<rparr>)" "wf_chunk ?c m1"
    "chunk_pages ?c m1 = chunk_pages ?c (mem s)" "\<And>a. page_of a \<notin> chunk_pages ?c (mem s) \<Longrightarrow> m1 a = mem s a"
    "translate tk m1 = overlay (program_segments ct (elf_mem f)) (translate tk (mem s))"
    using process_map_elf_result [OF pr(1-3) wf inside] unfolding seg tw using mp by auto
  let ?e = "stack pr + 0x4000"
  have e: "paging_align_address (stack pr + 0x4000) = ?e" "page_aligned ?e" "stack pr \<le> ?e" "unat (?e - stack pr) = 0x4000"
    using paging_align_address_end [of "stack pr" "0x4000"] region_aligned_end [of "stack pr" 4] st
    by (simp_all add: blocks_for_def)
  note fr = paging_map_to_frame [OF m1(2), where v = "0x3FB000" and p = "stack pr" and e = ?e and flags = 7]
  from paging_map_to_result [OF m1(2), of 7 "0x3FB000" "stack pr" ?e] obtain m2 where
    m2: "paging_map_to ?c 0x3FB000 (stack pr) ?e 7 m1 = (0, m2)" "wf_chunk ?c m2"
      "\<And>w. paging_get_physical_address (load32 m2 ?c) w m2 =
        (if unat (w - 0x3FB000) < unat (?e - stack pr) then stack pr + (w - 0x3FB000)
         else paging_get_physical_address (load32 m1 ?c) w m1)"
    using st(1) e by (auto simp: page_aligned_def)
  have "process_map_memory p s = Some (0, s\<lparr>mem := m2\<rparr>)"
    using pr m1(1) m2(1) e(1) by (simp add: process_map_memory_def)
  moreover have "translate tk m2 = over (stack_range (stack pr)) (translate tk m1)"
    using m2(3) by (simp add: translate_def over_def stack_range_def fun_eq_iff)
  ultimately show ?thesis
    using m2(1,2) fr(1,3) m1(3-5) by (intro that [of m2]) (auto simp: chunk_pages_def)
qed

text \<open>Mapping a program keeps every page present and readable for programs.\<close>

lemma paging_map_to_wf:
  assumes "wf_chunk c m" "f < 4096" shows "wf_chunk c (snd (paging_map_to c v p e f m))"
  using paging_map_to_result [OF assms, of v p e] assms(1) by (auto split: if_splits)

lemma process_map_elf_loop_grants:
  "wf_chunk c m \<Longrightarrow> space_grants 5 c m \<Longrightarrow>
   wf_chunk c (snd (process_map_elf_loop c f phdrs is r m)) \<and> space_grants 5 c (snd (process_map_elf_loop c f phdrs is r m))"
proof (induction "is" arbitrary: r m)
  case (Cons i "is")
  let ?phdr = "phdrs + of_nat (32 * i)" and ?phys = "elf_phdr_phys_address m f (phdrs + of_nat (32 * i))"
  define fl :: u32 where "fl = (if p_flags m ?phdr AND PF_W \<noteq> 0 then 7 else 5)"
  define r1 where "r1 = paging_map_to c (paging_align_to_lower_page (p_vaddr m ?phdr)) (paging_align_to_lower_page ?phys)
    (paging_align_address (?phys + p_memsz m ?phdr)) fl m"
  have fl: "fl < 4096" "fl AND 5 = 5" by (simp_all add: fl_def)
  have "wf_chunk c (snd r1)" "space_grants 5 c (snd r1)"
    unfolding r1_def using paging_map_to_wf [OF Cons.prems(1) fl(1)] paging_map_to_keeps_grants [OF Cons.prems _ fl(2)] by auto
  moreover have "process_map_elf_loop c f phdrs (i # is) r m =
      (if fst r1 < 0 then r1 else process_map_elf_loop c f phdrs is (fst r1) (snd r1))"
    by (simp add: r1_def fl_def Let_def split_beta)
  ultimately show ?case using Cons.IH by simp
qed simp

lemma process_map_memory_grants:
  fixes s :: "'a procs_scheme"
  assumes "process_map_memory p s = Some (r, s')" "processes s p = Some pr" "filetype pr = 0"
    "tasks s (process_task pr) = Some tk" "wf_chunk (page_directory tk) (mem s)" "space_grants 5 (page_directory tk) (mem s)"
  shows "space_grants 5 (page_directory tk) (mem s')"
  using assms
  by (auto simp: process_map_memory_def process_map_elf_def Let_def split_beta process_map_elf_loop_grants
      intro!: paging_map_to_keeps_grants split: bind_splits if_splits)

section \<open>The task of a program\<close>

lemma low_page: "page_of a < 524288 \<Longrightarrow> unat a < 2147483648"
  by (simp add: page_of_def div_less_iff_less_mult)

text \<open>A program in an allocated buffer.\<close>

definition program_in :: "(nat \<Rightarrow> byte) \<Rightarrow> nat \<Rightarrow> addr \<Rightarrow> 'a kstate_scheme \<Rightarrow> bool" where
  "program_in ct sz buf s \<longleftrightarrow> program ct sz \<and> holds ct sz buf (mem s) \<and>
     (\<forall>k < sz. page_of (buf + of_nat k) \<in> live_pages (kernel_heap s))"

lemma program_in_keeps:
  assumes "program_in ct sz buf s" "live_pages (kernel_heap s) \<subseteq> live_pages (kernel_heap s')"
    "\<And>a. page_of a \<in> live_pages (kernel_heap s) \<Longrightarrow> mem s' a = mem s a"
  shows "program_in ct sz buf s'"
  using assms by (auto simp: program_in_def holds_def)

lemma program_in_entry:
  fixes s :: "'a procs_scheme"
  assumes "program_in ct sz (elf_mem f) s" "elf_files s (process_ptr pr) = Some f" "filetype pr = 0"
  shows "entry_loaded s pr" "entry_point s pr = e_entry (file_image ct) 0"
proof -
  have p: "program ct sz" "holds ct sz (elf_mem f) (mem s)" "52 \<le> sz"
    "\<And>k. k < sz \<Longrightarrow> page_of (elf_mem f + of_nat k) \<in> live_pages (kernel_heap s)"
    using assms(1) by (auto simp: program_in_def program_def)
  show "entry_point s pr = e_entry (file_image ct) 0"
    using holds_header(5) [OF p(2,1)] assms by (simp add: entry_point_def)
  have "page_of (elf_mem f + 24 + of_nat i) \<in> live_pages (kernel_heap s)" if "i < 4" for i
    using p(4) [of "24 + i"] p(3) that by (simp add: add.assoc)
  then show "entry_loaded s pr" using assms(2) by (simp add: entry_loaded_def)
qed

text \<open>What a process and its task are after loading.\<close>

definition loaded_task :: "(nat \<Rightarrow> byte) \<Rightarrow> addr \<Rightarrow> addr \<Rightarrow> addr \<Rightarrow> task \<Rightarrow> memory \<Rightarrow> bool" where
  "loaded_task ct buf st p tk m \<longleftrightarrow> task_process tk = p \<and>
     registers tk = zero_registers\<lparr>ip := e_entry (file_image ct) 0, ss_reg := 0x23, cs_reg := 0x1B, esp := 0x3FF000\<rparr> \<and>
     translate tk m = overlay (program_segments ct buf @ [stack_range st]) (\<lambda>v. v) \<and>
     space_grants (PAGING_IS_PRESENT OR PAGING_ACCESS_FROM_ALL) (page_directory tk) m"

lemma process_load_task_result:
  fixes s :: "'a procs_scheme"
  assumes heap: "heap_inv (kernel_heap s)" "heap_pages (kernel_heap s) \<subseteq> {..<2 ^ 19}" "1031 \<le> tail_room s"
    and ts: "wf_task_list s ts" "\<And>t. t \<in> set ts \<Longrightarrow> page_of t \<in> live_pages (kernel_heap s)"
    and pr: "processes s p = Some pr" "elf_files s (process_ptr pr) = Some f" "filetype pr = 0"
    and prog: "program_in ct sz (elf_mem f) s"
  obtains t st tk fn s' where "process_load_task filename p (int i) out s = Some (0, p, s')"
    "processes s' = (processes s)(p \<mapsto> pr\<lparr>process_filename := fn, stack := st, process_id := of_nat i, process_task := t\<rparr>)"
    "process_table s' = (process_table s)[i := p]" "t \<notin> set ts" "wf_task_list s' (ts @ [t])" "tasks s' t = Some tk"
    "loaded_task ct (elf_mem f) st p tk (mem s')" "program_in ct sz (elf_mem f) s'" "elf_files s' = elf_files s"
    "current_task s' = (if ts = [] then t else current_task s)" "current_process s' = current_process s"
    "heap_inv (kernel_heap s')" "\<And>k. k < 16384 \<Longrightarrow> mem s' (st + of_nat k) = 0"
    "\<And>a. page_of a \<in> live_pages (kernel_heap s) \<Longrightarrow> mem s' a = mem s a"
proof -
  have b4: "blocks_for (0x4000 :: u32) = 4" by (simp add: blocks_for_def)
  have sz4: "0 < (0x4000 :: u32)" "unat (0x4000 :: u32) \<le> 2 ^ 32 - 4096" "blocks_for (0x4000 :: u32) \<le> tail_room s"
    using heap(3) b4 by auto
  obtain st s1 where z: "kernel_zalloc 0x4000 s = Some (st, s1)" "st \<noteq> 0" "page_aligned st" "grows s s1"
    "tail_room s \<le> tail_room s1 + blocks_for 0x4000"
    "\<And>i. i < 4096 * blocks_for 0x4000 \<Longrightarrow> page_of (st + of_nat i) = page_of st + i div 4096 \<and>
      free_page (kernel_heap s) (page_of (st + of_nat i)) \<and> page_of (st + of_nat i) \<in> live_pages (kernel_heap s1)"
    "\<And>a. unat (a - st) < unat (0x4000 :: u32) \<Longrightarrow> mem s1 a = 0"
    by (rule kernel_zalloc_tail [OF heap(1) sz4]) (rule that, assumption+)
  obtain m1 h1 where s1: "s1 = s\<lparr>mem := m1, kernel_heap := h1\<rparr>" using kernel_zalloc_shape [OF z(1)] by blast
  have g: "heap_inv (kernel_heap s1)" "live_pages (kernel_heap s) \<subseteq> live_pages (kernel_heap s1)"
    "\<And>a. page_of a \<in> live_pages (kernel_heap s) \<Longrightarrow> mem s1 a = mem s a"
    using z(4) by (auto simp: grows_def free_page_def)
  define fn where "fn = strncpy_field (mem s1) filename 108 0 (process_filename pr)"
  define pr2 where "pr2 = pr\<lparr>process_filename := fn, stack := st, process_id := of_nat i\<rparr>"
  define s2 where "s2 = s1\<lparr>processes := (processes s)(p \<mapsto> pr2)\<rparr>"
  have prog2: "program_in ct sz (elf_mem f) s2"
    by (rule program_in_keeps [OF prog]) (use g in \<open>simp_all add: s2_def\<close>)
  have pr2: "processes s2 p = Some pr2" "elf_files s2 (process_ptr pr2) = Some f" "filetype pr2 = 0"
    using pr by (simp_all add: s2_def pr2_def s1)
  note entry = program_in_entry [OF prog2 pr2(2,3)]
  have wf2: "wf_task_list s2 ts" using ts(1) by (simp add: wf_task_list_def task_list_def s2_def s1)
  have live2: "\<And>t. t \<in> set ts \<Longrightarrow> page_of t \<in> live_pages (kernel_heap s2)" using ts(2) g(2) by (auto simp: s2_def)
  have room2: "1027 \<le> free_blocks (kernel_heap s2)"
    using z(5) b4 heap(3) tail_room_free_blocks [of s1] by (simp add: s2_def)
  have hi2: "heap_inv (kernel_heap s2)" using g(1) by (simp add: s2_def)
  from task_new_result [OF wf2 live2 hi2 room2 pr2(1) entry(1)] obtain t tk s3 where
    t: "task_new p s2 = Some (t, s3)" "t \<notin> set ts" "wf_task_list s3 (ts @ [t])" "tasks s3 t = Some tk"
      "task_process tk = p" "new_space s2 tk s3" "task_frame s2 s3" "heap_inv (kernel_heap s3)" "t \<noteq> 0"
      "registers tk = zero_registers\<lparr>ip := e_entry (file_image ct) 0, ss_reg := 0x23, cs_reg := 0x1B, esp := 0x3FF000\<rparr>"
      "current_task s3 = (if ts = [] then t else current_task s2)"
    using entry(2) by auto
  note fr = t(7) [unfolded task_frame_def]
  have lv3: "live_pages (kernel_heap s2) \<subseteq> live_pages (kernel_heap s3)" using fr live_pages_mono by blast
  define pr4 where "pr4 = pr2\<lparr>process_task := t\<rparr>"
  define s4 where "s4 = s3\<lparr>processes := (processes s3)(p \<mapsto> pr4)\<rparr>"
  let ?c = "page_directory tk"
  have prog4: "program_in ct sz (elf_mem f) s4"
    by (rule program_in_keeps [OF prog2]) (use fr lv3 in \<open>simp_all add: s4_def\<close>)
  have sp: "wf_chunk ?c (mem s4)" "translate tk (mem s4) = (\<lambda>v. v)"
    "chunk_pages ?c (mem s4) \<inter> live_pages (kernel_heap s2) = {}" "space_grants 5 ?c (mem s4)"
    using t(6) by (auto simp: new_space_def s4_def translate_def)
  have in4: "page_of (elf_mem f + of_nat k) \<notin> chunk_pages ?c (mem s4)" if "k < sz" for k
    using prog2 that sp(3) by (auto simp: program_in_def)
  have low: "unat (elf_mem f) < 2 ^ 31" "unat st < 2 ^ 31"
  proof -
    have "page_of (elf_mem f) \<in> heap_pages (kernel_heap s)"
      using prog live_pages_heap_pages [OF heap(1)] by (force simp: program_in_def program_def)
    moreover have "page_of st \<in> heap_pages (kernel_heap s)" using z(6) [of 0] b4 by (simp add: free_page_def)
    ultimately show "unat (elf_mem f) < 2 ^ 31" "unat st < 2 ^ 31" using heap(2) by (auto intro!: low_page)
  qed
  obtain m where m: "process_map_memory p s4 = Some (0, s4\<lparr>mem := m\<rparr>)"
    "chunk_pages ?c m = chunk_pages ?c (mem s4)" "\<And>a. page_of a \<notin> chunk_pages ?c (mem s4) \<Longrightarrow> m a = mem s4 a"
    "translate tk m = overlay (program_segments ct (elf_mem f) @ [stack_range (stack pr4)]) (translate tk (mem s4))"
    by (rule process_map_memory_program [of s4 p pr4 f tk ct sz])
       (use pr2 fr t(4) sp(1) prog4 in4 low z(3) in \<open>auto simp: s4_def pr4_def pr2_def program_in_def\<close>)
  have gr: "space_grants 5 ?c m"
    using process_map_memory_grants [OF m(1) _ _ _ sp(1,4), of pr4] fr t(4) pr2 by (simp add: s4_def pr4_def)
  define s5 where "s5 = s4\<lparr>mem := m, process_table := (process_table s4)[i := p]\<rparr>"
  have keep2: "mem s5 a = mem s2 a" if "page_of a \<in> live_pages (kernel_heap s2)" for a
    using m(3) [of a] fr sp(3) that by (auto simp: s5_def s4_def)
  have keep: "mem s5 a = mem s a" if "page_of a \<in> live_pages (kernel_heap s)" for a
    using keep2 [of a] g(2,3) that by (auto simp: s2_def)
  have "task_new p (s\<lparr>mem := m1, kernel_heap := h1, processes := (processes s)(p \<mapsto> pr\<lparr>
      process_filename := strncpy_field m1 filename 108 0 (process_filename pr), stack := st, process_id := of_nat i\<rparr>)\<rparr>) =
      Some (t, s3)"
    using t(1) by (simp add: s2_def s1 pr2_def fn_def)
  moreover have "processes s3 p = Some pr2" using fr pr2(1) by simp
  moreover have "sint t \<noteq> 0" using t(9) signed_eq_0_iff [of t] by simp
  ultimately have "process_load_task filename p (int i) out s = Some (0, p, s5)"
    using z(1,2) pr(1) m(1)
    by (simp add: process_load_task_def ERROR_I_def s1 s4_def pr4_def s5_def)
  moreover have "wf_task_list s5 (ts @ [t])" using t(3) by (simp add: wf_task_list_def task_list_def s5_def s4_def)
  moreover have "loaded_task ct (elf_mem f) st p tk (mem s5)"
    using t(5,10) m(4) sp(2) gr by (simp add: loaded_task_def s5_def pr4_def pr2_def)
  moreover have "program_in ct sz (elf_mem f) s5"
    by (rule program_in_keeps [OF prog2]) (use keep2 lv3 in \<open>simp_all add: s5_def s4_def\<close>)
  moreover have "mem s5 (st + of_nat k) = 0" if "k < 16384" for k
  proof -
    have "page_of (st + of_nat k) \<in> live_pages (kernel_heap s2)" using z(6) [of k] b4 that by (auto simp: s2_def)
    then have "mem s5 (st + of_nat k) = mem s1 (st + of_nat k)" using keep2 by (simp add: s2_def)
    then show ?thesis using z(7) [of "st + of_nat k"] unat_diff_of_nat_index [of k st] that by simp
  qed
  moreover have "processes s5 = (processes s)(p \<mapsto> pr\<lparr>process_filename := fn, stack := st, process_id := of_nat i, process_task := t\<rparr>)"
    using fr by (simp add: s5_def s4_def pr4_def pr2_def s2_def)
  ultimately show ?thesis
    using t(2,4,8,11) fr keep by (intro that [where s' = s5 and fn = fn and st = st and t = t and tk = tk]) (simp_all add: s5_def s4_def s2_def s1)
qed

section \<open>Loading a process\<close>

text \<open>
  A file of a volume: \<open>c\<close> is its name, \<open>sz\<close> its size, \<open>ct\<close> are the contents that the driver finds for
  it. It is there for the kernel if the volume is mounted, the path is a string in memory and a
  descriptor is free.
\<close>

definition volume_file :: "(nat \<Rightarrow> byte) \<Rightarrow> nat \<Rightarrow> byte list \<Rightarrow> (nat \<Rightarrow> byte) \<Rightarrow> u32 \<Rightarrow> bool" where
  "volume_file img n c ct sz \<longleftrightarrow> plain_root img n \<and> matches img n c \<noteq> [] \<and>
     (let bs = root_entry img (last (matches img n c)) in
        bs ! 20 = 0 \<and> bs ! 21 = 0 \<and> sz = entry_size bs \<and> 0 < sz \<and> unat sz < 2 ^ 31 \<and>
        fat_readable img (entry_cluster bs) 0 (unat sz) \<and>
        (\<forall>k < unat sz. ct k = driver_content img (entry_cluster bs) k))"

text \<open>
  A file in one cluster (64 KiB on the volume that \<^verbatim>\<open>boot.asm\<close> describes), with its contents by the
  format of the file system: the driver finds just these.
\<close>

definition one_cluster_file :: "(nat \<Rightarrow> byte) \<Rightarrow> nat \<Rightarrow> byte list \<Rightarrow> (nat \<Rightarrow> byte) \<Rightarrow> u32 \<Rightarrow> bool" where
  "one_cluster_file img n c ct sz \<longleftrightarrow> plain_root img n \<and> matches img n c \<noteq> [] \<and>
     (let bs = root_entry img (last (matches img n c)) in
        bs ! 20 = 0 \<and> bs ! 21 = 0 \<and> sz = entry_size bs \<and> 0 < sz \<and> unat sz \<le> cluster_size img \<and>
        2 \<le> entry_cluster bs \<and> cluster_pos img (entry_cluster bs) + 2 * cluster_size img < 2 ^ 31 \<and>
        ct = file_content img (entry_cluster bs))"

lemma one_cluster_volume_file:
  assumes "one_cluster_file img n c ct sz"
  shows "volume_file img n c ct sz"
proof -
  define bs where "bs = root_entry img (last (matches img n c))"
  have f: "plain_root img n" "matches img n c \<noteq> []" "bs ! 20 = 0" "bs ! 21 = 0" "sz = entry_size bs" "0 < sz"
    "unat sz \<le> cluster_size img" "2 \<le> entry_cluster bs"
    "cluster_pos img (entry_cluster bs) + 2 * cluster_size img < 2 ^ 31" "ct = file_content img (entry_cluster bs)"
    using assms by (auto simp: one_cluster_file_def Let_def bs_def)
  have z: "0 < unat sz" using f(6) by (simp add: word_less_nat_alt)
  then have "(unat sz - 1) div cluster_size img = 0" using f(7) by (intro div_less) linarith
  then have "fat_readable img (entry_cluster bs) 0 (unat sz)" using f z by (simp add: fat_readable_def)
  moreover have "unat sz < 2 ^ 31" by (rule le_less_trans [OF f(7) cluster_size_less])
  moreover have "\<forall>k < unat sz. ct k = driver_content img (entry_cluster bs) k"
    using first_cluster_content [of _ img "entry_cluster bs"] f(7,10) by simp
  ultimately show ?thesis using f(1-6) by (simp add: volume_file_def Let_def bs_def)
qed

definition file_on_volume ::
    "(nat \<Rightarrow> byte) \<Rightarrow> nat \<Rightarrow> byte list \<Rightarrow> addr \<Rightarrow> (nat \<Rightarrow> byte) \<Rightarrow> u32 \<Rightarrow> 'a procs_scheme \<Rightarrow> bool" where
  "file_on_volume img n c filename ct sz s \<longleftrightarrow> fat_mounted img n s \<and> volume_file img n c ct sz \<and> path_to c filename s \<and>
     heap_pages (kernel_heap s) \<subseteq> {..<2 ^ 19} \<and> mem s (literal_addr s lit_r) = 0x72 \<and>
     \<not> free_page (kernel_heap s) (page_of (literal_addr s lit_r)) \<and>
     length (file_descriptors s) = 512 \<and> (\<exists>i < 511. first_free (\<lambda>p. p = 0) 0 (file_descriptors s) = Some i)"

text \<open>The free blocks that \<open>process_load\<close> needs: for the process, the file, the stack and the task.\<close>

definition load_room :: "(nat \<Rightarrow> byte) \<Rightarrow> nat \<Rightarrow> byte list \<Rightarrow> u32 \<Rightarrow> nat" where
  "load_room img n c sz = 1040 + 2 * length (matches img n c) + blocks_for sz"

lemma file_on_volume_grows:
  fixes s :: "'a procs_scheme"
  assumes "file_on_volume img n c filename ct sz s" "grows s s'" "s' = s\<lparr>mem := m, kernel_heap := h\<rparr>"
  shows "file_on_volume img n c filename ct sz s'"
proof -
  note v = assms(1) [unfolded file_on_volume_def] and g = assms(2) [unfolded grows_def]
  have "fat_mounted img n s'"
    by (rule fat_mounted_grows [of img n s]) (use v g assms(3) in \<open>auto simp: free_page_def\<close>)
  moreover have "path_to c filename s'" using v path_ok_grows [OF _ assms(2)] by (auto simp: path_to_def)
  moreover have "mem s' (literal_addr s' lit_r) = 0x72" "\<not> free_page (kernel_heap s') (page_of (literal_addr s' lit_r))"
    using v g assms(3) by (auto simp: free_page_def)
  ultimately show ?thesis using v g assms(3) by (simp add: file_on_volume_def)
qed

lemma file_on_volume_processes [simp]:
  "file_on_volume img n c filename ct sz (s\<lparr>processes := ps\<rparr>) = file_on_volume img n c filename ct sz (s :: 'a procs_scheme)"
  by (simp add: file_on_volume_def)

lemma process_load_elf_result:
  fixes s :: "'a procs_scheme"
  assumes vol: "file_on_volume img n c filename ct sz s" and prog: "program ct (unat sz)"
    and room: "6 + 2 * length (matches img n c) + blocks_for sz \<le> tail_room s" and pr: "processes s p = Some pr"
  obtains f ef s' where "process_load_elf filename p s =
      Some (0, s'\<lparr>processes := (processes s)(p \<mapsto> pr\<lparr>filetype := PROCESS_FILETYPE_ELF, process_ptr := f\<rparr>)\<rparr>)"
    "elf_files s' = (elf_files s)(f \<mapsto> ef)" "program_in ct (unat sz) (elf_mem ef) s'" "page_aligned (elf_mem ef)" "procs_frame s s'"
    "heap_inv (kernel_heap s')" "heap_pages (kernel_heap s') = heap_pages (kernel_heap s)"
    "live_pages (kernel_heap s) \<subseteq> live_pages (kernel_heap s')"
    "tail_room s \<le> tail_room s' + (6 + 2 * length (matches img n c) + blocks_for sz)"
    "\<And>a. page_of a \<in> live_pages (kernel_heap s) \<Longrightarrow> mem s' a = mem s a"
proof -
  define bs where "bs = root_entry img (last (matches img n c))"
  obtain i where v: "fat_mounted img n s" "plain_root img n" "path_to c filename s" "heap_pages (kernel_heap s) \<subseteq> {..<2 ^ 19}"
    "mem s (literal_addr s lit_r) = 0x72" "\<not> free_page (kernel_heap s) (page_of (literal_addr s lit_r))"
    "length (file_descriptors s) = 512" "first_free (\<lambda>p. p = 0) 0 (file_descriptors s) = Some i" "i < 511"
    "matches img n c \<noteq> []" "bs ! 20 = 0" "bs ! 21 = 0" "sz = entry_size bs" "0 < entry_size bs" "unat (entry_size bs) < 2 ^ 31"
    "fat_readable img (entry_cluster bs) 0 (unat (entry_size bs))" "\<forall>k < unat sz. ct k = driver_content img (entry_cluster bs) k"
    using vol by (auto simp: file_on_volume_def volume_file_def Let_def bs_def)
  obtain f buf res ef s' where l: "elf_load filename 0 s = Some (res, if res < 0 then 0 else f, s')"
    "elf_process_loaded (mem s') (zero_elf_file\<lparr>elf_mem := buf\<rparr>) = (res, ef)"
    "elf_files s' = (elf_files s)(f \<mapsto> ef)" "procs_frame s s'" "page_aligned buf"
    "\<And>k. k < unat (entry_size bs) \<Longrightarrow> mem s' (buf + of_nat k) = driver_content img (entry_cluster bs) k"
    "heap_inv (kernel_heap s')" "heap_pages (kernel_heap s') = heap_pages (kernel_heap s)"
    "insert (f, 1) (insert (buf, blocks_for (entry_size bs)) (allocs (kernel_heap s))) \<subseteq> allocs (kernel_heap s')"
    "tail_room s \<le> tail_room s' + (6 + 2 * length (matches img n c) + blocks_for (entry_size bs))"
    "\<And>a. page_of a \<in> live_pages (kernel_heap s) \<Longrightarrow> mem s' a = mem s a"
    by (rule elf_load_result [OF v(1-10) bs_def v(11,12,14-16)], use room v(13) in simp, rule that, assumption+)
  have holds: "holds ct (unat sz) buf (mem s')" using l(6) v(13,17) by (simp add: holds_def)
  have "valid_image (mem s') buf" by (rule holds_header(1) [OF holds prog])
  then have r: "res = 0" "elf_mem ef = buf"
    using elf_process_loaded_program [of "mem s'" "zero_elf_file\<lparr>elf_mem := buf\<rparr>"] l(2) by auto
  have blk: "unat sz \<le> 4096 * blocks_for sz"
    using div_mult_mod_eq [of "unat sz + 4095" 4096] mod_less_divisor [of 4096 "unat sz + 4095"]
    by (simp add: blocks_for_def)
  have "page_of (buf + of_nat k) \<in> live_pages (kernel_heap s')" if "k < unat sz" for k
    using alloc_region(2) [OF l(7), of buf "blocks_for sz" k] l(9) v(13) blk that by auto
  then have "program_in ct (unat sz) (elf_mem ef) s'" using prog holds r(2) by (simp add: program_in_def)
  moreover have "processes s' = processes s" using l(4) by (simp add: procs_frame_def)
  ultimately show ?thesis
    using l r pr v(13) live_pages_mono [of "kernel_heap s" "kernel_heap s'"]
    by (intro that [where s' = s' and f = f and ef = ef]) (auto simp: process_load_elf_def)
qed

text \<open>What \<open>process_load\<close> achieves: a process in slot \<open>i\<close> whose task can run the program.\<close>

definition process_loaded ::
    "(nat \<Rightarrow> byte) \<Rightarrow> nat \<Rightarrow> nat \<Rightarrow> addr list \<Rightarrow> addr \<Rightarrow> 'a procs_scheme \<Rightarrow> 'a procs_scheme \<Rightarrow> bool" where
  "process_loaded ct sz i ts p s s' \<longleftrightarrow>
     (\<exists>pr ef t tk. processes s' p = Some pr \<and> process_id pr = of_nat i \<and> process_table s' = (process_table s)[i := p] \<and>
        filetype pr = PROCESS_FILETYPE_ELF \<and> allocations pr = replicate 1024 \<lparr>alloc_ptr = 0, alloc_size = 0\<rparr> \<and>
        process_task pr = t \<and> t \<notin> set ts \<and> wf_task_list s' (ts @ [t]) \<and> tasks s' t = Some tk \<and>
        elf_files s' (process_ptr pr) = Some ef \<and> page_aligned (elf_mem ef) \<and> program_in ct sz (elf_mem ef) s' \<and>
        loaded_task ct (elf_mem ef) (stack pr) p tk (mem s') \<and>
        (\<forall>k < 16384. mem s' (stack pr + of_nat k) = 0) \<and>
        current_task s' = (if ts = [] then t else current_task s)) \<and>
     (\<forall>a. page_of a \<in> live_pages (kernel_heap s) \<longrightarrow> mem s' a = mem s a) \<and>
     (\<forall>q. q \<noteq> p \<longrightarrow> processes s' q = processes s q) \<and> heap_inv (kernel_heap s')"

lemma process_loaded_current [simp]:
  "process_loaded ct sz i ts p s (s'\<lparr>current_process := q\<rparr>) = process_loaded ct sz i ts p s (s' :: 'a procs_scheme)"
  by (simp add: process_loaded_def program_in_def wf_task_list_def task_list_def)

lemma process_load_result:
  fixes s :: "'a procs_scheme"
  assumes vol: "file_on_volume img n c filename ct sz s" and prog: "program ct (unat sz)"
    and room: "load_room img n c sz \<le> tail_room s"
    and slot: "length (process_table s) = 12" "i < 12" "process_table s ! i = 0" "\<And>j. j < i \<Longrightarrow> process_table s ! j \<noteq> 0"
    and ts: "wf_task_list s ts" "\<And>t. t \<in> set ts \<Longrightarrow> page_of t \<in> live_pages (kernel_heap s)"
  obtains p s' where "process_load filename out s = Some (0, p, s')" "p \<noteq> 0" "page_of p \<notin> live_pages (kernel_heap s)"
    "process_loaded ct (unat sz) i ts p s s'" "current_process s' = current_process s"
proof -
  have hi: "heap_inv (kernel_heap s)" using vol fat_mounted_heap by (auto simp: file_on_volume_def)
  have b3: "blocks_for (9364 :: u32) = 3" by (simp add: blocks_for_def)
  have sz3: "0 < (9364 :: u32)" "unat (9364 :: u32) \<le> 2 ^ 32 - 4096" "blocks_for (9364 :: u32) \<le> tail_room s"
    using room b3 by (auto simp: load_room_def)
  obtain p s1 where z: "kernel_zalloc 9364 s = Some (p, s1)" "p \<noteq> 0" "grows s s1"
    "tail_room s \<le> tail_room s1 + blocks_for 9364"
    "\<And>i. i < 4096 * blocks_for 9364 \<Longrightarrow> page_of (p + of_nat i) = page_of p + i div 4096 \<and>
      free_page (kernel_heap s) (page_of (p + of_nat i)) \<and> page_of (p + of_nat i) \<in> live_pages (kernel_heap s1)"
    by (rule kernel_zalloc_tail [OF hi sz3]) (rule that, assumption+)
  obtain m1 h1 where s1: "s1 = s\<lparr>mem := m1, kernel_heap := h1\<rparr>" using kernel_zalloc_shape [OF z(1)] by blast
  have g: "live_pages (kernel_heap s) \<subseteq> live_pages (kernel_heap s1)" "heap_pages (kernel_heap s1) = heap_pages (kernel_heap s)"
    "\<And>a. page_of a \<in> live_pages (kernel_heap s) \<Longrightarrow> mem s1 a = mem s a"
    using z(3) by (auto simp: grows_def free_page_def)
  define s2 where "s2 = process_init p s1"
  have vol2: "file_on_volume img n c filename ct sz s2"
    using file_on_volume_grows [OF vol z(3) s1] by (simp add: s2_def process_init_def)
  have tr2: "tail_room s2 = tail_room s1" by (simp add: s2_def process_init_def tail_room_def)
  have p2: "processes s2 = (processes s)(p \<mapsto> zero_process)" by (simp add: s2_def process_init_def s1)
  have room2: "6 + 2 * length (matches img n c) + blocks_for sz \<le> tail_room s2"
    using room z(4) b3 tr2 by (simp add: load_room_def)
  define pr where "pr f = zero_process\<lparr>filetype := PROCESS_FILETYPE_ELF, process_ptr := f\<rparr>" for f
  obtain f ef s3 where l: "process_load_elf filename p s2 = Some (0, s3\<lparr>processes := (processes s2)(p \<mapsto> pr f)\<rparr>)"
    "elf_files s3 = (elf_files s2)(f \<mapsto> ef)" "program_in ct (unat sz) (elf_mem ef) s3" "page_aligned (elf_mem ef)" "procs_frame s2 s3"
    "heap_inv (kernel_heap s3)" "heap_pages (kernel_heap s3) = heap_pages (kernel_heap s2)"
    "live_pages (kernel_heap s2) \<subseteq> live_pages (kernel_heap s3)"
    "tail_room s2 \<le> tail_room s3 + (6 + 2 * length (matches img n c) + blocks_for sz)"
    "\<And>a. page_of a \<in> live_pages (kernel_heap s2) \<Longrightarrow> mem s3 a = mem s2 a"
    by (rule process_load_elf_result [OF vol2 prog room2, of p zero_process]) (use p2 in \<open>auto simp: pr_def\<close>)
  note fr = l(5) [unfolded procs_frame_def]
  have s2f: "kernel_heap s2 = kernel_heap s1" "mem s2 = mem s1" "tasks s2 = tasks s" "task_head s2 = task_head s"
    "task_tail s2 = task_tail s" "current_task s2 = current_task s" "process_table s2 = process_table s"
    "current_process s2 = current_process s"
    by (simp_all add: s2_def process_init_def s1)
  define s4 where "s4 = s3\<lparr>processes := (processes s2)(p \<mapsto> pr f)\<rparr>"
  have hp4: "heap_inv (kernel_heap s4)" "heap_pages (kernel_heap s4) \<subseteq> {..<2 ^ 19}" "1031 \<le> tail_room s4"
    using l(6,7,9) g(2) s2f(1) vol room z(4) b3 tr2 by (simp_all add: s4_def file_on_volume_def load_room_def)
  have wf4: "wf_task_list s4 ts" using ts(1) fr s2f by (simp add: wf_task_list_def task_list_def s4_def)
  have live4: "\<And>t. t \<in> set ts \<Longrightarrow> page_of t \<in> live_pages (kernel_heap s4)"
    using ts(2) g(1) l(8) s2f(1) by (auto simp: s4_def)
  have p4: "processes s4 p = Some (pr f)" "elf_files s4 (process_ptr (pr f)) = Some ef" "filetype (pr f) = 0"
    using l(2) by (simp_all add: s4_def pr_def)
  have prog4: "program_in ct (unat sz) (elf_mem ef) s4" using l(3) by (simp add: program_in_def s4_def)
  obtain t st tk fn s5 where t: "process_load_task filename p (int i) out s4 = Some (0, p, s5)"
    "processes s5 = (processes s4)(p \<mapsto> (pr f)\<lparr>process_filename := fn, stack := st, process_id := of_nat i, process_task := t\<rparr>)"
    "process_table s5 = (process_table s4)[i := p]" "t \<notin> set ts" "wf_task_list s5 (ts @ [t])" "tasks s5 t = Some tk"
    "loaded_task ct (elf_mem ef) st p tk (mem s5)" "program_in ct (unat sz) (elf_mem ef) s5" "elf_files s5 = elf_files s4"
    "current_task s5 = (if ts = [] then t else current_task s4)" "current_process s5 = current_process s4"
    "heap_inv (kernel_heap s5)" "\<And>k. k < 16384 \<Longrightarrow> mem s5 (st + of_nat k) = 0"
    "\<And>a. page_of a \<in> live_pages (kernel_heap s4) \<Longrightarrow> mem s5 a = mem s4 a"
    by (rule process_load_task_result [OF hp4 wf4 _ p4 prog4, where i = i and filename = filename and out = out],
      erule live4, rule that, assumption+)
  have keep: "mem s5 a = mem s a" if "page_of a \<in> live_pages (kernel_heap s)" for a
  proof -
    have "page_of a \<in> live_pages (kernel_heap s2)" "page_of a \<in> live_pages (kernel_heap s4)"
      using g(1) l(8) that s2f(1) by (auto simp: s4_def)
    then have "mem s5 a = mem s4 a" "mem s3 a = mem s2 a" using t(14) l(10) by blast+
    then show ?thesis using g(3) [OF that] s2f(2) by (simp add: s4_def)
  qed
  have "process_get_free_slot s = int i" "process_get (int i) s = 0"
    using first_index_found [of i "process_table s" "\<lambda>p. p = 0" 0] slot by (simp_all add: process_get_free_slot_def process_get_def)
  then have "process_load filename out s = Some (0, p, s5)"
    using z(1,2) l(1) t(1,2) by (simp add: process_load_def process_load_for_slot_def process_load_data_def s4_def flip: s2_def)
  moreover have "process_loaded ct (unat sz) i ts p s s5"
    unfolding process_loaded_def
    using t keep p2 p4 fr s2f l(4) by (auto simp: s4_def pr_def zero_process_def)
  moreover have "current_process s5 = current_process s" using t(11) fr s2f by (simp add: s4_def)
  moreover have "page_of p \<notin> live_pages (kernel_heap s)" using z(5) [of 0] b3 by (simp add: free_page_def)
  ultimately show ?thesis using z(2) that by blast
qed

section \<open>What the task sees\<close>

definition in_range :: "range \<Rightarrow> addr \<Rightarrow> bool" where
  "in_range r w \<longleftrightarrow> (case r of (va, pa, e) \<Rightarrow> unat (w - va) < unat (e - pa))"

text \<open>A range with its physical side moved.\<close>

definition shift_range :: "addr \<Rightarrow> range \<Rightarrow> range" where
  "shift_range b r = (case r of (va, pa, e) \<Rightarrow> (va, b + pa, b + e))"

lemma in_range_shift [simp]: "in_range (shift_range b r) w = in_range r w"
  by (cases r) (simp add: in_range_def shift_range_def)

lemma overlay_outside: "\<forall>r \<in> set rs. \<not> in_range r w \<Longrightarrow> overlay rs tr w = tr w"
  by (induction rs rule: rev_induct) (auto simp: over_def in_range_def split: prod.splits)

lemma overlay_nth:
  assumes "j < length rs" "rs ! j = (va, pa, e)" "in_range (va, pa, e) w"
    "\<And>i. j < i \<Longrightarrow> i < length rs \<Longrightarrow> \<not> in_range (rs ! i) w"
  shows "overlay rs tr w = pa + (w - va)"
proof -
  have "rs = take j rs @ (va, pa, e) # drop (Suc j) rs" using assms(1,2) id_take_nth_drop by metis
  then have "overlay rs tr = overlay (drop (Suc j) rs) (over (va, pa, e) (overlay (take j rs) tr))"
    by (metis foldl_append foldl_Cons overlay_def)
  moreover have "\<forall>r \<in> set (drop (Suc j) rs). \<not> in_range r w"
    unfolding all_set_conv_all_nth using assms(4) by simp
  ultimately show ?thesis using overlay_outside assms(3) by (simp add: over_def in_range_def)
qed

lemma aligned_add_mod:
  assumes "page_aligned b"
  shows "(b + x) mod 4096 = (x :: addr) mod 4096"
proof -
  have "unat (b + x) mod 4096 = (unat b + unat x) mod 4096"
    unfolding unat_word_ariths by (rule mod_mod_cancel) simp
  also have "\<dots> = unat x mod 4096" using assms by (simp add: page_aligned_def mod_add_left_eq [of "unat b", symmetric])
  finally show ?thesis by (simp add: word_unat_eq_iff unat_mod_distrib)
qed

lemma aligned_shift:
  assumes "page_aligned b"
  shows "paging_align_to_lower_page (b + x) = b + paging_align_to_lower_page x"
    "paging_align_address (b + x) = b + paging_align_address x"
  using aligned_add_mod [OF assms, of x] by (simp_all add: paging_align_to_lower_page_def paging_align_address_def)

lemma program_segments_nth:
  assumes "page_aligned buf" "j < program_headers ct"
  shows "program_segments ct buf ! j = shift_range buf (program_segments ct 0 ! j)"
  using assms by (simp add: program_segments_def segments_def segment_def shift_range_def elf_phdr_phys_address_def
      elf_memory_def aligned_shift add.assoc)

lemma loaded_task_reads:
  fixes ct :: "nat \<Rightarrow> byte"
  defines "h j \<equiv> program_header ct j" and "I \<equiv> file_image ct"
  assumes "loaded_task ct buf st p tk m" "page_aligned buf" "program ct sz" "holds ct sz buf m"
    "j < program_headers ct" "p_vaddr I (h j) mod 4096 = p_offset I (h j) mod 4096"
    "k < unat (p_memsz I (h j))" "unat (p_offset I (h j)) + k < sz"
    "\<And>i. j < i \<Longrightarrow> i < program_headers ct \<Longrightarrow> \<not> in_range (program_segments ct 0 ! i) (p_vaddr I (h j) + of_nat k)"
    "\<not> in_range (stack_range 0) (p_vaddr I (h j) + of_nat k)"
  shows "m (translate tk m (p_vaddr I (h j) + of_nat k)) = ct (unat (p_offset I (h j)) + k)"
proof -
  let ?v = "p_vaddr I (h j)" and ?o = "p_offset I (h j)" and ?n = "p_memsz I (h j)"
  let ?w = "?v + of_nat k"
  let ?va = "paging_align_to_lower_page ?v" and ?pa = "paging_align_to_lower_page ?o" and ?e = "paging_align_address (?o + ?n)"
  have seg: "program_segments ct 0 ! j = (?va, ?pa, ?e)"
    using assms(7) by (simp add: program_segments_def segments_def segment_def elf_phdr_phys_address_def elf_memory_def
        program_header_def I_def h_def)
  have len: "length (program_segments ct buf) = program_headers ct" by (simp add: program_segments_def segments_def)
  have on: "unat ?o + unat ?n < 2 ^ 31 - 4096" using assms(5,7) by (simp add: program_def I_def h_def)
  have o2: "unat (?o + ?n) = unat ?o + unat ?n" using unat_add_of_nat [of ?o "unat ?n"] on by simp
  have le: "?pa \<le> ?o" "?o \<le> ?o + ?n" "?o + ?n \<le> ?e"
    using lower_page_le [of ?o] align_address_le [of "?o + ?n"] on o2 by (auto simp: word_le_nat_alt)
  have off: "?w - ?va = ?o - ?pa + of_nat k"
    using assms(8) by (simp add: paging_align_to_lower_page_def)
  have rest: "unat (?o - ?pa) = unat ?o - unat ?pa" "unat ?pa \<le> unat ?o" using le(1) by (simp_all add: unat_sub word_le_nat_alt)
  have "unat (?w - ?va) = unat ?o - unat ?pa + k"
    unfolding off using rest on assms(9) by (subst unat_add_of_nat) auto
  moreover have "unat (?e - ?pa) = unat ?e - unat ?pa" using le by (intro unat_sub) (metis order_trans)
  moreover have "unat ?o + unat ?n \<le> unat ?e" using le(3) o2 by (simp add: word_le_nat_alt)
  ultimately have inr: "in_range (?va, ?pa, ?e) ?w"
    using assms(9) rest(2) by (simp add: in_range_def)
  let ?rs = "program_segments ct buf @ [stack_range st]"
  have nth: "?rs ! i = (if i < program_headers ct then shift_range buf (program_segments ct 0 ! i) else stack_range st)"
    if "i < length ?rs" for i
    using that program_segments_nth [OF assms(4)] len by (simp add: nth_append)
  have st: "stack_range st = shift_range st (stack_range 0)" by (simp add: stack_range_def shift_range_def)
  have "overlay ?rs (\<lambda>v. v) ?w = (buf + ?pa) + (?w - ?va)"
  proof (rule overlay_nth [where j = j and e = "buf + ?e"])
    show "j < length ?rs" "?rs ! j = (?va, buf + ?pa, buf + ?e)"
      using nth [of j] assms(7) len seg by (simp_all add: shift_range_def)
    show "in_range (?va, buf + ?pa, buf + ?e) ?w" using inr by (simp add: in_range_def)
    show "\<not> in_range (?rs ! i) ?w" if "j < i" "i < length ?rs" for i
      using nth [OF that(2)] assms(11) [OF that(1)] assms(12) st by simp
  qed
  also have "\<dots> = buf + (?o + of_nat k)" unfolding off by simp
  finally have tr: "translate tk m ?w = buf + (?o + of_nat k)" using assms(3) by (simp add: loaded_task_def)
  have "sz < 2 ^ 31" using assms(5) by (simp add: program_def)
  then have u: "unat (?o + of_nat k) = unat ?o + k" using assms(10) by (intro unat_add_of_nat) simp
  have "m (buf + (?o + of_nat k)) = file_image ct (?o + of_nat k)"
    by (rule holds_byte [OF assms(6)]) (use u assms(10) in simp)
  then show ?thesis using tr u by (simp add: file_image_def)
qed

text \<open>
  What a program reads at an address: the byte that its page tables lead to, if they let it.
\<close>

definition user_byte :: "task \<Rightarrow> memory \<Rightarrow> addr \<Rightarrow> byte option" where
  "user_byte tk m v =
     (if user_access (load32 m (page_directory tk)) v m then Some (m (translate tk m v)) else None)"

text \<open>
  A program whose segments do not disturb each other: what the file has for a segment lies within
  the file and within the segment, at the same place of its page in the file and in memory, and
  neither the pages of a later segment nor the stack lie over it.
\<close>

definition program_placed :: "(nat \<Rightarrow> byte) \<Rightarrow> nat \<Rightarrow> bool" where
  "program_placed ct sz \<longleftrightarrow> (\<forall>j < program_headers ct.
     let h = program_header ct j; v = p_vaddr (file_image ct) h; o' = p_offset (file_image ct) h;
         n = unat (p_filesz (file_image ct) h)
     in v mod 4096 = o' mod 4096 \<and> n \<le> unat (p_memsz (file_image ct) h) \<and> unat o' + n \<le> sz \<and>
        (\<forall>k < n. \<not> in_range (stack_range 0) (v + of_nat k) \<and>
           (\<forall>i < program_headers ct. j < i \<longrightarrow> \<not> in_range (program_segments ct 0 ! i) (v + of_nat k))))"

text \<open>
  Every byte that the file has for a segment (\<open>p_filesz\<close> of them) is what the program reads at its
  virtual address. Nothing is said of the bytes up to \<open>p_memsz\<close>, which the loader does not clear.
\<close>

definition program_visible :: "(nat \<Rightarrow> byte) \<Rightarrow> task \<Rightarrow> memory \<Rightarrow> bool" where
  "program_visible ct tk m \<longleftrightarrow> (\<forall>j < program_headers ct.
     let h = program_header ct j in \<forall>k < unat (p_filesz (file_image ct) h).
       user_byte tk m (p_vaddr (file_image ct) h + of_nat k) = Some (ct (unat (p_offset (file_image ct) h) + k)))"

lemma loaded_program_visible:
  assumes "loaded_task ct buf st p tk m" "page_aligned buf" "program ct sz" "holds ct sz buf m" "program_placed ct sz"
  shows "program_visible ct tk m"
  unfolding program_visible_def Let_def
proof (intro allI impI)
  fix j k
  let ?I = "file_image ct" and ?h = "program_header ct j"
  assume j: "j < program_headers ct" and k: "k < unat (p_filesz ?I ?h)"
  have pl: "p_vaddr ?I ?h mod 4096 = p_offset ?I ?h mod 4096" "k < unat (p_memsz ?I ?h)" "unat (p_offset ?I ?h) + k < sz"
    "\<not> in_range (stack_range 0) (p_vaddr ?I ?h + of_nat k)"
    "\<And>i. j < i \<Longrightarrow> i < program_headers ct \<Longrightarrow> \<not> in_range (program_segments ct 0 ! i) (p_vaddr ?I ?h + of_nat k)"
    using assms(5) j k unfolding program_placed_def Let_def by (force dest: spec [of _ j])+
  have "m (translate tk m (p_vaddr ?I ?h + of_nat k)) = ct (unat (p_offset ?I ?h) + k)"
    by (rule loaded_task_reads [OF assms(1-4) j pl(1-3,5,4)])
  moreover have "user_access (load32 m (page_directory tk)) (p_vaddr ?I ?h + of_nat k) m"
    using assms(1) unfolding loaded_task_def by (blast intro: space_grantsD(2))
  ultimately show "user_byte tk m (p_vaddr ?I ?h + of_nat k) = Some (ct (unat (p_offset ?I ?h) + k))"
    by (simp add: user_byte_def)
qed

lemma process_loaded_visible:
  assumes "process_loaded ct sz i ts p s s'" "program_placed ct sz"
  shows "\<exists>pr tk. processes s' p = Some pr \<and> tasks s' (process_task pr) = Some tk \<and> program_visible ct tk (mem s') \<and>
    ip (registers tk) = e_entry (file_image ct) 0"
proof -
  obtain pr tk and ef :: elf_file where "processes s' p = Some pr" "tasks s' (process_task pr) = Some tk" "page_aligned (elf_mem ef)"
      "program_in ct sz (elf_mem ef) s'" "loaded_task ct (elf_mem ef) (stack pr) p tk (mem s')"
    using assms(1) unfolding process_loaded_def by blast
  then show ?thesis
    using loaded_program_visible [of ct "elf_mem ef" "stack pr" p tk "mem s'" sz] assms(2)
    by (auto simp: program_in_def loaded_task_def)
qed

section \<open>Properties\<close>

text \<open>
  C6. \<open>process_map_elf\<close> lays the segments of the program headers, rounded to whole pages, over the
  address space of the task, in their order, and returns 0. At the first header whose segment
  ends before it starts it stops with \<open>-INVALID_ARGUMENT_ERROR\<close>, with the segments before it mapped.
  Memory outside the page tables does not change.
\<close>

theorem process_map_elf_overlays:
  fixes s :: "'a procs_scheme"
  assumes "processes s p = Some pr" "elf_files s (process_ptr pr) = Some f" "tasks s (process_task pr) = Some tk"
    "wf_chunk (page_directory tk) (mem s)" "headers_outside (chunk_pages (page_directory tk) (mem s)) (mem s) f"
  shows "\<exists>m. process_map_elf p s = Some (if list_all mappable (file_segments (mem s) f) then 0 else - INVALID_ARGUMENT_ERROR,
      s\<lparr>mem := m\<rparr>) \<and>
    translate tk m = overlay (takeWhile mappable (file_segments (mem s) f)) (translate tk (mem s)) \<and>
    (\<forall>a. page_of a \<in> chunk_pages (page_directory tk) (mem s) \<or> m a = mem s a)"
  by (rule process_map_elf_result [OF assms]) blast

text \<open>
  C5. \<open>process_load\<close> of a path that names an ELF program on the mounted volume, with a free slot, a
  free descriptor and enough memory: the result is 0 and a process in fresh memory, entered in
  the first free slot, with an empty table of allocations. Its task is the last one of the list
  and starts at the entry point of the file; its address space is the identity with the segments
  of the program and then the user stack laid over it; the file is in allocated memory and the
  stack holds zeroes. No other process and no memory in use has changed.
\<close>

theorem process_load_runs:
  fixes s :: "'a procs_scheme"
  assumes "file_on_volume img n c filename ct sz s" "program ct (unat sz)" "load_room img n c sz \<le> tail_room s"
    "length (process_table s) = 12" "i < 12" "process_table s ! i = 0" "\<And>j. j < i \<Longrightarrow> process_table s ! j \<noteq> 0"
    "wf_task_list s ts" "\<And>t. t \<in> set ts \<Longrightarrow> page_of t \<in> live_pages (kernel_heap s)"
  shows "\<exists>p s'. process_load filename out s = Some (0, p, s') \<and> p \<noteq> 0 \<and> page_of p \<notin> live_pages (kernel_heap s) \<and>
    process_loaded ct (unat sz) i ts p s s' \<and> current_process s' = current_process s"
proof -
  obtain p s' where "process_load filename out s = Some (0, p, s')" "p \<noteq> 0" "page_of p \<notin> live_pages (kernel_heap s)"
    "process_loaded ct (unat sz) i ts p s s'" "current_process s' = current_process s"
    by (rule process_load_result [OF assms])
  then show ?thesis by blast
qed

lemma boot_load_result:
  fixes s :: "'a procs_scheme"
  assumes "ata_drive img (device s)" "heap_inv (kernel_heap s)" "stack_ok s" "heap_pages (kernel_heap s) \<subseteq> {..<2 ^ 19}"
    "fat_image img n" "volume_file img n c ct sz" "program ct (unat sz)"
    "cstring (mem s) path (0x30 # 0x3A # 0x2F # c)" "c \<noteq> []" "0x2F \<notin> set c" "length c \<le> 104" "steady_range path (length c + 4) s"
    "mem s (literal_addr s lit_r) = 0x72" "steady s (literal_addr s lit_r)"
    "process_table s = replicate 12 0" "wf_task_list s []"
    "5 + blocks_for (root_size img) + load_room img n c sz \<le> tail_room s"
  obtains s1 s2 where "fs_init s = Some s1" "disk_search_and_init s1 = Some s2" "file_on_volume img n c path ct sz s2"
    "load_room img n c sz \<le> tail_room s2" "process_table s2 = replicate 12 0" "wf_task_list s2 []"
proof -
  obtain s1 s2 where b: "fs_init s = Some s1" "disk_search_and_init s1 = Some s2" "fat_mounted img n s2" "path_to c path s2"
    "mem s2 (literal_addr s lit_r) = 0x72" "\<not> free_page (kernel_heap s2) (page_of (literal_addr s lit_r))"
    "tail_room s \<le> tail_room s2 + 5 + blocks_for (root_size img)"
    "heap_pages (kernel_heap s2) \<subseteq> {..<2 ^ 19}" "file_descriptors s2 = replicate 512 0" "boot_frame s s2"
    by (rule boot_result [OF assms(1-5,8-14)], use assms(17) in simp, rule that)
  have f: "literal_addr s2 = literal_addr s" "process_table s2 = process_table s" "tasks s2 = tasks s"
    "task_head s2 = task_head s" "task_tail s2 = task_tail s"
    using b(10) by (auto simp: boot_frame_def)
  have "first_free (\<lambda>p. p = 0) 0 (file_descriptors s2) = Some 0" using b(9) by (simp add: numeral_eq_Suc)
  then have "file_on_volume img n c path ct sz s2"
    using b f assms(6) by (auto simp: file_on_volume_def)
  moreover have "wf_task_list s2 []" using assms(16) f by (simp add: wf_task_list_def task_list_def)
  ultimately show ?thesis using b f assms(15,17) by (intro that [of s1 s2]) auto
qed

text \<open>
  C1. From power-on to a program: on a drive with a FAT16 volume that has an ELF program of the given
  name, in one cluster and with segments that do not disturb each other, \<open>fs_init\<close>,
  \<open>disk_search_and_init\<close> and \<open>process_load_switch\<close> succeed one after the other. The new process is
  the current one, its task is the current task and starts at the entry point of the program, and
  what the program reads, through page tables that let it read, at the address of each of the
  first \<open>p_filesz\<close> bytes of a segment is the byte of the file that the program header gives it.
\<close>

theorem boot_runs_program:
  fixes s :: "'a procs_scheme"
  assumes "ata_drive img (device s)" "heap_inv (kernel_heap s)" "stack_ok s" "heap_pages (kernel_heap s) \<subseteq> {..<2 ^ 19}"
    "fat_image img n" "one_cluster_file img n c ct sz" "program ct (unat sz)" "program_placed ct (unat sz)"
    "cstring (mem s) path (0x30 # 0x3A # 0x2F # c)" "c \<noteq> []" "0x2F \<notin> set c" "length c \<le> 104" "steady_range path (length c + 4) s"
    "mem s (literal_addr s lit_r) = 0x72" "steady s (literal_addr s lit_r)"
    "process_table s = replicate 12 0" "wf_task_list s []"
    "5 + blocks_for (root_size img) + load_room img n c sz \<le> tail_room s"
  shows "\<exists>s1 s2 p s3 pr tk. fs_init s = Some s1 \<and> disk_search_and_init s1 = Some s2 \<and>
    process_load_switch path out s2 = Some (0, p, s3) \<and> current_process s3 = p \<and> processes s3 p = Some pr \<and>
    current_task s3 = process_task pr \<and> tasks s3 (process_task pr) = Some tk \<and>
    ip (registers tk) = e_entry (file_image ct) 0 \<and> program_visible ct tk (mem s3)"
proof -
  obtain s1 s2 where b: "fs_init s = Some s1" "disk_search_and_init s1 = Some s2" "file_on_volume img n c path ct sz s2"
    "load_room img n c sz \<le> tail_room s2" "process_table s2 = replicate 12 0" "wf_task_list s2 []"
    by (rule boot_load_result [OF assms(1-5) one_cluster_volume_file [OF assms(6)] assms(7,9-18)])
  have pt: "length (process_table s2) = 12" "process_table s2 ! 0 = 0" using b(5) by simp_all
  obtain p s3 where l: "process_load path out s2 = Some (0, p, s3)" "process_loaded ct (unat sz) 0 [] p s2 s3"
    by (rule process_load_result [OF b(3) assms(7) b(4) pt(1) _ pt(2) _ b(6)]) auto
  obtain pr tk where "processes s3 p = Some pr" "tasks s3 (process_task pr) = Some tk"
      "program_visible ct tk (mem s3)" "ip (registers tk) = e_entry (file_image ct) 0"
    using process_loaded_visible [OF l(2) assms(8)] by blast
  moreover from this(1) have "current_task s3 = process_task pr" using l(2) by (auto simp: process_loaded_def)
  ultimately show ?thesis using b(1,2) l(1)
    by (intro exI [of _ s1] exI [of _ s2] exI [of _ p] exI [of _ "s3\<lparr>current_process := p\<rparr>"])
      (auto simp: process_load_switch_def process_switch_def)
qed

section \<open>An example\<close>

text \<open>
  A program of 84 bytes, with one segment that maps the whole file to \<open>0x400000\<close>; a volume with this
  program as its file; and a kernel without processes whose string constant lies at \<open>0x5000\<close>.
\<close>

definition demo_program :: "byte list" where
  "demo_program = [0x7F, 0x45, 0x4C, 0x46, 1, 1] @ replicate 10 0 @ [2, 0, 3, 0, 1, 0, 0, 0, 0x10, 0, 0x40, 0] @
     [52, 0, 0, 0] @ replicate 12 0 @ [1, 0] @ replicate 6 0 @
     [1, 0, 0, 0, 0, 0, 0, 0, 0, 0, 0x40, 0, 0, 0, 0, 0, 84, 0, 0, 0, 84, 0, 0, 0, 5, 0, 0, 0] @ replicate 4 0"

definition demo_elf_volume :: "nat \<Rightarrow> byte" where
  "demo_elf_volume i = (if i = 1052 then 84 else if 1536 \<le> i \<and> i < 1620 then demo_program ! (i - 1536) else demo_volume i)"

definition demo_boot :: procs where
  "demo_boot = (let s = demo_fat demo_elf_volume \<lparr>filesystems = [], file_descriptors = [], fd_objects = Map.empty,
       elf_files = Map.empty, tasks = Map.empty, processes = Map.empty, current_task = 0, task_head = 0, task_tail = 0,
       current_process = 0, process_table = replicate 12 0, kernel_chunk = 0, literal_addr = (\<lambda>_. 0x5000)\<rparr>
     in s\<lparr>mem := (mem s)(0x5000 := 0x72)\<rparr>)"

lemma demo_elf_volume_fields:
  "vol_spc demo_elf_volume = 1" "vol_reserved demo_elf_volume = 1" "vol_entries demo_elf_volume = 16"
  "vol_root_sector demo_elf_volume = 2" "vol_data_sector demo_elf_volume = 3" "cluster_size demo_elf_volume = 512"
  "blocks_for (root_size demo_elf_volume) = 1"
proof -
  show f: "vol_spc demo_elf_volume = 1" "vol_reserved demo_elf_volume = 1" "vol_entries demo_elf_volume = 16"
    "vol_root_sector demo_elf_volume = 2"
    by (simp_all add: vol_spc_def vol_reserved_def vol_entries_def vol_root_sector_def img16_def demo_elf_volume_def
        demo_volume_def)
  then show "vol_data_sector demo_elf_volume = 3" "cluster_size demo_elf_volume = 512"
    by (simp_all add: vol_data_sector_def cluster_size_def)
  have "unat (root_size demo_elf_volume) = 512" using f by (simp add: root_size(1))
  then show "blocks_for (root_size demo_elf_volume) = 1" by (simp add: blocks_for_def)
qed

lemma demo_elf_volume_image: "fat_image demo_elf_volume 1"
  unfolding fat_image_def demo_elf_volume_fields by (simp add: demo_elf_volume_def demo_volume_def)

lemma demo_elf_entry:
  "root_entry demo_elf_volume 0 = [65, 32, 32, 32, 32, 32, 32, 32, 84, 88, 84, 32, 0, 0, 0, 0,
     0, 0, 0, 0, 0, 0, 0, 0, 0, 0, 2, 0, 84, 0, 0, 0]"
  by (simp add: root_entry_def demo_elf_volume_fields upt_rec demo_elf_volume_def demo_volume_def)

definition demo_contents :: "nat \<Rightarrow> byte" where "demo_contents = file_content demo_elf_volume 2"

lemma demo_contents: "k < 84 \<Longrightarrow> demo_contents k = demo_program ! k"
  by (simp add: demo_contents_def file_content_def demo_elf_volume_fields cluster_pos_def demo_elf_volume_def)

lemma demo_elf_cluster_file: "one_cluster_file demo_elf_volume 1 [65, 46, 84, 88, 84] demo_contents 84"
proof -
  have m: "matches demo_elf_volume (Suc 0) [65, 46, 84, 88, 84] = [0]"
    by (simp add: matches_def demo_elf_entry file_name_def entry_name_def entry_base_def entry_ext_def name_stop_def same_name_def)
  have r: "replicate 7 (32 :: byte) = [32, 32, 32, 32, 32, 32, 32]" by (simp add: numeral_eq_Suc)
  have "plain_entry (root_entry demo_elf_volume 0)"
    by (simp add: demo_elf_entry plain_entry_def entry_base_def entry_ext_def name_stop_def r)
  then have "plain_root demo_elf_volume 1"
    by (simp add: plain_root_def demo_elf_volume_fields demo_elf_volume_def demo_volume_def)
  moreover have "entry_size (root_entry demo_elf_volume 0) = 84" "entry_cluster (root_entry demo_elf_volume 0) = 2"
    by (simp_all add: demo_elf_entry entry_size_def entry_cluster_def load32_def)
  ultimately show ?thesis
    by (simp add: one_cluster_file_def m demo_elf_entry demo_contents_def demo_elf_volume_fields cluster_pos_def)
qed

lemmas demo_elf_file = one_cluster_volume_file [OF demo_elf_cluster_file]

lemmas demo_program_eval = file_image_def demo_contents demo_program_def nth_append nth_Cons' load16_def load32_def

lemma demo_program_fields:
  "program_headers demo_contents = 1" "program_header demo_contents 0 = 52" "e_entry (file_image demo_contents) 0 = 0x400010"
  "e_phoff (file_image demo_contents) 0 = 52" "p_vaddr (file_image demo_contents) 52 = 0x400000"
  "p_offset (file_image demo_contents) 52 = 0" "p_memsz (file_image demo_contents) 52 = 84"
  "p_filesz (file_image demo_contents) 52 = 84"
  by (simp_all add: program_headers_def program_header_def e_entry_def e_phoff_def e_phnum_def p_vaddr_def p_offset_def
      p_memsz_def p_filesz_def demo_program_eval)

lemma demo_program_ok: "program demo_contents 84"
proof -
  have "valid_image (file_image demo_contents) 0"
    by (simp add: valid_image_def mem_bytes_def upt_rec demo_program_eval)
  then show ?thesis by (simp add: program_def demo_program_fields)
qed

lemma demo_program_placed: "program_placed demo_contents 84"
proof -
  have "\<not> in_range (stack_range 0) (0x400000 + of_nat k)" if "k < 84" for k
    using that unat_diff_of_nat_index [of "k + 0x5000" "0x3FB000"]
    by (simp add: in_range_def stack_range_def)
  then show ?thesis by (simp add: program_placed_def demo_program_fields)
qed

lemma demo_boot_facts:
  "ata_drive demo_elf_volume (device demo_boot)" "heap_inv (kernel_heap demo_boot)" "stack_ok demo_boot"
  "tail_room demo_boot = 25599" "heap_pages (kernel_heap demo_boot) \<subseteq> {..<2 ^ 19}" "(0x01000000, 1) \<in> allocs (kernel_heap demo_boot)"
  using demo_fat_heap [of demo_elf_volume] demo_fat_stack [of demo_elf_volume]
  by (simp_all add: demo_boot_def Let_def stack_ok_def tail_room_def)
     (auto simp: demo_fat_def heap_pages_def total_def page_of_def)

lemma demo_boot_strings:
  "cstring (mem demo_boot) 0x01000000 (0x30 # 0x3A # 0x2F # [65, 46, 84, 88, 84])" "mem demo_boot 0x5000 = 0x72"
  "steady demo_boot 0x5000" "steady_range 0x01000000 9 demo_boot"
proof -
  show "cstring (mem demo_boot) 0x01000000 (0x30 # 0x3A # 0x2F # [65, 46, 84, 88, 84])" "mem demo_boot 0x5000 = 0x72"
    by (simp_all add: demo_boot_def Let_def demo_fat_def write_bytes_def)
  show "steady demo_boot 0x5000"
    by (simp add: steady_def off_stack_def demo_boot_def demo_fat_def heap_pages_def page_of_def)
  show "steady_range 0x01000000 9 demo_boot"
    using alloc_region(2) [OF demo_boot_facts(2,6)] by (simp add: steady_range_def steady_def)
qed

lemma demo_boot_fields: "process_table demo_boot = replicate 12 0" "wf_task_list demo_boot []" "literal_addr demo_boot a = 0x5000"
  by (simp_all add: demo_boot_def Let_def demo_fat_def wf_task_list_def task_list_def)

lemma demo_load_room: "load_room demo_elf_volume 1 [65, 46, 84, 88, 84] 84 = 1043"
proof -
  have "matches demo_elf_volume 1 [65, 46, 84, 88, 84] = [0]"
    by (simp add: matches_def demo_elf_entry file_name_def entry_name_def entry_base_def entry_ext_def name_stop_def same_name_def)
  then show ?thesis by (simp add: load_room_def blocks_for_def)
qed

lemmas demo_boot_assms = demo_boot_facts(1-3,5) demo_elf_volume_image demo_elf_file

theorem boot_runs_program_witness:
  "\<exists>s1 s2 p s3 pr tk. fs_init demo_boot = Some s1 \<and> disk_search_and_init s1 = Some s2 \<and>
     process_load_switch 0x01000000 0 s2 = Some (0, p, s3) \<and> processes s3 p = Some pr \<and>
     current_task s3 = process_task pr \<and> tasks s3 (process_task pr) = Some tk \<and>
     ip (registers tk) = 0x400010 \<and> user_byte tk (mem s3) 0x400001 = Some 0x45"
proof -
  have "\<exists>s1 s2 p s3 pr tk. fs_init demo_boot = Some s1 \<and> disk_search_and_init s1 = Some s2 \<and>
    process_load_switch 0x01000000 0 s2 = Some (0, p, s3) \<and> current_process s3 = p \<and> processes s3 p = Some pr \<and>
    current_task s3 = process_task pr \<and> tasks s3 (process_task pr) = Some tk \<and>
    ip (registers tk) = e_entry (file_image demo_contents) 0 \<and> program_visible demo_contents tk (mem s3)"
    by (rule boot_runs_program [OF demo_boot_facts(1-3,5) demo_elf_volume_image demo_elf_cluster_file _ _ demo_boot_strings(1)])
       (use demo_program_placed demo_boot_strings demo_boot_fields demo_boot_facts(4) demo_program_ok demo_load_room demo_elf_volume_fields(7) in simp_all)
  moreover have "user_byte tk (mem s) 0x400001 = Some 0x45" if "program_visible demo_contents tk (mem s)" for s :: procs and tk
  proof -
    have "user_byte tk (mem s) (0x400000 + of_nat 1) = Some (demo_contents 1)"
      using that unfolding program_visible_def Let_def
      by (auto simp: demo_program_fields dest!: spec [of _ 1])
    then show ?thesis by (simp add: demo_contents demo_program_def)
  qed
  ultimately show ?thesis by (auto simp: demo_program_fields)
qed

theorem process_load_runs_witness:
  "\<exists>s p s'. process_load 0x01000000 0 (s :: procs) = Some (0, p, s') \<and> process_loaded demo_contents 84 0 [] p s s'"
proof -
  obtain s1 s2 where "file_on_volume demo_elf_volume 1 [65, 46, 84, 88, 84] 0x01000000 demo_contents 84 s2"
    "load_room demo_elf_volume 1 [65, 46, 84, 88, 84] 84 \<le> tail_room s2" "process_table s2 = replicate 12 0" "wf_task_list (s2 :: procs) []"
    by (rule boot_load_result [OF demo_boot_assms _ demo_boot_strings(1)])
       (use demo_boot_strings demo_boot_fields demo_boot_facts(4) demo_program_ok demo_load_room demo_elf_volume_fields(7) in simp_all)
  then show ?thesis
    using process_load_runs [of demo_elf_volume 1 "[65, 46, 84, 88, 84]" "0x01000000" demo_contents 84 s2 0 "[]" 0] demo_program_ok
    by auto
qed

text \<open>The same program in the kernel at \<open>0x2000\<close>, with a task whose address space is the identity.\<close>

definition loaded_procs :: "memory \<Rightarrow> heap \<Rightarrow> task \<Rightarrow> procs" where
  "loaded_procs m h tk = demo_procs\<lparr>mem := write_bytes 0x2000 demo_program m, kernel_heap := h,
     elf_files := [0x6000 \<mapsto> demo_file], tasks := [0x300 \<mapsto> tk],
     processes := [0x3000 \<mapsto> demo_process\<lparr>process_task := 0x300, process_ptr := 0x6000, filetype := 0\<rparr>]\<rparr>"

theorem process_map_elf_overlays_witness:
  "\<exists>m h tk m'. paging_new_4gb 5 demo_procs = Some (page_directory tk, demo_procs\<lparr>mem := m, kernel_heap := h\<rparr>) \<and>
     process_map_elf 0x3000 (loaded_procs m h tk) = Some (0, (loaded_procs m h tk)\<lparr>mem := m'\<rparr>) \<and>
     translate tk m' 0x400010 = 0x2010 \<and> translate tk m' 0x500000 = 0x500000"
proof -
  have hp: "heap_pages (kernel_heap demo_procs) = {4096..<29696}"
    by (simp add: heap_pages_def demo_procs_def page_of_def total_def)
  obtain chunk m h where new: "paging_new_4gb 5 demo_procs = Some (chunk, demo_procs\<lparr>mem := m, kernel_heap := h\<rparr>)"
    "\<And>u tk. kernel_heap u = h \<Longrightarrow> kernel_chunk u = kernel_chunk demo_procs \<Longrightarrow> page_directory tk = chunk \<Longrightarrow>
      (\<And>a. page_of a \<in> heap_pages (kernel_heap demo_procs) \<Longrightarrow> mem u a = m a) \<Longrightarrow>
      task_space (u :: procs) tk \<and>
      (\<forall>v. translate tk (mem u) v = v \<and> kernel_access (load32 (mem u) chunk) v (mem u)) \<and>
      chunk_pages chunk (mem u) \<subseteq> heap_pages (kernel_heap demo_procs)"
  proof (rule new_task_space [of demo_procs])
    show "heap_inv (kernel_heap demo_procs)"
      by (rule heap_inv_fresh [of _ 25600]) (simp_all add: demo_procs_def page_aligned_def)
  qed (simp_all add: hp, simp_all add: demo_procs_def free_blocks_def word_aligned_def page_of_def)
  define tk where "tk = zero_task\<lparr>page_directory := chunk\<rparr>"
  define u where "u = loaded_procs m h tk"
  have len: "length demo_program = 84" by (simp add: demo_program_def)
  have low: "page_of (0x2000 + of_nat k :: addr) = 2" if "k < 4096" for k
    using page_of_add [of "0x2000" k] that by (simp add: page_aligned_def page_of_def)
  have mu: "mem u a = m a" if "page_of a \<in> heap_pages (kernel_heap demo_procs)" for a
  proof -
    have "\<not> unat (a - 0x2000) < 4096" using low [of "unat (a - 0x2000)"] that hp by auto
    then show ?thesis using len by (simp add: u_def loaded_procs_def write_bytes_outside)
  qed
  have sp: "task_space u tk" "\<And>v. translate tk (mem u) v = v" "chunk_pages chunk (mem u) \<subseteq> {4096..<29696}"
    using new(2) [of u tk, OF _ _ _ mu] by (auto simp: u_def loaded_procs_def tk_def hp)
  have holds: "holds demo_contents 84 0x2000 (mem u)"
    using write_bytes_inside [of _ demo_program "0x2000" m] len by (simp add: holds_def u_def loaded_procs_def demo_contents)
  note h = holds_header [OF holds demo_program_ok]
  have f: "elf_mem demo_file = 0x2000" by (simp add: demo_file_def)
  have seg: "file_segments (mem u) demo_file = [(0x400000, 0x2000, 0x3000)]"
    using holds_segments [OF holds demo_program_ok f] h(3,4)
    by (simp add: file_segments_def f program_segments_def segments_def segment_def elf_phdr_phys_address_def elf_memory_def
        demo_program_fields paging_align_to_lower_page_def paging_align_address_def)
  have "page_of (0x2034 + of_nat k :: addr) \<notin> chunk_pages chunk (mem u)" if "k < 32" for k
    using low [of "52 + k"] that sp(3) by (auto simp: add.assoc)
  then have out: "headers_outside (chunk_pages (page_directory tk) (mem u)) (mem u) demo_file"
    using h(3,4) by (simp add: headers_outside_def f demo_program_fields tk_def)
  have "\<exists>m'. process_map_elf 0x3000 u = Some (if list_all mappable (file_segments (mem u) demo_file) then 0 else - INVALID_ARGUMENT_ERROR,
      u\<lparr>mem := m'\<rparr>) \<and>
    translate tk m' = overlay (takeWhile mappable (file_segments (mem u) demo_file)) (translate tk (mem u)) \<and>
    (\<forall>a. page_of a \<in> chunk_pages (page_directory tk) (mem u) \<or> m' a = mem u a)"
    by (rule process_map_elf_overlays [OF _ _ _ _ out])
       (use sp(1) in \<open>auto simp: u_def loaded_procs_def task_space_def\<close>)
  then obtain m' where m': "process_map_elf 0x3000 u = Some (0, u\<lparr>mem := m'\<rparr>)"
      "translate tk m' = over (0x400000, 0x2000, 0x3000) (translate tk (mem u))"
    unfolding seg by (auto simp: mappable_def)
  have "translate tk m' 0x400010 = 0x2010" "translate tk m' 0x500000 = 0x500000"
    using m'(2) sp(2) by (simp_all add: over_def)
  then show ?thesis
    using new(1) m'(1)
    by (intro exI [of _ m] exI [of _ h] exI [of _ tk] exI [of _ m']) (simp add: u_def tk_def)
qed

end
