(* ===== verification/Spec2Isabelle.thy ===== *)
theory Spec2Isabelle
  imports KernelStart UserShell ProcessLoad
begin

text \<open>
  A model of own-kernel, a small operating system for 32 bit x86 machines: a kernel (\<^verbatim>\<open>src/src/\<close>) with paging,
  preemptive tasks, a FAT16 file system and system calls, a user standard library
  (\<^verbatim>\<open>src/programs/stdlib/\<close>) and two programs.

  \<^bold>\<open>How the program is modelled.\<close> Memory is a function from 32 bit addresses to bytes; machine integers have
  their width and wrap. Structures that the hardware or the disk fixes (page tables, descriptor tables, video
  memory, directory entries, ELF headers) are bytes in memory; objects of the kernel (tasks, processes, streams,
  descriptors, path parts) are records in stores that map the addresses \<open>kernel_zalloc\<close> returned to their
  contents. The state is one record that every theory extends by its static variables: the machine, the
  terminal, the kernel heap, disks, parsed paths, the FAT16 driver, the file layer, tasks and processes,
  keyboards and interrupts, the kernel. A function of the code is a definition of the same name from arguments and state
  to result and state. The result is an \<open>option\<close>: \<open>None\<close> is a panic, a loop that never ends, an access the C
  standard leaves undefined (outside an array, through an invalid pointer), or a page fault of the kernel. Loops are
  recursive functions with a measure where they end, \<open>partial_function (option)\<close> where they may not; no fuel is
  used anywhere. Function pointers are values of a datatype with one constructor for each function they can
  hold. Local variables whose address is passed on, string constants and other statics have addresses in
  fields of the state.

  \<^bold>\<open>The theories.\<close>

  \<^item> \<open>Prelude\<close>: the status codes, byte and word memory, arithmetic of addresses.
  \<^item> \<open>Memory\<close>, \<open>Strings\<close>: \<^verbatim>\<open>memory/memory.c\<close> and \<^verbatim>\<open>string/string.c\<close>; \<open>cstring m p bs\<close> says that the string \<open>bs\<close> is
    stored at \<open>p\<close>.
  \<^item> \<open>Machine\<close>: the ports of \<^verbatim>\<open>io/io.asm\<close> over an arbitrary device.
  \<^item> \<open>Terminal\<close>: the text terminal of \<^verbatim>\<open>kernel.c\<close>.
  \<^item> \<open>Heap\<close>, \<open>KernelHeap\<close>: \<^verbatim>\<open>memory/heap/\<close>, with the interfaces \<open>block_allocator\<close> and
    \<open>zeroing_allocator\<close> that the users of the heap rely on.
  \<^item> \<open>Paging\<close>: \<^verbatim>\<open>memory/paging/\<close>, directories and tables as bytes, with the translation the processor makes;
    \<open>Access\<close>: what the flags of the entries let the kernel and a program do with a page.
  \<^item> \<open>Disk\<close>: \<^verbatim>\<open>disk/disk.c\<close> and the byte stream of \<^verbatim>\<open>disk/streamer.c\<close>.
  \<^item> \<open>PathParser\<close>: \<^verbatim>\<open>fileSystem/pathParser.c\<close>.
  \<^item> \<open>Fat16\<close>, \<open>FatVolume\<close>, \<open>FatMount\<close>, \<open>FatOpen\<close>: \<^verbatim>\<open>fileSystem/fat/fat16.c\<close>; the definitions, what a volume is,
    mounting it, and opening and reading files.
  \<^item> \<open>File\<close>: \<^verbatim>\<open>fileSystem/file.c\<close>.
  \<^item> \<open>Elf\<close>: \<^verbatim>\<open>loader/formats/\<close> except the reading of the file.
  \<^item> \<open>Task\<close>, \<open>Process\<close>, \<open>Loader\<close>: \<^verbatim>\<open>task/task.c\<close> and \<^verbatim>\<open>task/process.c\<close>; \<open>Loader\<close> has \<open>elf_load\<close> and the loading of
    programs.
  \<^item> \<open>Loading\<close>, \<open>ProcessLoad\<close>: theorems on \<open>elf_load\<close>, \<open>process_map_elf\<close> and \<open>process_load\<close>.
  \<^item> \<open>UserMemory\<close>: theorems on reading the memory of a task from the kernel.
  \<^item> \<open>Keyboard\<close>: \<^verbatim>\<open>keyboard/\<close>, the ring buffer of a process, the list of keyboards and the driver.
  \<^item> \<open>Idt\<close>, \<open>Isr80h\<close>: \<^verbatim>\<open>idt/idt.c\<close> and \<^verbatim>\<open>isr80h/\<close>, interrupts and system calls.
  \<^item> \<open>Gdt\<close>, \<open>Kernel\<close>, \<open>KernelStart\<close>: \<^verbatim>\<open>gdt/gdt.c\<close>, the task state segment and \<open>kernel_main\<close>; the theorem on what it has
    set up before it loads programs.
  \<^item> \<open>UserLib\<close>, \<open>UserShell\<close>: the user standard library over the memory of a program, the shell and \<^verbatim>\<open>blank.c\<close>; theorems
    on a turn of the shell.

  \<^bold>\<open>How the parts interact.\<close> \<open>kernel_main\<close> sets up the terminal, the descriptor tables, the heap, the file systems and
  the disk, the interrupts and paging, loads programs and enters the first task. From then on the kernel
  runs in interrupts only: the clock switches to the next task of the list, the keyboard driver pushes characters to
  the ring buffer of the current process, and system calls take their arguments from the stack of the current task.
  Every object is allocated from the kernel heap, in whole blocks of 4096 bytes.

  \<^bold>\<open>What the theorems show.\<close>

  \<^item> The heap: the table stays well formed, results are fresh, aligned and disjoint in every reachable heap,
    freeing undoes allocating, and first fit on every branch with the one branch where a short tail is handed out.
    The interfaces of the allocator are interpreted by \<open>heap_malloc\<close> and by \<open>kernel_zalloc\<close>.
  \<^item> Paging: a fresh address space is the identity, mapping a range translates exactly it, freeing gives back
    exactly what was taken.
  \<^item> Disk and files: a read delivers the bytes of the image across sectors; mounting a FAT16 volume, opening, reading
    and closing a file, up to the first \<open>fopen\<close> and \<open>fread\<close> after booting; which errors are refused and which leak. The
    contents of a file (\<open>file_content\<close>) follow the allocation table; the bytes the driver delivers (\<open>driver_content\<close>)
    follow its own look-ups, which are in the wrong place, so the two are only shown to agree in the first cluster and
    where the look-ups happen to give what the table has. Names are those that \<open>fat16_to_proper_string\<close> builds from an
    entry; for a base of eight characters they run into the extension. The interfaces are \<open>byte_stream\<close> and \<open>file_driver\<close>.
  \<^item> Loading: a program on the volume is read, its segments are laid over the identity in the order of the program
    headers, and from an empty kernel with its heap to \<open>process_load_switch\<close> the first \<open>p_filesz\<close> bytes of every segment
    of a program in one cluster read, through page tables that let the task read them, as the bytes of the file the
    program header gives them. What a segment has beyond \<open>p_filesz\<close> is not zero, as it should be (\<^verbatim>\<open>process.c:124\<close>).
  \<^item> Tasks and processes: round robin turns, the registers \<open>task_return\<close> is given, creation, memory of a
    process, the dangling pointer that \<open>task_list_remove\<close> leaves.
  \<^item> Interrupts and system calls: the gates, the dispatch of commands, a string that is copied from the address
    space of a task and shown, a key that reaches the program whose process has the focus and no other.
  \<^item> The start: \<open>kernel_setup\<close> succeeds and leaves every component initialised, none of them undone by a later one.
  \<^item> The ring buffer implements a queue (interface \<open>fifo\<close>), the path parser, the ELF program headers, the segment
    descriptors.
  \<^item> The user library: \<open>strtok\<close> takes strings apart into words, \<open>itoa\<close> writes decimal notation, a line is read as it was
    edited, and a turn of the shell hands the words of its line to the system as a linked list.

  \<^bold>\<open>Bounds.\<close> A theorem on strings, streams and files asks that they do not wrap around the end of the address space.
  Where an operation allocates, its theorem asks for as many free blocks as it takes. Allocation is
  first fit, and it is wrong when only a run of free blocks at the end of the table is long enough to start and too short to
  finish; the theorems that allocate more than one block at a time exclude that by the length of the tail.

  \<^bold>\<open>Not modelled.\<close> The assembly that boots the machine, enters the kernel, pushes interrupt frames
  and sets segment registers (\<^verbatim>\<open>boot.asm\<close>, \<^verbatim>\<open>kernel.asm\<close>, the stubs of \<^verbatim>\<open>idt.asm\<close>); \<open>task_return\<close> is a function
  on registers. The machine is sequential: interrupts arrive between operations of the kernel, which runs with
  interrupts off, and a page fault in the kernel ends the model, where the machine would run the handler of the
  exception. Objects of the kernel live in stores beside memory: a store by a program, or by the kernel on behalf of
  one, into memory where an object lies is outside the model. System call 8, which stores to an address the program chooses, has no
  result then. No theorem says that programs cannot do this: that system call and the mapping of memory behind the
  buffer of a program (\<^verbatim>\<open>process.c:124\<close>) let them. The disk has no end: a drive answers reads of any sector from its image. It only answers
  commands in LBA mode for the first drive, as the kernel gives them. The memory of a user program is one
  function of its own, and system calls answer it from fields of its state: the theorems on the user library are not
  joined to those on the handlers of the kernel.
\<close>

end
